(* ===== verification/Go_Prelude.thy ===== *)
theory Go_Prelude
  imports Main "HOL-Library.List_Lexorder" "HOL-Library.Char_ord" "HOL-Library.Sublist"
begin

text \<open>
  The part of Go's language and standard library that the modelled packages use, and the generic
  lemmas the component theories share.

  A Go string is a sequence of bytes, so it is a HOL \<^typ>\<open>string\<close>, a list of 8-bit characters.
  The library functions modelled here are \<^verbatim>\<open>strings.TrimSpace\<close>, \<^verbatim>\<open>HasPrefix\<close>,
  \<^verbatim>\<open>HasSuffix\<close>, \<^verbatim>\<open>TrimSuffix\<close>, \<^verbatim>\<open>Contains\<close>, \<^verbatim>\<open>Split\<close> (by one byte),
  \<^verbatim>\<open>Join\<close>, \<^verbatim>\<open>Trim\<close>, \<^verbatim>\<open>Index\<close>, \<^verbatim>\<open>Fields\<close>, \<^verbatim>\<open>ToLower\<close>, \<^verbatim>\<open>ToUpper\<close> and \<^verbatim>\<open>EqualFold\<close>, \<^verbatim>\<open>strconv.Itoa\<close>
  and \<^verbatim>\<open>sort.Strings\<close> (the order of byte strings is the lexicographic one of the library
  theory \<^verbatim>\<open>List_Lexorder\<close> over \<^verbatim>\<open>Char_ord\<close>).

  The collection \<^verbatim>\<open>verdict_simps\<close> holds the equations that evaluate severities and verdicts,
  \<^verbatim>\<open>run_simps\<close> those of the run's state updates and \<^verbatim>\<open>projection_simps\<close> those of the delivery
  projection.
\<close>

named_theorems verdict_simps \<open>equations that evaluate severities, outcomes and verdicts\<close>
named_theorems run_simps \<open>what each step of a run does to its state\<close>
named_theorems projection_simps \<open>what each step of a projection does to a task\<close>

section \<open>Strings\<close>

text \<open>The encodings of the code points with the property \<^verbatim>\<open>White_Space\<close>, in the order of Go's
  \<^verbatim>\<open>unicode.IsSpace\<close>: the ASCII ones, U+0085, U+00A0, U+1680, U+2000 to U+200A, U+2028, U+2029,
  U+202F, U+205F and U+3000.\<close>

definition space_runes :: "string list" where
  "space_runes =
     [[CHR 0x09], [CHR 0x0A], [CHR 0x0B], [CHR 0x0C], [CHR 0x0D], [CHR 0x20],
      [CHR 0xC2, CHR 0x85], [CHR 0xC2, CHR 0xA0], [CHR 0xE1, CHR 0x9A, CHR 0x80],
      [CHR 0xE2, CHR 0x80, CHR 0x80], [CHR 0xE2, CHR 0x80, CHR 0x81],
      [CHR 0xE2, CHR 0x80, CHR 0x82], [CHR 0xE2, CHR 0x80, CHR 0x83],
      [CHR 0xE2, CHR 0x80, CHR 0x84], [CHR 0xE2, CHR 0x80, CHR 0x85],
      [CHR 0xE2, CHR 0x80, CHR 0x86], [CHR 0xE2, CHR 0x80, CHR 0x87],
      [CHR 0xE2, CHR 0x80, CHR 0x88], [CHR 0xE2, CHR 0x80, CHR 0x89],
      [CHR 0xE2, CHR 0x80, CHR 0x8A], [CHR 0xE2, CHR 0x80, CHR 0xA8],
      [CHR 0xE2, CHR 0x80, CHR 0xA9], [CHR 0xE2, CHR 0x80, CHR 0xAF],
      [CHR 0xE2, CHR 0x81, CHR 0x9F], [CHR 0xE3, CHR 0x80, CHR 0x80]]"

text \<open>The length of the first of the runes \<open>ws\<close> that \<open>s\<close> starts with, 0 when there is none.\<close>

fun lead_len :: "string list \<Rightarrow> string \<Rightarrow> nat" where
  "lead_len [] s = 0"
| "lead_len (w # ws) s = (if w \<noteq> [] \<and> prefix w s then length w else lead_len ws s)"

lemma lead_len_le: "lead_len ws s \<le> length s"
  by (induction ws) (auto simp: prefix_length_le)

function trim_lead :: "string list \<Rightarrow> string \<Rightarrow> string" where
  "trim_lead ws s = (if lead_len ws s = 0 then s else trim_lead ws (drop (lead_len ws s) s))"
  by pat_completeness auto

termination trim_lead
proof (relation "measure (\<lambda>(ws, s). length s)")
  fix ws s
  assume "lead_len ws s \<noteq> 0"
  with lead_len_le[of ws s] show "((ws, drop (lead_len ws s) s), (ws, s)) \<in> measure (\<lambda>(ws, s). length s)"
    by simp
qed simp

declare trim_lead.simps [simp del]

lemma lead_len_Nil [simp]: "lead_len ws [] = 0"
  by (induction ws) auto

lemma trim_lead_Nil [simp]: "trim_lead ws [] = []"
  by (subst trim_lead.simps) simp

definition TrimSpace :: "string \<Rightarrow> string" where
  "TrimSpace s = rev (trim_lead (map rev space_runes) (rev (trim_lead space_runes s)))"

text \<open>The test \<^verbatim>\<open>strings.TrimSpace(s) == ""\<close>, which the code makes of nearly every field.\<close>

definition blank :: "string \<Rightarrow> bool" where
  "blank s = (TrimSpace s = [])"

lemma blank_Nil [simp]: "blank []"
  by code_simp

definition HasPrefix :: "string \<Rightarrow> string \<Rightarrow> bool" where
  "HasPrefix s p = prefix p s"

definition HasSuffix :: "string \<Rightarrow> string \<Rightarrow> bool" where
  "HasSuffix s p = prefix (rev p) (rev s)"

definition TrimSuffix :: "string \<Rightarrow> string \<Rightarrow> string" where
  "TrimSuffix s p = (if HasSuffix s p then take (length s - length p) s else s)"

definition TrimPrefix :: "string \<Rightarrow> string \<Rightarrow> string" where
  "TrimPrefix s p = (if HasPrefix s p then drop (length p) s else s)"

fun Contains :: "string \<Rightarrow> string \<Rightarrow> bool" where
  "Contains [] p = (p = [])"
| "Contains (c # cs) p = (prefix p (c # cs) \<or> Contains cs p)"

fun Split :: "char \<Rightarrow> string \<Rightarrow> string list" where
  "Split d [] = [[]]"
| "Split d (c # cs) =
     (if c = d then [] # Split d cs
      else (case Split d cs of [] \<Rightarrow> [[c]] | w # ws \<Rightarrow> (c # w) # ws))"

fun Join :: "string list \<Rightarrow> string \<Rightarrow> string" where
  "Join [] sep = []"
| "Join [w] sep = w"
| "Join (w # v # ws) sep = w @ sep @ Join (v # ws) sep"

definition lower_byte :: "char \<Rightarrow> char" where
  "lower_byte c =
     (let n = of_char c :: nat in if 65 \<le> n \<and> n \<le> 90 then char_of (n + 32) else c)"

definition upper_byte :: "char \<Rightarrow> char" where
  "upper_byte c =
     (let n = of_char c :: nat in if 97 \<le> n \<and> n \<le> 122 then char_of (n - 32) else c)"

text \<open>The case mappings on the ASCII letters and on the four other characters that map to one: U+212A
  and U+0130 in lower case, U+017F and U+0131 in upper case. The other characters stay as they are, so
  they differ from every ASCII text before and after, as they do in Go.\<close>

fun ToLower :: "string \<Rightarrow> string" where
  "ToLower [] = []"
| "ToLower (c # cs) =
     (if prefix [CHR 0xE2, CHR 0x84, CHR 0xAA] (c # cs) then CHR ''k'' # ToLower (drop 2 cs)
      else if prefix [CHR 0xC4, CHR 0xB0] (c # cs) then CHR ''i'' # ToLower (drop 1 cs)
      else lower_byte c # ToLower cs)"

fun ToUpper :: "string \<Rightarrow> string" where
  "ToUpper [] = []"
| "ToUpper (c # cs) =
     (if prefix [CHR 0xC5, CHR 0xBF] (c # cs) then CHR ''S'' # ToUpper (drop 1 cs)
      else if prefix [CHR 0xC4, CHR 0xB1] (c # cs) then CHR ''I'' # ToUpper (drop 1 cs)
      else upper_byte c # ToUpper cs)"

text \<open>\<^verbatim>\<open>strings.EqualFold\<close>, exact on texts of ASCII letters.\<close>

definition EqualFold :: "string \<Rightarrow> string \<Rightarrow> bool" where
  "EqualFold a b = (ToLower (ToUpper a) = ToLower (ToUpper b))"

text \<open>\<^verbatim>\<open>strings.Trim\<close> of one byte, and \<^verbatim>\<open>strings.Index\<close> of a text and, as what follows it, of one byte.\<close>

definition Trim_byte :: "char \<Rightarrow> string \<Rightarrow> string" where
  "Trim_byte c s = rev (dropWhile (\<lambda>x. x = c) (rev (dropWhile (\<lambda>x. x = c) s)))"

fun strings_Index :: "string \<Rightarrow> string \<Rightarrow> nat option" where
  "strings_Index [] p = (if p = [] then Some 0 else None)"
| "strings_Index (c # cs) p = (if prefix p (c # cs) then Some 0 else map_option Suc (strings_Index cs p))"

fun after_first :: "char \<Rightarrow> string \<Rightarrow> string option" where
  "after_first d [] = None"
| "after_first d (c # cs) = (if c = d then Some cs else after_first d cs)"

text \<open>\<^verbatim>\<open>strings.Fields\<close>: the maximal pieces without white space, \<open>cur\<close> being the piece read so far, backwards.\<close>

function fields_from :: "string \<Rightarrow> string \<Rightarrow> string list" where
  "fields_from cur s =
     (case s of
        [] \<Rightarrow> if cur = [] then [] else [rev cur]
      | c # cs \<Rightarrow>
          if lead_len space_runes s = 0 then fields_from (c # cur) cs
          else (if cur = [] then [] else [rev cur]) @ fields_from [] (drop (lead_len space_runes s) s))"
  by pat_completeness auto

termination fields_from
  by (relation "measure (\<lambda>(cur, s). length s)") auto

declare fields_from.simps [simp del]

definition Fields :: "string \<Rightarrow> string list" where
  "Fields s = fields_from [] s"

definition ReplaceByte :: "char \<Rightarrow> char \<Rightarrow> string \<Rightarrow> string" where
  "ReplaceByte a b s = map (\<lambda>c. if c = a then b else c) s"

definition newline :: string where
  "newline = [CHR 0x0A]"

text \<open>The lines of \<^verbatim>\<open>bufio.ScanLines\<close>: no empty line after the last newline, and no carriage
  return at the end of a line.\<close>

definition drop_cr :: "string \<Rightarrow> string" where
  "drop_cr l = (if l \<noteq> [] \<and> last l = CHR 0x0D then butlast l else l)"

definition raw_lines :: "string \<Rightarrow> string list" where
  "raw_lines s =
     (let ls = Split (CHR 0x0A) s in if last ls = [] then butlast ls else ls)"

section \<open>Decimal numbers\<close>

definition is_digit :: "char \<Rightarrow> bool" where
  "is_digit c = (let n = of_char c :: nat in 48 \<le> n \<and> n \<le> 57)"

definition digit_char :: "nat \<Rightarrow> char" where
  "digit_char n = char_of (48 + n)"

fun nat_dec :: "nat \<Rightarrow> string" where
  "nat_dec n = (if n < 10 then [digit_char n] else nat_dec (n div 10) @ [digit_char (n mod 10)])"

declare nat_dec.simps [simp del]

definition Itoa :: "int \<Rightarrow> string" where
  "Itoa i = (if i < 0 then ''-'' @ nat_dec (nat (- i)) else nat_dec (nat i))"

definition dec_val :: "string \<Rightarrow> nat" where
  "dec_val s = foldl (\<lambda>a c. 10 * a + (of_char c - 48)) 0 s"

text \<open>\<^verbatim>\<open>strconv.Atoi\<close> on a string of digits: an error outside the range of a 64-bit
  \<^verbatim>\<open>int\<close>.\<close>

definition max_int :: int where
  "max_int = 2 ^ 63 - 1"

definition atoi_digits :: "string \<Rightarrow> int option" where
  "atoi_digits s =
     (if s \<noteq> [] \<and> list_all is_digit s \<and> int (dec_val s) \<le> max_int then Some (int (dec_val s)) else None)"

lemma of_char_digit_char [simp]: "n < 10 \<Longrightarrow> of_char (digit_char n) = 48 + n"
  by (simp add: digit_char_def of_char_of)

lemma is_digit_digit_char [simp]: "n < 10 \<Longrightarrow> is_digit (digit_char n)"
  by (simp add: is_digit_def)

lemma nat_dec_digits: "list_all is_digit (nat_dec n)"
proof (induction n rule: nat_dec.induct)
  case (1 n)
  then show ?case by (subst nat_dec.simps) simp
qed

lemma nat_dec_nonempty [simp]: "nat_dec n \<noteq> []"
  by (subst nat_dec.simps) simp

lemma dec_val_append_digit: "dec_val (s @ [c]) = 10 * dec_val s + (of_char c - 48)"
  by (simp add: dec_val_def)

lemma dec_val_nat_dec [simp]: "dec_val (nat_dec n) = n"
proof (induction n rule: nat_dec.induct)
  case (1 n)
  show ?case
  proof (cases "n < 10")
    case True
    then show ?thesis by (subst nat_dec.simps) (simp add: dec_val_def)
  next
    case False
    with 1 have "dec_val (nat_dec (n div 10)) = n div 10" by simp
    with False show ?thesis by (subst nat_dec.simps) (simp add: dec_val_append_digit)
  qed
qed

lemma nat_dec_inject [simp]: "nat_dec m = nat_dec n \<longleftrightarrow> m = n"
  by (metis dec_val_nat_dec)

lemma is_digit_not_dot: "is_digit c \<Longrightarrow> c \<noteq> CHR ''.''"
  by (auto simp: is_digit_def)

section \<open>Lists and maps\<close>

lemma Split_not_nil [simp]: "Split d s \<noteq> []"
  by (induction s) (auto split: list.splits)

lemma Split_join: "Join (Split d s) [d] = s"
proof (induction s)
  case (Cons c cs)
  then show ?case by (cases "Split d cs"; cases "tl (Split d cs)") auto
qed simp

lemma Contains_sublist: "Contains s p \<longleftrightarrow> sublist p s"
  by (induction s) (auto simp: sublist_Cons_right)

lemma HasSuffix_suffix: "HasSuffix s p \<longleftrightarrow> suffix p s"
  by (simp add: HasSuffix_def suffix_to_prefix)

text \<open>The position of the first element that satisfies a predicate, as a search loop with
  \<^verbatim>\<open>break\<close> finds it.\<close>

fun find_index :: "('a \<Rightarrow> bool) \<Rightarrow> 'a list \<Rightarrow> nat option" where
  "find_index P [] = None"
| "find_index P (x # xs) = (if P x then Some 0 else map_option Suc (find_index P xs))"

lemma find_index_None [simp]: "find_index P xs = None \<longleftrightarrow> (\<forall>x\<in>set xs. \<not> P x)"
  by (induction xs) auto

lemma find_index_SomeD:
  assumes "find_index P xs = Some i"
  shows "i < length xs" "P (xs ! i)" "\<forall>j<i. \<not> P (xs ! j)"
proof -
  have "i < length xs \<and> P (xs ! i) \<and> (\<forall>j<i. \<not> P (xs ! j))"
    using assms
  proof (induction xs arbitrary: i)
    case (Cons x xs)
    show ?case
    proof (cases "P x")
      case False
      with Cons.prems obtain k where k: "find_index P xs = Some k" "i = Suc k" by auto
      with Cons.IH[OF k(1)] False show ?thesis by (auto simp: nth_Cons split: nat.splits)
    qed (use Cons.prems in auto)
  qed simp
  then show "i < length xs" "P (xs ! i)" "\<forall>j<i. \<not> P (xs ! j)" by auto
qed

lemma find_index_Some_ex: "(\<exists>i. find_index P xs = Some i) \<longleftrightarrow> (\<exists>x\<in>set xs. P x)"
  using find_index_None[of P xs] by (cases "find_index P xs") auto

text \<open>The first error of a sequence of checks: how a function with several early error returns
  reports.\<close>

fun first_error :: "('e option) list \<Rightarrow> 'e option" where
  "first_error [] = None"
| "first_error (None # cs) = first_error cs"
| "first_error (Some e # cs) = Some e"

lemma first_error_None [simp]: "first_error cs = None \<longleftrightarrow> (\<forall>c\<in>set cs. c = None)"
  by (induction cs rule: first_error.induct) auto

definition require :: "bool \<Rightarrow> 'e \<Rightarrow> 'e option" where
  "require ok e = (if ok then None else Some e)"

lemma require_None [simp]: "require ok e = None \<longleftrightarrow> ok"
  by (simp add: require_def)

text \<open>The problems a validator collects: a message for each condition that fails.\<close>

definition problem_if :: "bool \<Rightarrow> 'p \<Rightarrow> 'p list" where
  "problem_if bad p = (if bad then [p] else [])"

lemma problem_if_Nil [simp]: "problem_if bad p = [] \<longleftrightarrow> \<not> bad"
  by (simp add: problem_if_def)

lemma map_filter_Nil: "List.map_filter f xs = [] \<longleftrightarrow> (\<forall>x\<in>set xs. f x = None)"
  by (induction xs) (auto simp: List.map_filter_def split: option.splits)

lemma concat_map_Nil: "concat (map f xs) = [] \<longleftrightarrow> (\<forall>x\<in>set xs. f x = [])"
  by (induction xs) auto

lemma set_problem_if [simp]: "set (problem_if bad p) = (if bad then {p} else {})"
  by (simp add: problem_if_def)

text \<open>A validator's loop over the elements of a slice with their indices.\<close>

fun each_from :: "nat \<Rightarrow> (nat \<Rightarrow> 'a \<Rightarrow> 'p list) \<Rightarrow> 'a list \<Rightarrow> 'p list" where
  "each_from i f [] = []"
| "each_from i f (x # xs) = f i x @ each_from (Suc i) f xs"

lemma each_from_Nil: "(\<And>i x. f i x = [] \<longleftrightarrow> P x) \<Longrightarrow> each_from i f xs = [] \<longleftrightarrow> (\<forall>x\<in>set xs. P x)"
  by (induction xs arbitrary: i) auto

text \<open>\<^verbatim>\<open>strings.LastIndex\<close> of one byte, as the text before and after it.\<close>

fun split_last :: "char \<Rightarrow> string \<Rightarrow> (string \<times> string) option" where
  "split_last d [] = None"
| "split_last d (c # cs) =
     (case split_last d cs of
        Some (a, b) \<Rightarrow> Some (c # a, b)
      | None \<Rightarrow> if c = d then Some ([], cs) else None)"

lemma split_last_None: "split_last d s = None \<longleftrightarrow> d \<notin> set s"
  by (induction s) (auto split: option.splits)

lemma split_last_append: "d \<notin> set b \<Longrightarrow> split_last d (a @ d # b) = Some (a, b)"
  using split_last_None [of d b] by (induction a) auto

text \<open>\<^verbatim>\<open>strings.Replace\<close> of the first occurrence of one byte.\<close>

fun replace_first :: "char \<Rightarrow> char \<Rightarrow> string \<Rightarrow> string" where
  "replace_first a b [] = []"
| "replace_first a b (c # cs) = (if c = a then b # cs else c # replace_first a b cs)"

lemma replace_first_absent: "a \<notin> set s \<Longrightarrow> replace_first a b s = s"
  by (induction s) auto

lemma replace_first_append: "a \<notin> set s \<Longrightarrow> replace_first a b (s @ a # t) = s @ b # t"
  by (induction s) auto

end
