(* ===== verification/Verdict.thy ===== *)
theory Verdict
  imports Go_Prelude
begin

text \<open>
  Readiness verdicts (\<^verbatim>\<open>internal/unattended/verdict.go\<close>), the checks they are computed from
  (\<^verbatim>\<open>check.go\<close>) and tool versions (\<^verbatim>\<open>version.go\<close>).

  Go's \<^verbatim>\<open>Outcome\<close> is a string type with four constants and code that handles any other value, so
  the datatype has the constructor \<open>OutcomeOther\<close> for those. The locale \<open>severity_fold\<close> is the
  contract of an aggregation by severity: a loop that keeps the first value of the greatest severity
  seen. Its extension \<open>severity_fold_from\<close>, for a loop that starts from a value of no severity, is
  interpreted here for check outcomes.
\<close>

section \<open>Aggregation by severity\<close>

text \<open>The loop of an aggregation: replace the value held by a strictly more severe one.\<close>

fun worst_fold :: "('a \<Rightarrow> nat) \<Rightarrow> ('a \<Rightarrow> 'a) \<Rightarrow> 'a \<Rightarrow> 'a list \<Rightarrow> 'a" where
  "worst_fold sev norm w [] = w"
| "worst_fold sev norm w (x # xs) =
     worst_fold sev norm (if sev x > sev w then norm x else w) xs"

locale severity_fold =
  fixes sev :: "'a \<Rightarrow> nat" and norm :: "'a \<Rightarrow> 'a"
  assumes sev_norm: "sev (norm x) = sev x"
begin

lemma sev_fold: "sev (worst_fold sev norm w xs) = Max (insert (sev w) (sev ` set xs))"
proof (induction xs arbitrary: w)
  case (Cons x xs)
  have "sev (worst_fold sev norm w (x # xs)) =
      Max (insert (sev (if sev x > sev w then norm x else w)) (sev ` set xs))"
    using Cons.IH by simp
  also have "\<dots> = Max (insert (max (sev w) (sev x)) (sev ` set xs))"
    by (simp add: sev_norm max_def)
  also have "\<dots> = Max (insert (sev w) (sev ` set (x # xs)))"
    by (cases "xs = []") (simp_all add: max.assoc max.left_commute)
  finally show ?case .
qed simp

lemma sev_fold_upper: "x \<in> set xs \<Longrightarrow> sev x \<le> sev (worst_fold sev norm w xs)"
  by (simp add: sev_fold)

lemma fold_in_range:
  "worst_fold sev norm w xs = w \<or> (\<exists>x\<in>set xs. worst_fold sev norm w xs = norm x)"
proof (induction xs arbitrary: w)
  case (Cons x xs)
  then show ?case by (cases "sev x > sev w") force+
qed simp

lemma sev_fold_perm:
  "set xs = set ys \<Longrightarrow> sev (worst_fold sev norm w xs) = sev (worst_fold sev norm w ys)"
  by (simp add: sev_fold)

lemma sev_fold_append_mono: "sev (worst_fold sev norm w xs) \<le> sev (worst_fold sev norm w (xs @ ys))"
  by (simp add: sev_fold)

end

text \<open>An aggregation that starts from a value of no severity.\<close>

locale severity_fold_from = severity_fold +
  fixes best
  assumes sev_best: "sev best = 0"
begin

lemma sev_fold_best: "xs \<noteq> [] \<Longrightarrow> sev (worst_fold sev norm best xs) = Max (sev ` set xs)"
  by (subst sev_fold) (simp add: sev_best)

lemma fold_least: "sev (worst_fold sev norm best xs) = 0 \<longleftrightarrow> (\<forall>x\<in>set xs. sev x = 0)"
  by (subst sev_fold) (auto simp: sev_best Max_eq_iff)

end

section \<open>Outcomes and readiness\<close>

datatype Outcome =
    OutcomePass
  | OutcomeHumanBoundary
  | OutcomeNotReached
  | OutcomeFail
  | OutcomeOther string

fun severity :: "Outcome \<Rightarrow> nat" where
  "severity OutcomePass = 0"
| "severity OutcomeHumanBoundary = 1"
| "severity OutcomeNotReached = 2"
| "severity OutcomeFail = 3"
| "severity (OutcomeOther s) = 2"

fun normalizeOutcome :: "Outcome \<Rightarrow> Outcome" where
  "normalizeOutcome (OutcomeOther s) = OutcomeNotReached"
| "normalizeOutcome o' = o'"

definition WorstOutcome :: "Outcome list \<Rightarrow> Outcome" where
  "WorstOutcome outcomes =
     (if outcomes = [] then OutcomeNotReached
      else worst_fold severity normalizeOutcome OutcomePass outcomes)"

datatype Readiness = Ready | ReadyWithKnownHumanBoundary | NotReady

definition ReadinessOf :: "Outcome list \<Rightarrow> Readiness" where
  "ReadinessOf outcomes =
     (case WorstOutcome outcomes of
        OutcomePass \<Rightarrow> Ready
      | OutcomeHumanBoundary \<Rightarrow> ReadyWithKnownHumanBoundary
      | _ \<Rightarrow> NotReady)"

fun PermitsUnattendedRun :: "Readiness \<Rightarrow> bool" where
  "PermitsUnattendedRun Ready = True"
| "PermitsUnattendedRun ReadyWithKnownHumanBoundary = True"
| "PermitsUnattendedRun NotReady = False"

section \<open>Checks\<close>

datatype Category =
    CategoryConcurrency | CategoryOwnership | CategoryRepository | CategoryGitHub | CategoryTools
  | CategoryEnvironment | CategoryCredentials | CategoryProject | CategoryDependencies

record Check =
  c_id :: string
  c_category :: Category
  c_title :: string
  c_outcome :: Outcome
  c_expected :: string
  c_observed :: string
  c_detail :: string
  c_remedy :: string
  c_boundary :: string

definition pass_check :: "string \<Rightarrow> Category \<Rightarrow> string \<Rightarrow> string \<Rightarrow> Check" where
  "pass_check i c title observed =
     \<lparr>c_id = i, c_category = c, c_title = title, c_outcome = OutcomePass, c_expected = [],
      c_observed = observed, c_detail = [], c_remedy = [], c_boundary = []\<rparr>"

definition fail_check :: "string \<Rightarrow> Category \<Rightarrow> string \<Rightarrow> string \<Rightarrow> string \<Rightarrow> string \<Rightarrow> Check" where
  "fail_check i c title expected observed remedy =
     \<lparr>c_id = i, c_category = c, c_title = title, c_outcome = OutcomeFail, c_expected = expected,
      c_observed = observed, c_detail = [], c_remedy = remedy, c_boundary = []\<rparr>"

definition notReached_check :: "string \<Rightarrow> Category \<Rightarrow> string \<Rightarrow> string \<Rightarrow> Check" where
  "notReached_check i c title why =
     \<lparr>c_id = i, c_category = c, c_title = title, c_outcome = OutcomeNotReached, c_expected = [],
      c_observed = [], c_detail = why, c_remedy = [], c_boundary = []\<rparr>"

record KnownBoundary =
  kb_id :: string
  kb_title :: string
  kb_detail :: string
  kb_action :: string

definition DeclaredBoundaryChecks :: "KnownBoundary list \<Rightarrow> Check list" where
  "DeclaredBoundaryChecks boundaries =
     map (\<lambda>b. \<lparr>c_id = kb_id b, c_category = CategoryProject,
                c_title = (if blank (kb_title b) then kb_id b else kb_title b),
                c_outcome = OutcomeHumanBoundary, c_expected = ''a person's answer'',
                c_observed = ''not answered'', c_detail = kb_detail b, c_remedy = [],
                c_boundary = kb_action b\<rparr>) boundaries"

definition Outcomes :: "Check list \<Rightarrow> Outcome list" where
  "Outcomes cs = map c_outcome cs"

definition Checks_Readiness :: "Check list \<Rightarrow> Readiness" where
  "Checks_Readiness cs = ReadinessOf (Outcomes cs)"

definition Failures :: "Check list \<Rightarrow> Check list" where
  "Failures cs = filter (\<lambda>c. c_outcome c = OutcomeFail \<or> c_outcome c = OutcomeNotReached) cs"

definition Boundaries :: "Check list \<Rightarrow> Check list" where
  "Boundaries cs = filter (\<lambda>c. c_outcome c = OutcomeHumanBoundary) cs"

section \<open>Versions\<close>

text \<open>The pattern \<^verbatim>\<open>\d+(?:\.\d+)*\<close> at its leftmost match, matched greedily: a run of digits, and
  as long as a dot with a digit after it follows, the dot and the run after it. The match is
  returned as its list of runs, which is what \<^verbatim>\<open>strings.Split\<close> makes of it.\<close>

function version_runs :: "string \<Rightarrow> string list" where
  "version_runs s =
     (case dropWhile is_digit s of
        d # e # rest \<Rightarrow>
          if d = CHR ''.'' \<and> is_digit e then takeWhile is_digit s # version_runs (e # rest)
          else [takeWhile is_digit s]
      | _ \<Rightarrow> [takeWhile is_digit s])"
  by pat_completeness auto

termination version_runs
proof (relation "measure length")
  fix s d ds e rest
  assume eq: "dropWhile is_digit s = d # ds" "ds = e # rest"
  have "length (dropWhile is_digit s) \<le> length s" by (rule length_dropWhile_le)
  with eq show "(e # rest, s) \<in> measure length" by simp
qed simp

declare version_runs.simps [simp del]

fun Atoi_all :: "string list \<Rightarrow> int list option" where
  "Atoi_all [] = Some []"
| "Atoi_all (p # ps) =
     (case atoi_digits p of None \<Rightarrow> None | Some n \<Rightarrow> map_option (\<lambda>ns. n # ns) (Atoi_all ps))"

definition ParseVersion :: "string \<Rightarrow> int list option" where
  "ParseVersion s =
     (case dropWhile (\<lambda>c. \<not> is_digit c) s of [] \<Rightarrow> None | r \<Rightarrow> Atoi_all (version_runs r))"

text \<open>The loop over the longer of the two, an absent component read as zero.\<close>

fun compareVersions :: "int list \<Rightarrow> int list \<Rightarrow> int" where
  "compareVersions [] [] = 0"
| "compareVersions (x # a) [] = (if x < 0 then -1 else if x > 0 then 1 else compareVersions a [])"
| "compareVersions [] (y # b) = (if 0 < y then -1 else if 0 > y then 1 else compareVersions [] b)"
| "compareVersions (x # a) (y # b) =
     (if x < y then -1 else if x > y then 1 else compareVersions a b)"

datatype version_error = NoVersionFound string | RequiredNotAVersion string

definition VersionAtLeast :: "string \<Rightarrow> string \<Rightarrow> version_error + bool" where
  "VersionAtLeast have' want =
     (case ParseVersion have' of
        None \<Rightarrow> Inl (NoVersionFound (TrimSpace have'))
      | Some h \<Rightarrow>
          (case ParseVersion want of
             None \<Rightarrow> Inl (RequiredNotAVersion want)
           | Some w \<Rightarrow> Inr (compareVersions h w \<ge> 0)))"

definition FormatVersion :: "int list \<Rightarrow> string" where
  "FormatVersion v = Join (map Itoa v) ''.''"

section \<open>Lemmas on outcomes\<close>

interpretation outcome: severity_fold_from severity normalizeOutcome OutcomePass
proof unfold_locales
  show "severity OutcomePass = 0" by simp
  show "severity (normalizeOutcome x) = severity x" for x by (cases x) simp_all
qed

lemma normalizeOutcome_canonical: "normalizeOutcome x \<noteq> OutcomeOther s"
  by (cases x) simp_all

lemma WorstOutcome_canonical: "WorstOutcome os \<noteq> OutcomeOther s"
  using outcome.fold_in_range[of OutcomePass os] normalizeOutcome_canonical
  by (auto simp: WorstOutcome_def)

lemma ReadinessOf_severity:
  "ReadinessOf os =
     (if severity (WorstOutcome os) = 0 then Ready
      else if severity (WorstOutcome os) = 1 then ReadyWithKnownHumanBoundary else NotReady)"
  using WorstOutcome_canonical[of os] by (cases "WorstOutcome os") (auto simp: ReadinessOf_def)

lemma severity_eq_simps [verdict_simps]:
  "severity x = 0 \<longleftrightarrow> x = OutcomePass"
  "severity x = Suc 0 \<longleftrightarrow> x = OutcomeHumanBoundary"
  by (cases x; simp)+

lemma severity_le_1: "severity x \<le> 1 \<longleftrightarrow> x = OutcomePass \<or> x = OutcomeHumanBoundary"
  by (cases x) simp_all

lemma WorstOutcome_le_1:
  "severity (WorstOutcome os) \<le> 1 \<longleftrightarrow> os \<noteq> [] \<and> (\<forall>x\<in>set os. severity x \<le> 1)"
  by (cases "os = []") (auto simp: WorstOutcome_def outcome.sev_fold_best)

text \<open>A verdict permits a run exactly when the set of checks is not empty and each of them passed or
  named a human boundary; it is \<open>Ready\<close> exactly when each of them passed.\<close>

lemma PermitsUnattendedRun_iff:
  "PermitsUnattendedRun (ReadinessOf os) \<longleftrightarrow>
     os \<noteq> [] \<and> (\<forall>x\<in>set os. x = OutcomePass \<or> x = OutcomeHumanBoundary)"
  using WorstOutcome_le_1[of os] unfolding severity_le_1[symmetric]
  by (auto simp: ReadinessOf_severity)

lemma Ready_iff: "ReadinessOf os = Ready \<longleftrightarrow> os \<noteq> [] \<and> (\<forall>x\<in>set os. x = OutcomePass)"
proof (cases "os = []")
  case False
  then have "ReadinessOf os = Ready \<longleftrightarrow> severity (WorstOutcome os) = 0"
    by (simp add: ReadinessOf_severity)
  also have "\<dots> \<longleftrightarrow> (\<forall>x\<in>set os. severity x = 0)"
    using False by (simp add: WorstOutcome_def outcome.fold_least)
  finally show ?thesis using False by (simp add: verdict_simps)
qed (simp add: ReadinessOf_def WorstOutcome_def)

lemma DeclaredBoundaryChecks_outcomes:
  "set (Outcomes (DeclaredBoundaryChecks bs)) \<subseteq> {OutcomeHumanBoundary}"
  by (auto simp: Outcomes_def DeclaredBoundaryChecks_def)

lemma Failures_empty_iff:
  "Failures cs = [] \<longleftrightarrow> (\<forall>c\<in>set cs. c_outcome c \<noteq> OutcomeFail \<and> c_outcome c \<noteq> OutcomeNotReached)"
  by (auto simp: Failures_def filter_empty_conv)

section \<open>Lemmas on versions\<close>

lemma compareVersions_range: "compareVersions a b \<in> {-1, 0, 1}"
  by (induction a b rule: compareVersions.induct) auto

lemma compareVersions_refl [simp]: "compareVersions a a = 0"
  by (induction a) auto

lemma compareVersions_antisym: "compareVersions b a = - compareVersions a b"
  by (induction a b rule: compareVersions.induct) auto

lemma compareVersions_trans:
  "compareVersions a b \<ge> 0 \<Longrightarrow> compareVersions b c \<ge> 0 \<Longrightarrow> compareVersions a c \<ge> 0"
proof (induction a c arbitrary: b rule: compareVersions.induct)
  case 1
  then show ?case by simp
next
  case (2 x a)
  then show ?case by (cases b) (auto split: if_splits)
next
  case (3 y c)
  then show ?case by (cases b) (auto split: if_splits)
next
  case (4 x a y c)
  then show ?case by (cases b) (auto split: if_splits)
qed

lemma compareVersions_trailing_zeros: "compareVersions (a @ replicate n 0) a = 0"
  by (induction a) (induction n; auto)+

lemma takeWhile_digits_append:
  "list_all is_digit w \<Longrightarrow> (case r of [] \<Rightarrow> True | c # _ \<Rightarrow> \<not> is_digit c) \<Longrightarrow>
   takeWhile is_digit (w @ r) = w \<and> dropWhile is_digit (w @ r) = r"
  by (induction w) (auto split: list.splits)

lemma digits_only:
  "list_all is_digit w \<Longrightarrow> dropWhile is_digit w = []"
  "list_all is_digit w \<Longrightarrow> takeWhile is_digit w = w"
  by (simp_all add: list_all_iff)

lemma version_runs_Join:
  "ws \<noteq> [] \<Longrightarrow> \<forall>w\<in>set ws. w \<noteq> [] \<and> list_all is_digit w \<Longrightarrow> version_runs (Join ws ''.'') = ws"
proof (induction ws "''.''" rule: Join.induct)
  case (2 w)
  then have "version_runs w = [w]"
    by (subst version_runs.simps) (simp add: digits_only)
  then show ?case by simp
next
  case (3 w v ws)
  define r where "r = Join (v # ws) ''.''"
  have IH: "version_runs r = v # ws" using 3 by (simp add: r_def)
  have "\<exists>c cs. v = c # cs \<and> is_digit c" using 3(3) by (cases v) auto
  then obtain c cs where c: "r = c # cs" "is_digit c"
    by (cases ws) (auto simp: r_def)
  have w: "takeWhile is_digit (w @ CHR ''.'' # r) = w"
    "dropWhile is_digit (w @ CHR ''.'' # r) = CHR ''.'' # r"
    using takeWhile_digits_append[of w "CHR ''.'' # r"] 3(3) by (auto simp: is_digit_def)
  have "version_runs (w @ CHR ''.'' # r) = w # version_runs r"
    by (subst version_runs.simps) (simp only: w, simp add: c)
  then show ?case using IH by (simp add: r_def)
qed simp

lemma Atoi_all_Itoa:
  "\<forall>n\<in>set v. 0 \<le> n \<and> n \<le> max_int \<Longrightarrow> Atoi_all (map Itoa v) = Some v"
  by (induction v) (auto simp: atoi_digits_def Itoa_def nat_dec_digits)

lemma Itoa_nonneg_digits: "0 \<le> n \<Longrightarrow> Itoa n \<noteq> [] \<and> list_all is_digit (Itoa n)"
  by (simp add: Itoa_def nat_dec_digits)

lemma FormatVersion_starts_digit:
  assumes "v \<noteq> []" and "\<forall>n\<in>set v. 0 \<le> n"
  shows "\<exists>c cs. FormatVersion v = c # cs \<and> is_digit c"
proof -
  obtain n ns where v: "v = n # ns" using assms(1) by (cases v) auto
  then obtain c cs where "Itoa n = c # cs" "is_digit c"
    using Itoa_nonneg_digits[of n] assms(2) by (cases "Itoa n") auto
  then show ?thesis by (cases ns) (auto simp: v FormatVersion_def)
qed

section \<open>Properties\<close>

text \<open>A preflight permits an unattended run exactly when it ran at least one check and every check
  passed or named a human boundary, and its verdict is \<open>Ready\<close> exactly when it ran at least one check
  and every check passed. No checks, an unrun check and an outcome outside the vocabulary all refuse the
  run.\<close>

theorem preflight_verdict_exact:
  "(PermitsUnattendedRun (Checks_Readiness cs) \<longleftrightarrow>
      cs \<noteq> [] \<and> (\<forall>c\<in>set cs. c_outcome c = OutcomePass \<or> c_outcome c = OutcomeHumanBoundary))
   \<and> (Checks_Readiness cs = Ready \<longleftrightarrow> cs \<noteq> [] \<and> (\<forall>c\<in>set cs. c_outcome c = OutcomePass))"
  by (auto simp: Checks_Readiness_def Outcomes_def PermitsUnattendedRun_iff Ready_iff)

theorem preflight_verdict_exact_witness:
  "let a = pass_check ''git'' CategoryTools ''git is installed'' ''2.43.0'';
       b = notReached_check ''gh'' CategoryGitHub ''gh can merge'' ''no token''
   in PermitsUnattendedRun (Checks_Readiness [a])
      \<and> \<not> PermitsUnattendedRun (Checks_Readiness [a, b])"
  using preflight_verdict_exact[of "[pass_check ''git'' CategoryTools ''git is installed'' ''2.43.0'']"]
    preflight_verdict_exact[of "[pass_check ''git'' CategoryTools ''git is installed'' ''2.43.0'',
      notReached_check ''gh'' CategoryGitHub ''gh can merge'' ''no token'']"]
  by (simp add: Let_def pass_check_def notReached_check_def)

text \<open>Formatting a version and parsing it back gives the version, for every non-empty list of
  components that are machine integers; and a tool that reports that version satisfies a requirement of
  it, however many zero components are appended to the requirement.\<close>

theorem version_roundtrip:
  assumes "v \<noteq> []" and "\<forall>n\<in>set v. 0 \<le> n \<and> n \<le> max_int"
  shows "ParseVersion (FormatVersion v) = Some v \<and>
    VersionAtLeast (FormatVersion v) (FormatVersion (v @ replicate k 0)) = Inr True"
proof -
  have parse: "ParseVersion (FormatVersion w) = Some w"
    if w: "w \<noteq> []" "\<forall>n\<in>set w. 0 \<le> n \<and> n \<le> max_int" for w
  proof -
    obtain c cs where f: "FormatVersion w = c # cs" "is_digit c"
      using FormatVersion_starts_digit[of w] w by auto
    have "version_runs (FormatVersion w) = map Itoa w"
      unfolding FormatVersion_def using w Itoa_nonneg_digits by (intro version_runs_Join) auto
    then show ?thesis using f Atoi_all_Itoa[of w] w by (simp add: ParseVersion_def)
  qed
  have "0 \<le> max_int" by (simp add: max_int_def)
  then have "ParseVersion (FormatVersion (v @ replicate k 0)) = Some (v @ replicate k 0)"
    using assms by (intro parse) auto
  moreover have "compareVersions v (v @ replicate k 0) = 0"
    using compareVersions_antisym[of "v" "v @ replicate k 0"] compareVersions_trailing_zeros[of v k] by simp
  ultimately show ?thesis
    using parse[of v] assms by (simp add: VersionAtLeast_def)
qed

theorem version_roundtrip_witness:
  "ParseVersion (FormatVersion [2, 43]) = Some [2, 43] \<and>
   VersionAtLeast (FormatVersion [2, 43]) (FormatVersion ([2, 43] @ replicate 1 0)) = Inr True"
  using version_roundtrip[of "[2, 43]" 1] by (simp add: max_int_def)

end
