(* ===== verification/QA.thy ===== *)
theory QA
  imports Verdict
begin

text \<open>
  The mechanical QA contract (\<^verbatim>\<open>internal/unattended/qa.go\<close>): risk classes, the gate catalogue, the
  mandatory gates a risk and a policy resolve to, evidence bound to a revision, and the progression
  decision. \<^verbatim>\<open>ValidateQAPacket\<close> is in the theory \<^verbatim>\<open>Work_Plan\<close>, which has the plan it reads.

  The time a gate ran (\<^verbatim>\<open>ObservedAt\<close>) is left out: no decision reads it.
\<close>

section \<open>Risk and gates\<close>

datatype RiskClass = RiskQ0 | RiskQ1 | RiskQ2 | RiskQ3 | RiskOther string

fun RiskClass_Valid :: "RiskClass \<Rightarrow> bool" where
  "RiskClass_Valid (RiskOther s) = False"
| "RiskClass_Valid r = True"

fun RiskClass_Rank :: "RiskClass \<Rightarrow> nat" where
  "RiskClass_Rank RiskQ0 = 0"
| "RiskClass_Rank RiskQ1 = 1"
| "RiskClass_Rank RiskQ2 = 2"
| "RiskClass_Rank RiskQ3 = 3"
| "RiskClass_Rank (RiskOther s) = 4"

fun RiskClass_text :: "RiskClass \<Rightarrow> string" where
  "RiskClass_text RiskQ0 = ''Q0''"
| "RiskClass_text RiskQ1 = ''Q1''"
| "RiskClass_text RiskQ2 = ''Q2''"
| "RiskClass_text RiskQ3 = ''Q3''"
| "RiskClass_text (RiskOther s) = s"

definition GateBuild :: string where "GateBuild = ''build''"
definition GateUnitTest :: string where "GateUnitTest = ''unit-test''"
definition GateStaticAnalysis :: string where "GateStaticAnalysis = ''static-analysis''"
definition GateControlSafety :: string where "GateControlSafety = ''control-safety''"

record GateDefinition =
  gd_id :: string
  gd_title :: string
  gd_minRisk :: RiskClass

definition gateCatalogue :: "GateDefinition list" where
  "gateCatalogue =
     [\<lparr>gd_id = GateBuild, gd_title = ''the packet's code builds'', gd_minRisk = RiskQ1\<rparr>,
      \<lparr>gd_id = GateUnitTest, gd_title = ''the packet's automated tests pass'', gd_minRisk = RiskQ1\<rparr>,
      \<lparr>gd_id = GateStaticAnalysis, gd_title = ''the packet passes static examination'',
       gd_minRisk = RiskQ2\<rparr>,
      \<lparr>gd_id = GateControlSafety,
       gd_title = ''the packet's autonomous behavior is mechanically examined'', gd_minRisk = RiskQ3\<rparr>]"

definition LookupGate :: "string \<Rightarrow> GateDefinition option" where
  "LookupGate i = find (\<lambda>d. gd_id d = i) gateCatalogue"

record QAPolicy =
  qa_requireGates :: "string list"

text \<open>The Go code fills a set and sorts its elements; the order in which the map yields them does not
  matter, as the result is sorted.\<close>

definition RequiredGates :: "QAPolicy \<Rightarrow> RiskClass \<Rightarrow> string list" where
  "RequiredGates policy risk =
     sort (remdups
       (map gd_id (filter (\<lambda>d. RiskClass_Rank risk \<ge> RiskClass_Rank (gd_minRisk d)) gateCatalogue)
        @ qa_requireGates policy))"

section \<open>Evidence\<close>

datatype GateResult = GatePass | GateFail | GateError | GateOther string

definition Passed :: "GateResult \<Rightarrow> bool" where
  "Passed r = (r = GatePass)"

fun GateResult_severity :: "GateResult \<Rightarrow> nat" where
  "GateResult_severity GatePass = 0"
| "GateResult_severity GateFail = 2"
| "GateResult_severity GateError = 1"
| "GateResult_severity (GateOther s) = 3"

fun GateResult_text :: "GateResult \<Rightarrow> string" where
  "GateResult_text GatePass = ''pass''"
| "GateResult_text GateFail = ''fail''"
| "GateResult_text GateError = ''error''"
| "GateResult_text (GateOther s) = s"

record GateEvidence =
  ge_gateID :: string
  ge_taskID :: string
  ge_tool :: string
  ge_toolVersion :: string
  ge_result :: GateResult
  ge_targetSHA :: string
  ge_reproduce :: "string list"
  ge_detail :: string
  ge_evidencePath :: string

definition Certifies :: "GateEvidence \<Rightarrow> string \<Rightarrow> bool" where
  "Certifies e targetSHA =
     (if \<not> Passed (ge_result e) then False
      else if blank (ge_targetSHA e) \<or> blank targetSHA then False
      else ge_targetSHA e = targetSHA)"

definition Stale :: "GateEvidence \<Rightarrow> string \<Rightarrow> bool" where
  "Stale e targetSHA =
     (\<not> blank targetSHA \<and> \<not> blank (ge_targetSHA e) \<and> ge_targetSHA e \<noteq> targetSHA)"

definition MergeEvidence :: "GateEvidence \<Rightarrow> GateEvidence \<Rightarrow> GateEvidence" where
  "MergeEvidence existing observed =
     (if ge_gateID existing = [] then observed
      else if ge_targetSHA existing \<noteq> ge_targetSHA observed then observed
      else if GateResult_severity (ge_result existing) \<ge> GateResult_severity (ge_result observed)
      then existing
      else observed)"

text \<open>The entry a ledger has for a gate with no evidence: the zero value of the Go struct, which a
  read of a missing map key yields.\<close>

definition no_evidence :: GateEvidence where
  "no_evidence =
     \<lparr>ge_gateID = [], ge_taskID = [], ge_tool = [], ge_toolVersion = [], ge_result = GateOther [],
      ge_targetSHA = [], ge_reproduce = [], ge_detail = [], ge_evidencePath = []\<rparr>"

type_synonym ledger = "string \<rightharpoonup> GateEvidence"

definition ledger_entry :: "ledger \<Rightarrow> string \<Rightarrow> GateEvidence" where
  "ledger_entry m g = (case m g of None \<Rightarrow> no_evidence | Some e \<Rightarrow> e)"

text \<open>The statement \<^verbatim>\<open>m[e.GateID] = MergeEvidence(m[e.GateID], e)\<close>, which the run
  (\<^verbatim>\<open>recordGateEvidence\<close>) and the journal's replay both execute.\<close>

definition ledger_merge :: "ledger \<Rightarrow> GateEvidence \<Rightarrow> ledger" where
  "ledger_merge m e = m(ge_gateID e \<mapsto> MergeEvidence (ledger_entry m (ge_gateID e)) e)"

section \<open>The progression decision\<close>

datatype BlockReason = BlockMissing | BlockFailed | BlockStale | BlockUnknownTarget

record GateBlock =
  gb_gateID :: string
  gb_reason :: BlockReason
  gb_result :: GateResult
  gb_evidenceSHA :: string
  gb_detail :: string

definition shortSHA :: "string \<Rightarrow> string" where
  "shortSHA s = (if length s > 9 then take 9 s else s)"

definition firstLine :: "string \<Rightarrow> string" where
  "firstLine s = TrimSpace (takeWhile (\<lambda>c. c \<noteq> CHR 0x0A) s)"

text \<open>The em dash the messages are written with, in UTF-8.\<close>

definition em_dash :: string where
  "em_dash = [CHR 0xE2, CHR 0x80, CHR 0x94]"

definition GateBlock_String :: "GateBlock \<Rightarrow> string" where
  "GateBlock_String b =
     (case gb_reason b of
        BlockMissing \<Rightarrow> gb_gateID b @ '': required, and no evidence has been recorded''
      | BlockStale \<Rightarrow>
          gb_gateID b @ '': passed against '' @ shortSHA (gb_evidenceSHA b) @
          '', which is not the code in hand''
      | BlockUnknownTarget \<Rightarrow>
          gb_gateID b @ '': there is no target revision to certify against''
      | BlockFailed \<Rightarrow>
          gb_gateID b @ '': recorded '' @ GateResult_text (gb_result b) @ '' against '' @
          shortSHA (gb_evidenceSHA b) @
          (if gb_detail b = [] then [] else '' '' @ em_dash @ '' '' @ firstLine (gb_detail b)))"

record ProgressionDecision =
  pd_allowed :: bool
  pd_risk :: RiskClass
  pd_targetSHA :: string
  pd_required :: "string list"
  pd_satisfied :: "string list"
  pd_blocking :: "GateBlock list"

definition Decision_Reason :: "ProgressionDecision \<Rightarrow> string" where
  "Decision_Reason d =
     (if \<not> pd_allowed d \<and> pd_required d = [] \<and> pd_blocking d = []
      then ''no progression decision was recorded''
      else if pd_allowed d then
        (if pd_required d = []
         then ''risk '' @ RiskClass_text (pd_risk d) @ '' requires no mechanical gate''
         else ''every gate required at risk '' @ RiskClass_text (pd_risk d) @
              '' has passing evidence for '' @ shortSHA (pd_targetSHA d) @ '': '' @
              Join (pd_required d) '', '')
      else Itoa (int (length (pd_blocking d))) @ '' of '' @ Itoa (int (length (pd_required d))) @
           '' gate(s) required at risk '' @ RiskClass_text (pd_risk d) @
           '' do not permit progression: '' @ Join (map GateBlock_String (pd_blocking d)) ''; '')"

definition plain_block :: "string \<Rightarrow> BlockReason \<Rightarrow> GateBlock" where
  "plain_block i r =
     \<lparr>gb_gateID = i, gb_reason = r, gb_result = GateOther [], gb_evidenceSHA = [], gb_detail = []\<rparr>"

text \<open>The body of the loop over the required gates: nothing when the gate is satisfied, the block to
  append otherwise.\<close>

definition gate_block :: "string \<Rightarrow> ledger \<Rightarrow> string \<Rightarrow> GateBlock option" where
  "gate_block targetSHA evidence i =
     (case evidence i of
        None \<Rightarrow> Some (plain_block i BlockMissing)
      | Some ev \<Rightarrow>
          if Certifies ev targetSHA then None
          else if \<not> Passed (ge_result ev) then
            Some \<lparr>gb_gateID = i, gb_reason = BlockFailed, gb_result = ge_result ev,
                  gb_evidenceSHA = ge_targetSHA ev, gb_detail = ge_detail ev\<rparr>
          else if Stale ev targetSHA then
            Some \<lparr>gb_gateID = i, gb_reason = BlockStale, gb_result = ge_result ev,
                  gb_evidenceSHA = ge_targetSHA ev, gb_detail = []\<rparr>
          else Some \<lparr>gb_gateID = i, gb_reason = BlockUnknownTarget, gb_result = ge_result ev,
                     gb_evidenceSHA = [], gb_detail = []\<rparr>)"

fun progression_loop ::
  "string \<Rightarrow> ledger \<Rightarrow> string list \<Rightarrow> ProgressionDecision \<Rightarrow> ProgressionDecision" where
  "progression_loop targetSHA evidence [] d = d"
| "progression_loop targetSHA evidence (i # ids) d =
     progression_loop targetSHA evidence ids
       (case gate_block targetSHA evidence i of
          None \<Rightarrow> d\<lparr>pd_satisfied := pd_satisfied d @ [i]\<rparr>
        | Some b \<Rightarrow> d\<lparr>pd_blocking := pd_blocking d @ [b]\<rparr>)"

definition EvaluateProgression ::
  "QAPolicy \<Rightarrow> RiskClass \<Rightarrow> string \<Rightarrow> ledger \<Rightarrow> ProgressionDecision" where
  "EvaluateProgression policy risk targetSHA evidence =
     (let d = \<lparr>pd_allowed = False, pd_risk = risk, pd_targetSHA = targetSHA,
               pd_required = RequiredGates policy risk, pd_satisfied = [], pd_blocking = []\<rparr>
      in if pd_required d = [] then d\<lparr>pd_allowed := True\<rparr>
         else if blank targetSHA then
           d\<lparr>pd_blocking := map (\<lambda>i. plain_block i BlockUnknownTarget) (pd_required d)\<rparr>
         else
           let d' = progression_loop targetSHA evidence (pd_required d) d
           in d'\<lparr>pd_allowed := (pd_blocking d' = [])\<rparr>)"

section \<open>Lemmas\<close>

lemma set_RequiredGates:
  "set (RequiredGates p r) =
     gd_id ` {d \<in> set gateCatalogue. RiskClass_Rank (gd_minRisk d) \<le> RiskClass_Rank r}
     \<union> set (qa_requireGates p)"
  by (auto simp: RequiredGates_def)

lemma RequiredGates_canonical: "sorted (RequiredGates p r)" "distinct (RequiredGates p r)"
  by (simp_all add: RequiredGates_def)

lemma RiskClass_Rank_le: "RiskClass_Rank r \<le> 4"
  by (cases r) simp_all

lemma RequiredGates_mono:
  assumes "RiskClass_Rank r \<le> RiskClass_Rank r'"
    and "set (qa_requireGates p) \<subseteq> set (qa_requireGates p')"
  shows "set (RequiredGates p r) \<subseteq> set (RequiredGates p' r')"
  using assms unfolding set_RequiredGates by (auto intro!: imageI)

lemma CertifiesD:
  assumes "Certifies e sha"
  shows "ge_result e = GatePass" "ge_targetSHA e = sha" "\<not> blank sha"
  using assms by (auto simp: Certifies_def Passed_def split: if_splits)

lemma Certifies_iff:
  "Certifies e sha \<longleftrightarrow> ge_result e = GatePass \<and> ge_targetSHA e = sha \<and> \<not> blank sha"
  by (auto simp: Certifies_def Passed_def)

lemma gate_block_None:
  "gate_block sha m i = None \<longleftrightarrow> (\<exists>e. m i = Some e \<and> Certifies e sha)"
  by (auto simp: gate_block_def split: option.splits)

lemma gate_block_gateID: "gate_block sha m i = Some b \<Longrightarrow> gb_gateID b = i"
  by (auto simp: gate_block_def plain_block_def split: option.splits if_splits)

lemma progression_loop_fields [simp]:
  "pd_risk (progression_loop sha m ids d) = pd_risk d"
  "pd_targetSHA (progression_loop sha m ids d) = pd_targetSHA d"
  "pd_required (progression_loop sha m ids d) = pd_required d"
  "pd_allowed (progression_loop sha m ids d) = pd_allowed d"
  by (induction ids arbitrary: d) (auto split: option.splits)

lemma progression_loop_satisfied:
  "pd_satisfied (progression_loop sha m ids d) =
     pd_satisfied d @ filter (\<lambda>i. gate_block sha m i = None) ids"
  by (induction ids arbitrary: d) (auto split: option.splits)

lemma progression_loop_blocking:
  "pd_blocking (progression_loop sha m ids d) =
     pd_blocking d @ List.map_filter (gate_block sha m) ids"
  by (induction ids arbitrary: d) (auto simp: List.map_filter_def split: option.splits)

lemma gateID_map_filter:
  "map gb_gateID (List.map_filter (gate_block sha m) ids) =
     filter (\<lambda>i. gate_block sha m i \<noteq> None) ids"
  by (induction ids) (auto simp: List.map_filter_def gate_block_gateID)

lemma EvaluateProgression_required [simp]:
  "pd_required (EvaluateProgression p r sha m) = RequiredGates p r"
  by (simp add: EvaluateProgression_def Let_def)

lemma EvaluateProgression_target [simp]:
  "pd_targetSHA (EvaluateProgression p r sha m) = sha" "pd_risk (EvaluateProgression p r sha m) = r"
  by (simp_all add: EvaluateProgression_def Let_def)

lemma blank_target_blocks: "blank sha \<Longrightarrow> gate_block sha m i \<noteq> None"
  by (auto simp: gate_block_None Certifies_iff)

lemma EvaluateProgression_blocking_ids:
  "map gb_gateID (pd_blocking (EvaluateProgression p r sha m)) =
     filter (\<lambda>i. gate_block sha m i \<noteq> None) (RequiredGates p r)"
  using blank_target_blocks[of sha m]
  by (auto simp: EvaluateProgression_def Let_def progression_loop_blocking gateID_map_filter comp_def
      plain_block_def filter_id_conv)

lemma EvaluateProgression_satisfied:
  "pd_satisfied (EvaluateProgression p r sha m) =
     filter (\<lambda>i. gate_block sha m i = None) (RequiredGates p r)"
  using blank_target_blocks[of sha m]
  by (auto simp: EvaluateProgression_def Let_def progression_loop_satisfied filter_empty_conv)

lemma EvaluateProgression_allowed_blocking:
  "pd_allowed (EvaluateProgression p r sha m) \<longleftrightarrow> pd_blocking (EvaluateProgression p r sha m) = []"
  by (simp add: EvaluateProgression_def Let_def)

lemma EvaluateProgression_allowed:
  "pd_allowed (EvaluateProgression p r sha m) \<longleftrightarrow>
     (\<forall>i\<in>set (RequiredGates p r). \<exists>e. m i = Some e \<and> Certifies e sha)"
proof -
  have "pd_allowed (EvaluateProgression p r sha m) \<longleftrightarrow>
      map gb_gateID (pd_blocking (EvaluateProgression p r sha m)) = []"
    by (simp add: EvaluateProgression_allowed_blocking)
  also have "\<dots> \<longleftrightarrow> (\<forall>i\<in>set (RequiredGates p r). gate_block sha m i = None)"
    unfolding EvaluateProgression_blocking_ids by (auto simp: filter_empty_conv)
  finally show ?thesis by (simp add: gate_block_None)
qed

section \<open>The ledger\<close>

text \<open>Evidence for one gate at one revision is aggregated by severity.\<close>

interpretation evidence: severity_fold "\<lambda>e. GateResult_severity (ge_result e)" "\<lambda>e. e"
  by unfold_locales simp

lemma MergeEvidence_fold:
  assumes "ge_gateID e \<noteq> []" and "\<forall>x\<in>set es. ge_gateID x \<noteq> [] \<and> ge_targetSHA x = ge_targetSHA e"
  shows "foldl MergeEvidence e es =
           worst_fold (\<lambda>e. GateResult_severity (ge_result e)) (\<lambda>e. e) e es"
  using assms by (induction es arbitrary: e) (auto simp: MergeEvidence_def not_le)

lemma MergeEvidence_other_revision:
  "ge_targetSHA existing \<noteq> ge_targetSHA observed \<Longrightarrow> MergeEvidence existing observed = observed"
  by (simp add: MergeEvidence_def)

lemma MergeEvidence_cases: "MergeEvidence a b = a \<or> MergeEvidence a b = b"
  by (simp add: MergeEvidence_def)

lemma MergeEvidence_gateID:
  "ge_gateID a = [] \<or> ge_gateID a = ge_gateID b \<Longrightarrow> ge_gateID (MergeEvidence a b) = ge_gateID b"
  by (auto simp: MergeEvidence_def)

text \<open>A ledger files evidence under the gate it names.\<close>

definition ledger_wf :: "ledger \<Rightarrow> bool" where
  "ledger_wf m = (\<forall>g e. m g = Some e \<longrightarrow> ge_gateID e = g)"

lemma ledger_wf_empty [simp]: "ledger_wf Map.empty"
  by (simp add: ledger_wf_def)

lemma ledger_wf_merge: "ledger_wf m \<Longrightarrow> ledger_wf (ledger_merge m e)"
  by (auto simp: ledger_wf_def ledger_merge_def ledger_entry_def no_evidence_def MergeEvidence_gateID
      split: option.splits)

lemma severity_pass: "GateResult_severity r = 0 \<longleftrightarrow> r = GatePass"
  by (cases r) simp_all

lemma foldl_ledger_merge_entry:
  assumes "\<forall>x\<in>set es. ge_gateID x = g" and "m g = Some e"
  shows "foldl ledger_merge m es g = Some (foldl MergeEvidence e es)"
  using assms by (induction es arbitrary: m e) (auto simp: ledger_merge_def ledger_entry_def)

section \<open>Properties\<close>

text \<open>C1. A packet may progress exactly when every gate its risk and policy require has recorded
  evidence that passed against the very revision in hand. The gates reported satisfied and blocking are
  a partition of the required ones, in their order.\<close>

theorem progression_exact:
  "let d = EvaluateProgression policy risk sha evidence;
       ok = (\<lambda>g. \<exists>e. evidence g = Some e \<and> ge_result e = GatePass \<and> ge_targetSHA e = sha \<and> \<not> blank sha)
   in (pd_allowed d \<longleftrightarrow> (\<forall>g\<in>set (RequiredGates policy risk). ok g))
      \<and> pd_satisfied d = filter ok (RequiredGates policy risk)
      \<and> map gb_gateID (pd_blocking d) = filter (\<lambda>g. \<not> ok g) (RequiredGates policy risk)"
  unfolding Let_def EvaluateProgression_allowed EvaluateProgression_satisfied
    EvaluateProgression_blocking_ids
  by (simp add: gate_block_None Certifies_iff)

theorem progression_exact_witness:
  "pd_allowed (EvaluateProgression \<lparr>qa_requireGates = []\<rparr> RiskQ1 ''abc''
     [GateBuild \<mapsto> no_evidence\<lparr>ge_gateID := GateBuild, ge_result := GatePass, ge_targetSHA := ''abc''\<rparr>,
      GateUnitTest \<mapsto> no_evidence\<lparr>ge_gateID := GateUnitTest, ge_result := GatePass, ge_targetSHA := ''abc''\<rparr>])"
proof -
  have g: "set (RequiredGates \<lparr>qa_requireGates = []\<rparr> RiskQ1) = {GateBuild, GateUnitTest}"
    by code_simp
  have b: "\<not> blank ''abc''" by code_simp
  show ?thesis
    using progression_exact[of "\<lparr>qa_requireGates = []\<rparr>" RiskQ1 "''abc''"
      "[GateBuild \<mapsto> no_evidence\<lparr>ge_gateID := GateBuild, ge_result := GatePass, ge_targetSHA := ''abc''\<rparr>,
        GateUnitTest \<mapsto> no_evidence\<lparr>ge_gateID := GateUnitTest, ge_result := GatePass, ge_targetSHA := ''abc''\<rparr>]"]
    unfolding Let_def g by (simp add: b GateBuild_def GateUnitTest_def)
qed

text \<open>A mechanical failure cannot be talked out of: once the ledger holds a verdict other than a
  pass for a required gate at a revision, then whatever evidence for that gate at that revision is
  recorded after it, in any number and order, progression at that revision stays refused.\<close>

theorem failed_gate_stands:
  assumes "g \<in> set (RequiredGates policy risk)" and "g \<noteq> []"
    and "m g = Some e" and "ge_gateID e = g" and "ge_targetSHA e = sha" and "ge_result e \<noteq> GatePass"
    and "\<forall>x\<in>set es. ge_gateID x = g \<and> ge_targetSHA x = sha"
  shows "\<not> pd_allowed (EvaluateProgression policy risk sha (foldl ledger_merge m es))"
proof -
  let ?w = "worst_fold (\<lambda>e. GateResult_severity (ge_result e)) (\<lambda>e. e) e es"
  have "foldl ledger_merge m es g = Some (foldl MergeEvidence e es)"
    using assms(3,7) by (intro foldl_ledger_merge_entry) auto
  also have "foldl MergeEvidence e es = ?w" using assms(2,4,5,7) by (intro MergeEvidence_fold) auto
  finally have "foldl ledger_merge m es g = Some ?w" .
  moreover have "0 < GateResult_severity (ge_result ?w)"
    using assms(6) severity_pass[of "ge_result e"] evidence.sev_fold[of e es] by (simp add: Max_gr_iff)
  then have "\<not> Certifies ?w sha" by (auto simp: Certifies_iff)
  ultimately show ?thesis
    using assms(1) by (simp add: EvaluateProgression_allowed) (rule bexI[of _ g]; simp)
qed

theorem failed_gate_stands_witness:
  "\<not> pd_allowed (EvaluateProgression \<lparr>qa_requireGates = []\<rparr> RiskQ1 ''abc''
     (foldl ledger_merge
        [GateBuild \<mapsto> no_evidence\<lparr>ge_gateID := GateBuild, ge_result := GateFail, ge_targetSHA := ''abc''\<rparr>]
        [no_evidence\<lparr>ge_gateID := GateBuild, ge_result := GatePass, ge_targetSHA := ''abc''\<rparr>]))"
proof (rule failed_gate_stands)
  show "GateBuild \<in> set (RequiredGates \<lparr>qa_requireGates = []\<rparr> RiskQ1)" by code_simp
qed (auto simp: GateBuild_def)

text \<open>The required gates are a sorted list without duplicates; a riskier class and a larger policy
  only ever add to them, so no packet can lower the bar of its own risk class; and a class outside the
  vocabulary requires every gate of the catalogue.\<close>

theorem required_gates_only_grow:
  "sorted (RequiredGates p r) \<and> distinct (RequiredGates p r)
   \<and> (RiskClass_Rank r \<le> RiskClass_Rank r' \<and> set (qa_requireGates p) \<subseteq> set (qa_requireGates p') \<longrightarrow>
        set (RequiredGates p r) \<subseteq> set (RequiredGates p' r'))
   \<and> gd_id ` set gateCatalogue \<subseteq> set (RequiredGates p (RiskOther s))"
proof (intro conjI impI)
  show "gd_id ` set gateCatalogue \<subseteq> set (RequiredGates p (RiskOther s))"
    using RiskClass_Rank_le by (auto simp: set_RequiredGates)
qed (use RequiredGates_canonical RequiredGates_mono in auto)

theorem required_gates_only_grow_witness:
  "set (RequiredGates \<lparr>qa_requireGates = []\<rparr> RiskQ1)
     \<subseteq> set (RequiredGates \<lparr>qa_requireGates = [GateControlSafety]\<rparr> RiskQ2)"
  using required_gates_only_grow[of "\<lparr>qa_requireGates = []\<rparr>" RiskQ1 RiskQ2
      "\<lparr>qa_requireGates = [GateControlSafety]\<rparr>"] by simp

end
