(* ===== verification/Go_Regexp.thy ===== *)
theory Go_Regexp
  imports Go_Prelude
begin

text \<open>
  The regular expressions the packages compile as constants, with the semantics of Go's
  \<^verbatim>\<open>regexp\<close>: unanchored, leftmost, and among the matches at the leftmost position the one a
  backtracking matcher finds first (greedy repetition, left alternative first). \<open>rx_ends\<close> lists the
  positions at which a match starting at a position can end, in that order of preference, so its head is
  the end of Go's match.

  Matching is by bytes. Under \<^verbatim>\<open>(?i)\<close> a letter also matches its other case and, for \<open>k\<close> and \<open>s\<close>, the
  two non-ASCII characters that fold to them, which are sequences of bytes here.
\<close>

type_synonym byte_ranges = "(nat \<times> nat) list"

datatype rx =
    REmpty
  | RByte char
  | RSet byte_ranges
  | RNotSet byte_ranges
  | RRep nat rx
  | RSeq rx rx
  | RAlt rx rx
  | RWordBoundary
  | RTextBegin

definition in_ranges :: "byte_ranges \<Rightarrow> char \<Rightarrow> bool" where
  "in_ranges rs c = list_ex (\<lambda>(lo, hi). lo \<le> of_char c \<and> of_char c \<le> hi) rs"

definition word_ranges :: byte_ranges where
  "word_ranges = [(48, 57), (65, 90), (97, 122), (95, 95)]"

definition word_at :: "string \<Rightarrow> nat \<Rightarrow> bool" where
  "word_at s i = (i < length s \<and> in_ranges word_ranges (s ! i))"

definition word_boundary :: "string \<Rightarrow> nat \<Rightarrow> bool" where
  "word_boundary s i = ((i > 0 \<and> word_at s (i - 1)) \<noteq> word_at s i)"

text \<open>At least \<open>n\<close> repetitions of an expression with ends \<open>f\<close>, as many as possible first. Every
  iteration has to consume something, so the length of the rest of the text bounds their number.\<close>

fun rep_ends :: "(nat \<Rightarrow> nat list) \<Rightarrow> nat \<Rightarrow> nat \<Rightarrow> nat \<Rightarrow> nat list" where
  "rep_ends f 0 n i = (if n = 0 then [i] else [])"
| "rep_ends f (Suc fuel) n i =
     concat (map (\<lambda>j. if j > i then rep_ends f fuel (n - 1) j else []) (f i))
     @ (if n = 0 then [i] else [])"

fun rx_ends :: "rx \<Rightarrow> string \<Rightarrow> nat \<Rightarrow> nat list" where
  "rx_ends REmpty s i = [i]"
| "rx_ends (RByte c) s i = (if i < length s \<and> s ! i = c then [Suc i] else [])"
| "rx_ends (RSet rs) s i = (if i < length s \<and> in_ranges rs (s ! i) then [Suc i] else [])"
| "rx_ends (RNotSet rs) s i = (if i < length s \<and> \<not> in_ranges rs (s ! i) then [Suc i] else [])"
| "rx_ends (RRep n r) s i = rep_ends (rx_ends r s) (length s - i) n i"
| "rx_ends (RSeq a b) s i = concat (map (rx_ends b s) (rx_ends a s i))"
| "rx_ends (RAlt a b) s i = rx_ends a s i @ rx_ends b s i"
| "rx_ends RWordBoundary s i = (if word_boundary s i then [i] else [])"
| "rx_ends RTextBegin s i = (if i = 0 then [i] else [])"

definition MatchString :: "rx \<Rightarrow> string \<Rightarrow> bool" where
  "MatchString r s = list_ex (\<lambda>i. rx_ends r s i \<noteq> []) [0 ..< Suc (length s)]"

text \<open>The leftmost match at or after a position: where it starts and ends.\<close>

fun find_from :: "rx \<Rightarrow> string \<Rightarrow> nat list \<Rightarrow> (nat \<times> nat) option" where
  "find_from r s [] = None"
| "find_from r s (i # is) =
     (case rx_ends r s i of [] \<Rightarrow> find_from r s is | j # _ \<Rightarrow> Some (i, j))"

definition FindFrom :: "rx \<Rightarrow> string \<Rightarrow> nat \<Rightarrow> (nat \<times> nat) option" where
  "FindFrom r s i = find_from r s [i ..< Suc (length s)]"

text \<open>\<^verbatim>\<open>ReplaceAllString\<close> with a replacement that has no \<^verbatim>\<open>$\<close>, for an expression that never
  matches the empty string: copy up to the match, put the replacement, go on after the match. The fuel
  is the number of matches, at most one per byte.\<close>

fun replace_from :: "rx \<Rightarrow> string \<Rightarrow> string \<Rightarrow> nat \<Rightarrow> nat \<Rightarrow> string" where
  "replace_from r new s 0 i = drop i s"
| "replace_from r new s (Suc fuel) i =
     (case FindFrom r s i of
        None \<Rightarrow> drop i s
      | Some (a, b) \<Rightarrow> take (a - i) (drop i s) @ new @ replace_from r new s fuel b)"

definition ReplaceAllString :: "rx \<Rightarrow> string \<Rightarrow> string \<Rightarrow> string" where
  "ReplaceAllString r s new = replace_from r new s (length s) 0"

section \<open>Building expressions\<close>

text \<open>A literal byte under \<^verbatim>\<open>(?i)\<close>: both cases of a letter; U+017F folds to \<open>s\<close> and U+212A to \<open>k\<close>.\<close>

definition long_s :: rx where
  "long_s = RSeq (RByte (CHR 0xC5)) (RByte (CHR 0xBF))"

definition kelvin :: rx where
  "kelvin = RSeq (RByte (CHR 0xE2)) (RSeq (RByte (CHR 0x84)) (RByte (CHR 0xAA)))"

definition fold_byte :: "char \<Rightarrow> rx" where
  "fold_byte c =
     (let n = of_char (lower_byte c) :: nat;
          base = (if 97 \<le> n \<and> n \<le> 122 then RSet [(n, n), (n - 32, n - 32)] else RByte c)
      in if lower_byte c = CHR ''s'' then RAlt base long_s
         else if lower_byte c = CHR ''k'' then RAlt base kelvin
         else base)"

definition seqs :: "rx list \<Rightarrow> rx" where
  "seqs rs = foldr RSeq rs REmpty"

fun alts :: "rx list \<Rightarrow> rx" where
  "alts [] = REmpty"
| "alts [r] = r"
| "alts (r # s # rs) = RAlt r (alts (s # rs))"

definition lit :: "string \<Rightarrow> rx" where
  "lit s = seqs (map RByte s)"

definition lit_i :: "string \<Rightarrow> rx" where
  "lit_i s = seqs (map fold_byte s)"

definition opt :: "rx \<Rightarrow> rx" where
  "opt r = RAlt r REmpty"

definition dotstar :: rx where
  "dotstar = RRep 0 (RNotSet [(10, 10)])"

definition digits :: byte_ranges where "digits = [(48, 57)]"
definition alnum :: byte_ranges where "alnum = [(65, 90), (97, 122), (48, 57)]"
definition spaces :: byte_ranges where "spaces = [(9, 10), (12, 13), (32, 32)]"

definition word_alts :: "string list \<Rightarrow> rx" where
  "word_alts ws = seqs [RWordBoundary, alts (map lit_i ws), RWordBoundary]"

section \<open>Lemmas\<close>

lemma rep_ends_bounds:
  assumes "\<forall>i j. j \<in> set (f i) \<longrightarrow> i \<le> j \<and> (i \<le> len \<longrightarrow> j \<le> len)" and "j \<in> set (rep_ends f fuel n i)"
  shows "i \<le> j \<and> (i \<le> len \<longrightarrow> j \<le> len)"
  using assms(2)
proof (induction fuel arbitrary: n i)
  case (Suc fuel)
  then show ?case using assms(1) by (auto split: if_splits) (meson le_trans order_less_imp_le)+
qed (auto split: if_splits)

text \<open>A match never ends before it starts or beyond the text.\<close>

lemma rx_ends_bounds: "j \<in> set (rx_ends r s i) \<Longrightarrow> i \<le> j \<and> (i \<le> length s \<longrightarrow> j \<le> length s)"
proof (induction r arbitrary: i j)
  case (RRep n r)
  then have "\<forall>i j. j \<in> set (rx_ends r s i) \<longrightarrow> i \<le> j \<and> (i \<le> length s \<longrightarrow> j \<le> length s)" by blast
  with rep_ends_bounds[of "rx_ends r s" "length s" j "length s - i" n i] RRep.prems show ?case by simp
next
  case (RSeq a b)
  from RSeq.prems obtain k where k: "k \<in> set (rx_ends a s i)" "j \<in> set (rx_ends b s k)" by auto
  from RSeq.IH(1)[OF k(1)] RSeq.IH(2)[OF k(2)] show ?case by auto
qed (auto split: if_splits)

lemma MatchString_iff: "MatchString r s \<longleftrightarrow> (\<exists>i\<le>length s. rx_ends r s i \<noteq> [])"
  by (auto simp: MatchString_def list_ex_iff less_Suc_eq_le Bex_def simp del: upt_Suc)

lemma find_from_None: "find_from r s is = None \<longleftrightarrow> (\<forall>i\<in>set is. rx_ends r s i = [])"
  by (induction "is") (auto split: list.splits)

lemma FindFrom_None: "FindFrom r s 0 = None \<longleftrightarrow> \<not> MatchString r s"
  unfolding FindFrom_def find_from_None MatchString_iff by (auto simp del: upt_Suc simp: less_Suc_eq_le)

lemma find_from_Some:
  "find_from r s is = Some (a, b) \<Longrightarrow> a \<in> set is \<and> b \<in> set (rx_ends r s a)"
  by (induction "is") (auto split: list.splits)

lemma FindFrom_Some:
  assumes "FindFrom r s i = Some (a, b)"
  shows "i \<le> a" "a \<le> b" "b \<le> length s"
proof -
  have a: "i \<le> a" "a \<le> length s" "b \<in> set (rx_ends r s a)"
    using find_from_Some assms unfolding FindFrom_def by (fastforce simp del: upt_Suc)+
  with rx_ends_bounds[OF a(3)] show "i \<le> a" "a \<le> b" "b \<le> length s" by auto
qed

lemma ReplaceAllString_no_match: "\<not> MatchString r s \<Longrightarrow> ReplaceAllString r s new = s"
  by (cases "length s") (simp_all add: ReplaceAllString_def FindFrom_None[symmetric])

end
