(* ===== verification/Failure.thy ===== *)
theory Failure
  imports QA Go_Regexp
begin

text \<open>
  Failure classes, their response policies and the classifier of failure text
  (\<^verbatim>\<open>internal/unattended/failure.go\<close>).

  Durations are \<^verbatim>\<open>time.Duration\<close> values, integers of nanoseconds. \<^verbatim>\<open>Backoff\<close> multiplies by a
  power of two in floating point; the product is exact for every base below \<open>2 ^ 43\<close> nanoseconds (more
  than two hours), and the bases of the policy table are at most 15 seconds.

  The built-in rules are expressions of the theory \<^verbatim>\<open>Go_Regexp\<close>. A rule of the run's spec has its
  pattern in a string; the compiler of such patterns is the parameter \<open>compile\<close>, \<open>None\<close> for a pattern
  that does not compile, and every theorem holds for all of them.
\<close>

section \<open>Classes and policies\<close>

datatype FailureClass =
    FailureRetryable | FailureCodeDefect | FailureEnvironment | FailureAuth | FailureGovernance
  | FailureDependency | FailureConcurrentWriter | FailureExternalService | FailureHumanDecision
  | FailureIrreversibleBoundary | FailureOther string

fun FailureClass_Valid :: "FailureClass \<Rightarrow> bool" where
  "FailureClass_Valid (FailureOther s) = False"
| "FailureClass_Valid c = True"

fun FailureClass_text :: "FailureClass \<Rightarrow> string" where
  "FailureClass_text FailureRetryable = ''retryable''"
| "FailureClass_text FailureCodeDefect = ''code-defect''"
| "FailureClass_text FailureEnvironment = ''environment''"
| "FailureClass_text FailureAuth = ''auth''"
| "FailureClass_text FailureGovernance = ''governance''"
| "FailureClass_text FailureDependency = ''dependency''"
| "FailureClass_text FailureConcurrentWriter = ''concurrent-writer''"
| "FailureClass_text FailureExternalService = ''external-service''"
| "FailureClass_text FailureHumanDecision = ''human-decision''"
| "FailureClass_text FailureIrreversibleBoundary = ''irreversible-boundary''"
| "FailureClass_text (FailureOther s) = s"

record Policy =
  pol_maxAttempts :: int
  pol_baseBackoff :: int
  pol_maxBackoff :: int
  pol_stopsRun :: bool
  pol_why :: string

definition seconds :: "int \<Rightarrow> int" where
  "seconds n = n * 1000000000"

fun PolicyFor :: "FailureClass \<Rightarrow> Policy" where
  "PolicyFor FailureRetryable =
     \<lparr>pol_maxAttempts = 4, pol_baseBackoff = seconds 5, pol_maxBackoff = seconds 120,
      pol_stopsRun = False,
      pol_why = ''transient by definition; retried with backoff, then treated as a blocked task rather than a stopped run''\<rparr>"
| "PolicyFor FailureCodeDefect =
     \<lparr>pol_maxAttempts = 3, pol_baseBackoff = seconds 1, pol_maxBackoff = seconds 10,
      pol_stopsRun = False,
      pol_why = ''ordinary engineering work '' @ em_dash @ '' a failing test or build is what the run is for, not a reason to end it''\<rparr>"
| "PolicyFor FailureEnvironment =
     \<lparr>pol_maxAttempts = 2, pol_baseBackoff = seconds 10, pol_maxBackoff = seconds 30,
      pol_stopsRun = False,
      pol_why = ''the machine will not fix itself, but one retry costs little and covers a transient filesystem or process race''\<rparr>"
| "PolicyFor FailureAuth =
     \<lparr>pol_maxAttempts = 1, pol_baseBackoff = 0, pol_maxBackoff = 0, pol_stopsRun = False,
      pol_why = ''a credential does not become valid by being asked again; the task is held and the queue moves on''\<rparr>"
| "PolicyFor FailureGovernance =
     \<lparr>pol_maxAttempts = 1, pol_baseBackoff = 0, pol_maxBackoff = 0, pol_stopsRun = False,
      pol_why = ''a policy refusal is a decision, not a fault; the task is held for the human who can lift it''\<rparr>"
| "PolicyFor FailureDependency =
     \<lparr>pol_maxAttempts = 1, pol_baseBackoff = 0, pol_maxBackoff = 0, pol_stopsRun = False,
      pol_why = ''the queue re-offers the task when its dependency succeeds, so retrying in place would only burn attempts''\<rparr>"
| "PolicyFor FailureConcurrentWriter =
     \<lparr>pol_maxAttempts = 1, pol_baseBackoff = 0, pol_maxBackoff = 0, pol_stopsRun = True,
      pol_why = ''another session owns this worktree; continuing would mean two writers, which is the failure this layer exists to prevent''\<rparr>"
| "PolicyFor FailureExternalService =
     \<lparr>pol_maxAttempts = 5, pol_baseBackoff = seconds 15, pol_maxBackoff = seconds 300,
      pol_stopsRun = False,
      pol_why = ''third-party outages and rate limits recover on their own; backoff is longer and attempts are more generous''\<rparr>"
| "PolicyFor FailureHumanDecision =
     \<lparr>pol_maxAttempts = 1, pol_baseBackoff = 0, pol_maxBackoff = 0, pol_stopsRun = False,
      pol_why = ''the answer is a judgement this run is not entitled to make''\<rparr>"
| "PolicyFor FailureIrreversibleBoundary =
     \<lparr>pol_maxAttempts = 1, pol_baseBackoff = 0, pol_maxBackoff = 0, pol_stopsRun = True,
      pol_why = ''the next step cannot be undone without authorization, so it is never taken unattended''\<rparr>"
| "PolicyFor (FailureOther c) =
     \<lparr>pol_maxAttempts = 1, pol_baseBackoff = 0, pol_maxBackoff = 0, pol_stopsRun = True,
      pol_why = ''unrecognized failure class '' @ c @ '' '' @ em_dash @ '' nothing is known about it, so nothing is assumed''\<rparr>"

definition Backoff :: "Policy \<Rightarrow> int \<Rightarrow> int" where
  "Backoff p attempt =
     (if attempt < 1 \<or> pol_baseBackoff p \<le> 0 then 0
      else
        let shift = (if attempt - 1 > 20 then 20 else attempt - 1);
            d = pol_baseBackoff p * 2 ^ nat shift
        in if pol_maxBackoff p > 0 \<and> d > pol_maxBackoff p then pol_maxBackoff p else d)"

section \<open>The built-in rules\<close>

definition builtinRules :: "(rx \<times> FailureClass \<times> string) list" where
  "builtinRules =
     [(alts [seqs [lit_i ''another session '', alts [lit_i ''owns'', lit_i ''took ownership'']],
             lit_i ''worktree already has a live owner'',
             seqs [lit_i ''fence '', alts [lit_i ''branch-changed'', lit_i ''head-moved'', lit_i ''owner-lost'']]],
       FailureConcurrentWriter, ''the worktree ownership guard fired''),
      (alts [word_alts [''401'', ''403''], lit_i ''not logged in'', lit_i ''authentication failed'',
             lit_i ''bad credentials'', lit_i ''permission denied (publickey)'',
             seqs [lit_i ''token '', dotstar, alts [lit_i ''expired'', lit_i ''invalid'']]],
       FailureAuth, ''the forge or transport refused the credential''),
      (alts [lit_i ''protected branch'', lit_i ''required status check'', lit_i ''review required'',
             seqs [lit_i ''at least '', RRep 1 (RSet digits), lit_i '' approving review''],
             seqs [lit_i ''environment '', dotstar, lit_i '' requires approval'']],
       FailureGovernance, ''a repository or deployment policy refused the action''),
      (alts [word_alts [''429'', ''502'', ''503'', ''504''], lit_i ''rate limit'',
             lit_i ''service unavailable'', lit_i ''temporarily unavailable'',
             lit_i ''connection reset by peer'', lit_i ''i/o timeout'', lit_i ''TLS handshake timeout''],
       FailureExternalService, ''a third party refused or dropped the request''),
      (alts [lit_i ''command not found'', lit_i ''executable file not found'',
             lit_i ''no such file or directory'', lit_i ''no space left on device'',
             lit_i ''cannot allocate memory'', lit_i ''address already in use''],
       FailureEnvironment, ''the machine could not provide something the command needed''),
      (alts [seqs [RTextBegin, lit_i ''--- FAIL''],
             seqs [RWordBoundary, lit_i ''FAIL'', RWordBoundary, dotstar, lit_i ''[build failed]''],
             word_alts [''assertion failed''], word_alts [''compile error''],
             word_alts [''syntax error''], lit_i ''undefined:'',
             seqs [lit_i ''cannot use '', dotstar, lit_i '' as '', dotstar, lit_i '' value'']],
       FailureCodeDefect, ''the code under test did not do what it should''),
      (alts [lit_i ''merge conflict'', lit_i ''CONFLICT (content)'', lit_i ''would be overwritten by merge''],
       FailureCodeDefect, ''a merge conflict is ordinary work, resolved in the tree''),
      (alts [lit_i ''context deadline exceeded'', lit_i ''timed out'', lit_i ''timeout''],
       FailureRetryable, ''the attempt ran out of time without saying why'')]"

section \<open>Classification\<close>

record Classification =
  cl_class :: FailureClass
  cl_reason :: string
  cl_rule :: string

record ClassificationRule =
  cr_pattern :: string
  cr_class :: FailureClass
  cr_reason :: string

type_synonym compiler = "string \<Rightarrow> (string \<Rightarrow> bool) option"

fun classify_spec ::
  "compiler \<Rightarrow> string \<Rightarrow> nat \<Rightarrow> ClassificationRule list \<Rightarrow> Classification option" where
  "classify_spec compile text' i [] = None"
| "classify_spec compile text' i (r # rs) =
     (case compile (cr_pattern r) of
        None \<Rightarrow> classify_spec compile text' (Suc i) rs
      | Some matches \<Rightarrow>
          if matches text' then
            Some \<lparr>cl_class = cr_class r,
                  cl_reason = (if cr_reason r = [] then ''matched a project-declared signature'' else cr_reason r),
                  cl_rule = ''spec.classify['' @ Itoa (int i) @ '']''\<rparr>
          else classify_spec compile text' (Suc i) rs)"

fun classify_builtin ::
  "string \<Rightarrow> nat \<Rightarrow> (rx \<times> FailureClass \<times> string) list \<Rightarrow> Classification option" where
  "classify_builtin text' i [] = None"
| "classify_builtin text' i ((r, c, why) # rs) =
     (if MatchString r text'
      then Some \<lparr>cl_class = c, cl_reason = why, cl_rule = ''builtin['' @ Itoa (int i) @ '']''\<rparr>
      else classify_builtin text' (Suc i) rs)"

definition Classify :: "compiler \<Rightarrow> string \<Rightarrow> ClassificationRule list \<Rightarrow> Classification" where
  "Classify compile text' rules =
     (case classify_spec compile text' 0 rules of
        Some c \<Rightarrow> c
      | None \<Rightarrow>
          (case classify_builtin text' 0 builtinRules of
             Some c \<Rightarrow> c
           | None \<Rightarrow>
               \<lparr>cl_class = FailureCodeDefect,
                cl_reason = ''no signature matched, so it is treated as ordinary work rather than as a boundary'',
                cl_rule = ''default''\<rparr>))"

datatype rule_problem = PatternDoesNotCompile nat string | ClassNotDeclared nat string

fun rule_problems :: "compiler \<Rightarrow> nat \<Rightarrow> ClassificationRule list \<Rightarrow> rule_problem list" where
  "rule_problems compile i [] = []"
| "rule_problems compile i (r # rs) =
     problem_if (compile (cr_pattern r) = None) (PatternDoesNotCompile i (cr_pattern r))
     @ problem_if (\<not> FailureClass_Valid (cr_class r)) (ClassNotDeclared i (FailureClass_text (cr_class r)))
     @ rule_problems compile (Suc i) rs"

definition ValidateClassificationRules :: "compiler \<Rightarrow> ClassificationRule list \<Rightarrow> rule_problem list" where
  "ValidateClassificationRules compile rules = rule_problems compile 0 rules"

section \<open>Lemmas\<close>

lemma PolicyFor_attempts: "1 \<le> pol_maxAttempts (PolicyFor c) \<and> pol_maxAttempts (PolicyFor c) \<le> 5"
  by (cases c) simp_all

lemma PolicyFor_backoff_range:
  "0 \<le> pol_baseBackoff (PolicyFor c) \<and> pol_baseBackoff (PolicyFor c) \<le> pol_maxBackoff (PolicyFor c)
   \<and> pol_maxBackoff (PolicyFor c) \<le> seconds 300"
  by (cases c) (simp_all add: seconds_def)

lemma Backoff_nonneg: "0 \<le> pol_maxBackoff p \<Longrightarrow> 0 \<le> Backoff p n"
  by (simp add: Backoff_def Let_def)

lemma Backoff_le_max:
  "0 < pol_maxBackoff p \<Longrightarrow> Backoff p n \<le> pol_maxBackoff p"
  by (simp add: Backoff_def Let_def)

text \<open>Before the cap, each further attempt doubles the delay, up to the twenty-first.\<close>

lemma Backoff_uncapped:
  assumes "1 \<le> n" "n \<le> 21" "0 < pol_baseBackoff p"
    and "pol_baseBackoff p * 2 ^ nat (n - 1) \<le> pol_maxBackoff p \<or> pol_maxBackoff p \<le> 0"
  shows "Backoff p n = pol_baseBackoff p * 2 ^ nat (n - 1)"
  using assms by (auto simp: Backoff_def Let_def)

lemma Backoff_mono:
  assumes "m \<le> n"
  shows "Backoff p m \<le> Backoff p n"
proof (cases "m < 1 \<or> pol_baseBackoff p \<le> 0")
  case True
  have "0 \<le> Backoff p n" if "1 \<le> n" "0 < pol_baseBackoff p"
    using that by (simp add: Backoff_def Let_def)
  with True show ?thesis by (auto simp: Backoff_def Let_def)
next
  case False
  define d where "d = (\<lambda>n. pol_baseBackoff p * 2 ^ nat (if n - 1 > 20 then 20 else n - 1))"
  have b: "Backoff p n =
      (if pol_maxBackoff p > 0 \<and> d n > pol_maxBackoff p then pol_maxBackoff p else d n)" if "n \<ge> 1" for n
    using False that by (simp add: Backoff_def Let_def d_def)
  have "d m \<le> d n"
    unfolding d_def using assms False by (intro mult_left_mono power_increasing) auto
  then show ?thesis using b[of m] b[of n] False assms by auto
qed

lemma rule_problems_clean:
  "rule_problems compile i rs = [] \<longleftrightarrow>
     (\<forall>r\<in>set rs. compile (cr_pattern r) \<noteq> None \<and> FailureClass_Valid (cr_class r))"
  by (induction rs arbitrary: i) auto

lemma classify_spec_first:
  "classify_spec compile t i rs =
     (case find_index (\<lambda>r. \<exists>m. compile (cr_pattern r) = Some m \<and> m t) rs of
        None \<Rightarrow> None
      | Some k \<Rightarrow>
          Some \<lparr>cl_class = cr_class (rs ! k),
                cl_reason = (if cr_reason (rs ! k) = [] then ''matched a project-declared signature''
                             else cr_reason (rs ! k)),
                cl_rule = ''spec.classify['' @ Itoa (int (i + k)) @ '']''\<rparr>)"
  by (induction rs arbitrary: i) (auto simp: add.left_commute simp del: find_index_None split: option.splits)

lemma classify_builtin_class:
  "classify_builtin t i rs = Some c \<Longrightarrow> \<exists>(r, k, w)\<in>set rs. MatchString r t \<and> cl_class c = k"
  by (induction t i rs rule: classify_builtin.induct) (auto split: if_splits)

lemma builtin_class_valid: "(r, k, w) \<in> set builtinRules \<Longrightarrow> FailureClass_Valid k"
  by (auto simp: builtinRules_def)

lemma Classify_valid:
  assumes "ValidateClassificationRules compile rules = []"
  shows "FailureClass_Valid (cl_class (Classify compile t rules))"
proof (cases "classify_spec compile t 0 rules")
  case None
  then show ?thesis
    using classify_builtin_class[of t 0 builtinRules] builtin_class_valid
    by (fastforce simp: Classify_def split: option.splits)
next
  case (Some c)
  then obtain k where k: "find_index (\<lambda>r. \<exists>m. compile (cr_pattern r) = Some m \<and> m t) rules = Some k"
    "cl_class c = cr_class (rules ! k)" by (auto simp: classify_spec_first split: option.splits)
  then have "rules ! k \<in> set rules" using find_index_SomeD(1) by fastforce
  with Some k assms show ?thesis
    by (auto simp: Classify_def ValidateClassificationRules_def rule_problems_clean)
qed

lemma classify_builtin_first:
  "(\<forall>k<length rs. \<not> MatchString (fst (rs ! k)) t) \<longleftrightarrow> classify_builtin t i rs = None"
  by (induction t i rs rule: classify_builtin.induct) (auto simp: nth_Cons split: nat.splits)

lemma builtin_stopping_class:
  "(r, k, w) \<in> set builtinRules \<Longrightarrow> pol_stopsRun (PolicyFor k) \<Longrightarrow> r = fst (builtinRules ! 0)"
  by (auto simp: builtinRules_def)

lemma builtin_second_writer:
  "fst (builtinRules ! 0) =
     alts [seqs [lit_i ''another session '', alts [lit_i ''owns'', lit_i ''took ownership'']],
           lit_i ''worktree already has a live owner'',
           seqs [lit_i ''fence '', alts [lit_i ''branch-changed'', lit_i ''head-moved'', lit_i ''owner-lost'']]]"
  by (simp add: builtinRules_def)

section \<open>Properties\<close>

text \<open>Every failure class has between one and five attempts, and the delay before each further
  attempt never shrinks, is never negative and is capped by the class's maximum, at most five minutes.\<close>

theorem backoff_bounded:
  "1 \<le> pol_maxAttempts (PolicyFor c) \<and> pol_maxAttempts (PolicyFor c) \<le> 5
   \<and> 0 \<le> Backoff (PolicyFor c) n \<and> Backoff (PolicyFor c) n \<le> Backoff (PolicyFor c) (n + 1)
   \<and> Backoff (PolicyFor c) n \<le> pol_maxBackoff (PolicyFor c)
   \<and> pol_maxBackoff (PolicyFor c) \<le> seconds 300"
proof -
  have max0: "0 \<le> pol_maxBackoff (PolicyFor c)" using PolicyFor_backoff_range[of c] by linarith
  have "Backoff (PolicyFor c) n \<le> pol_maxBackoff (PolicyFor c)"
  proof (cases "0 < pol_maxBackoff (PolicyFor c)")
    case False
    then have "pol_baseBackoff (PolicyFor c) \<le> 0" using PolicyFor_backoff_range[of c] by linarith
    then show ?thesis using max0 by (simp add: Backoff_def)
  qed (rule Backoff_le_max)
  then show ?thesis
    using PolicyFor_attempts[of c] PolicyFor_backoff_range[of c] Backoff_nonneg[OF max0]
      Backoff_mono[of n "n + 1"] by simp
qed

text \<open>With validated project rules the classifier always answers with a declared class. The answer
  is that of the first project rule that matches, whatever the built-in rules say. With no project rule
  matching, only the built-in signature of a second writer can yield a class that stops the run: text no
  signature matches is ordinary work.\<close>

theorem classification_cautious:
  assumes "ValidateClassificationRules compile rules = []"
  shows "FailureClass_Valid (cl_class (Classify compile t rules)) \<and>
    (\<forall>k<length rules. (\<exists>m. compile (cr_pattern (rules ! k)) = Some m \<and> m t) \<and>
        (\<forall>j<k. \<forall>m. compile (cr_pattern (rules ! j)) = Some m \<longrightarrow> \<not> m t) \<longrightarrow>
        cl_class (Classify compile t rules) = cr_class (rules ! k)) \<and>
    ((\<forall>r\<in>set rules. \<forall>m. compile (cr_pattern r) = Some m \<longrightarrow> \<not> m t) \<and>
        pol_stopsRun (PolicyFor (cl_class (Classify compile t rules))) \<longrightarrow>
        MatchString (fst (builtinRules ! 0)) t)"
proof (intro conjI allI impI)
  show "FailureClass_Valid (cl_class (Classify compile t rules))" using assms by (rule Classify_valid)
next
  let ?P = "\<lambda>r. \<exists>m. compile (cr_pattern r) = Some m \<and> m t"
  fix k assume "k < length rules" and k: "?P (rules ! k) \<and>
      (\<forall>j<k. \<forall>m. compile (cr_pattern (rules ! j)) = Some m \<longrightarrow> \<not> m t)"
  then obtain i where i: "find_index ?P rules = Some i" using find_index_Some_ex[of ?P rules] by fastforce
  then have "i = k" using find_index_SomeD[OF i] k by (metis linorder_neqE_nat)
  with i show "cl_class (Classify compile t rules) = cr_class (rules ! k)"
    by (simp add: Classify_def classify_spec_first)
next
  assume *: "(\<forall>r\<in>set rules. \<forall>m. compile (cr_pattern r) = Some m \<longrightarrow> \<not> m t) \<and>
      pol_stopsRun (PolicyFor (cl_class (Classify compile t rules)))"
  then have none: "classify_spec compile t 0 rules = None"
    by (auto simp: classify_spec_first split: option.splits dest: find_index_SomeD(1,2))
  show "MatchString (fst (builtinRules ! 0)) t"
  proof (cases "classify_builtin t 0 builtinRules")
    case (Some c)
    with none * classify_builtin_class[OF Some] builtin_stopping_class show ?thesis
      by (fastforce simp: Classify_def)
  qed (use none * in \<open>simp add: Classify_def\<close>)
qed

theorem classification_cautious_witness:
  "let rules = [\<lparr>cr_pattern = ''quota'', cr_class = FailureExternalService, cr_reason = []\<rparr>];
       compile = (\<lambda>p. Some (\<lambda>s. Contains s p))
   in cl_class (Classify compile ''quota exceeded'' rules) = FailureExternalService
      \<and> \<not> pol_stopsRun (PolicyFor (cl_class (Classify compile ''EOF'' rules)))"
proof -
  let ?rules = "[\<lparr>cr_pattern = ''quota'', cr_class = FailureExternalService, cr_reason = []\<rparr>]"
  let ?compile = "\<lambda>p. Some (\<lambda>s. Contains s p)"
  have v: "ValidateClassificationRules ?compile ?rules = []" by code_simp
  have m: "\<not> MatchString (fst (builtinRules ! 0)) ''EOF''" unfolding builtin_second_writer by code_simp
  show ?thesis
    using classification_cautious[OF v, of "''quota exceeded''"]
      classification_cautious[OF v, of "''EOF''"] m by (simp add: Let_def)
qed

end
