(* ===== verification/Journal.thy ===== *)
theory Journal
  imports Failure
begin

text \<open>
  The run journal (\<^verbatim>\<open>internal/unattended/journal.go\<close>) and the outcomes of a run
  (\<^verbatim>\<open>progress.go\<close>).

  A journal file is its bytes. \<^verbatim>\<open>ReadJournal\<close> scans them as \<^verbatim>\<open>bufio.Scanner\<close> does, with its line
  limit, and decodes each line; the JSON codec of a record is a pair of parameters \<open>enc\<close> and \<open>dec\<close>, and
  what the code relies on of them is stated of the records in play (\<open>codec_ok\<close>). An open journal
  (\<open>Journal\<close>) has the records that are durable beside the sequence number; \<open>Append\<close> is told whether its
  write reached the file. Times and durations are left out: nothing reads them back.
\<close>

section \<open>Records\<close>

datatype RecordKind =
    RecordRunStarted | RecordPreflight | RecordLockAcquired | RecordFenceTaken
  | RecordFenceVerified | RecordFenceViolated | RecordFenceAdvanced
  | RecordTaskStarted | RecordTaskSucceeded | RecordTaskFailed | RecordTaskHeld
  | RecordTaskRetry | RecordTaskResumed | RecordGateEvidence | RecordRunFinished
  | RecordKindOther string

record Record =
  r_seq :: int
  r_kind :: RecordKind
  r_runID :: string
  r_taskID :: string
  r_attempt :: int
  r_class :: FailureClass
  r_outcome :: string
  r_detail :: string
  r_gate :: "GateEvidence option"

text \<open>A record with the zero value in every field but the kind: what a composite literal that names
  some fields starts from.\<close>

definition new_record :: "RecordKind \<Rightarrow> Record" where
  "new_record k =
     \<lparr>r_seq = 0, r_kind = k, r_runID = [], r_taskID = [], r_attempt = 0, r_class = FailureOther [],
      r_outcome = [], r_detail = [], r_gate = None\<rparr>"

datatype RunOutcome =
  RunCompleted | RunBlockedHuman | RunAwaitingAuth | RunFailed | RunOutcomeOther string

fun RunOutcome_text :: "RunOutcome \<Rightarrow> string" where
  "RunOutcome_text RunCompleted = ''completed''"
| "RunOutcome_text RunBlockedHuman = ''blocked-human''"
| "RunOutcome_text RunAwaitingAuth = ''awaiting-auth''"
| "RunOutcome_text RunFailed = ''failed''"
| "RunOutcome_text (RunOutcomeOther s) = s"

definition RunOutcome_of :: "string \<Rightarrow> RunOutcome" where
  "RunOutcome_of s =
     (if s = ''completed'' then RunCompleted
      else if s = ''blocked-human'' then RunBlockedHuman
      else if s = ''awaiting-auth'' then RunAwaitingAuth
      else if s = ''failed'' then RunFailed
      else RunOutcomeOther s)"

definition NeedsAttention :: "RunOutcome \<Rightarrow> bool" where
  "NeedsAttention o' = (o' \<noteq> RunCompleted)"

section \<open>The open journal\<close>

record Journal =
  j_runID :: string
  j_seq :: int
  j_log :: "Record list"

definition Append :: "bool \<Rightarrow> Journal \<Rightarrow> Record \<Rightarrow> Journal \<times> Record" where
  "Append durable j r =
     (let s = j_seq j + 1;
          r' = r\<lparr>r_seq := s, r_runID := (if r_runID r = [] then j_runID j else r_runID r)\<rparr>
      in (j\<lparr>j_seq := s, j_log := (if durable then j_log j @ [r'] else j_log j)\<rparr>, r'))"

section \<open>The journal file\<close>

datatype jfile = FileMissing | FileUnreadable string | FileContent string

definition max_line :: nat where
  "max_line = 4 * 1024 * 1024"

datatype journal_error = JournalOpen string | JournalLineTooLong | JournalCorrupt nat

fun collect_records ::
  "nat \<Rightarrow> Record option list \<Rightarrow> Record list \<Rightarrow> journal_error + (Record list \<times> bool)" where
  "collect_records i [] recs = Inr (recs, False)"
| "collect_records i (Some r # ls) recs = collect_records (Suc i) ls (recs @ [r])"
| "collect_records i (None # ls) recs =
     (if ls = [] then Inr (recs, True) else Inl (JournalCorrupt (Suc i)))"

definition ReadJournal ::
  "(string \<Rightarrow> Record option) \<Rightarrow> jfile \<Rightarrow> journal_error + (Record list \<times> bool)" where
  "ReadJournal dec f =
     (case f of
        FileMissing \<Rightarrow> Inr ([], False)
      | FileUnreadable e \<Rightarrow> Inl (JournalOpen e)
      | FileContent s \<Rightarrow>
          if list_ex (\<lambda>l. length l \<ge> max_line) (raw_lines s) then Inl JournalLineTooLong
          else collect_records 0 (map dec (filter (\<lambda>l. \<not> blank l) (map drop_cr (raw_lines s)))) [])"

text \<open>\<^verbatim>\<open>OpenJournal\<close>: the sequence goes on from the highest durable number. \<open>io_error\<close> is the error
  of creating the directory or of opening the file to append, if there is one.\<close>

definition OpenJournal ::
  "(string \<Rightarrow> Record option) \<Rightarrow> jfile \<Rightarrow> string \<Rightarrow> string option \<Rightarrow> journal_error + Journal" where
  "OpenJournal dec f runID io_error =
     (case ReadJournal dec f of
        Inl e \<Rightarrow> Inl e
      | Inr (existing, _) \<Rightarrow>
          (case io_error of
             Some e \<Rightarrow> Inl (JournalOpen e)
           | None \<Rightarrow>
               Inr \<lparr>j_runID = runID, j_seq = foldl (\<lambda>s r. if r_seq r > s then r_seq r else s) 0 existing,
                    j_log = existing\<rparr>))"

text \<open>What a successful \<^verbatim>\<open>Append\<close> adds to the file.\<close>

definition append_line :: "(Record \<Rightarrow> string) \<Rightarrow> string \<Rightarrow> Record \<Rightarrow> string" where
  "append_line enc s r = s @ enc r @ newline"

section \<open>Replay\<close>

record ResumeState =
  rs_succeeded :: "string set"
  rs_attempts :: "string \<rightharpoonup> int"
  rs_resumes :: "string \<rightharpoonup> int"
  rs_interrupted :: "string set"
  rs_gates :: ledger
  rs_finished :: bool
  rs_finalOutcome :: RunOutcome
  rs_lastSeq :: int

definition count_of :: "(string \<rightharpoonup> int) \<Rightarrow> string \<Rightarrow> int" where
  "count_of m k = (case m k of None \<Rightarrow> 0 | Some n \<Rightarrow> n)"

definition no_history :: ResumeState where
  "no_history =
     \<lparr>rs_succeeded = {}, rs_attempts = Map.empty, rs_resumes = Map.empty, rs_interrupted = {},
      rs_gates = Map.empty, rs_finished = False, rs_finalOutcome = RunOutcomeOther [], rs_lastSeq = 0\<rparr>"

text \<open>The switch on the kind of one of the run's own records.\<close>

definition replay_own :: "ResumeState \<Rightarrow> Record \<Rightarrow> ResumeState" where
  "replay_own st r =
     (let t = r_taskID r in
      case r_kind r of
        RecordTaskStarted \<Rightarrow>
          st\<lparr>rs_interrupted := insert t (rs_interrupted st),
             rs_attempts := (rs_attempts st)(t \<mapsto> count_of (rs_attempts st) t + 1)\<rparr>
      | RecordTaskSucceeded \<Rightarrow>
          st\<lparr>rs_succeeded := insert t (rs_succeeded st), rs_interrupted := rs_interrupted st - {t}\<rparr>
      | RecordTaskResumed \<Rightarrow>
          st\<lparr>rs_resumes := (rs_resumes st)(t \<mapsto> count_of (rs_resumes st) t + 1),
             rs_attempts :=
               (if count_of (rs_attempts st) t > 0
                then (rs_attempts st)(t \<mapsto> count_of (rs_attempts st) t - 1) else rs_attempts st)\<rparr>
      | RecordTaskFailed \<Rightarrow> st\<lparr>rs_interrupted := rs_interrupted st - {t}\<rparr>
      | RecordTaskHeld \<Rightarrow> st\<lparr>rs_interrupted := rs_interrupted st - {t}\<rparr>
      | RecordGateEvidence \<Rightarrow>
          (case r_gate r of
             None \<Rightarrow> st
           | Some e \<Rightarrow>
               if ge_gateID e = [] then st else st\<lparr>rs_gates := ledger_merge (rs_gates st) e\<rparr>)
      | RecordRunFinished \<Rightarrow>
          st\<lparr>rs_finished := True, rs_finalOutcome := RunOutcome_of (r_outcome r)\<rparr>
      | _ \<Rightarrow> st)"

definition replay_step :: "string \<Rightarrow> ResumeState \<Rightarrow> Record \<Rightarrow> ResumeState" where
  "replay_step runID st r =
     (let st' = (if r_seq r > rs_lastSeq st then st\<lparr>rs_lastSeq := r_seq r\<rparr> else st)
      in if r_runID r \<noteq> runID then st' else replay_own st' r)"

definition Replay :: "Record list \<Rightarrow> string \<Rightarrow> ResumeState" where
  "Replay records runID = foldl (replay_step runID) no_history records"

section \<open>Lemmas on the file\<close>

text \<open>What the code relies on of the JSON of a record: it is one line, not blank, short enough for the
  scanner, and decodes to the record.\<close>

definition codec_ok :: "(Record \<Rightarrow> string) \<Rightarrow> (string \<Rightarrow> Record option) \<Rightarrow> Record \<Rightarrow> bool" where
  "codec_ok enc dec r \<longleftrightarrow>
     dec (enc r) = Some r \<and> CHR 0x0A \<notin> set (enc r) \<and> CHR 0x0D \<notin> set (enc r) \<and>
     \<not> blank (enc r) \<and> length (enc r) < max_line"

lemma Split_clean: "d \<notin> set w \<Longrightarrow> Split d w = [w]"
  by (induction w) auto

lemma Split_append_line: "d \<notin> set w \<Longrightarrow> Split d (w @ d # s) = w # Split d s"
  by (induction w) auto

lemma raw_lines_Nil [simp]: "raw_lines [] = []"
  by (simp add: raw_lines_def)

lemma raw_lines_unterminated:
  "CHR 0x0A \<notin> set p \<Longrightarrow> raw_lines p = (if p = [] then [] else [p])"
  by (simp add: raw_lines_def Split_clean)

lemma raw_lines_line:
  "CHR 0x0A \<notin> set w \<Longrightarrow> raw_lines (w @ newline @ s) = w # raw_lines s"
  by (simp add: raw_lines_def newline_def Split_append_line Let_def)

definition file_of :: "(Record \<Rightarrow> string) \<Rightarrow> Record list \<Rightarrow> string" where
  "file_of enc rs = concat (map (\<lambda>r. enc r @ newline) rs)"

lemma foldl_append_line: "foldl (append_line enc) s ss = s @ file_of enc ss"
  by (induction ss arbitrary: s) (simp_all add: append_line_def file_of_def)

lemma file_of_append: "foldl (append_line enc) (file_of enc rs) ss = file_of enc (rs @ ss)"
  by (simp add: foldl_append_line file_of_def append_line_def)

lemma raw_lines_file_of:
  "\<forall>r\<in>set rs. codec_ok enc dec r \<Longrightarrow> raw_lines (file_of enc rs @ t) = map enc rs @ raw_lines t"
  by (induction rs) (auto simp: file_of_def codec_ok_def raw_lines_line)

lemma drop_cr_clean: "CHR 0x0D \<notin> set l \<Longrightarrow> drop_cr l = l"
  by (auto simp: drop_cr_def dest: last_in_set)

lemma codec_lines:
  assumes "\<forall>r\<in>set rs. codec_ok enc dec r"
  shows "filter (\<lambda>l. \<not> blank l) (map drop_cr (map enc rs)) = map enc rs"
    and "map dec (map enc rs) = map Some rs"
    and "\<not> list_ex (\<lambda>l. length l \<ge> max_line) (map enc rs)"
  using assms by (induction rs) (auto simp: codec_ok_def drop_cr_clean)

lemma collect_records_Some:
  "collect_records i (map Some rs @ ls) recs = collect_records (i + length rs) ls (recs @ rs)"
  by (induction rs arbitrary: i recs) auto

lemma ReadJournal_prefix:
  assumes "\<forall>r\<in>set rs. codec_ok enc dec r" and "\<not> list_ex (\<lambda>l. length l \<ge> max_line) (raw_lines t)"
  shows "ReadJournal dec (FileContent (file_of enc rs @ t)) =
    collect_records (length rs) (map dec (filter (\<lambda>l. \<not> blank l) (map drop_cr (raw_lines t)))) rs"
proof -
  have "\<not> list_ex (\<lambda>l. length l \<ge> max_line) (map enc rs @ raw_lines t)"
    using assms(2) codec_lines(3)[OF assms(1)] by simp
  moreover have "map dec (filter (\<lambda>l. \<not> blank l) (map drop_cr (map enc rs @ raw_lines t))) =
      map Some rs @ map dec (filter (\<lambda>l. \<not> blank l) (map drop_cr (raw_lines t)))"
    using codec_lines(1,2)[OF assms(1)] by (simp only: map_append filter_append)
  ultimately show ?thesis
    by (simp add: ReadJournal_def raw_lines_file_of[OF assms(1)] collect_records_Some del: map_append list_ex_append)
qed

section \<open>Lemmas on replay\<close>

lemma Replay_append: "Replay (rs @ ss) run = foldl (replay_step run) (Replay rs run) ss"
  by (simp add: Replay_def)

lemma Replay_snoc: "Replay (rs @ [r]) run = replay_step run (Replay rs run) r"
  by (simp add: Replay_def)

lemma replay_own_lastSeq [simp]: "rs_lastSeq (replay_own st r) = rs_lastSeq st"
  by (simp add: replay_own_def Let_def split: RecordKind.split option.split)

lemma Replay_lastSeq: "rs_lastSeq (Replay rs run) = foldl (\<lambda>s r. if r_seq r > s then r_seq r else s) 0 rs"
proof (induction rs rule: rev_induct)
  case (snoc r rs)
  then show ?case by (simp add: Replay_snoc replay_step_def Let_def)
qed (simp add: Replay_def no_history_def)

text \<open>Replaying a whole project's journal is replaying the run's own records, but for the sequence
  number.\<close>

lemma replay_own_lastSeq_upd:
  "replay_own (st\<lparr>rs_lastSeq := n\<rparr>) r = (replay_own st r)\<lparr>rs_lastSeq := n\<rparr>"
  by (simp add: replay_own_def Let_def split: RecordKind.split option.split)

lemma Replay_own:
  "(Replay rs run)\<lparr>rs_lastSeq := n\<rparr> =
     (foldl replay_own no_history (filter (\<lambda>r. r_runID r = run) rs))\<lparr>rs_lastSeq := n\<rparr>"
proof (induction rs arbitrary: n rule: rev_induct)
  case (snoc r rs)
  let ?o = "foldl replay_own no_history (filter (\<lambda>r. r_runID r = run) rs)"
  have "(replay_own (Replay rs run) r)\<lparr>rs_lastSeq := n\<rparr> = replay_own ((Replay rs run)\<lparr>rs_lastSeq := n\<rparr>) r"
    by (simp add: replay_own_lastSeq_upd)
  also have "\<dots> = (replay_own ?o r)\<lparr>rs_lastSeq := n\<rparr>"
    using snoc[of n] by (simp add: replay_own_lastSeq_upd)
  finally show ?case
    using snoc[of n] by (simp add: Replay_snoc replay_step_def Let_def replay_own_lastSeq_upd)
qed (simp add: Replay_def)

lemma replay_step_fields:
  "rs_succeeded (replay_step run st r) =
     (if r_runID r = run \<and> r_kind r = RecordTaskSucceeded then insert (r_taskID r) (rs_succeeded st)
      else rs_succeeded st)"
  "rs_gates (replay_step run st r) =
     (if r_runID r = run \<and> r_kind r = RecordGateEvidence
      then case r_gate r of None \<Rightarrow> rs_gates st
           | Some e \<Rightarrow> if ge_gateID e = [] then rs_gates st else ledger_merge (rs_gates st) e
      else rs_gates st)"
  "count_of (rs_resumes (replay_step run st r)) t =
     (if r_runID r = run \<and> r_kind r = RecordTaskResumed \<and> r_taskID r = t
      then count_of (rs_resumes st) t + 1 else count_of (rs_resumes st) t)"
  by (auto simp: replay_step_def replay_own_def Let_def count_of_def
      split: RecordKind.split option.split)

lemma Replay_succeeded:
  "t \<in> rs_succeeded (Replay rs run) \<longleftrightarrow>
     (\<exists>r\<in>set rs. r_runID r = run \<and> r_kind r = RecordTaskSucceeded \<and> r_taskID r = t)"
  by (induction rs rule: rev_induct)
    (auto simp: Replay_snoc replay_step_fields, simp add: Replay_def no_history_def)

lemma Replay_resumes:
  "count_of (rs_resumes (Replay rs run)) t =
     int (length (filter (\<lambda>r. r_runID r = run \<and> r_kind r = RecordTaskResumed \<and> r_taskID r = t) rs))"
  by (induction rs rule: rev_induct)
    (auto simp: Replay_snoc replay_step_fields, simp add: Replay_def no_history_def count_of_def)

lemma Replay_attempts_nonneg: "0 \<le> count_of (rs_attempts (Replay rs run)) t"
proof (induction rs rule: rev_induct)
  case (snoc r rs)
  then show ?case
    by (auto simp: Replay_snoc replay_step_def replay_own_def Let_def count_of_def
        split: RecordKind.split option.split if_splits)
qed (simp add: Replay_def no_history_def count_of_def)

lemma Replay_gates_wf: "ledger_wf (rs_gates (Replay rs run))"
proof (induction rs rule: rev_induct)
  case (snoc r rs)
  then show ?case
    by (auto simp: Replay_snoc replay_step_fields ledger_wf_merge split: option.split)
qed (simp add: Replay_def no_history_def)

lemma raw_lines_glued:
  assumes "CHR 0x0A \<notin> set p" and "\<forall>r\<in>set rs. codec_ok enc dec r" and "rs \<noteq> []"
  shows "raw_lines (foldl (append_line enc) p rs) = (p @ enc (hd rs)) # map enc (tl rs)"
proof -
  obtain r rs' where rs: "rs = r # rs'" using assms(3) by (cases rs) auto
  have "foldl (append_line enc) p rs = (p @ enc r) @ newline @ file_of enc rs'"
    using rs by (simp add: foldl_append_line file_of_def append_line_def)
  moreover have "CHR 0x0A \<notin> set (p @ enc r)" using assms rs by (auto simp: codec_ok_def)
  note raw_lines_line[OF this, of "file_of enc rs'"]
  moreover have "raw_lines (file_of enc rs') = map enc rs'"
    using raw_lines_file_of[of rs' enc dec "[]"] assms(2) rs by simp
  ultimately show ?thesis using rs by simp
qed

section \<open>Properties\<close>

text \<open>C29. Reading a journal back gives exactly the records appended to it; and when a crash left a
  fragment of a record at its end, reading drops the fragment, reports it, and still gives every
  durable record.\<close>

theorem journal_roundtrip:
  assumes "\<forall>r\<in>set (rs @ ss). codec_ok enc dec r"
    and "dec p = None" and "\<not> blank p" and "CHR 0x0A \<notin> set p" and "CHR 0x0D \<notin> set p"
    and "length p < max_line"
  shows "ReadJournal dec (FileContent (foldl (append_line enc) (file_of enc rs) ss)) = Inr (rs @ ss, False) \<and>
    ReadJournal dec (FileContent (foldl (append_line enc) (file_of enc rs) ss @ p)) = Inr (rs @ ss, True)"
proof -
  have "p \<noteq> []" using assms(3) by auto
  then have "raw_lines p = [p]" using assms(4) by (simp add: raw_lines_unterminated)
  then show ?thesis
    using ReadJournal_prefix[OF assms(1), of "[]"] ReadJournal_prefix[OF assms(1), of p] assms
    by (simp add: file_of_append drop_cr_clean)
qed

theorem journal_roundtrip_witness:
  "let r = new_record RecordRunStarted; enc = (\<lambda>r. ''{1}''); dec = (\<lambda>s. if s = ''{1}'' then Some r else None)
   in ReadJournal dec (FileContent (foldl (append_line enc) (file_of enc [r]) [] @ ''{'')) = Inr ([r], True)"
proof -
  let ?r = "new_record RecordRunStarted" and ?enc = "\<lambda>r :: Record. ''{1}''"
  let ?dec = "\<lambda>s. if s = ''{1}'' then Some ?r else None"
  have b: "\<not> blank ''{1}''" "\<not> blank ''{''" by code_simp+
  show ?thesis
    using journal_roundtrip[of "[?r]" "[]" ?enc ?dec "''{''"] b by (simp add: Let_def codec_ok_def max_line_def)
qed

text \<open>C35. The fragment a crash leaves is read past once and then poisons the journal: nothing ends the
  fragment's line before the resumed run appends, so its first record is glued to the fragment. The
  journal the resumed run opened is readable; after that run's second record it is refused as corrupt,
  and so are all later states of it.\<close>

theorem torn_tail_poisons_resumed_journal:
  assumes "\<forall>r\<in>set (rs @ r1 # r2 # qs). codec_ok enc dec r"
    and "dec p = None" and "\<not> blank p" and "CHR 0x0A \<notin> set p" and "CHR 0x0D \<notin> set p"
    and "length (p @ enc r1) < max_line" and "dec (p @ enc r1) = None" and "\<not> blank (p @ enc r1)"
  shows "ReadJournal dec (FileContent (file_of enc rs @ p)) = Inr (rs, True) \<and>
    ReadJournal dec (FileContent (foldl (append_line enc) (file_of enc rs @ p) (r1 # r2 # qs))) =
      Inl (JournalCorrupt (Suc (length rs)))"
proof
  have rs: "\<forall>r\<in>set rs. codec_ok enc dec r" using assms(1) by simp
  have "p \<noteq> []" using assms(3) by auto
  then have "raw_lines p = [p]" using assms(4) by (simp add: raw_lines_unterminated)
  then show "ReadJournal dec (FileContent (file_of enc rs @ p)) = Inr (rs, True)"
    using ReadJournal_prefix[OF rs, of p] assms by (simp add: drop_cr_clean)
  let ?t = "foldl (append_line enc) p (r1 # r2 # qs)"
  have glued: "raw_lines ?t = (p @ enc r1) # map enc (r2 # qs)"
    using raw_lines_glued[of p "r1 # r2 # qs" enc dec] assms(1,4) by simp
  have ok: "\<forall>r\<in>set (r2 # qs). codec_ok enc dec r" using assms(1) by simp
  have cr: "CHR 0x0D \<notin> set (p @ enc r1)" using assms(1,5) by (simp add: codec_ok_def)
  have short: "\<not> list_ex (\<lambda>l. length l \<ge> max_line) (raw_lines ?t)"
    using codec_lines(3)[OF ok] assms(6) unfolding glued by simp
  have "filter (\<lambda>l. \<not> blank l) (map drop_cr (raw_lines ?t)) = (p @ enc r1) # map enc (r2 # qs)"
    unfolding glued list.map(2)[of drop_cr "p @ enc r1"]
    using codec_lines(1)[OF ok] assms(8) by (simp only: drop_cr_clean[OF cr] filter.simps if_True not_False_eq_True)
  then have "ReadJournal dec (FileContent (file_of enc rs @ ?t)) =
      collect_records (length rs) (map dec ((p @ enc r1) # map enc (r2 # qs))) rs"
    using ReadJournal_prefix[OF rs short] by (simp only:)
  then show "ReadJournal dec (FileContent (foldl (append_line enc) (file_of enc rs @ p) (r1 # r2 # qs))) =
      Inl (JournalCorrupt (Suc (length rs)))"
    using assms(7) by (simp add: foldl_append_line append_line_def)
qed

theorem torn_tail_poisons_resumed_journal_witness:
  "let r = new_record RecordRunStarted; enc = (\<lambda>r. ''{1}''); dec = (\<lambda>s. if s = ''{1}'' then Some r else None)
   in ReadJournal dec (FileContent (file_of enc [r] @ ''{'')) = Inr ([r], True) \<and>
      ReadJournal dec (FileContent (foldl (append_line enc) (file_of enc [r] @ ''{'') [r, r])) =
        Inl (JournalCorrupt 2)"
proof -
  let ?r = "new_record RecordRunStarted" and ?enc = "\<lambda>r :: Record. ''{1}''"
  let ?dec = "\<lambda>s. if s = ''{1}'' then Some ?r else None"
  have b: "\<not> blank ''{1}''" "\<not> blank ''{''" "\<not> blank ''{{1}''" by code_simp+
  show ?thesis
    using torn_tail_poisons_resumed_journal[of "[?r]" ?r ?r "[]" ?enc ?dec "''{''"] b
    by (simp add: Let_def codec_ok_def max_line_def)
qed

text \<open>A run resumes from its own history only: records of other runs in the same journal change
  nothing but the sequence number. A task counts as succeeded exactly when this run recorded its
  success, and its resumes are exactly the resumes this run recorded.\<close>

theorem replay_isolates_runs:
  "(Replay rs run)\<lparr>rs_lastSeq := 0\<rparr> = (Replay (filter (\<lambda>r. r_runID r = run) rs) run)\<lparr>rs_lastSeq := 0\<rparr>
   \<and> (t \<in> rs_succeeded (Replay rs run) \<longleftrightarrow>
        (\<exists>r\<in>set rs. r_runID r = run \<and> r_kind r = RecordTaskSucceeded \<and> r_taskID r = t))
   \<and> count_of (rs_resumes (Replay rs run)) t =
        int (length (filter (\<lambda>r. r_runID r = run \<and> r_kind r = RecordTaskResumed \<and> r_taskID r = t) rs))
   \<and> (\<forall>r\<in>set rs. r_seq r \<le> rs_lastSeq (Replay rs run))"
proof -
  have "\<forall>r\<in>set rs. r_seq r \<le> foldl (\<lambda>s r. if r_seq r > s then r_seq r else s) n rs" for n
    by (induction rs rule: rev_induct) force+
  then show ?thesis
    by (simp add: Replay_own Replay_succeeded Replay_resumes Replay_lastSeq)
qed

theorem replay_isolates_runs_witness:
  "let other = (new_record RecordTaskSucceeded)\<lparr>r_runID := ''b'', r_taskID := ''build'', r_seq := 7\<rparr>
   in ''build'' \<notin> rs_succeeded (Replay [other] ''a'') \<and> 7 \<le> rs_lastSeq (Replay [other] ''a'')"
  using replay_isolates_runs[of
      "[(new_record RecordTaskSucceeded)\<lparr>r_runID := ''b'', r_taskID := ''build'', r_seq := 7\<rparr>]" "''a''" "''build''"]
  by (simp add: Let_def)

end
