(* ===== verification/Dep_Graph.thy ===== *)
theory Dep_Graph
  imports Go_Prelude
begin

text \<open>
  The depth-first search for a dependency cycle. The code has it twice, word for word:
  \<^verbatim>\<open>findTaskCycle\<close> in \<^verbatim>\<open>internal/unattended/plan.go\<close> over tasks and their needs, and
  \<^verbatim>\<open>findCycle\<close> in \<^verbatim>\<open>internal/handoff/plan.go\<close> over packages and their dependencies; both are
  instances of \<open>find_cycle\<close> here.

  The closure \<^verbatim>\<open>walk\<close> mutates the captured \<^verbatim>\<open>color\<close> map and \<^verbatim>\<open>stack\<close>, so it is state
  passing over the record \<open>dfs\<close>, mutually recursive with the loop over the successors. Its depth is
  bounded by fuel, and running out of fuel is \<open>None\<close>. Each nested call paints a white node of the
  graph grey, so as much fuel as there are nodes is enough (\<open>find_cycle_total\<close>). The result is the
  text of the cycle, empty when there is none.
\<close>

datatype color = White | Grey | Black

record dfs =
  d_color :: "string \<Rightarrow> color"
  d_stack :: "string list"

type_synonym deps = "string \<rightharpoonup> string list"

definition deps_of :: "deps \<Rightarrow> string \<Rightarrow> string list" where
  "deps_of d i = (case d i of None \<Rightarrow> [] | Some ns \<Rightarrow> ns)"

fun walk :: "nat \<Rightarrow> deps \<Rightarrow> string \<Rightarrow> dfs \<Rightarrow> (string \<times> dfs) option"
  and walk_nexts :: "nat \<Rightarrow> deps \<Rightarrow> string list \<Rightarrow> dfs \<Rightarrow> (string \<times> dfs) option" where
  "walk 0 d i s = None"
| "walk (Suc n) d i s =
     (case walk_nexts n d (deps_of d i)
             \<lparr>d_color = (d_color s)(i := Grey), d_stack = d_stack s @ [i]\<rparr> of
        None \<Rightarrow> None
      | Some (c, s') \<Rightarrow>
          if c \<noteq> [] then Some (c, s')
          else Some ([], \<lparr>d_color = (d_color s')(i := Black), d_stack = butlast (d_stack s')\<rparr>))"
| "walk_nexts n d [] s = Some ([], s)"
| "walk_nexts n d (x # xs) s =
     (if d x = None then walk_nexts n d xs s
      else case d_color s x of
        Grey \<Rightarrow> Some (Join (d_stack s @ [x]) '' -> '', s)
      | White \<Rightarrow>
          (case walk n d x s of
             None \<Rightarrow> None
           | Some (c, s') \<Rightarrow> if c \<noteq> [] then Some (c, s') else walk_nexts n d xs s')
      | Black \<Rightarrow> walk_nexts n d xs s)"

text \<open>The loop over all nodes in sorted order, starting a walk at each white one.\<close>

fun walk_roots :: "nat \<Rightarrow> deps \<Rightarrow> string list \<Rightarrow> dfs \<Rightarrow> (string \<times> dfs) option" where
  "walk_roots n d [] s = Some ([], s)"
| "walk_roots n d (i # ids) s =
     (if d_color s i = White then
        (case walk n d i s of
           None \<Rightarrow> None
         | Some (c, s') \<Rightarrow> if c \<noteq> [] then Some (c, s') else walk_roots n d ids s')
      else walk_roots n d ids s)"

definition build_deps :: "(string \<times> string list) list \<Rightarrow> deps" where
  "build_deps nodes = foldl (\<lambda>m (i, ns). m(i \<mapsto> ns)) Map.empty nodes"

definition find_cycle :: "(string \<times> string list) list \<Rightarrow> string option" where
  "find_cycle nodes =
     map_option fst
       (walk_roots (length nodes) (build_deps nodes) (sort (map fst nodes))
          \<lparr>d_color = (\<lambda>_. White), d_stack = []\<rparr>)"

section \<open>The graph\<close>

definition edges :: "deps \<Rightarrow> (string \<times> string) set" where
  "edges d = {(u, v). v \<in> set (deps_of d u) \<and> d v \<noteq> None}"

lemma edges_dom: "(u, v) \<in> edges d \<Longrightarrow> u \<in> dom d \<and> v \<in> dom d"
  by (cases "d u") (auto simp: edges_def deps_of_def)

lemma foldl_upd_dom:
  "dom (foldl (\<lambda>m (i, ns). m(i \<mapsto> ns)) m nodes) = dom m \<union> fst ` set nodes"
  by (induction nodes arbitrary: m) auto

lemma dom_build_deps: "dom (build_deps nodes) = fst ` set nodes"
  by (simp add: build_deps_def foldl_upd_dom)

lemma foldl_upd_distinct:
  "distinct (map fst nodes) \<Longrightarrow> (i, ns) \<in> set nodes \<Longrightarrow>
   foldl (\<lambda>m (i, ns). m(i \<mapsto> ns)) m nodes i = Some ns"
proof (induction nodes arbitrary: m rule: rev_induct)
  case (snoc x xs)
  then show ?case by (cases x) (auto simp: image_iff)
qed simp

lemma build_deps_distinct:
  "distinct (map fst nodes) \<Longrightarrow> (i, ns) \<in> set nodes \<Longrightarrow> build_deps nodes i = Some ns"
  by (simp add: build_deps_def foldl_upd_distinct)

definition blacks :: "dfs \<Rightarrow> string set" where "blacks s = {x. d_color s x = Black}"
definition whites :: "deps \<Rightarrow> dfs \<Rightarrow> string set" where
  "whites d s = {x \<in> dom d. d_color s x = White}"

lemma finite_whites: "finite (dom d) \<Longrightarrow> finite (whites d s)"
  by (rule finite_subset[of _ "dom d"]) (auto simp: whites_def)

text \<open>The invariant of the search: the stack is the grey nodes, in an order in which each has an edge
  to the next; the black nodes are closed under edges and on no cycle.\<close>

definition dfs_inv :: "deps \<Rightarrow> dfs \<Rightarrow> bool" where
  "dfs_inv d s =
     (set (d_stack s) = {x. d_color s x = Grey} \<and> distinct (d_stack s) \<and>
      successively (\<lambda>a b. (a, b) \<in> edges d) (d_stack s) \<and>
      edges d `` blacks s \<subseteq> blacks s \<and> (\<forall>u\<in>blacks s. (u, u) \<notin> (edges d)\<^sup>+))"

text \<open>What a search that found nothing leaves behind.\<close>

definition dfs_extends :: "deps \<Rightarrow> dfs \<Rightarrow> dfs \<Rightarrow> bool" where
  "dfs_extends d s s' =
     (dfs_inv d s' \<and> d_stack s' = d_stack s \<and> blacks s \<subseteq> blacks s' \<and> whites d s' \<subseteq> whites d s)"

lemma dfs_extends_refl: "dfs_inv d s \<Longrightarrow> dfs_extends d s s"
  by (simp add: dfs_extends_def)

lemma dfs_extends_trans: "dfs_extends d s s' \<Longrightarrow> dfs_extends d s' s'' \<Longrightarrow> dfs_extends d s s''"
  by (auto simp: dfs_extends_def)

lemma successively_path_last:
  "successively (\<lambda>a b. (a, b) \<in> r) xs \<Longrightarrow> x \<in> set xs \<Longrightarrow> (x, last xs) \<in> r\<^sup>*"
proof (induction xs arbitrary: x)
  case (Cons a xs)
  show ?case
  proof (cases xs)
    case Nil
    with Cons.prems show ?thesis by simp
  next
    case xs: (Cons b ys)
    have IH: "y \<in> set xs \<Longrightarrow> (y, last xs) \<in> r\<^sup>*" for y
      using Cons.IH[of y] Cons.prems(1) xs by (simp add: successively_Cons)
    have "(a, b) \<in> r" using Cons.prems(1) xs by simp
    with IH[of b] xs have "(a, last xs) \<in> r\<^sup>*" by (auto intro: converse_rtrancl_into_rtrancl)
    with IH xs Cons.prems(2) show ?thesis by auto
  qed
qed simp

lemma grey_closes_cycle:
  assumes "dfs_inv d s" "d_color s x = Grey" "(last (d_stack s), x) \<in> edges d"
  shows "\<not> acyclic (edges d)"
proof -
  have "(x, last (d_stack s)) \<in> (edges d)\<^sup>*"
    using assms(1,2) by (intro successively_path_last) (auto simp: dfs_inv_def)
  from this assms(3) have "(x, x) \<in> (edges d)\<^sup>+" by (rule rtrancl_into_trancl1)
  then show ?thesis by (auto simp: acyclic_def)
qed

lemma closed_trancl: "(u, v) \<in> r\<^sup>+ \<Longrightarrow> u \<in> B \<Longrightarrow> r `` B \<subseteq> B \<Longrightarrow> v \<in> B"
  by (induction rule: trancl_induct) auto

lemma no_cycle_at_finished:
  assumes "r `` {i} \<subseteq> B" "r `` B \<subseteq> B" "i \<notin> B"
  shows "(i, i) \<notin> r\<^sup>+"
proof
  assume "(i, i) \<in> r\<^sup>+"
  then obtain j where "(i, j) \<in> r" "(j, i) \<in> r\<^sup>*" by (meson tranclD)
  with assms closed_trancl[of j i r B] show False by (auto simp: rtrancl_eq_or_trancl)
qed

lemma enter_inv:
  assumes "dfs_inv d s" "d_color s i = White" "d_stack s = [] \<or> (last (d_stack s), i) \<in> edges d"
  shows "dfs_inv d \<lparr>d_color = (d_color s)(i := Grey), d_stack = d_stack s @ [i]\<rparr>" (is "dfs_inv d ?s")
proof -
  have b: "blacks ?s = blacks s" using assms(2) by (auto simp: blacks_def)
  have "i \<notin> set (d_stack s)" using assms(1,2) by (auto simp: dfs_inv_def)
  then show ?thesis
    using assms unfolding dfs_inv_def b by (auto simp: successively_append_iff)
qed

lemma leave_ext:
  assumes inv: "dfs_inv d s" and white: "d_color s i = White"
    and ext: "dfs_extends d \<lparr>d_color = (d_color s)(i := Grey), d_stack = d_stack s @ [i]\<rparr> s'"
    and finished: "\<forall>x\<in>set (deps_of d i). d x \<noteq> None \<longrightarrow> x \<in> blacks s'"
  shows "dfs_extends d s \<lparr>d_color = (d_color s')(i := Black), d_stack = butlast (d_stack s')\<rparr>"
    (is "dfs_extends d s ?t")
proof -
  have st: "d_stack s' = d_stack s @ [i]" and inv': "dfs_inv d s'"
    using ext by (auto simp: dfs_extends_def)
  have grey': "{x. d_color s' x = Grey} = insert i (set (d_stack s))"
    using inv' st by (auto simp: dfs_inv_def)
  have "d_color s' i = Grey" using grey' by auto
  then have ni: "i \<notin> set (d_stack s)" "i \<notin> blacks s'"
    using inv' st by (auto simp: dfs_inv_def blacks_def)
  have bl: "blacks ?t = insert i (blacks s')" by (auto simp: blacks_def)
  have succ: "edges d `` {i} \<subseteq> blacks s'" using finished by (auto simp: edges_def)
  have closed: "edges d `` blacks s' \<subseteq> blacks s'" using inv' by (simp add: dfs_inv_def)
  have "(i, i) \<notin> (edges d)\<^sup>+" using no_cycle_at_finished[OF succ closed ni(2)] .
  then have "dfs_inv d ?t"
    using inv' succ closed st grey' ni unfolding dfs_inv_def bl
    by (auto simp: successively_append_iff)
  moreover have "blacks s \<subseteq> blacks ?t" "whites d ?t \<subseteq> whites d s"
    using ext white unfolding bl by (auto simp: dfs_extends_def blacks_def whites_def split: if_splits)
  ultimately show ?thesis using st by (simp add: dfs_extends_def)
qed

lemma Join_snoc_nonempty: "xs \<noteq> [] \<Longrightarrow> Join (xs @ [x]) '' -> '' \<noteq> []"
  by (cases xs; cases "tl xs") auto

lemma whites_enter:
  assumes "d i \<noteq> None" "d_color s i = White" "finite (dom d)"
  shows "card (whites d s) = Suc (card (whites d \<lparr>d_color = (d_color s)(i := Grey), d_stack = st\<rparr>))"
proof -
  have "whites d s = insert i (whites d \<lparr>d_color = (d_color s)(i := Grey), d_stack = st\<rparr>)"
    using assms by (auto simp: whites_def)
  moreover have "i \<notin> whites d \<lparr>d_color = (d_color s)(i := Grey), d_stack = st\<rparr>"
    by (simp add: whites_def)
  ultimately show ?thesis using assms(3) by (simp add: whites_def)
qed

text \<open>What a call of the search gives: a verdict, with enough fuel; a cycle when the verdict is not
  empty; an extended state when it is.\<close>

definition dfs_result :: "deps \<Rightarrow> dfs \<Rightarrow> string set \<Rightarrow> (string \<times> dfs) option \<Rightarrow> bool" where
  "dfs_result d s fin r =
     (\<exists>c s'. r = Some (c, s') \<and>
        (c \<noteq> [] \<longrightarrow> \<not> acyclic (edges d)) \<and>
        (c = [] \<longrightarrow> dfs_extends d s s' \<and> fin \<subseteq> blacks s'))"

lemma dfs_result_Some [simp]:
  "dfs_result d s fin (Some (c, s')) \<longleftrightarrow>
     (c \<noteq> [] \<longrightarrow> \<not> acyclic (edges d)) \<and> (c = [] \<longrightarrow> dfs_extends d s s' \<and> fin \<subseteq> blacks s')"
  by (auto simp: dfs_result_def)

lemma dfs_resultE:
  assumes "dfs_result d s fin r"
  obtains c s' where "r = Some (c, s')" "c \<noteq> [] \<longrightarrow> \<not> acyclic (edges d)"
    "c = [] \<longrightarrow> dfs_extends d s s'" "c = [] \<longrightarrow> fin \<subseteq> blacks s'"
  using assms unfolding dfs_result_def by blast

lemma whites_mono_card:
  "dfs_extends d s s' \<Longrightarrow> finite (dom d) \<Longrightarrow> card (whites d s) \<le> n \<Longrightarrow> card (whites d s') \<le> n"
proof -
  assume "dfs_extends d s s'" "finite (dom d)" "card (whites d s) \<le> n"
  then have "card (whites d s') \<le> card (whites d s)"
    by (intro card_mono) (auto simp: dfs_extends_def whites_def)
  with \<open>card (whites d s) \<le> n\<close> show ?thesis by simp
qed

lemma dfs_result_seq:
  assumes "dfs_extends d s s'" "A \<subseteq> blacks s'" "dfs_result d s' B r"
  shows "dfs_result d s (A \<union> B) r"
proof -
  obtain c s2 where r: "r = Some (c, s2)" "c \<noteq> [] \<longrightarrow> \<not> acyclic (edges d)"
    "c = [] \<longrightarrow> dfs_extends d s' s2" "c = [] \<longrightarrow> B \<subseteq> blacks s2"
    using assms(3) by (rule dfs_resultE)
  have "c = [] \<longrightarrow> A \<subseteq> blacks s2" using assms(2) r(3) by (auto simp: dfs_extends_def)
  with r dfs_extends_trans[OF assms(1)] show ?thesis by auto
qed

lemma walk_correct:
  shows "finite (dom d) \<Longrightarrow> dfs_inv d s \<Longrightarrow> d_color s i = White \<Longrightarrow> d i \<noteq> None \<Longrightarrow>
      d_stack s = [] \<or> (last (d_stack s), i) \<in> edges d \<Longrightarrow> card (whites d s) \<le> n \<Longrightarrow>
      dfs_result d s {i} (walk n d i s)"
    and "finite (dom d) \<Longrightarrow> dfs_inv d s \<Longrightarrow> d_stack s \<noteq> [] \<Longrightarrow>
      \<forall>x\<in>set xs. d x \<noteq> None \<longrightarrow> (last (d_stack s), x) \<in> edges d \<Longrightarrow> card (whites d s) \<le> n \<Longrightarrow>
      dfs_result d s {x \<in> set xs. d x \<noteq> None} (walk_nexts n d xs s)"
proof (induction n d i s and n d xs s rule: walk_walk_nexts.induct)
  case (1 d i s)
  then have "i \<in> whites d s" by (auto simp: whites_def)
  with 1 finite_whites[of d s] show ?case by auto
next
  case (2 n d i s)
  let ?s = "\<lparr>d_color = (d_color s)(i := Grey), d_stack = d_stack s @ [i]\<rparr>"
  have "\<forall>x\<in>set (deps_of d i). d x \<noteq> None \<longrightarrow> (last (d_stack ?s), x) \<in> edges d"
    by (auto simp: edges_def)
  then have "dfs_result d ?s {x \<in> set (deps_of d i). d x \<noteq> None} (walk_nexts n d (deps_of d i) ?s)"
    using 2 enter_inv[of d s i] whites_enter[of d i s "d_stack s @ [i]"] by auto
  then obtain c s' where r: "walk_nexts n d (deps_of d i) ?s = Some (c, s')"
    "c \<noteq> [] \<longrightarrow> \<not> acyclic (edges d)" "c = [] \<longrightarrow> dfs_extends d ?s s'"
    "c = [] \<longrightarrow> {x \<in> set (deps_of d i). d x \<noteq> None} \<subseteq> blacks s'" by (rule dfs_resultE)
  show ?case
  proof (cases "c = []")
    case True
    then have "dfs_extends d s \<lparr>d_color = (d_color s')(i := Black), d_stack = butlast (d_stack s')\<rparr>"
      using r 2(3,4) leave_ext[of d s i s'] by blast
    with True r(1) show ?thesis by (simp add: blacks_def)
  qed (use r in simp)
next
  case (3 n d s)
  then show ?case by (simp add: dfs_extends_refl)
next
  case (4 n d x xs s)
  note IH_rest = 4(3)
  note fin = 4(5) and inv = 4(6) and st = 4(7) and succ = 4(8) and fuel = 4(9)
  let ?K = "\<lambda>ys. {y \<in> set ys. d y \<noteq> None}"
  show ?case
  proof (cases "d x = None")
    case True
    moreover have "?K (x # xs) = ?K xs" using True by auto
    ultimately show ?thesis using 4 by simp
  next
    case known: False
    then have K: "?K (x # xs) = {x} \<union> ?K xs" by auto
    show ?thesis
    proof (cases "d_color s x")
      case Grey
      then have "\<not> acyclic (edges d)" using inv succ known grey_closes_cycle by auto
      then show ?thesis using Grey known st Join_snoc_nonempty[of "d_stack s" x] by auto
    next
      case Black
      then have "dfs_result d s (?K xs) (walk_nexts n d xs s)" using 4 known by simp
      then have "dfs_result d s ({x} \<union> ?K xs) (walk_nexts n d xs s)"
        using Black inv by (intro dfs_result_seq[OF dfs_extends_refl]) (auto simp: blacks_def)
      then show ?thesis using Black known K by auto
    next
      case White
      have "dfs_result d s {x} (walk n d x s)" using 4 known White by simp
      then obtain c s' where r: "walk n d x s = Some (c, s')"
        "c \<noteq> [] \<longrightarrow> \<not> acyclic (edges d)" "c = [] \<longrightarrow> dfs_extends d s s'"
        "c = [] \<longrightarrow> {x} \<subseteq> blacks s'" by (rule dfs_resultE)
      show ?thesis
      proof (cases "c = []")
        case False
        with r White known show ?thesis by auto
      next
        case True
        then have e: "dfs_extends d s s'" using r(3) by simp
        have "dfs_result d s' (?K xs) (walk_nexts n d xs s')"
          using True fin st succ fuel e whites_mono_card[OF e fin fuel]
          by (intro IH_rest[OF known White r(1) refl]) (auto simp: dfs_extends_def)
        then have "dfs_result d s ({x} \<union> ?K xs) (walk_nexts n d xs s')"
          using dfs_result_seq[OF e] r(4) True by blast
        then show ?thesis using r(1) White known True K by auto
      qed
    qed
  qed
qed

lemma walk_roots_correct:
  assumes "finite (dom d)"
  shows "dfs_inv d s \<Longrightarrow> d_stack s = [] \<Longrightarrow> set ids \<subseteq> dom d \<Longrightarrow> card (whites d s) \<le> n \<Longrightarrow>
      dfs_result d s (set ids) (walk_roots n d ids s)"
proof (induction ids arbitrary: s)
  case Nil
  then show ?case by (simp add: dfs_extends_refl)
next
  case (Cons i ids)
  show ?case
  proof (cases "d_color s i = White")
    case False
    have "i \<in> blacks s"
      using False Cons.prems(1,2) by (cases "d_color s i") (auto simp: dfs_inv_def blacks_def)
    moreover have "dfs_result d s (set ids) (walk_roots n d ids s)"
      using Cons.IH[of s] Cons.prems by simp
    ultimately show ?thesis using False by (auto simp: dfs_result_def dfs_extends_def)
  next
    case True
    have "dfs_result d s {i} (walk n d i s)"
      using Cons.prems True assms by (intro walk_correct) auto
    then obtain c s' where r: "walk n d i s = Some (c, s')"
      "c \<noteq> [] \<longrightarrow> \<not> acyclic (edges d)" "c = [] \<longrightarrow> dfs_extends d s s'" "c = [] \<longrightarrow> {i} \<subseteq> blacks s'"
      by (rule dfs_resultE)
    show ?thesis
    proof (cases "c = []")
      case c: True
      then have e: "dfs_extends d s s'" using r(3) by simp
      have "dfs_result d s' (set ids) (walk_roots n d ids s')"
        using Cons.IH[of s'] Cons.prems e whites_mono_card[OF e assms] by (auto simp: dfs_extends_def)
      with r(4) c have "dfs_result d s ({i} \<union> set ids) (walk_roots n d ids s')"
        using dfs_result_seq[OF e] by blast
      then show ?thesis using r(1) c True by simp
    qed (use r True in simp)
  qed
qed

lemma acyclic_if_no_loop: "(\<And>u. (u, u) \<notin> (edges d)\<^sup>+) \<Longrightarrow> acyclic (edges d)"
  by (simp add: acyclic_def)

lemma find_cycle_correct:
  "\<exists>c. find_cycle nodes = Some c \<and> (c = [] \<longleftrightarrow> acyclic (edges (build_deps nodes)))"
proof -
  let ?d = "build_deps nodes" and ?s = "\<lparr>d_color = (\<lambda>_. White), d_stack = []\<rparr>"
  let ?r = "walk_roots (length nodes) ?d (sort (map fst nodes)) ?s"
  have fin: "finite (dom ?d)" by (simp add: dom_build_deps)
  have "card (whites ?d ?s) \<le> card (fst ` set nodes)"
    unfolding whites_def dom_build_deps by (rule card_mono) auto
  also have "\<dots> \<le> length nodes" by (metis card_length length_map set_map)
  finally have "dfs_result ?d ?s (set (sort (map fst nodes))) ?r"
    by (intro walk_roots_correct[OF fin]) (auto simp: dfs_inv_def blacks_def dom_build_deps)
  then obtain c s' where r: "?r = Some (c, s')"
    "c \<noteq> [] \<longrightarrow> \<not> acyclic (edges ?d)" "c = [] \<longrightarrow> dfs_extends ?d ?s s'"
    "c = [] \<longrightarrow> set (sort (map fst nodes)) \<subseteq> blacks s'" by (rule dfs_resultE)
  have "acyclic (edges ?d)" if "c = []"
  proof (rule acyclic_if_no_loop)
    fix u
    have "dom ?d \<subseteq> blacks s'" using r(4)[rule_format, OF that] by (simp add: dom_build_deps)
    moreover have "\<forall>u\<in>blacks s'. (u, u) \<notin> (edges ?d)\<^sup>+"
      using r(3)[rule_format, OF that] by (simp add: dfs_extends_def dfs_inv_def)
    moreover have "(u, u) \<in> (edges ?d)\<^sup>+ \<Longrightarrow> u \<in> dom ?d" by (meson edges_dom tranclD)
    ultimately show "(u, u) \<notin> (edges ?d)\<^sup>+" by blast
  qed
  with r show ?thesis by (auto simp: find_cycle_def)
qed

lemma find_cycle_total: "find_cycle nodes \<noteq> None"
  using find_cycle_correct[of nodes] by auto

lemma find_cycle_empty_iff: "find_cycle nodes = Some [] \<longleftrightarrow> acyclic (edges (build_deps nodes))"
  using find_cycle_correct[of nodes] by auto

text \<open>On a graph without cycles, every non-empty set of nodes has one with no edge into the set.\<close>

lemma acyclic_minimal:
  assumes "acyclic (edges d)" "finite (dom d)" "x \<in> S"
  shows "\<exists>m\<in>S. \<forall>y. (m, y) \<in> edges d \<longrightarrow> y \<notin> S"
proof -
  have "finite (edges d)"
    by (rule finite_subset[of _ "dom d \<times> dom d"]) (use edges_dom assms(2) in auto)
  then have "wf ((edges d)\<inverse>)" using assms(1) by (simp add: finite_acyclic_wf_converse)
  then show ?thesis using assms(3) by (metis converseI wfE_min)
qed

end
