(* ===== verification/Work_Plan.thy ===== *)
theory Work_Plan
  imports QA Dep_Graph
begin

text \<open>
  The work plan (\<^verbatim>\<open>internal/unattended/plan.go\<close>): bands, tasks, the plan's validation with its
  cycle search, the preflight checks on it, and \<^verbatim>\<open>ValidateQAPacket\<close> of \<^verbatim>\<open>qa.go\<close>.

  A validator returns the list of the problems it found, each a constructor with the values its
  message quotes, in the order the code appends them; the empty list is the \<^verbatim>\<open>nil\<close> error. Go's
  \<^verbatim>\<open>Band\<close> is a string type, so the datatype has a constructor for every other string. Reading a plan
  from a TOML file (\<^verbatim>\<open>LoadPlan\<close>) is input and output.
\<close>

section \<open>The plan\<close>

datatype Band =
    BandPrimary | BandDependency | BandValidation | BandAssurance | BandEvidence
  | BandDocumentation | BandNextStage | BandOther string

fun Band_Valid :: "Band \<Rightarrow> bool" where
  "Band_Valid (BandOther s) = False"
| "Band_Valid b = True"

fun Band_Rank :: "Band \<Rightarrow> nat" where
  "Band_Rank BandPrimary = 0"
| "Band_Rank BandDependency = 1"
| "Band_Rank BandValidation = 2"
| "Band_Rank BandAssurance = 3"
| "Band_Rank BandEvidence = 4"
| "Band_Rank BandDocumentation = 5"
| "Band_Rank BandNextStage = 6"
| "Band_Rank (BandOther s) = 7"

fun Band_text :: "Band \<Rightarrow> string" where
  "Band_text BandPrimary = ''primary''"
| "Band_text BandDependency = ''dependency''"
| "Band_text BandValidation = ''validation''"
| "Band_text BandAssurance = ''assurance''"
| "Band_text BandEvidence = ''evidence''"
| "Band_text BandDocumentation = ''documentation''"
| "Band_text BandNextStage = ''next-stage''"
| "Band_text (BandOther s) = s"

record Task =
  t_id :: string
  t_title :: string
  t_band :: Band
  t_argv :: "string list"
  t_dir :: string
  t_needs :: "string list"
  t_requiresChecks :: "string list"
  t_mutates :: bool
  t_timeoutSeconds :: int
  t_maxAttempts :: int
  t_resultPath :: string
  t_maxResumes :: int
  t_deliveryStatus :: string
  t_completionGate :: string
  t_phase :: string
  t_qaGate :: string

record Plan =
  p_runID :: string
  p_risk :: RiskClass
  p_tasks :: "Task list"

section \<open>Validation\<close>

datatype plan_problem =
    RiskNotDeclared string
  | TaskHasNoID nat
  | TaskDuplicated nat string
  | TaskHasNoArgv string
  | TaskBandUndeclared string string
  | TaskNeedsItself string
  | TaskNeedsUnknown string string
  | TaskCycle string

definition declared_risk :: "RiskClass \<Rightarrow> string" where
  "declared_risk r = (if blank (RiskClass_text r) then ''unset'' else RiskClass_text r)"

text \<open>The first loop, with the index and the set of identifiers seen: it returns the problems and
  the set.\<close>

fun validate_ids :: "nat \<Rightarrow> string set \<Rightarrow> Task list \<Rightarrow> plan_problem list \<times> string set" where
  "validate_ids i seen [] = ([], seen)"
| "validate_ids i seen (t # ts) =
     (let own = (if blank (t_id t) then [TaskHasNoID i]
                 else if t_id t \<in> seen then [TaskDuplicated i (t_id t)] else [])
                @ problem_if (t_argv t = []) (TaskHasNoArgv (t_id t))
                @ problem_if (\<not> Band_Valid (t_band t)) (TaskBandUndeclared (t_id t) (Band_text (t_band t)));
          (rest, seen') = validate_ids (Suc i)
             (if blank (t_id t) \<or> t_id t \<in> seen then seen else insert (t_id t) seen) ts
      in (own @ rest, seen'))"

definition validate_needs :: "string set \<Rightarrow> Task list \<Rightarrow> plan_problem list" where
  "validate_needs seen tasks =
     concat (map (\<lambda>t. concat (map (\<lambda>need.
        if need = t_id t then [TaskNeedsItself (t_id t)]
        else problem_if (need \<notin> seen) (TaskNeedsUnknown (t_id t) need)) (t_needs t))) tasks)"

text \<open>The search has enough fuel for every list of tasks (\<open>find_cycle_total\<close>).\<close>

definition findTaskCycle :: "Task list \<Rightarrow> string" where
  "findTaskCycle tasks = the (find_cycle (map (\<lambda>t. (t_id t, t_needs t)) tasks))"

definition Plan_Validate :: "Plan \<Rightarrow> plan_problem list" where
  "Plan_Validate p =
     (let (ps, seen) = validate_ids 0 {} (p_tasks p); cycle = findTaskCycle (p_tasks p)
      in problem_if (\<not> RiskClass_Valid (p_risk p)) (RiskNotDeclared (declared_risk (p_risk p)))
         @ ps @ validate_needs seen (p_tasks p) @ problem_if (cycle \<noteq> []) (TaskCycle cycle))"

definition count_band :: "Task list \<Rightarrow> Band \<Rightarrow> nat" where
  "count_band tasks b = length (filter (\<lambda>t. t_band t = b) tasks)"

definition declared_bands :: "Band list" where
  "declared_bands =
     [BandPrimary, BandDependency, BandValidation, BandAssurance, BandEvidence, BandDocumentation,
      BandNextStage]"

definition PlanChecks :: "Plan \<Rightarrow> Check list" where
  "PlanChecks p =
     (if p_tasks p = [] then
        [fail_check ''plan.work'' CategoryProject ''the run has declared work'' ''at least one task''
           ''none'' (''declare the work in the plan '' @ em_dash @
                     '' a run with an empty queue has nothing to converge on''),
         notReached_check ''plan.fallback'' CategoryProject
           ''useful work exists below the primary band'' ''the plan declares no work at all'']
      else
        let parts = map (\<lambda>b. Band_text b @ ''='' @ Itoa (int (count_band (p_tasks p) b)))
                      (filter (\<lambda>b. count_band (p_tasks p) b > 0) declared_bands);
            fallbacks = length (p_tasks p) - count_band (p_tasks p) BandPrimary
        in [pass_check ''plan.work'' CategoryProject ''the run has declared work''
              (Itoa (int (length (p_tasks p))) @ '' task(s): '' @ Join parts '' ''),
            (if fallbacks > 0 then
               pass_check ''plan.fallback'' CategoryProject
                 ''useful work exists below the primary band''
                 (Itoa (int fallbacks) @ '' task(s) below primary'')
             else
               fail_check ''plan.fallback'' CategoryProject
                 ''useful work exists below the primary band'' ''at least one non-primary task'' ''none''
                 ''declare validation, assurance, evidence or documentation work, so a blocked primary path does not end the run'')])"

section \<open>The QA declarations of a packet\<close>

datatype qa_problem =
    QARiskNotDeclared string
  | RequireGateUnknown string
  | TaskGateUnknown string string
  | GateClaimedTwice string "string list"
  | GateUncovered RiskClass string

definition gate_known :: "string \<Rightarrow> bool" where
  "gate_known i = (LookupGate i \<noteq> None)"

text \<open>The tasks that declare a gate, in plan order: the entry of the map \<^verbatim>\<open>producers\<close>.\<close>

definition producers :: "Task list \<Rightarrow> string \<Rightarrow> string list" where
  "producers tasks g = map t_id (filter (\<lambda>t. t_qaGate t \<noteq> [] \<and> gate_known (t_qaGate t) \<and> t_qaGate t = g) tasks)"

definition produced_gates :: "Task list \<Rightarrow> string list" where
  "produced_gates tasks =
     sort (remdups (filter (\<lambda>g. g \<noteq> [] \<and> gate_known g) (map t_qaGate tasks)))"

text \<open>The packet's policy is the one field of the run's spec that \<^verbatim>\<open>ValidateQAPacket\<close> reads.\<close>

definition ValidateQAPacket :: "QAPolicy \<Rightarrow> Plan \<Rightarrow> qa_problem list" where
  "ValidateQAPacket qa plan =
     problem_if (\<not> RiskClass_Valid (p_risk plan)) (QARiskNotDeclared (declared_risk (p_risk plan)))
     @ map RequireGateUnknown (filter (\<lambda>g. \<not> gate_known g) (qa_requireGates qa))
     @ map (\<lambda>t. TaskGateUnknown (t_id t) (t_qaGate t))
         (filter (\<lambda>t. t_qaGate t \<noteq> [] \<and> \<not> gate_known (t_qaGate t)) (p_tasks plan))
     @ map (\<lambda>g. GateClaimedTwice g (producers (p_tasks plan) g))
         (filter (\<lambda>g. length (producers (p_tasks plan) g) > 1) (produced_gates (p_tasks plan)))
     @ (if RiskClass_Valid (p_risk plan) then
          map (GateUncovered (p_risk plan))
            (filter (\<lambda>g. producers (p_tasks plan) g = []) (RequiredGates qa (p_risk plan)))
        else [])"

text \<open>A plan of two tasks, the instance the witnesses evaluate.\<close>

definition sample_task :: Task where
  "sample_task =
     \<lparr>t_id = ''build'', t_title = ''build'', t_band = BandPrimary, t_argv = [''make''], t_dir = [],
      t_needs = [], t_requiresChecks = [], t_mutates = False, t_timeoutSeconds = 0, t_maxAttempts = 0,
      t_resultPath = [], t_maxResumes = 0, t_deliveryStatus = [], t_completionGate = [], t_phase = [],
      t_qaGate = GateBuild\<rparr>"

definition sample_plan :: Plan where
  "sample_plan =
     \<lparr>p_runID = ''run-1'', p_risk = RiskQ1,
      p_tasks = [sample_task,
                 sample_task\<lparr>t_id := ''test'', t_needs := [''build''], t_band := BandValidation,
                             t_qaGate := GateUnitTest\<rparr>]\<rparr>"

section \<open>Lemmas\<close>

definition task_ids :: "Task list \<Rightarrow> string list" where
  "task_ids ts = map t_id ts"

definition need_rel :: "Task list \<Rightarrow> (string \<times> string) set" where
  "need_rel ts = {(t_id t, n) |t n. t \<in> set ts \<and> n \<in> set (t_needs t)}"

lemma validate_ids_clean:
  "fst (validate_ids i seen ts) = [] \<longleftrightarrow>
     distinct (task_ids ts) \<and> seen \<inter> set (task_ids ts) = {} \<and>
     (\<forall>t\<in>set ts. \<not> blank (t_id t) \<and> t_argv t \<noteq> [] \<and> Band_Valid (t_band t))"
proof (induction ts arbitrary: i seen)
  case (Cons t ts)
  show ?case
  proof (cases "blank (t_id t) \<or> t_id t \<in> seen")
    case True
    then show ?thesis by (auto simp: task_ids_def Let_def split: prod.splits)
  next
    case False
    then show ?thesis
      using Cons.IH[of "Suc i" "insert (t_id t) seen"]
      by (auto simp: task_ids_def Let_def split: prod.splits)
  qed
qed (simp add: task_ids_def)

lemma validate_ids_seen:
  "fst (validate_ids i seen ts) = [] \<Longrightarrow> snd (validate_ids i seen ts) = seen \<union> set (task_ids ts)"
proof (induction ts arbitrary: i seen)
  case (Cons t ts)
  then have "\<not> (blank (t_id t) \<or> t_id t \<in> seen)"
    by (auto simp: Let_def split: prod.splits if_splits)
  then show ?case
    using Cons.IH[of "Suc i" "insert (t_id t) seen"] Cons.prems
    by (auto simp: task_ids_def Let_def split: prod.splits)
qed (simp add: task_ids_def)

lemma validate_needs_clean:
  "validate_needs seen ts = [] \<longleftrightarrow> (\<forall>t\<in>set ts. \<forall>n\<in>set (t_needs t). n \<noteq> t_id t \<and> n \<in> seen)"
  unfolding validate_needs_def concat_map_Nil by (intro ball_cong refl) auto

lemma findTaskCycle_empty:
  "findTaskCycle ts = [] \<longleftrightarrow> acyclic (edges (build_deps (map (\<lambda>t. (t_id t, t_needs t)) ts)))"
  using find_cycle_correct[of "map (\<lambda>t. (t_id t, t_needs t)) ts"] by (auto simp: findTaskCycle_def)

lemma edges_build_deps_tasks:
  assumes "distinct (task_ids ts)" and "\<forall>t\<in>set ts. set (t_needs t) \<subseteq> set (task_ids ts)"
  shows "edges (build_deps (map (\<lambda>t. (t_id t, t_needs t)) ts)) = need_rel ts" (is "edges ?d = _")
proof -
  have d: "?d (t_id t) = Some (t_needs t)" if "t \<in> set ts" for t
    using that assms(1) by (intro build_deps_distinct) (auto simp: task_ids_def comp_def)
  have dom: "dom ?d = set (task_ids ts)"
    by (simp add: dom_build_deps image_image task_ids_def)
  show ?thesis
  proof (intro set_eqI iffI; clarify)
    fix u v assume e: "(u, v) \<in> edges ?d"
    then obtain t where "t \<in> set ts" "u = t_id t" using edges_dom[OF e] dom by (auto simp: task_ids_def)
    with e d show "(u, v) \<in> need_rel ts" by (auto simp: edges_def deps_of_def need_rel_def)
  next
    fix u v assume "(u, v) \<in> need_rel ts"
    then obtain t where t: "t \<in> set ts" "u = t_id t" "v \<in> set (t_needs t)" by (auto simp: need_rel_def)
    with assms(2) dom have "?d v \<noteq> None" by auto
    with t d show "(u, v) \<in> edges ?d" by (auto simp: edges_def deps_of_def)
  qed
qed

lemma need_rel_self: "t \<in> set ts \<Longrightarrow> t_id t \<in> set (t_needs t) \<Longrightarrow> \<not> acyclic (need_rel ts)"
  by (auto simp: acyclic_def need_rel_def intro!: exI[of _ "t_id t"] r_into_trancl)

definition plan_wf :: "Task list \<Rightarrow> bool" where
  "plan_wf ts \<longleftrightarrow>
     distinct (task_ids ts) \<and> (\<forall>t\<in>set ts. set (t_needs t) \<subseteq> set (task_ids ts)) \<and>
     acyclic (need_rel ts)"

lemma Plan_Validate_iff:
  "Plan_Validate p = [] \<longleftrightarrow>
     RiskClass_Valid (p_risk p) \<and> plan_wf (p_tasks p) \<and>
     (\<forall>t\<in>set (p_tasks p). \<not> blank (t_id t) \<and> t_argv t \<noteq> [] \<and> Band_Valid (t_band t))"
proof -
  let ?ts = "p_tasks p" and ?v = "validate_ids 0 {} (p_tasks p)"
  have "Plan_Validate p = [] \<longleftrightarrow> RiskClass_Valid (p_risk p) \<and> fst ?v = [] \<and>
      validate_needs (snd ?v) ?ts = [] \<and> findTaskCycle ?ts = []"
    by (auto simp: Plan_Validate_def Let_def split: prod.splits)
  also have "\<dots> \<longleftrightarrow> RiskClass_Valid (p_risk p) \<and> fst ?v = [] \<and>
      validate_needs (set (task_ids ?ts)) ?ts = [] \<and> findTaskCycle ?ts = []"
    using validate_ids_seen[of 0 "{}" ?ts] by auto
  also have "\<dots> \<longleftrightarrow> RiskClass_Valid (p_risk p) \<and> fst ?v = [] \<and>
      (\<forall>t\<in>set ?ts. set (t_needs t) \<subseteq> set (task_ids ?ts)) \<and> acyclic (need_rel ?ts)"
    using need_rel_self[of _ ?ts] edges_build_deps_tasks[of ?ts]
    unfolding validate_needs_clean validate_ids_clean findTaskCycle_empty
    by (auto simp: subset_iff; metis)
  finally show ?thesis by (auto simp: plan_wf_def validate_ids_clean)
qed

text \<open>In a well-formed plan, a non-empty set of tasks always has one that needs nothing of the set.\<close>

lemma plan_wf_minimal:
  assumes "plan_wf ts" "t \<in> set ts" "P t"
  shows "\<exists>m\<in>set ts. P m \<and> (\<forall>n\<in>set (t_needs m). \<forall>u\<in>set ts. t_id u = n \<longrightarrow> \<not> P u)"
proof -
  let ?S = "t_id ` {t \<in> set ts. P t}" and ?d = "build_deps (map (\<lambda>t. (t_id t, t_needs t)) ts)"
  have e: "edges ?d = need_rel ts" using assms(1) edges_build_deps_tasks by (simp add: plan_wf_def)
  have ac: "acyclic (edges ?d)" using assms(1) e by (simp add: plan_wf_def)
  have fin: "finite (dom ?d)" by (simp add: dom_build_deps)
  obtain i where "i \<in> ?S" and i: "\<forall>y. (i, y) \<in> edges ?d \<longrightarrow> y \<notin> ?S"
    using acyclic_minimal[OF ac fin, of "t_id t" ?S] assms(2,3) by auto
  then obtain m where "m \<in> set ts" "P m" "i = t_id m" by auto
  with i show ?thesis unfolding e by (auto simp: need_rel_def intro!: bexI[of _ m])
qed

lemma gate_known_catalogue: "gate_known g \<longleftrightarrow> g \<in> gd_id ` set gateCatalogue"
  unfolding gate_known_def LookupGate_def find_None_iff by auto

lemma producers_Nil_iff:
  "producers ts g = [] \<longleftrightarrow> \<not> (gate_known g \<and> g \<noteq> [] \<and> (\<exists>t\<in>set ts. t_qaGate t = g))"
  by (auto simp: producers_def filter_empty_conv)

lemma length_filter_le_1:
  "length (filter P xs) \<le> 1 \<longleftrightarrow> (\<forall>i<length xs. \<forall>j<length xs. P (xs ! i) \<and> P (xs ! j) \<longrightarrow> i = j)"
proof -
  have "length (filter P xs) = card {i. i < length xs \<and> P (xs ! i)}" by (rule length_filter_conv_card)
  then show ?thesis by (auto simp: card_le_Suc0_iff_eq)
qed

lemma ValidateQAPacket_clean:
  "ValidateQAPacket qa p = [] \<longleftrightarrow>
     RiskClass_Valid (p_risk p) \<and> (\<forall>g\<in>set (qa_requireGates qa). gate_known g) \<and>
     (\<forall>t\<in>set (p_tasks p). t_qaGate t \<noteq> [] \<longrightarrow> gate_known (t_qaGate t)) \<and>
     (\<forall>g\<in>set (produced_gates (p_tasks p)). length (producers (p_tasks p) g) \<le> 1) \<and>
     (\<forall>g\<in>set (RequiredGates qa (p_risk p)). producers (p_tasks p) g \<noteq> [])"
  by (auto simp: ValidateQAPacket_def filter_empty_conv not_less)

lemma producers_unique:
  assumes "length (producers ts g) = 1"
  shows "\<exists>!i. i < length ts \<and> t_qaGate (ts ! i) = g"
proof -
  let ?P = "\<lambda>t. t_qaGate t \<noteq> [] \<and> gate_known (t_qaGate t) \<and> t_qaGate t = g"
  have len: "length (filter ?P ts) = 1" using assms by (simp add: producers_def)
  then have "filter ?P ts \<noteq> []" by (cases "filter ?P ts") auto
  then obtain t where t: "t \<in> set ts" "?P t" unfolding filter_empty_conv by blast
  then obtain i where i: "i < length ts" "t_qaGate (ts ! i) = g" by (auto simp: in_set_conv_nth)
  have "\<forall>j<length ts. t_qaGate (ts ! j) = g \<longrightarrow> j = i"
    using length_filter_le_1[of ?P ts] len t(2) i by auto
  with i show ?thesis by blast
qed

section \<open>Properties\<close>

text \<open>C9. A plan is accepted exactly when its risk class is declared, every task has an identifier, an
  argv and a declared band, identifiers are unique, every need names a task of the plan, and the needs
  have no cycle. In particular the depth-first search always returns and finds a cycle exactly when
  there is one.\<close>

theorem plan_validate_exact:
  "Plan_Validate p = [] \<longleftrightarrow>
     RiskClass_Valid (p_risk p) \<and>
     (\<forall>t\<in>set (p_tasks p). \<not> blank (t_id t) \<and> t_argv t \<noteq> [] \<and> Band_Valid (t_band t)) \<and>
     distinct (map t_id (p_tasks p)) \<and>
     (\<forall>t\<in>set (p_tasks p). set (t_needs t) \<subseteq> t_id ` set (p_tasks p)) \<and>
     acyclic {(t_id t, n) |t n. t \<in> set (p_tasks p) \<and> n \<in> set (t_needs t)}"
  unfolding Plan_Validate_iff plan_wf_def task_ids_def need_rel_def by auto

theorem plan_validate_exact_witness:
  "Plan_Validate sample_plan = [] \<and>
   acyclic {(t_id t, n) |t n. t \<in> set (p_tasks sample_plan) \<and> n \<in> set (t_needs t)}"
proof -
  have "Plan_Validate sample_plan = []" by code_simp
  with plan_validate_exact[of sample_plan] show ?thesis by blast
qed

text \<open>A packet that passes the QA validation can be certified: each gate its risk and policy
  require is a gate of the catalogue and is declared by exactly one task of the plan, so no gate has two
  sources of verdicts and none has no source.\<close>

theorem qa_packet_covers_gates:
  assumes "ValidateQAPacket qa p = []" and "g \<in> set (RequiredGates qa (p_risk p))"
  shows "g \<in> gd_id ` set gateCatalogue \<and>
    (\<exists>!i. i < length (p_tasks p) \<and> t_qaGate (p_tasks p ! i) = g)"
proof -
  have clean: "\<forall>g\<in>set (produced_gates (p_tasks p)). length (producers (p_tasks p) g) \<le> 1"
    and ne: "producers (p_tasks p) g \<noteq> []" using assms by (auto simp: ValidateQAPacket_clean)
  then have k: "gate_known g" "g \<noteq> []" "\<exists>t\<in>set (p_tasks p). t_qaGate t = g"
    by (auto simp: producers_Nil_iff)
  then have cat: "g \<in> gd_id ` set gateCatalogue" by (simp add: gate_known_catalogue)
  from k have "g \<in> set (produced_gates (p_tasks p))" by (auto simp: produced_gates_def)
  with clean have "length (producers (p_tasks p) g) \<le> 1" by blast
  with ne have "length (producers (p_tasks p) g) = 1" by (cases "producers (p_tasks p) g") auto
  with cat show ?thesis using producers_unique by blast
qed

theorem qa_packet_covers_gates_witness:
  "ValidateQAPacket \<lparr>qa_requireGates = []\<rparr> sample_plan = [] \<and>
   (\<exists>!i. i < length (p_tasks sample_plan) \<and> t_qaGate (p_tasks sample_plan ! i) = GateUnitTest)"
proof -
  have v: "ValidateQAPacket \<lparr>qa_requireGates = []\<rparr> sample_plan = []" by code_simp
  have "GateUnitTest \<in> set (RequiredGates \<lparr>qa_requireGates = []\<rparr> (p_risk sample_plan))" by code_simp
  with v qa_packet_covers_gates[OF v] show ?thesis by blast
qed

end
