(* ===== verification/Work_Queue.thy ===== *)
theory Work_Queue
  imports Journal Work_Plan
begin

text \<open>
  The work queue (\<^verbatim>\<open>internal/unattended/queue.go\<close>): tasks with their states, ordered by band and
  gated by dependencies, held when they cannot succeed any more.

  Go's queue has a slice of pointers to tasks and a map from identifiers to the same pointers. A
  pointer is the position of the task in the slice here, so the map is from identifiers to positions, and
  an operation that mutates a task through a pointer updates the list at that position. The locale
  \<open>task_scheduler\<close> is the contract a client that drains the queue relies on: every outcome of driving
  the offered task uses up some of a finite allowance and leaves the settled tasks as they are.
\<close>

section \<open>Tasks and queues\<close>

datatype TaskState = TaskPending | TaskSucceeded | TaskFailed | TaskHeld

fun TaskState_text :: "TaskState \<Rightarrow> string" where
  "TaskState_text TaskPending = ''pending''"
| "TaskState_text TaskSucceeded = ''succeeded''"
| "TaskState_text TaskFailed = ''failed''"
| "TaskState_text TaskHeld = ''held''"

definition Terminal :: "TaskState \<Rightarrow> bool" where
  "Terminal s = (s = TaskSucceeded \<or> s = TaskFailed \<or> s = TaskHeld)"

record TaskAttempt =
  a_number :: int
  a_succeeded :: bool
  a_class :: FailureClass
  a_reason :: string
  a_output :: string

record QueuedTask =
  q_task :: Task
  q_state :: TaskState
  q_attempts :: "TaskAttempt list"
  q_heldReason :: string
  q_interrupted :: bool
  q_resumes :: int

definition AttemptCount :: "QueuedTask \<Rightarrow> int" where
  "AttemptCount qt = int (length (q_attempts qt))"

definition DefaultMaxResumes :: int where
  "DefaultMaxResumes = 20"

definition resumeBudget :: "QueuedTask \<Rightarrow> int" where
  "resumeBudget qt = (if t_maxResumes (q_task qt) > 0 then t_maxResumes (q_task qt) else DefaultMaxResumes)"

definition budget :: "QueuedTask \<Rightarrow> FailureClass \<Rightarrow> int" where
  "budget qt c =
     (if t_maxAttempts (q_task qt) > 0 then t_maxAttempts (q_task qt) else pol_maxAttempts (PolicyFor c))"

record Queue =
  qu_tasks :: "QueuedTask list"
  qu_index :: "string \<rightharpoonup> nat"
  qu_boundaries :: "string \<rightharpoonup> string"

abbreviation task_at :: "Queue \<Rightarrow> nat \<Rightarrow> QueuedTask" where
  "task_at q i \<equiv> qu_tasks q ! i"

abbreviation state_at :: "Queue \<Rightarrow> nat \<Rightarrow> TaskState" where
  "state_at q i \<equiv> q_state (qu_tasks q ! i)"

abbreviation num_tasks :: "Queue \<Rightarrow> nat" where
  "num_tasks q \<equiv> length (qu_tasks q)"

definition put_task :: "Queue \<Rightarrow> nat \<Rightarrow> QueuedTask \<Rightarrow> Queue" where
  "put_task q i qt = q\<lparr>qu_tasks := (qu_tasks q)[i := qt]\<rparr>"

section \<open>Holds\<close>

definition boundaryHold :: "(string \<rightharpoonup> string) \<Rightarrow> Task \<Rightarrow> string option" where
  "boundaryHold boundaries t =
     (let blocked = List.map_filter
            (\<lambda>i. case boundaries i of None \<Rightarrow> None | Some action \<Rightarrow> Some (i @ '' ('' @ action @ '')''))
            (t_requiresChecks t)
      in if blocked = [] then None
         else Some (''requires a capability behind a human boundary: '' @ Join blocked ''; ''))"

text \<open>The needs of a task whose task failed or is held, as the hold reason words them.\<close>

definition blocked_needs :: "Queue \<Rightarrow> QueuedTask \<Rightarrow> string list" where
  "blocked_needs q qt =
     List.map_filter
       (\<lambda>need. case qu_index q need of
          None \<Rightarrow> None
        | Some j \<Rightarrow>
            if state_at q j = TaskFailed \<or> state_at q j = TaskHeld
            then Some (need @ '' is '' @ TaskState_text (state_at q j)) else None)
       (t_needs (q_task qt))"

text \<open>The body of the loop over the tasks: \<open>None\<close> when nothing changes.\<close>

definition hold_step :: "Queue \<Rightarrow> nat \<Rightarrow> Queue option" where
  "hold_step q i =
     (let qt = task_at q i in
      if q_state qt \<noteq> TaskPending then None
      else let blocked = blocked_needs q qt in
        if blocked = [] then None
        else Some (put_task q i (qt\<lparr>q_state := TaskHeld,
               q_heldReason := ''depends on work that did not succeed: '' @ Join blocked ''; ''\<rparr>)))"

definition propagate_pass :: "Queue \<Rightarrow> Queue \<times> bool" where
  "propagate_pass q =
     foldl (\<lambda>(q, changed) i. case hold_step q i of None \<Rightarrow> (q, changed) | Some q' \<Rightarrow> (q', True))
       (q, False) [0 ..< num_tasks q]"

definition pending_count :: "Queue \<Rightarrow> nat" where
  "pending_count q = length (filter (\<lambda>qt. q_state qt = TaskPending) (qu_tasks q))"

lemma pending_count_update:
  assumes "i < length ts" "q_state (ts ! i) = TaskPending" "q_state x \<noteq> TaskPending"
  shows "length (filter (\<lambda>qt. q_state qt = TaskPending) (ts[i := x])) <
         length (filter (\<lambda>qt. q_state qt = TaskPending) ts)"
proof -
  have "ts = take i ts @ ts ! i # drop (Suc i) ts" using assms(1) by (rule id_take_nth_drop)
  then have "length (filter (\<lambda>qt. q_state qt = TaskPending) ts) =
      length (filter (\<lambda>qt. q_state qt = TaskPending) (take i ts @ ts ! i # drop (Suc i) ts))" by simp
  with assms show ?thesis by (simp add: upd_conv_take_nth_drop)
qed

lemma hold_step_pending_count:
  "hold_step q i = Some q' \<Longrightarrow> i < num_tasks q \<Longrightarrow>
   num_tasks q' = num_tasks q \<and> pending_count q' < pending_count q"
  by (auto simp: hold_step_def Let_def put_task_def pending_count_def pending_count_update split: if_splits)

text \<open>A property of the queue and the flag that every hold keeps, a pass keeps.\<close>

lemma pass_induct:
  assumes "P q False"
    and "\<And>q1 c i q2. P q1 c \<Longrightarrow> i < num_tasks q \<Longrightarrow> hold_step q1 i = Some q2 \<Longrightarrow> P q2 True"
  shows "P (fst (propagate_pass q)) (snd (propagate_pass q))"
proof -
  let ?f = "\<lambda>(q, changed) i. case hold_step q i of None \<Rightarrow> (q, changed) | Some q' \<Rightarrow> (q', True)"
  have "\<forall>i\<in>set is. i < num_tasks q \<Longrightarrow> case foldl ?f (q, False) is of (q1, c) \<Rightarrow> P q1 c" for "is"
  proof (induction "is" rule: rev_induct)
    case (snoc i "is")
    then show ?case using assms(2) by (cases "foldl ?f (q, False) is") (auto split: option.split)
  qed (simp add: assms(1))
  from this[of "[0 ..< num_tasks q]"] show ?thesis by (simp add: propagate_pass_def split: prod.splits)
qed

lemma propagate_pass_decreases:
  assumes "snd (propagate_pass q)"
  shows "pending_count (fst (propagate_pass q)) < pending_count q"
proof -
  let ?P = "\<lambda>q1 c. num_tasks q1 = num_tasks q \<and> (c \<longrightarrow> pending_count q1 < pending_count q) \<and> (\<not> c \<longrightarrow> q1 = q)"
  have "?P (fst (propagate_pass q)) (snd (propagate_pass q))"
  proof (rule pass_induct)
    fix q1 c i q2 assume "?P q1 c" "i < num_tasks q" "hold_step q1 i = Some q2"
    with hold_step_pending_count[of q1 i q2] show "?P q2 True" by (cases c) auto
  qed simp
  with assms show ?thesis by simp
qed

function propagateHolds :: "Queue \<Rightarrow> Queue" where
  "propagateHolds q =
     (let (q', changed) = propagate_pass q in if changed then propagateHolds q' else q')"
  by pat_completeness auto

termination propagateHolds
  by (relation "measure pending_count") (auto dest: propagate_pass_decreases simp: prod_eq_iff)

declare propagateHolds.simps [simp del]

section \<open>Operations\<close>

definition new_task :: "(string \<rightharpoonup> string) \<Rightarrow> Task \<Rightarrow> QueuedTask" where
  "new_task boundaries t =
     (case boundaryHold boundaries t of
        None \<Rightarrow> \<lparr>q_task = t, q_state = TaskPending, q_attempts = [], q_heldReason = [],
                 q_interrupted = False, q_resumes = 0\<rparr>
      | Some why \<Rightarrow> \<lparr>q_task = t, q_state = TaskHeld, q_attempts = [], q_heldReason = why,
                 q_interrupted = False, q_resumes = 0\<rparr>)"

definition NewQueue :: "Plan \<Rightarrow> (string \<rightharpoonup> string) \<Rightarrow> Queue" where
  "NewQueue plan boundaries =
     propagateHolds
       (foldl (\<lambda>q t. q\<lparr>qu_tasks := qu_tasks q @ [new_task boundaries t],
                         qu_index := (qu_index q)(t_id t \<mapsto> num_tasks q)\<rparr>)
          \<lparr>qu_tasks = [], qu_index = Map.empty, qu_boundaries = boundaries\<rparr> (p_tasks plan))"

definition earlier_attempt :: "int \<Rightarrow> TaskAttempt" where
  "earlier_attempt n =
     \<lparr>a_number = n, a_succeeded = False, a_class = FailureOther [],
      a_reason = ''attempt recorded by an earlier run of this journal'', a_output = []\<rparr>"

definition restore_task :: "ResumeState \<Rightarrow> QueuedTask \<Rightarrow> QueuedTask" where
  "restore_task st qt =
     (let i = t_id (q_task qt) in
      if i \<in> rs_succeeded st then qt\<lparr>q_state := TaskSucceeded\<rparr>
      else
        let n = count_of (rs_attempts st) i;
            qt1 = (if n > 0 \<and> q_attempts qt = []
                   then qt\<lparr>q_attempts := map earlier_attempt [1..n]\<rparr> else qt);
            m = count_of (rs_resumes st) i;
            qt2 = (if m > q_resumes qt1 then qt1\<lparr>q_resumes := m\<rparr> else qt1)
        in if q_resumes qt2 > resumeBudget qt2 then
             qt2\<lparr>q_state := TaskHeld,
                 q_heldReason := ''did not converge within its '' @ Itoa (resumeBudget qt2) @
                   '' resume(s); the bound is durable and restarting does not renew it''\<rparr>
           else if i \<in> rs_interrupted st then qt2\<lparr>q_interrupted := True\<rparr> else qt2)"

definition Restore :: "Queue \<Rightarrow> ResumeState \<Rightarrow> Queue" where
  "Restore q st = propagateHolds (q\<lparr>qu_tasks := map (restore_task st) (qu_tasks q)\<rparr>)"

definition dependenciesSatisfied :: "Queue \<Rightarrow> QueuedTask \<Rightarrow> bool" where
  "dependenciesSatisfied q qt =
     list_all (\<lambda>need. case qu_index q need of None \<Rightarrow> True | Some j \<Rightarrow> state_at q j = TaskSucceeded)
       (t_needs (q_task qt))"

definition eligible :: "Queue \<Rightarrow> nat \<Rightarrow> bool" where
  "eligible q i = (state_at q i = TaskPending \<and> dependenciesSatisfied q (task_at q i))"

definition rank_at :: "Queue \<Rightarrow> nat \<Rightarrow> nat" where
  "rank_at q i = Band_Rank (t_band (q_task (task_at q i)))"

fun next_loop :: "Queue \<Rightarrow> nat list \<Rightarrow> nat option \<Rightarrow> nat option" where
  "next_loop q [] best = best"
| "next_loop q (i # is) best =
     (if \<not> eligible q i then next_loop q is best
      else case best of
        None \<Rightarrow> next_loop q is (Some i)
      | Some b \<Rightarrow> next_loop q is (if rank_at q i < rank_at q b then Some i else Some b))"

definition Next :: "Queue \<Rightarrow> nat option" where
  "Next q = next_loop q [0 ..< num_tasks q] None"

text \<open>The queue, the retry delay and whether the task will be retried.\<close>

definition RecordAttempt :: "Queue \<Rightarrow> nat \<Rightarrow> TaskAttempt \<Rightarrow> Queue \<times> int \<times> bool" where
  "RecordAttempt q i attempt =
     (let qt = task_at q i;
          a = attempt\<lparr>a_number := AttemptCount qt + 1\<rparr>;
          qt1 = qt\<lparr>q_attempts := q_attempts qt @ [a]\<rparr>
      in if a_succeeded a then (propagateHolds (put_task q i (qt1\<lparr>q_state := TaskSucceeded\<rparr>)), 0, False)
         else if AttemptCount qt1 \<ge> budget qt1 (a_class a)
         then (propagateHolds (put_task q i (qt1\<lparr>q_state := TaskFailed\<rparr>)), 0, False)
         else (put_task q i (qt1\<lparr>q_state := TaskPending\<rparr>),
               Backoff (PolicyFor (a_class a)) (AttemptCount qt1), True))"

text \<open>The queue, the resumes used, the budget, and whether the task may be driven again.\<close>

definition RecordResume :: "Queue \<Rightarrow> nat \<Rightarrow> Queue \<times> int \<times> int \<times> bool" where
  "RecordResume q i =
     (let qt = (task_at q i)\<lparr>q_resumes := q_resumes (task_at q i) + 1, q_state := TaskPending\<rparr>
      in (put_task q i qt, q_resumes qt, resumeBudget qt, q_resumes qt \<le> resumeBudget qt))"

definition Hold :: "Queue \<Rightarrow> nat \<Rightarrow> string \<Rightarrow> Queue" where
  "Hold q i reason =
     propagateHolds (put_task q i ((task_at q i)\<lparr>q_state := TaskHeld, q_heldReason := reason\<rparr>))"

definition Counts :: "Queue \<Rightarrow> TaskState \<Rightarrow> nat" where
  "Counts q s = length (filter (\<lambda>qt. q_state qt = s) (qu_tasks q))"

definition Exhausted :: "Queue \<Rightarrow> bool" where
  "Exhausted q = (Next q = None)"

definition PrimaryWorkOutstanding :: "Queue \<Rightarrow> bool" where
  "PrimaryWorkOutstanding q =
     list_ex (\<lambda>qt. t_band (q_task qt) = BandPrimary \<and> q_state qt \<noteq> TaskSucceeded) (qu_tasks q)"

definition Summary :: "Queue \<Rightarrow> string" where
  "Summary q =
     Join (sort (map (\<lambda>s. TaskState_text s @ ''='' @ Itoa (int (Counts q s)))
       (filter (\<lambda>s. Counts q s > 0) [TaskPending, TaskSucceeded, TaskFailed, TaskHeld]))) '' ''"

section \<open>Well-formed queues\<close>

text \<open>The index maps an identifier to a position that has it, and has every identifier.\<close>

definition queue_wf :: "Queue \<Rightarrow> bool" where
  "queue_wf q \<longleftrightarrow>
     (\<forall>n j. qu_index q n = Some j \<longrightarrow> j < num_tasks q \<and> t_id (q_task (task_at q j)) = n) \<and>
     (\<forall>i<num_tasks q. qu_index q (t_id (q_task (task_at q i))) \<noteq> None)"

text \<open>No pending task waits for one that failed or is held.\<close>

definition holds_closed :: "Queue \<Rightarrow> bool" where
  "holds_closed q \<longleftrightarrow>
     (\<forall>i<num_tasks q. state_at q i = TaskPending \<longrightarrow> blocked_needs q (task_at q i) = [])"

text \<open>The reference for the fixed point: the pending tasks that need, directly or through pending tasks,
  one that failed or is held.\<close>

inductive doomed :: "Queue \<Rightarrow> nat \<Rightarrow> bool" for q where
  doomed_base: "i < num_tasks q \<Longrightarrow> state_at q i = TaskPending \<Longrightarrow>
     n \<in> set (t_needs (q_task (task_at q i))) \<Longrightarrow> qu_index q n = Some j \<Longrightarrow>
     state_at q j = TaskFailed \<or> state_at q j = TaskHeld \<Longrightarrow> doomed q i"
| doomed_step: "i < num_tasks q \<Longrightarrow> state_at q i = TaskPending \<Longrightarrow>
     n \<in> set (t_needs (q_task (task_at q i))) \<Longrightarrow> qu_index q n = Some j \<Longrightarrow>
     doomed q j \<Longrightarrow> doomed q i"

text \<open>What holding tasks may change: the state of doomed tasks, and the reason that goes with it.\<close>

definition held_ext :: "Queue \<Rightarrow> Queue \<Rightarrow> bool" where
  "held_ext q q' \<longleftrightarrow>
     qu_index q' = qu_index q \<and> qu_boundaries q' = qu_boundaries q \<and> num_tasks q' = num_tasks q \<and>
     (\<forall>i<num_tasks q. task_at q' i = task_at q i \<or>
        doomed q i \<and> (\<exists>why. task_at q' i = (task_at q i)\<lparr>q_state := TaskHeld, q_heldReason := why\<rparr>))"

section \<open>Lemmas on holds\<close>

lemma put_task_simps [simp]:
  "num_tasks (put_task q i qt) = num_tasks q"
  "qu_index (put_task q i qt) = qu_index q"
  "qu_boundaries (put_task q i qt) = qu_boundaries q"
  "i < num_tasks q \<Longrightarrow> task_at (put_task q i qt) j = (if j = i then qt else task_at q j)"
  by (auto simp: put_task_def nth_list_update)

lemma blocked_needs_Nil:
  "blocked_needs q qt = [] \<longleftrightarrow>
     (\<forall>n\<in>set (t_needs (q_task qt)). \<forall>j. qu_index q n = Some j \<longrightarrow>
        state_at q j \<noteq> TaskFailed \<and> state_at q j \<noteq> TaskHeld)"
  by (auto simp: blocked_needs_def map_filter_Nil split: option.splits if_splits)

lemma doomed_D: "doomed q i \<Longrightarrow> i < num_tasks q \<and> state_at q i = TaskPending"
  by (induction rule: doomed.induct) auto

lemma held_ext_refl [simp]: "held_ext q q"
  by (simp add: held_ext_def)

lemma held_ext_state:
  assumes "held_ext q q'" "j < num_tasks q"
  shows "state_at q' j = state_at q j \<or> doomed q j \<and> state_at q' j = TaskHeld"
  using assms unfolding held_ext_def by (metis QueuedTask.select_convs(2) QueuedTask.surjective QueuedTask.update_convs(2,4))

lemma held_ext_task: "held_ext q q' \<Longrightarrow> i < num_tasks q \<Longrightarrow> q_task (task_at q' i) = q_task (task_at q i)"
  unfolding held_ext_def by (metis QueuedTask.select_convs(1) QueuedTask.surjective QueuedTask.update_convs(2,4))

lemma held_ext_fields:
  "held_ext q q' \<Longrightarrow> num_tasks q' = num_tasks q" "held_ext q q' \<Longrightarrow> qu_index q' = qu_index q"
  "held_ext q q' \<Longrightarrow> qu_boundaries q' = qu_boundaries q"
  by (simp_all add: held_ext_def)

lemma held_ext_pending:
  "held_ext q q' \<Longrightarrow> i < num_tasks q \<Longrightarrow> state_at q' i = TaskPending \<Longrightarrow> state_at q i = TaskPending"
  using held_ext_state by fastforce

lemma held_ext_wf:
  assumes "held_ext q q'" "queue_wf q"
  shows "queue_wf q'"
  using assms held_ext_task[OF assms(1)] by (auto simp: queue_wf_def held_ext_fields[OF assms(1)])

lemma doomed_held_ext:
  assumes e: "held_ext q q'" and wf: "queue_wf q" and d: "doomed q' i"
  shows "doomed q i"
  using d
proof (induction rule: doomed.induct)
  case (doomed_base i n j)
  then have i: "i < num_tasks q" "qu_index q n = Some j" by (simp_all add: held_ext_fields[OF e])
  then have "j < num_tasks q" using wf by (auto simp: queue_wf_def)
  moreover have "state_at q i = TaskPending" "n \<in> set (t_needs (q_task (task_at q i)))"
    using doomed_base i held_ext_pending[OF e] held_ext_task[OF e] by auto
  ultimately show ?case
    using i doomed_base held_ext_state[OF e] by (metis doomed.doomed_base doomed.doomed_step)
next
  case (doomed_step i n j)
  then show ?case
    using held_ext_pending[OF e] held_ext_task[OF e]
    by (intro doomed.doomed_step[of i q n j]) (auto simp: held_ext_fields[OF e])
qed

lemma held_ext_trans:
  assumes "held_ext q q1" "held_ext q1 q2" "queue_wf q"
  shows "held_ext q q2"
proof -
  have "task_at q2 i = task_at q i \<or>
      doomed q i \<and> (\<exists>why. task_at q2 i = (task_at q i)\<lparr>q_state := TaskHeld, q_heldReason := why\<rparr>)"
    if i: "i < num_tasks q" for i
  proof -
    have "task_at q2 i = task_at q1 i \<or>
        doomed q1 i \<and> (\<exists>why. task_at q2 i = (task_at q1 i)\<lparr>q_state := TaskHeld, q_heldReason := why\<rparr>)"
      using assms(1,2) i by (simp add: held_ext_def)
    moreover have "task_at q1 i = task_at q i \<or>
        doomed q i \<and> (\<exists>why. task_at q1 i = (task_at q i)\<lparr>q_state := TaskHeld, q_heldReason := why\<rparr>)"
      using assms(1) i by (simp add: held_ext_def)
    ultimately show ?thesis using doomed_held_ext[OF assms(1,3), of i] by fastforce
  qed
  with assms(1,2) show ?thesis by (simp add: held_ext_def)
qed

lemma hold_step_ext:
  assumes "hold_step q i = Some q'" "i < num_tasks q"
  shows "held_ext q q'"
proof -
  have p: "state_at q i = TaskPending" "blocked_needs q (task_at q i) \<noteq> []"
    and q': "\<exists>why. q' = put_task q i ((task_at q i)\<lparr>q_state := TaskHeld, q_heldReason := why\<rparr>)"
    using assms(1) by (auto simp: hold_step_def Let_def split: if_splits)
  then have "doomed q i" using assms(2) unfolding blocked_needs_Nil by (blast intro: doomed_base)
  with q' assms(2) show ?thesis by (auto simp: held_ext_def split: if_splits)
qed

lemma propagate_pass_ext: "queue_wf q \<Longrightarrow> held_ext q (fst (propagate_pass q))"
proof (rule pass_induct[where P = "\<lambda>q1 c. held_ext q q1"])
  fix q1 c i q2
  assume "queue_wf q" "held_ext q q1" "i < num_tasks q" "hold_step q1 i = Some q2"
  then show "held_ext q q2"
    using held_ext_trans hold_step_ext held_ext_fields(1) by metis
qed simp

lemma propagate_pass_stable:
  assumes "\<not> snd (propagate_pass q)"
  shows "fst (propagate_pass q) = q \<and> holds_closed q"
proof -
  let ?f = "\<lambda>(q, changed) i. case hold_step q i of None \<Rightarrow> (q, changed) | Some q' \<Rightarrow> (q', True)"
  have "\<not> snd (foldl ?f (q, False) is) \<Longrightarrow>
      fst (foldl ?f (q, False) is) = q \<and> (\<forall>i\<in>set is. hold_step q i = None)" for "is"
  proof (induction "is" rule: rev_induct)
    case (snoc i "is")
    then show ?case by (cases "foldl ?f (q, False) is") (auto split: option.splits)
  qed simp
  from this[of "[0 ..< num_tasks q]"] assms
  have "fst (propagate_pass q) = q" "\<forall>i<num_tasks q. hold_step q i = None"
    by (auto simp: propagate_pass_def)
  then show ?thesis by (auto simp: holds_closed_def hold_step_def Let_def split: if_splits)
qed

lemma propagateHolds_ext:
  "queue_wf q \<Longrightarrow> held_ext q (propagateHolds q) \<and> holds_closed (propagateHolds q)"
proof (induction q rule: propagateHolds.induct)
  case (1 q)
  obtain q' c where p: "propagate_pass q = (q', c)" by (cases "propagate_pass q") auto
  then have e: "held_ext q q'" using propagate_pass_ext[OF 1(2)] by simp
  show ?case
  proof (cases c)
    case True
    then have "held_ext q' (propagateHolds q') \<and> holds_closed (propagateHolds q')"
      using 1(1)[OF p[symmetric] refl True] held_ext_wf[OF e 1(2)] by simp
    then show ?thesis
      using held_ext_trans[OF e _ 1(2)] p True by (subst (1 2) propagateHolds.simps) simp
  next
    case False
    then show ?thesis
      using propagate_pass_stable[of q] p by (subst (1 2) propagateHolds.simps) simp
  qed
qed

lemma propagateHolds_wf: "queue_wf q \<Longrightarrow> queue_wf (propagateHolds q)"
  using propagateHolds_ext held_ext_wf by blast

text \<open>The loop computes exactly the closure: the doomed tasks end held and nothing else changes state.\<close>

lemma closed_ext_doomed:
  assumes e: "held_ext q q'" and c: "holds_closed q'" and wf: "queue_wf q" and d: "doomed q i"
  shows "state_at q' i = TaskHeld"
  using d
proof (induction rule: doomed.induct)
  case (doomed_base i n j)
  have j: "j < num_tasks q" using wf doomed_base(4) by (auto simp: queue_wf_def)
  have "state_at q' j = TaskFailed \<or> state_at q' j = TaskHeld"
    using held_ext_state[OF e j] doomed_base(5) by auto
  then have "blocked_needs q' (task_at q' i) \<noteq> []"
    using doomed_base(1,3,4) held_ext_task[OF e] unfolding blocked_needs_Nil held_ext_fields(2)[OF e] by auto
  then show ?case
    using c doomed_base(1,2) held_ext_state[OF e doomed_base(1)] held_ext_fields(1)[OF e]
    by (auto simp: holds_closed_def)
next
  case (doomed_step i n j)
  then have "blocked_needs q' (task_at q' i) \<noteq> []"
    using held_ext_task[OF e] unfolding blocked_needs_Nil held_ext_fields(2)[OF e] by auto
  then show ?case
    using c doomed_step(1,2) held_ext_state[OF e doomed_step(1)] held_ext_fields(1)[OF e]
    by (auto simp: holds_closed_def)
qed

lemma propagateHolds_state:
  assumes "queue_wf q" "i < num_tasks q"
  shows "state_at (propagateHolds q) i = (if doomed q i then TaskHeld else state_at q i)"
proof -
  have e: "held_ext q (propagateHolds q)" "holds_closed (propagateHolds q)"
    using propagateHolds_ext[OF assms(1)] by auto
  from held_ext_state[OF e(1) assms(2)] closed_ext_doomed[OF e assms(1)] show ?thesis by auto
qed

section \<open>Lemmas on selection\<close>

text \<open>The order of preference: the band, then the place in the plan.\<close>

definition preferred :: "Queue \<Rightarrow> nat \<Rightarrow> nat \<Rightarrow> bool" where
  "preferred q i j \<longleftrightarrow> rank_at q i < rank_at q j \<or> rank_at q i = rank_at q j \<and> i \<le> j"

lemma preferred_trans: "preferred q i j \<Longrightarrow> preferred q j k \<Longrightarrow> preferred q i k"
  by (auto simp: preferred_def)

definition candidates :: "Queue \<Rightarrow> nat list \<Rightarrow> nat option \<Rightarrow> nat set" where
  "candidates q is best = set_option best \<union> {i \<in> set is. eligible q i}"

lemma next_loop_best:
  assumes "sorted_wrt (<) is" "\<forall>c\<in>set_option best. \<forall>i\<in>set is. c < i"
  shows "case next_loop q is best of
      None \<Rightarrow> candidates q is best = {}
    | Some b \<Rightarrow> b \<in> candidates q is best \<and> (\<forall>j\<in>candidates q is best. preferred q b j)"
  using assms
proof (induction "is" arbitrary: best)
  case Nil
  then show ?case by (auto simp: candidates_def preferred_def split: option.splits)
next
  case (Cons i "is")
  show ?case
  proof (cases "eligible q i")
    case False
    then have "candidates q (i # is) best = candidates q is best" by (auto simp: candidates_def)
    with Cons.IH[of best] Cons.prems False show ?thesis by (simp cong: option.case_cong)
  next
    case True
    define n where "n = (case best of None \<Rightarrow> i | Some b \<Rightarrow> if rank_at q i < rank_at q b then i else b)"
    have step: "next_loop q (i # is) best = next_loop q is (Some n)"
      using True by (simp add: n_def split: option.split)
    have cand: "candidates q (i # is) best = insert i (set_option best) \<union> candidates q is (Some n)"
      using True by (auto simp: candidates_def n_def split: option.splits)
    have n_best: "\<forall>j\<in>insert i (set_option best). preferred q n j"
      using Cons.prems(2) by (auto simp: n_def preferred_def not_less split: option.splits)
    have n_mem: "n \<in> candidates q is (Some n)" by (simp add: candidates_def)
    have "\<forall>j\<in>set is. n < j"
      using Cons.prems by (auto simp: n_def split: option.splits)
    then have "case next_loop q is (Some n) of
        None \<Rightarrow> candidates q is (Some n) = {}
      | Some b \<Rightarrow> b \<in> candidates q is (Some n) \<and> (\<forall>j\<in>candidates q is (Some n). preferred q b j)"
      using Cons.IH[of "Some n"] Cons.prems(1) by simp
    then obtain b where b: "next_loop q is (Some n) = Some b" "b \<in> candidates q is (Some n)"
      "\<forall>j\<in>candidates q is (Some n). preferred q b j"
      using n_mem by (auto split: option.splits)
    have "\<forall>j\<in>insert i (set_option best). preferred q b j"
      using b(3) n_mem n_best preferred_trans by blast
    with b show ?thesis unfolding step cand by auto
  qed
qed

lemma Next_None: "Next q = None \<longleftrightarrow> (\<forall>i<num_tasks q. \<not> eligible q i)"
  using next_loop_best[of "[0 ..< num_tasks q]" None q]
  by (auto simp: Next_def candidates_def split: option.splits)

lemma Next_Some:
  assumes "Next q = Some i"
  shows "i < num_tasks q" "eligible q i" "\<And>j. j < num_tasks q \<Longrightarrow> eligible q j \<Longrightarrow> preferred q i j"
  using next_loop_best[of "[0 ..< num_tasks q]" None q] assms by (auto simp: Next_def candidates_def)

lemma Next_pending: "Next q = Some i \<Longrightarrow> i < num_tasks q \<and> state_at q i = TaskPending"
  using Next_Some(1,2) by (simp add: eligible_def)

text \<open>On a well-formed plan a queue whose holds are closed offers work as long as a task is pending.\<close>

definition queue_plan :: "Queue \<Rightarrow> Task list" where
  "queue_plan q = map q_task (qu_tasks q)"

lemma no_pending_left:
  assumes wf: "queue_wf q" and plan: "plan_wf (queue_plan q)" and closed: "holds_closed q"
    and none: "Next q = None" and i: "i < num_tasks q"
  shows "state_at q i \<noteq> TaskPending"
proof
  assume "state_at q i = TaskPending"
  let ?P = "\<lambda>t. \<exists>k<num_tasks q. q_task (task_at q k) = t \<and> state_at q k = TaskPending"
  have "q_task (task_at q i) \<in> set (queue_plan q)" "?P (q_task (task_at q i))"
    using i \<open>state_at q i = TaskPending\<close> by (auto simp: queue_plan_def)
  from plan_wf_minimal[where P = ?P, OF plan this] obtain m where m: "m \<in> set (queue_plan q)" "?P m"
    "\<forall>n\<in>set (t_needs m). \<forall>u\<in>set (queue_plan q). t_id u = n \<longrightarrow> \<not> ?P u" by blast
  then obtain k where k: "k < num_tasks q" "q_task (task_at q k) = m" "state_at q k = TaskPending" by blast
  have "state_at q j = TaskSucceeded" if n: "n \<in> set (t_needs m)" "qu_index q n = Some j" for n j
  proof -
    have j: "j < num_tasks q" "t_id (q_task (task_at q j)) = n" using wf n(2) by (auto simp: queue_wf_def)
    then have "q_task (task_at q j) \<in> set (queue_plan q)" by (simp add: queue_plan_def)
    with m(3) n(1) j have "state_at q j \<noteq> TaskPending" by blast
    moreover have "state_at q j \<noteq> TaskFailed \<and> state_at q j \<noteq> TaskHeld"
      using closed k n unfolding holds_closed_def blocked_needs_Nil by blast
    ultimately show ?thesis by (cases "state_at q j") auto
  qed
  then have "eligible q k"
    using k by (auto simp: eligible_def dependenciesSatisfied_def list_all_iff split: option.splits)
  with k(1) none show False by (simp add: Next_None)
qed

section \<open>The contract of the queue\<close>

text \<open>Driving a queue with a sequence of outcomes: each outcome is applied to the task offered at the
  time. The tasks offered are returned with the queue that is left.\<close>

fun drain :: "('q \<Rightarrow> nat option) \<Rightarrow> ('q \<Rightarrow> nat \<Rightarrow> 'q) list \<Rightarrow> 'q \<Rightarrow> nat list \<times> 'q" where
  "drain nxt [] q = ([], q)"
| "drain nxt (f # fs) q =
     (case nxt q of
        None \<Rightarrow> ([], q)
      | Some i \<Rightarrow> (let (is, q') = drain nxt fs (f q i) in (i # is, q')))"

locale task_scheduler =
  fixes inv :: "'q \<Rightarrow> bool" and nxt :: "'q \<Rightarrow> nat option" and settled :: "'q \<Rightarrow> (nat \<times> 's) set"
    and weight :: "'q \<Rightarrow> nat" and plan :: "'q \<Rightarrow> 'p" and outcomes :: "('q \<Rightarrow> nat \<Rightarrow> 'q) set"
  assumes outcome_inv: "inv q \<Longrightarrow> nxt q = Some i \<Longrightarrow> f \<in> outcomes \<Longrightarrow> inv (f q i)"
    and outcome_weight: "inv q \<Longrightarrow> nxt q = Some i \<Longrightarrow> f \<in> outcomes \<Longrightarrow> weight (f q i) < weight q"
    and outcome_settled: "inv q \<Longrightarrow> nxt q = Some i \<Longrightarrow> f \<in> outcomes \<Longrightarrow> settled q \<subseteq> settled (f q i)"
    and outcome_plan: "inv q \<Longrightarrow> nxt q = Some i \<Longrightarrow> f \<in> outcomes \<Longrightarrow> plan (f q i) = plan q"
    and nxt_fresh: "inv q \<Longrightarrow> nxt q = Some i \<Longrightarrow> i \<notin> fst ` settled q"
begin

lemma drain_inv:
  "inv q \<Longrightarrow> set fs \<subseteq> outcomes \<Longrightarrow> drain nxt fs q = (is, q') \<Longrightarrow> inv q' \<and> plan q' = plan q"
proof (induction fs arbitrary: q "is" q')
  case (Cons f fs)
  show ?case
  proof (cases "nxt q")
    case (Some i)
    obtain js q2 where d: "drain nxt fs (f q i) = (js, q2)" by (cases "drain nxt fs (f q i)") auto
    have "inv q2 \<and> plan q2 = plan (f q i)"
      using Cons.IH[OF _ _ d] Cons.prems Some by (simp add: outcome_inv)
    with outcome_plan[OF Cons.prems(1) Some, of f] Cons.prems Some d show ?thesis by auto
  qed (use Cons.prems in auto)
qed simp

lemma drain_bounded:
  "inv q \<Longrightarrow> set fs \<subseteq> outcomes \<Longrightarrow> drain nxt fs q = (is, q') \<Longrightarrow> length is + weight q' \<le> weight q"
proof (induction fs arbitrary: q "is" q')
  case (Cons f fs)
  show ?case
  proof (cases "nxt q")
    case (Some i)
    obtain js q2 where d: "drain nxt fs (f q i) = (js, q2)" by (cases "drain nxt fs (f q i)") auto
    have "length js + weight q2 \<le> weight (f q i)"
      using Cons.IH[OF _ _ d] Cons.prems Some by (simp add: outcome_inv)
    with outcome_weight[OF Cons.prems(1) Some, of f] Cons.prems Some d show ?thesis by auto
  qed (use Cons.prems in auto)
qed simp

lemma drain_keeps_settled:
  "inv q \<Longrightarrow> set fs \<subseteq> outcomes \<Longrightarrow> drain nxt fs q = (is, q') \<Longrightarrow>
   set is \<inter> fst ` settled q = {} \<and> settled q \<subseteq> settled q'"
proof (induction fs arbitrary: q "is" q')
  case (Cons f fs)
  show ?case
  proof (cases "nxt q")
    case (Some i)
    obtain js q2 where d: "drain nxt fs (f q i) = (js, q2)" by (cases "drain nxt fs (f q i)") auto
    have "set js \<inter> fst ` settled (f q i) = {} \<and> settled (f q i) \<subseteq> settled q2"
      using Cons.IH[OF _ _ d] Cons.prems Some by (simp add: outcome_inv)
    moreover have "settled q \<subseteq> settled (f q i)" "i \<notin> fst ` settled q" "is = i # js" "q' = q2"
      using outcome_settled[OF Cons.prems(1) Some, of f] nxt_fresh[OF Cons.prems(1) Some] Cons.prems Some d
      by auto
    moreover have "fst ` settled q \<subseteq> fst ` settled (f q i)" using calculation(2) by (rule image_mono)
    ultimately show ?thesis by (simp add: disjoint_iff) blast
  qed (use Cons.prems in auto)
qed simp

end

section \<open>The queue keeps the contract\<close>

definition attempt_cap :: "QueuedTask \<Rightarrow> int" where
  "attempt_cap qt = (if t_maxAttempts (q_task qt) > 0 then t_maxAttempts (q_task qt) else 5)"

definition task_weight :: "QueuedTask \<Rightarrow> nat" where
  "task_weight qt =
     (if q_state qt = TaskPending
      then Suc (nat (attempt_cap qt - AttemptCount qt) + nat (resumeBudget qt + 1 - q_resumes qt)) else 0)"

definition queue_weight :: "Queue \<Rightarrow> nat" where
  "queue_weight q = sum_list (map task_weight (qu_tasks q))"

definition queue_inv :: "Queue \<Rightarrow> bool" where
  "queue_inv q \<longleftrightarrow> queue_wf q \<and> holds_closed q"

definition settled_tasks :: "Queue \<Rightarrow> (nat \<times> TaskState) set" where
  "settled_tasks q = {(i, s). i < num_tasks q \<and> s = state_at q i \<and> s \<noteq> TaskPending}"

definition attempt_outcome :: "TaskAttempt \<Rightarrow> Queue \<Rightarrow> nat \<Rightarrow> Queue" where
  "attempt_outcome a q i = fst (RecordAttempt q i a)"

text \<open>A resumable outcome, with the hold its caller makes of it when the budget is spent.\<close>

definition resume_outcome :: "(int \<Rightarrow> string) \<Rightarrow> Queue \<Rightarrow> nat \<Rightarrow> Queue" where
  "resume_outcome why q i =
     (case RecordResume q i of (q', used, bgt, may) \<Rightarrow> if may then q' else Hold q' i (why bgt))"

definition hold_outcome :: "string \<Rightarrow> Queue \<Rightarrow> nat \<Rightarrow> Queue" where
  "hold_outcome why q i = Hold q i why"

definition queue_outcomes :: "(Queue \<Rightarrow> nat \<Rightarrow> Queue) set" where
  "queue_outcomes = range attempt_outcome \<union> range resume_outcome \<union> range hold_outcome"

lemma put_task_wf:
  "queue_wf q \<Longrightarrow> i < num_tasks q \<Longrightarrow> q_task x = q_task (task_at q i) \<Longrightarrow> queue_wf (put_task q i x)"
  by (auto simp: queue_wf_def)

lemma put_task_closed_pending:
  assumes "holds_closed q" "i < num_tasks q" "q_task x = q_task (task_at q i)"
    "q_state x = TaskPending" "state_at q i = TaskPending"
  shows "holds_closed (put_task q i x)"
  using assms by (auto simp: holds_closed_def blocked_needs_Nil)

lemma put_task_plan:
  "i < num_tasks q \<Longrightarrow> q_task x = q_task (task_at q i) \<Longrightarrow> queue_plan (put_task q i x) = queue_plan q"
  by (simp add: queue_plan_def put_task_def map_update list_update_same_conv)

lemma put_task_weight:
  "i < num_tasks q \<Longrightarrow>
   queue_weight (put_task q i x) + task_weight (task_at q i) = queue_weight q + task_weight x"
proof -
  assume i: "i < num_tasks q"
  have "task_weight (task_at q i) \<le> queue_weight q"
    unfolding queue_weight_def using i by (intro member_le_sum_list) simp_all
  with i show ?thesis
    by (simp add: queue_weight_def put_task_def map_update sum_list_update)
qed

lemma held_ext_weight: "held_ext q q' \<Longrightarrow> queue_weight q' \<le> queue_weight q"
  unfolding queue_weight_def
proof (rule sum_list_mono2)
  assume e: "held_ext q q'"
  show "length (map task_weight (qu_tasks q')) = length (map task_weight (qu_tasks q))"
    using held_ext_fields(1)[OF e] by simp
  show "i < length (map task_weight (qu_tasks q')) \<longrightarrow>
      map task_weight (qu_tasks q') ! i \<le> map task_weight (qu_tasks q) ! i" for i
    using e held_ext_fields(1)[OF e] by (auto simp: held_ext_def task_weight_def)
qed

lemma held_ext_plan: "held_ext q q' \<Longrightarrow> queue_plan q' = queue_plan q"
  unfolding queue_plan_def using held_ext_task held_ext_fields(1) by (intro nth_equalityI) auto

lemma held_ext_settled: "held_ext q q' \<Longrightarrow> settled_tasks q \<subseteq> settled_tasks q'"
  using held_ext_state[of q q'] held_ext_fields(1)[of q q'] doomed_D[of q]
  by (fastforce simp: settled_tasks_def)

text \<open>Updating the offered task and propagating keeps every part of the contract.\<close>

lemma settle_task:
  assumes "queue_inv q" "i < num_tasks q" "state_at q i = TaskPending"
    and "q_task x = q_task (task_at q i)" "q_state x \<noteq> TaskPending"
  defines "q' \<equiv> propagateHolds (put_task q i x)"
  shows "queue_inv q'" "queue_weight q' < queue_weight q" "queue_plan q' = queue_plan q"
    "settled_tasks q \<subseteq> settled_tasks q'" "task_at q' i = x" "num_tasks q' = num_tasks q"
proof -
  let ?p = "put_task q i x"
  have wf: "queue_wf ?p" using assms by (simp add: queue_inv_def put_task_wf)
  then have e: "held_ext ?p q'" and c: "holds_closed q'" using propagateHolds_ext by (auto simp: q'_def)
  show "queue_inv q'" using held_ext_wf[OF e wf] c by (simp add: queue_inv_def)
  have "task_weight x = 0" "0 < task_weight (task_at q i)" using assms by (simp_all add: task_weight_def)
  with put_task_weight[OF assms(2), of x] held_ext_weight[OF e] show "queue_weight q' < queue_weight q" by simp
  show "queue_plan q' = queue_plan q" using held_ext_plan[OF e] put_task_plan assms by simp
  have "settled_tasks q \<subseteq> settled_tasks ?p" using assms(2,3) by (auto simp: settled_tasks_def)
  with held_ext_settled[OF e] show "settled_tasks q \<subseteq> settled_tasks q'" by blast
  show "num_tasks q' = num_tasks q" using held_ext_fields(1)[OF e] by simp
  have "\<not> doomed ?p i" using doomed_D[of ?p i] assms(2,5) by auto
  then show "task_at q' i = x" using e assms(2) by (auto simp: held_ext_def)
qed

lemma keep_pending:
  assumes "queue_inv q" "i < num_tasks q" "state_at q i = TaskPending"
    and "q_task x = q_task (task_at q i)" "q_state x = TaskPending"
    and "task_weight x < task_weight (task_at q i)"
  shows "queue_inv (put_task q i x)" "queue_weight (put_task q i x) < queue_weight q"
    "queue_plan (put_task q i x) = queue_plan q" "settled_tasks q \<subseteq> settled_tasks (put_task q i x)"
  using assms put_task_wf put_task_closed_pending put_task_plan put_task_weight[OF assms(2), of x]
  by (auto simp: queue_inv_def settled_tasks_def)

lemma budget_le_cap: "budget qt c \<le> attempt_cap qt"
  using PolicyFor_attempts[of c] by (simp add: budget_def attempt_cap_def)

lemma RecordAttempt_cases:
  assumes "RecordAttempt q i a = (q', delay, retry)"
  defines "qt \<equiv> (task_at q i)\<lparr>q_attempts := q_attempts (task_at q i) @ [a\<lparr>a_number := AttemptCount (task_at q i) + 1\<rparr>]\<rparr>"
  obtains (settled) s where "q' = propagateHolds (put_task q i (qt\<lparr>q_state := s\<rparr>))" "\<not> retry"
      "s = (if a_succeeded a then TaskSucceeded else TaskFailed)"
      "a_succeeded a \<or> AttemptCount qt \<ge> budget (task_at q i) (a_class a)"
  | (retried) "q' = put_task q i (qt\<lparr>q_state := TaskPending\<rparr>)" "retry" "\<not> a_succeeded a"
      "AttemptCount qt < budget (task_at q i) (a_class a)"
  using assms(1) by (auto simp: RecordAttempt_def Let_def qt_def budget_def not_le split: if_splits)

lemma retry_weight:
  assumes "state_at q i = TaskPending" "AttemptCount (task_at q i) + 1 < budget (task_at q i) c"
  shows "task_weight ((task_at q i)\<lparr>q_attempts := q_attempts (task_at q i) @ [a], q_state := TaskPending\<rparr>)
    < task_weight (task_at q i)"
proof -
  have "AttemptCount (task_at q i) + 1 < attempt_cap (task_at q i)"
    using assms(2) budget_le_cap[of "task_at q i" c] by linarith
  with assms(1) show ?thesis
    by (simp add: task_weight_def AttemptCount_def attempt_cap_def resumeBudget_def split: if_splits)
qed

lemma attempt_outcome_contract:
  fixes a :: TaskAttempt
  assumes "queue_inv q" "Next q = Some i"
  defines "q' \<equiv> attempt_outcome a q i"
  shows "queue_inv q' \<and> queue_weight q' < queue_weight q \<and> queue_plan q' = queue_plan q \<and>
    settled_tasks q \<subseteq> settled_tasks q'"
proof -
  have i: "i < num_tasks q" "state_at q i = TaskPending" using Next_pending[OF assms(2)] by auto
  obtain qr d r where ra: "RecordAttempt q i a = (qr, d, r)" by (cases "RecordAttempt q i a") auto
  then have q': "q' = qr" by (simp add: q'_def attempt_outcome_def)
  show ?thesis
    using ra
  proof (cases rule: RecordAttempt_cases)
    case (settled s)
    with settle_task[OF assms(1) i] show ?thesis unfolding q' by simp
  next
    case retried
    have "task_weight ((task_at q i)\<lparr>q_attempts := q_attempts (task_at q i) @
        [a\<lparr>a_number := AttemptCount (task_at q i) + 1\<rparr>], q_state := TaskPending\<rparr>) < task_weight (task_at q i)"
      using retried(4) i(2) by (intro retry_weight[where c = "a_class a"]) (auto simp: AttemptCount_def)
    with retried(1) keep_pending[OF assms(1) i] show ?thesis unfolding q' by simp
  qed
qed

lemma hold_outcome_contract:
  assumes "queue_inv q" "Next q = Some i"
  shows "queue_inv (hold_outcome why q i) \<and> queue_weight (hold_outcome why q i) < queue_weight q \<and>
    queue_plan (hold_outcome why q i) = queue_plan q \<and> settled_tasks q \<subseteq> settled_tasks (hold_outcome why q i)"
  using settle_task[OF assms(1), of i] Next_pending[OF assms(2)] by (simp add: hold_outcome_def Hold_def)

lemma put_put_task: "put_task (put_task q i x) i y = put_task q i y"
  by (simp add: put_task_def)

lemma resume_outcome_contract:
  fixes why :: "int \<Rightarrow> string"
  assumes "queue_inv q" "Next q = Some i"
  defines "q' \<equiv> resume_outcome why q i"
  shows "queue_inv q' \<and> queue_weight q' < queue_weight q \<and> queue_plan q' = queue_plan q \<and>
    settled_tasks q \<subseteq> settled_tasks q'"
proof -
  have i: "i < num_tasks q" "state_at q i = TaskPending" using Next_pending[OF assms(2)] by auto
  let ?x = "(task_at q i)\<lparr>q_resumes := q_resumes (task_at q i) + 1, q_state := TaskPending\<rparr>"
  show ?thesis
  proof (cases "q_resumes ?x \<le> resumeBudget ?x")
    case True
    then have "task_weight ?x < task_weight (task_at q i)"
      using i(2) by (simp add: task_weight_def AttemptCount_def attempt_cap_def resumeBudget_def split: if_splits)
    with keep_pending[OF assms(1) i, of ?x] True show ?thesis
      by (simp add: q'_def resume_outcome_def RecordResume_def Let_def)
  next
    case False
    then have "q' = propagateHolds (put_task q i (?x\<lparr>q_state := TaskHeld, q_heldReason := why (resumeBudget ?x)\<rparr>))"
      using i(1) by (simp add: q'_def resume_outcome_def RecordResume_def Let_def Hold_def put_put_task)
    with settle_task[OF assms(1) i] show ?thesis by simp
  qed
qed

interpretation wq: task_scheduler queue_inv Next settled_tasks queue_weight queue_plan queue_outcomes
proof
  fix q i f assume q: "queue_inv q" "Next q = Some i"
  show "i \<notin> fst ` settled_tasks q" using Next_pending[OF q(2)] by (auto simp: settled_tasks_def)
  assume "f \<in> queue_outcomes"
  then have "queue_inv (f q i) \<and> queue_weight (f q i) < queue_weight q \<and> queue_plan (f q i) = queue_plan q \<and>
      settled_tasks q \<subseteq> settled_tasks (f q i)"
    unfolding queue_outcomes_def
    using attempt_outcome_contract[OF q] resume_outcome_contract[OF q] hold_outcome_contract[OF q] by blast
  then show "queue_inv (f q i)" "queue_weight (f q i) < queue_weight q"
    "settled_tasks q \<subseteq> settled_tasks (f q i)" "queue_plan (f q i) = queue_plan q" by auto
qed

section \<open>Lemmas on new and restored queues\<close>

abbreviation build_step :: "(string \<rightharpoonup> string) \<Rightarrow> Queue \<Rightarrow> Task \<Rightarrow> Queue" where
  "build_step b q t \<equiv> q\<lparr>qu_tasks := qu_tasks q @ [new_task b t], qu_index := (qu_index q)(t_id t \<mapsto> num_tasks q)\<rparr>"

abbreviation built :: "(string \<rightharpoonup> string) \<Rightarrow> Task list \<Rightarrow> Queue" where
  "built b ts \<equiv> foldl (build_step b) \<lparr>qu_tasks = [], qu_index = Map.empty, qu_boundaries = b\<rparr> ts"

lemma new_task_task [simp]: "q_task (new_task b t) = t"
  by (simp add: new_task_def split: option.split)

lemma built_tasks: "qu_tasks (built b ts) = map (new_task b) ts"
  by (induction ts rule: rev_induct) auto

lemma built_wf: "queue_wf (built b ts)"
proof (induction ts rule: rev_induct)
  case (snoc t ts)
  then show ?case by (auto simp: queue_wf_def nth_append built_tasks less_Suc_eq split: if_splits)
qed (simp add: queue_wf_def)

lemma NewQueue_contract:
  "queue_inv (NewQueue p b)" "queue_plan (NewQueue p b) = p_tasks p" "num_tasks (NewQueue p b) = length (p_tasks p)"
proof -
  have e: "held_ext (built b (p_tasks p)) (NewQueue p b)" "holds_closed (NewQueue p b)"
    using propagateHolds_ext[OF built_wf] by (auto simp: NewQueue_def)
  show "queue_inv (NewQueue p b)" using held_ext_wf[OF e(1) built_wf] e(2) by (simp add: queue_inv_def)
  show "queue_plan (NewQueue p b) = p_tasks p"
    using held_ext_plan[OF e(1)] by (simp add: queue_plan_def built_tasks comp_def)
  then show "num_tasks (NewQueue p b) = length (p_tasks p)" by (metis length_map queue_plan_def)
qed

lemma restore_task_task [simp]: "q_task (restore_task st qt) = q_task qt"
  by (simp add: restore_task_def Let_def)

lemma restored_wf: "queue_wf q \<Longrightarrow> queue_wf (q\<lparr>qu_tasks := map (restore_task st) (qu_tasks q)\<rparr>)"
  by (auto simp: queue_wf_def)

lemma Restore_contract:
  assumes "queue_wf q"
  shows "queue_inv (Restore q st)" "queue_plan (Restore q st) = queue_plan q" "num_tasks (Restore q st) = num_tasks q"
    and "i < num_tasks q \<Longrightarrow> q_state (restore_task st (task_at q i)) \<noteq> TaskPending \<Longrightarrow>
      task_at (Restore q st) i = restore_task st (task_at q i)"
proof -
  let ?q = "q\<lparr>qu_tasks := map (restore_task st) (qu_tasks q)\<rparr>"
  have wf: "queue_wf ?q" using restored_wf[OF assms] .
  then have e: "held_ext ?q (Restore q st)" "holds_closed (Restore q st)"
    using propagateHolds_ext by (auto simp: Restore_def)
  show "queue_inv (Restore q st)" using held_ext_wf[OF e(1) wf] e(2) by (simp add: queue_inv_def)
  show "queue_plan (Restore q st) = queue_plan q"
    using held_ext_plan[OF e(1)] by (simp add: queue_plan_def comp_def)
  show "num_tasks (Restore q st) = num_tasks q" using held_ext_fields(1)[OF e(1)] by simp
  assume i: "i < num_tasks q" "q_state (restore_task st (task_at q i)) \<noteq> TaskPending"
  then have "\<not> doomed ?q i" using doomed_D[of ?q i] by auto
  with e(1) i show "task_at (Restore q st) i = restore_task st (task_at q i)" by (auto simp: held_ext_def)
qed

lemma restore_succeeded:
  "t_id (q_task qt) \<in> rs_succeeded st \<Longrightarrow> q_state (restore_task st qt) = TaskSucceeded"
  by (simp add: restore_task_def Let_def)

lemma resumeBudget_cong: "q_task x = q_task y \<Longrightarrow> resumeBudget x = resumeBudget y"
  by (simp add: resumeBudget_def)

lemma restore_spent_resumes:
  assumes "t_id (q_task qt) \<notin> rs_succeeded st" "count_of (rs_resumes st) (t_id (q_task qt)) > resumeBudget qt"
  shows "q_state (restore_task st qt) = TaskHeld"
  using assms by (auto simp: restore_task_def Let_def resumeBudget_def)

text \<open>The queue a session starts from: fresh, or restored from the journal.\<close>

definition session_queue :: "Plan \<Rightarrow> (string \<rightharpoonup> string) \<Rightarrow> ResumeState option \<Rightarrow> Queue" where
  "session_queue p b st = (case st of None \<Rightarrow> NewQueue p b | Some st \<Rightarrow> Restore (NewQueue p b) st)"

lemma session_queue_contract:
  "queue_inv (session_queue p b st)" "queue_plan (session_queue p b st) = p_tasks p"
  "num_tasks (session_queue p b st) = length (p_tasks p)"
proof -
  have wf: "queue_wf (NewQueue p b)" using NewQueue_contract(1) by (simp add: queue_inv_def)
  show "queue_inv (session_queue p b st)" "queue_plan (session_queue p b st) = p_tasks p"
    "num_tasks (session_queue p b st) = length (p_tasks p)"
    using NewQueue_contract[of p b] Restore_contract(1-3)[OF wf]
    by (simp_all add: session_queue_def split: option.split)
qed

lemma queue_plan_nth: "queue_plan q = p_tasks p \<Longrightarrow> i < num_tasks q \<Longrightarrow> q_task (task_at q i) = p_tasks p ! i"
  by (metis nth_map queue_plan_def)

text \<open>The success of one attempt, and the plan of the witnesses drained by it.\<close>

definition ok_attempt :: TaskAttempt where
  "ok_attempt = \<lparr>a_number = 0, a_succeeded = True, a_class = FailureOther [], a_reason = [], a_output = []\<rparr>"

definition sample_queue :: Queue where
  "sample_queue = session_queue sample_plan Map.empty None"

section \<open>Properties\<close>

text \<open>Holding tasks whose work can no longer be reached always ends, and holds exactly the pending
  tasks that need, directly or through other pending tasks, a task that failed or is held: no task is
  left waiting for ever, and none is held for nothing. Everything else about every task is unchanged.\<close>

theorem propagate_holds_exact:
  assumes "queue_wf q" and "i < num_tasks q"
  shows "state_at (propagateHolds q) i = (if doomed q i then TaskHeld else state_at q i) \<and>
    (task_at (propagateHolds q) i)\<lparr>q_state := s, q_heldReason := why\<rparr> =
      (task_at q i)\<lparr>q_state := s, q_heldReason := why\<rparr>"
proof -
  have "held_ext q (propagateHolds q)" using propagateHolds_ext[OF assms(1)] by simp
  then show ?thesis using propagateHolds_state[OF assms] assms(2) by (auto simp: held_ext_def)
qed

theorem propagate_holds_exact_witness:
  "state_at (propagateHolds (put_task sample_queue 0 ((task_at sample_queue 0)\<lparr>q_state := TaskFailed\<rparr>))) 1 = TaskHeld"
proof -
  let ?q = "put_task sample_queue 0 ((task_at sample_queue 0)\<lparr>q_state := TaskFailed\<rparr>)"
  have n: "num_tasks sample_queue = 2"
    using session_queue_contract(3)[of sample_plan Map.empty None] by (simp add: sample_queue_def sample_plan_def)
  have wf: "queue_wf ?q"
    using session_queue_contract(1)[of sample_plan Map.empty None] n
    by (intro put_task_wf) (simp_all add: sample_queue_def queue_inv_def)
  have e: "state_at ?q 0 = TaskFailed" "state_at ?q 1 = TaskPending" "qu_index ?q ''build'' = Some 0"
    "''build'' \<in> set (t_needs (q_task (task_at ?q 1)))" by code_simp+
  then have "doomed ?q 1" using n by (intro doomed_base[of 1 ?q "''build''" 0]) simp_all
  with propagate_holds_exact[OF wf, of 1] n show ?thesis by simp
qed

text \<open>C15. The queue never strands work. Start from any validated plan, any human boundaries and any
  history the journal has, and drive the offered tasks to any sequence of outcomes: when nothing more is
  offered, no task is pending. Nothing offered means nothing left to do, never a deadlock.\<close>

theorem queue_never_strands:
  assumes "Plan_Validate p = []" and "set fs \<subseteq> queue_outcomes"
    and "drain Next fs (session_queue p b st) = (is, q)" and "Next q = None" and "i < length (p_tasks p)"
  shows "Terminal (state_at q i)"
proof -
  have q: "queue_inv q" "queue_plan q = p_tasks p"
    using wq.drain_inv[OF session_queue_contract(1) assms(2,3)] session_queue_contract(2) by auto
  have "num_tasks q = length (p_tasks p)" using q(2) by (metis length_map queue_plan_def)
  then have "state_at q i \<noteq> TaskPending"
    using no_pending_left[of q i] q assms(1,4,5) by (simp add: queue_inv_def Plan_Validate_iff)
  then show ?thesis by (cases "state_at q i") (simp_all add: Terminal_def)
qed

theorem queue_never_strands_witness:
  "Terminal (state_at (snd (drain Next [attempt_outcome ok_attempt, attempt_outcome ok_attempt] sample_queue)) 1)"
proof -
  let ?d = "drain Next [attempt_outcome ok_attempt, attempt_outcome ok_attempt] sample_queue"
  have v: "Plan_Validate sample_plan = []" by code_simp
  have n: "Next (snd ?d) = None" by code_simp
  have "set [attempt_outcome ok_attempt, attempt_outcome ok_attempt] \<subseteq> queue_outcomes"
    by (simp add: queue_outcomes_def)
  from queue_never_strands[OF v this, of Map.empty None "fst ?d" "snd ?d" 1] n show ?thesis
    by (simp add: sample_queue_def sample_plan_def)
qed

text \<open>Completed work is not repeated and every run is bounded. From a restored queue, however its
  tasks turn out, a task whose success the journal holds is never offered and stays succeeded, a task that
  spent its resume budget in earlier runs is never offered and stays held, and the number of drives is at
  most the sum of the tasks' allowances of attempts and resumes.\<close>

theorem restored_run_bounded:
  assumes "set fs \<subseteq> queue_outcomes" and "drain Next fs (session_queue p b (Some st)) = (is, q)"
  shows "(\<forall>i<length (p_tasks p). t_id (p_tasks p ! i) \<in> rs_succeeded st \<longrightarrow>
             i \<notin> set is \<and> state_at q i = TaskSucceeded)
       \<and> (\<forall>i<length (p_tasks p). t_id (p_tasks p ! i) \<notin> rs_succeeded st \<and>
             count_of (rs_resumes st) (t_id (p_tasks p ! i)) > resumeBudget (new_task b (p_tasks p ! i)) \<longrightarrow>
             i \<notin> set is \<and> state_at q i = TaskHeld)
       \<and> length is \<le> queue_weight (session_queue p b (Some st))"
proof (intro conjI allI impI)
  let ?n = "NewQueue p b" and ?q = "session_queue p b (Some st)"
  have wf: "queue_wf ?n" using NewQueue_contract(1) by (simp add: queue_inv_def)
  note dr = wq.drain_keeps_settled[OF session_queue_contract(1) assms(1,2)]
  have task: "q_task (task_at ?n i) = p_tasks p ! i" if "i < length (p_tasks p)" for i
    using queue_plan_nth[OF NewQueue_contract(2)] that NewQueue_contract(3) by simp
  have settled: "i \<notin> set is \<and> state_at q i = s"
    if i: "i < length (p_tasks p)" "q_state (restore_task st (task_at ?n i)) = s" "s \<noteq> TaskPending" for i s
  proof -
    have "task_at ?q i = restore_task st (task_at ?n i)"
      using Restore_contract(4)[OF wf, of i st] i NewQueue_contract(3)[of p b] by (simp add: session_queue_def)
    then have m: "(i, s) \<in> settled_tasks ?q"
      using i session_queue_contract(3)[of p b "Some st"] by (simp add: settled_tasks_def)
    have "i \<notin> set is" using dr m by force
    moreover have "(i, s) \<in> settled_tasks q" using dr m by blast
    ultimately show ?thesis by (simp add: settled_tasks_def)
  qed
  fix i assume i: "i < length (p_tasks p)"
  show "i \<notin> set is" "state_at q i = TaskSucceeded" if "t_id (p_tasks p ! i) \<in> rs_succeeded st"
    using settled[OF i, of TaskSucceeded] restore_succeeded[of "task_at ?n i" st] task[OF i] that by auto
  show "i \<notin> set is" "state_at q i = TaskHeld"
    if "t_id (p_tasks p ! i) \<notin> rs_succeeded st \<and>
        count_of (rs_resumes st) (t_id (p_tasks p ! i)) > resumeBudget (new_task b (p_tasks p ! i))"
    using settled[OF i, of TaskHeld] restore_spent_resumes[of "task_at ?n i" st] task[OF i] that
      resumeBudget_cong[of "task_at ?n i" "new_task b (p_tasks p ! i)"] by auto
next
  show "length is \<le> queue_weight (session_queue p b (Some st))"
    using wq.drain_bounded[OF session_queue_contract(1) assms(1,2)] by simp
qed

theorem restored_run_bounded_witness:
  "let st = no_history\<lparr>rs_succeeded := {''build''}\<rparr>;
       r = drain Next [attempt_outcome ok_attempt] (session_queue sample_plan Map.empty (Some st))
   in 0 \<notin> set (fst r) \<and> state_at (snd r) 0 = TaskSucceeded"
proof -
  let ?st = "no_history\<lparr>rs_succeeded := {''build''}\<rparr>"
  let ?r = "drain Next [attempt_outcome ok_attempt] (session_queue sample_plan Map.empty (Some ?st))"
  have o: "set [attempt_outcome ok_attempt] \<subseteq> queue_outcomes" by (simp add: queue_outcomes_def)
  from restored_run_bounded[OF o, of sample_plan Map.empty ?st "fst ?r" "snd ?r"] show ?thesis
    by (simp add: Let_def sample_plan_def sample_task_def)
qed

text \<open>The queue offers an eligible task of the best band, and among those the one declared first;
  it offers nothing exactly when no task is pending with all its dependencies succeeded.\<close>

theorem next_offers_preferred:
  "case Next q of
     None \<Rightarrow> \<forall>i<num_tasks q. \<not> eligible q i
   | Some i \<Rightarrow> i < num_tasks q \<and> eligible q i \<and>
       (\<forall>j<num_tasks q. eligible q j \<longrightarrow>
          rank_at q i < rank_at q j \<or> rank_at q i = rank_at q j \<and> i \<le> j)"
  using Next_None[of q] Next_Some[of q] by (auto split: option.split simp: preferred_def)

theorem next_offers_preferred_witness:
  "Next sample_queue = Some 0 \<and> eligible sample_queue 0"
proof -
  have n: "Next sample_queue = Some 0" by code_simp
  with next_offers_preferred[of sample_queue] show ?thesis by simp
qed

text \<open>Restarting renews an exhausted retry budget by one attempt. A task that already used any
  number of attempts in earlier runs of the journal, its whole budget included, comes back pending and is
  offered again.\<close>

theorem restart_reoffers_exhausted_task:
  assumes "p_tasks p = [t]" and "t_needs t = []" and "t_requiresChecks t = []"
    and "t_id t \<notin> rs_succeeded st" and "rs_resumes st = Map.empty" and "t_maxResumes t \<ge> 0"
    and "count_of (rs_attempts st) (t_id t) = n" and "n > 0"
  shows "Next (session_queue p b (Some st)) = Some 0 \<and>
    AttemptCount (task_at (session_queue p b (Some st)) 0) = n"
proof -
  let ?q = "session_queue p b (Some st)" and ?n = "NewQueue p b"
  have nt: "new_task b t = \<lparr>q_task = t, q_state = TaskPending, q_attempts = [], q_heldReason = [],
      q_interrupted = False, q_resumes = 0\<rparr>"
    using assms(3) by (simp add: new_task_def boundaryHold_def List.map_filter_def)
  have unheld: "\<not> doomed q 0" if "t_needs (q_task (task_at q 0)) = []" for q
    using that by (auto elim: doomed.cases)
  have wf: "queue_wf (built b [t])" "queue_wf ?n"
    using built_wf[of b "[t]"] NewQueue_contract(1) by (simp_all add: queue_inv_def)
  have "held_ext (built b [t]) ?n"
    using propagateHolds_ext[OF wf(1)] assms(1) by (simp add: NewQueue_def)
  then have n0: "task_at ?n 0 = new_task b t"
    using unheld[of "built b [t]"] assms(2) by (auto simp: held_ext_def)
  let ?r = "?n\<lparr>qu_tasks := map (restore_task st) (qu_tasks ?n)\<rparr>"
  have l: "num_tasks ?n = 1" using NewQueue_contract(3)[of p b] assms(1) by simp
  have "held_ext ?r ?q"
    using propagateHolds_ext[OF restored_wf[OF wf(2)]] by (simp add: session_queue_def Restore_def)
  moreover have "\<not> doomed ?r 0" using unheld[of ?r] l n0 assms(2) by simp
  ultimately have q0: "task_at ?q 0 = restore_task st (new_task b t)" using l n0 by (auto simp: held_ext_def)
  have rt: "q_state (task_at ?q 0) = TaskPending" "q_attempts (task_at ?q 0) = map earlier_attempt [1..n]"
    "q_task (task_at ?q 0) = t"
    using assms unfolding q0 nt
    by (auto simp: restore_task_def Let_def count_of_def resumeBudget_def DefaultMaxResumes_def)
  then have "eligible ?q 0" using assms(2) by (simp add: eligible_def dependenciesSatisfied_def)
  moreover have "num_tasks ?q = 1" using session_queue_contract(3)[of p b "Some st"] assms(1) by simp
  ultimately have "Next ?q = Some 0" by (simp add: Next_def)
  then show ?thesis using rt(2) assms(8) by (simp add: AttemptCount_def)
qed

theorem restart_reoffers_exhausted_task_witness:
  "let st = no_history\<lparr>rs_attempts := [''build'' \<mapsto> 3]\<rparr>;
       q = session_queue (sample_plan\<lparr>p_tasks := [sample_task]\<rparr>) Map.empty (Some st)
   in Next q = Some 0 \<and> AttemptCount (task_at q 0) = 3 \<and> budget (task_at q 0) FailureCodeDefect = 3"
proof -
  let ?st = "no_history\<lparr>rs_attempts := [''build'' \<mapsto> 3]\<rparr>"
  let ?p = "sample_plan\<lparr>p_tasks := [sample_task]\<rparr>"
  have "q_task (task_at (session_queue ?p Map.empty (Some ?st)) 0) = sample_task"
    using queue_plan_nth[OF session_queue_contract(2), of 0 ?p Map.empty "Some ?st"]
      session_queue_contract(3)[of ?p Map.empty "Some ?st"] by simp
  then show ?thesis
    using restart_reoffers_exhausted_task[of ?p sample_task ?st 3 Map.empty]
    by (simp add: Let_def sample_task_def no_history_def count_of_def budget_def)
qed

end
