(* ===== verification/Redact.thy ===== *)
theory Redact
  imports Go_Regexp "HOL-Library.Sublist"
begin

text \<open>
  Redaction of credential material (\<^verbatim>\<open>Redact\<close> and \<^verbatim>\<open>secretPatterns\<close> in
  \<^verbatim>\<open>internal/unattended/probes.go\<close>), through which every captured output passes before it is written.
  Under \<^verbatim>\<open>(?i)\<close> a set of letters also holds the two non-ASCII characters that fold into it.

  What an expression promises is stated of substrings: \<open>replace_removes\<close> for the expression that is
  replaced, and \<open>replace_keeps_out\<close> for what later replacements cannot bring back.
\<close>

definition bearer_char :: rx where
  "bearer_char = alts [RSet (alnum @ [(46, 46), (95, 95), (45, 45)]), long_s, kelvin]"

definition jwt_part :: rx where
  "jwt_part = RRep 10 (RSet (alnum @ [(95, 95), (45, 45)]))"

definition gh_token :: rx where
  "gh_token =
     seqs [lit ''gh'', RSet (map (\<lambda>c. (of_char c, of_char c)) ''pousr''), lit ''_'', RRep 16 (RSet alnum)]"

definition secretPatterns :: "rx list" where
  "secretPatterns =
     [gh_token,
      seqs [lit ''github_pat_'', RRep 20 (RSet (alnum @ [(95, 95)]))],
      seqs [RWordBoundary, lit_i ''bearer'', RRep 1 (RSet spaces), RRep 12 bearer_char],
      seqs ([RWordBoundary, lit ''AKIA''] @ replicate 16 (RSet [(48, 57), (65, 90)]) @ [RWordBoundary]),
      seqs [RWordBoundary,
            alts [lit_i ''token'', lit_i ''secret'', lit_i ''password'', lit_i ''passwd'',
                  seqs [lit_i ''api'', opt (RSet [(95, 95), (45, 45)]), lit_i ''key'']],
            RWordBoundary, RRep 0 (RSet spaces), RSet [(58, 58), (61, 61)], RRep 0 (RSet spaces),
            RRep 1 (RNotSet spaces)],
      seqs [RWordBoundary, lit ''ey'', jwt_part, lit ''.'', jwt_part, lit ''.'', jwt_part],
      seqs [RWordBoundary, RRep 40 (RSet (alnum @ [(95, 95), (45, 45)])), RWordBoundary]]"

definition Redact :: "string \<Rightarrow> string" where
  "Redact s = foldl (\<lambda>t re. ReplaceAllString re t ''[redacted]'') s secretPatterns"

lemma Redact_clean:
  assumes "\<forall>r\<in>set secretPatterns. \<not> MatchString r s"
  shows "Redact s = s"
proof -
  have "foldl (\<lambda>t re. ReplaceAllString re t ''[redacted]'') s rs = s" if "\<forall>r\<in>set rs. \<not> MatchString r s" for rs
    using that by (induction rs) (simp_all add: ReplaceAllString_no_match)
  with assms show ?thesis by (simp add: Redact_def)
qed

section \<open>What a replacement leaves\<close>

definition redaction :: string where
  "redaction = ''[redacted]''"

text \<open>Text that no redaction can be a part of.\<close>

definition plain :: "string \<Rightarrow> bool" where
  "plain w \<longleftrightarrow> CHR ''['' \<notin> set w \<and> CHR '']'' \<notin> set w \<and> 8 < length w"

lemma sublist_around:
  assumes "sublist w (x @ c # y)" "c \<notin> set w"
  shows "sublist w x \<or> sublist w y"
proof -
  consider "sublist w x" | "sublist w (c # y)" | w1 w2 where "w = w1 @ w2" "suffix w1 x" "prefix w2 (c # y)"
    using assms(1) by (auto simp: sublist_append)
  then show ?thesis
  proof cases
    case 2
    then show ?thesis
      using assms(2) by (auto simp: sublist_Cons_right prefix_Cons)
  next
    case 3
    then have "w2 = []"
      using assms(2) by (cases w2) (auto simp: prefix_Cons)
    with 3 show ?thesis
      by (simp add: suffix_imp_sublist)
  qed simp
qed

lemma sublist_redacted:
  assumes "sublist w (x @ redaction @ y)" "plain w"
  shows "sublist w x \<or> sublist w y"
proof -
  have c: "CHR ''['' \<notin> set w" "CHR '']'' \<notin> set w" and l: "8 < length w"
    using assms(2) by (auto simp: plain_def)
  have "sublist w (x @ CHR ''['' # (''redacted'' @ CHR '']'' # y))"
    using assms(1) by (simp add: redaction_def)
  then have "sublist w x \<or> sublist w (''redacted'' @ CHR '']'' # y)"
    using sublist_around [OF _ c(1)] by simp
  moreover have "\<not> sublist w ''redacted''"
    using sublist_length_le [of w "''redacted''"] l by auto
  ultimately show ?thesis
    using sublist_around [of w "''redacted''" "CHR '']''" y] c(2) by blast
qed

lemma replace_keeps_out_from:
  "plain w \<Longrightarrow> sublist w (replace_from r redaction s fuel i) \<Longrightarrow> sublist w s"
proof (induction fuel arbitrary: i)
  case 0
  then show ?case
    using sublist_order.order_trans [OF _ sublist_drop [of i s]] by simp
next
  case (Suc fuel)
  show ?case
  proof (cases "FindFrom r s i")
    case None
    then show ?thesis
      using Suc.prems sublist_order.order_trans [OF _ sublist_drop [of i s]] by simp
  next
    case (Some ab)
    obtain a b where ab: "ab = (a, b)"
      by fastforce
    then have "sublist w (take (a - i) (drop i s)) \<or> sublist w (replace_from r redaction s fuel b)"
      using Suc.prems Some sublist_redacted by auto
    moreover have "sublist (take (a - i) (drop i s)) s"
      using sublist_order.order_trans sublist_take sublist_drop by blast
    ultimately show ?thesis
      using Suc.IH [OF Suc.prems(1)] sublist_order.order_trans by blast
  qed
qed

lemma replace_keeps_out:
  "plain w \<Longrightarrow> \<not> sublist w s \<Longrightarrow> \<not> sublist w (ReplaceAllString r s redaction)"
  using replace_keeps_out_from by (auto simp: ReplaceAllString_def)

text \<open>An expression that matches wherever a text of a kind starts, and never the empty text, leaves no text
  of the kind.\<close>

lemma sublist_at: "sublist w s \<longleftrightarrow> (\<exists>k. k + length w \<le> length s \<and> take (length w) (drop k s) = w)"
proof
  assume "sublist w s"
  then obtain x y where "s = x @ w @ y"
    by (auto simp: sublist_def)
  then show "\<exists>k. k + length w \<le> length s \<and> take (length w) (drop k s) = w"
    by (intro exI [of _ "length x"]) simp
next
  assume "\<exists>k. k + length w \<le> length s \<and> take (length w) (drop k s) = w"
  then obtain k where "take (length w) (drop k s) = w"
    by blast
  then show "sublist w s"
    using sublist_take [of "length w" "drop k s"] sublist_drop [of k s] sublist_order.order_trans by metis
qed

lemma FindFrom_leftmost:
  assumes "FindFrom r s i = Some (a, b)" "i \<le> k" "k < a"
  shows "rx_ends r s k = []"
proof -
  have "sorted is \<Longrightarrow> find_from r s is = Some (a, b) \<Longrightarrow> k \<in> set is \<Longrightarrow> k < a \<Longrightarrow> rx_ends r s k = []" for "is"
  proof (induction "is")
    case (Cons x xs)
    then show ?case
      using find_from_Some [of r s xs a b] by (auto split: list.splits)
  qed simp
  moreover have "k \<in> set [i ..< Suc (length s)]"
    using assms FindFrom_Some(2,3) [OF assms(1)] by (auto simp del: upt_Suc)
  ultimately show ?thesis
    using assms sorted_upt unfolding FindFrom_def by blast
qed

lemma replace_removes:
  assumes "plain w" "\<And>i. take (length w) (drop i s) = w \<Longrightarrow> rx_ends r s i \<noteq> []"
    and "\<And>i j. j \<in> set (rx_ends r s i) \<Longrightarrow> i < j"
  shows "\<not> sublist w (ReplaceAllString r s redaction)"
proof -
  have w: "w \<noteq> []"
    using assms(1) by (auto simp: plain_def)
  have "length s \<le> i + fuel \<Longrightarrow> \<not> sublist w (replace_from r redaction s fuel i)" for fuel i
  proof (induction fuel arbitrary: i)
    case 0
    then show ?case
      using w by (auto simp: sublist_Nil_right)
  next
    case (Suc fuel)
    show ?case
    proof (cases "FindFrom r s i")
      case None
      have "\<not> sublist w (drop i s)"
      proof
        assume "sublist w (drop i s)"
        then obtain k where k: "k + length w \<le> length (drop i s)" "take (length w) (drop k (drop i s)) = w"
          by (auto simp: sublist_at)
        then have "rx_ends r s (i + k) \<noteq> []"
          using assms(2) by (simp add: add.commute)
        moreover have "i + k \<in> set [i ..< Suc (length s)]"
          using k(1) w by (cases "i \<le> length s") (auto simp del: upt_Suc)
        ultimately show False
          using None unfolding FindFrom_def find_from_None by blast
      qed
      then show ?thesis
        using None by simp
    next
      case (Some ab)
      obtain a b where ab: "ab = (a, b)"
        by fastforce
      note found = FindFrom_Some [OF Some [unfolded ab]]
      have "a < b"
        using Some ab find_from_Some assms(3) unfolding FindFrom_def by blast
      then have rest: "\<not> sublist w (replace_from r redaction s fuel b)"
        using Suc.IH [of b] Suc.prems found by linarith
      have "\<not> sublist w (take (a - i) (drop i s))"
      proof
        assume "sublist w (take (a - i) (drop i s))"
        then obtain k where k: "k + length w \<le> length (take (a - i) (drop i s))"
          "take (length w) (drop k (take (a - i) (drop i s))) = w"
          by (auto simp: sublist_at)
        then have "take (length w) (drop (i + k) s) = w"
          by (auto simp: drop_take min_def add.commute split: if_splits)
        moreover have "i + k < a"
          using k(1) w by (cases w) (auto simp: min_def split: if_splits)
        ultimately show False
          using FindFrom_leftmost [OF Some [unfolded ab], of "i + k"] assms(2) by simp
      qed
      then show ?thesis
        using Some ab rest sublist_redacted [OF _ assms(1)] by auto
    qed
  qed
  then show ?thesis
    by (simp add: ReplaceAllString_def)
qed

section \<open>Forge tokens\<close>

text \<open>The two shapes of the forge's tokens, in their shortest form.\<close>

definition classic_token :: "string \<Rightarrow> bool" where
  "classic_token w \<longleftrightarrow>
     (\<exists>c v. w = ''gh'' @ [c] @ ''_'' @ v \<and> c \<in> set ''pousr'' \<and> length v = 16 \<and> list_all (in_ranges alnum) v)"

definition fine_grained_token :: "string \<Rightarrow> bool" where
  "fine_grained_token w \<longleftrightarrow>
     (\<exists>v. w = ''github_pat_'' @ v \<and> length v = 20 \<and> list_all (in_ranges (alnum @ [(95, 95)])) v)"

lemma mem_seq: "j \<in> set (rx_ends (RSeq a b) s i) \<longleftrightarrow> (\<exists>k\<in>set (rx_ends a s i). j \<in> set (rx_ends b s k))"
  by auto

lemma take_drop_Cons:
  assumes "take (length (c # w)) (drop i s) = c # w"
  shows "i < length s" "s ! i = c" "take (length w) (drop (Suc i) s) = w"
proof -
  show "i < length s"
    using assms by (rule contrapos_pp) simp
  then show "s ! i = c" "take (length w) (drop (Suc i) s) = w"
    using assms by (simp_all add: Cons_nth_drop_Suc [symmetric])
qed

lemma lit_ends: "take (length w) (drop i s) = w \<Longrightarrow> i + length w \<in> set (rx_ends (lit w) s i)"
proof (induction w arbitrary: i)
  case (Cons c w)
  note c = take_drop_Cons [OF Cons.prems]
  then show ?case
    using Cons.IH [OF c(3)] by (simp add: lit_def seqs_def)
qed (simp add: lit_def seqs_def)

lemma lit_progress: "j \<in> set (rx_ends (lit (c # w)) s i) \<Longrightarrow> i < j"
  using rx_ends_bounds [of j "lit w" s "Suc i"] by (auto simp: lit_def seqs_def split: if_splits)

lemma rep_set_ends:
  "list_all (in_ranges rs) v \<Longrightarrow> take (length v) (drop i s) = v \<Longrightarrow> length v \<le> fuel \<Longrightarrow>
   rep_ends (rx_ends (RSet rs) s) fuel (length v) i \<noteq> []"
proof (induction v arbitrary: i fuel)
  case Nil
  then show ?case
    by (cases fuel) simp_all
next
  case (Cons c v)
  obtain f where f: "fuel = Suc f"
    using Cons.prems(3) by (cases fuel) auto
  note c = take_drop_Cons [OF Cons.prems(2)]
  then show ?case
    using Cons.IH [OF _ c(3), of f] Cons.prems f by simp
qed

lemma seqs_step: "k \<in> set (rx_ends r s i) \<Longrightarrow> rx_ends (seqs rs) s k \<noteq> [] \<Longrightarrow> rx_ends (seqs (r # rs)) s i \<noteq> []"
  by (auto simp: seqs_def)

lemma seqs_progress: "j \<in> set (rx_ends (seqs (lit (c # w) # rs)) s i) \<Longrightarrow> i < j"
  using lit_progress rx_ends_bounds by (fastforce simp: seqs_def)

lemma take_drop_append:
  "take (length (x @ y)) (drop i s) = x @ y \<Longrightarrow>
   take (length x) (drop i s) = x \<and> take (length y) (drop (i + length x) s) = y \<and> i + length (x @ y) \<le> length s \<or> x @ y = []"
proof -
  assume t: "take (length (x @ y)) (drop i s) = x @ y"
  have "length (x @ y) \<le> length (drop i s)"
    using t by (metis length_take min.cobounded1)
  moreover have "take (length x) (drop i s) = x"
    using arg_cong [OF t, of "take (length x)"] by simp
  moreover have "take (length y) (drop (i + length x) s) = y"
    using arg_cong [OF t, of "drop (length x)"] by (simp add: drop_take add.commute)
  ultimately show ?thesis
    by auto
qed

lemma seqs_rep:
  assumes "list_all (in_ranges rs) v" "take (length v) (drop i s) = v" "i + length v \<le> length s"
  shows "rx_ends (seqs [RRep (length v) (RSet rs)]) s i \<noteq> []"
  using rep_set_ends [OF assms(1,2), of "length s - i"] assms(3) by (simp add: seqs_def)

lemma classic_token_matched:
  assumes "classic_token w" "take (length w) (drop i s) = w"
  shows "rx_ends gh_token s i \<noteq> []"
proof -
  obtain c v where w: "w = ''gh'' @ [c] @ ''_'' @ v" "c \<in> set ''pousr''" "length v = 16" "list_all (in_ranges alnum) v"
    using assms(1) by (auto simp: classic_token_def)
  have 1: "take (length ''gh'') (drop i s) = ''gh''" "take (length ([c] @ ''_'' @ v)) (drop (i + 2) s) = [c] @ ''_'' @ v"
    using take_drop_append [of "''gh''" "[c] @ ''_'' @ v" i s] assms(2) w(1) by (auto simp: eval_nat_numeral)
  have 2: "i + 2 < length s" "s ! (i + 2) = c" "take (length (''_'' @ v)) (drop (i + 3) s) = ''_'' @ v"
    using take_drop_Cons [of c "''_'' @ v" "i + 2" s] 1(2) by (auto simp: eval_nat_numeral)
  have 3: "take (length ''_'') (drop (i + 3) s) = ''_''" "take (length v) (drop (i + 4) s) = v" "i + 4 + length v \<le> length s"
    using take_drop_append [of "''_''" v "i + 3" s] 2(3) by (auto simp: eval_nat_numeral)
  have ends: "i + 2 \<in> set (rx_ends (lit ''gh'') s i)" "i + 4 \<in> set (rx_ends (lit ''_'') s (i + 3))"
    using lit_ends [OF 1(1)] lit_ends [OF 3(1)] by (simp_all add: eval_nat_numeral)
  have mid: "i + 3 \<in> set (rx_ends (RSet (map (\<lambda>c. (of_char c, of_char c)) ''pousr'')) s (i + 2))"
    using 2(1,2) w(2) by (auto simp: in_ranges_def)
  have rest: "rx_ends (seqs [RRep 16 (RSet alnum)]) s (i + 4) \<noteq> []"
    using seqs_rep [OF w(4) 3(2,3)] w(3) by simp
  show ?thesis
    unfolding gh_token_def by (rule seqs_step [OF ends(1) seqs_step [OF mid seqs_step [OF ends(2) rest]]])
qed

lemma fine_grained_token_matched:
  assumes "fine_grained_token w" "take (length w) (drop i s) = w"
  shows "rx_ends (secretPatterns ! 1) s i \<noteq> []"
proof -
  obtain v where w: "w = ''github_pat_'' @ v" "length v = 20" "list_all (in_ranges (alnum @ [(95, 95)])) v"
    using assms(1) by (auto simp: fine_grained_token_def)
  have 1: "take (length ''github_pat_'') (drop i s) = ''github_pat_''" "take (length v) (drop (i + 11) s) = v"
    "i + 11 + length v \<le> length s"
    using take_drop_append [of "''github_pat_''" v i s] assms(2) w(1) by (auto simp: eval_nat_numeral)
  have rest: "rx_ends (seqs [RRep 20 (RSet (alnum @ [(95, 95)]))]) s (i + 11) \<noteq> []"
    using seqs_rep [OF w(3) 1(2,3)] w(2) by simp
  have "i + 11 \<in> set (rx_ends (lit ''github_pat_'') s i)"
    using lit_ends [OF 1(1)] by (simp add: eval_nat_numeral)
  from seqs_step [OF this rest] show ?thesis
    by (simp add: secretPatterns_def)
qed

lemma token_plain: "classic_token w \<or> fine_grained_token w \<Longrightarrow> plain w"
proof -
  have "\<not> in_ranges alnum CHR ''[''" "\<not> in_ranges alnum CHR '']''" "\<not> in_ranges (alnum @ [(95, 95)]) CHR ''[''"
    "\<not> in_ranges (alnum @ [(95, 95)]) CHR '']''"
    by code_simp+
  then show "classic_token w \<or> fine_grained_token w \<Longrightarrow> plain w"
    by (auto simp: classic_token_def fine_grained_token_def plain_def list_all_iff)
qed

lemma keeps_out_all: "plain w \<Longrightarrow> \<not> sublist w s \<Longrightarrow> \<not> sublist w (foldl (\<lambda>t re. ReplaceAllString re t redaction) s rs)"
  by (induction rs arbitrary: s) (simp_all add: replace_keeps_out)

section \<open>Properties\<close>

text \<open>No forge token survives redaction. Whatever the text, its redaction holds no classic forge token and no
  fine-grained one anywhere, not even inside a longer word or next to another redaction: the first two
  expressions remove them, and nothing the later ones do brings one back.\<close>

theorem no_forge_token_survives:
  "\<not> (\<exists>w. sublist w (Redact s) \<and> (classic_token w \<or> fine_grained_token w))"
proof
  assume "\<exists>w. sublist w (Redact s) \<and> (classic_token w \<or> fine_grained_token w)"
  then obtain w where w: "sublist w (Redact s)" "classic_token w \<or> fine_grained_token w"
    by blast
  have p: "plain w"
    using token_plain w(2) .
  define s1 where "s1 = ReplaceAllString gh_token s redaction"
  define s2 where "s2 = ReplaceAllString (secretPatterns ! 1) s1 redaction"
  have red: "Redact s = foldl (\<lambda>t re. ReplaceAllString re t redaction) s2 (drop 2 secretPatterns)"
    by (simp add: Redact_def s1_def s2_def secretPatterns_def redaction_def)
  have "\<not> sublist w s2"
  proof (cases "classic_token w")
    case True
    have "\<not> sublist w s1"
      unfolding s1_def using p classic_token_matched [OF True] seqs_progress
      by (intro replace_removes) (auto simp: gh_token_def)
    then show ?thesis
      unfolding s2_def by (rule replace_keeps_out [OF p])
  next
    case False
    then show ?thesis
      unfolding s2_def using p w(2) fine_grained_token_matched seqs_progress
      by (intro replace_removes) (auto simp: secretPatterns_def)
  qed
  then show False
    using keeps_out_all [OF p] w(1) red by metis
qed

text \<open>A secret under a compound name is not redacted. The expression for named secrets wants a word boundary
  before the name, and an underscore is not one: a token named the way environment variables are passes
  through as it is.\<close>

lemma underscored_secret_survives:
  "Redact ''DB_TOKEN=s3'' = ''DB_TOKEN=s3'' \<and> Redact ''token=s3'' = ''[redacted]''"
  by code_simp

end
