(* ===== verification/Controller.thy ===== *)
theory Controller
  imports Failure Redact
begin

text \<open>
  The controller-result contract (\<^verbatim>\<open>internal/unattended/controller.go\<close>): what a supervised task says
  of its own execution, and what one attempt means for the run.

  JSON decoding is the parameter \<open>unmarshal\<close> of \<open>ParseControllerResult\<close>. An execution
  (\<open>Execution\<close>) is whatever was observed of an attempt; the text of an error is its string.
\<close>

section \<open>Structured results\<close>

datatype ControllerState =
  StateContinue | StateComplete | StateHumanBlocked | StateFailed | StateOther string

fun ControllerState_Valid :: "ControllerState \<Rightarrow> bool" where
  "ControllerState_Valid (StateOther s) = False"
| "ControllerState_Valid s = True"

definition ControllerState_of :: "string \<Rightarrow> ControllerState" where
  "ControllerState_of s =
     (if s = ''CONTINUE'' then StateContinue
      else if s = ''COMPLETE'' then StateComplete
      else if s = ''HUMAN_BLOCKED'' then StateHumanBlocked
      else if s = ''FAILED'' then StateFailed
      else StateOther s)"

fun ControllerState_text :: "ControllerState \<Rightarrow> string" where
  "ControllerState_text StateContinue = ''CONTINUE''"
| "ControllerState_text StateComplete = ''COMPLETE''"
| "ControllerState_text StateHumanBlocked = ''HUMAN_BLOCKED''"
| "ControllerState_text StateFailed = ''FAILED''"
| "ControllerState_text (StateOther s) = s"

definition normalizeReason :: "string \<Rightarrow> string" where
  "normalizeReason reason = ToLower (TrimSpace reason)"

definition IsResumableReason :: "string \<Rightarrow> bool" where
  "IsResumableReason reason =
     (normalizeReason reason = ''max_turns'' \<or> normalizeReason reason = ''error_max_turns'')"

definition reasonClasses :: "string \<rightharpoonup> FailureClass" where
  "reasonClasses =
     [''network_timeout'' \<mapsto> FailureExternalService, ''rate_limited'' \<mapsto> FailureExternalService,
      ''authentication_failed'' \<mapsto> FailureAuth, ''permission_denied'' \<mapsto> FailureAuth]"

text \<open>The result as the JSON document has it, with the state still a string, and as it is used.\<close>

record RawResult =
  raw_state :: string
  raw_terminalReason :: string
  raw_subtype :: string
  raw_isError :: bool
  raw_detail :: string
  raw_numTurns :: int

record ControllerResult =
  res_state :: ControllerState
  res_terminalReason :: string
  res_subtype :: string
  res_isError :: bool
  res_detail :: string
  res_numTurns :: int

definition effectiveReason :: "ControllerResult \<Rightarrow> string" where
  "effectiveReason r =
     (if normalizeReason (res_terminalReason r) \<noteq> [] then normalizeReason (res_terminalReason r)
      else normalizeReason (res_subtype r))"

datatype result_error = ResultEmpty | ResultNotJSON string | ResultStateUndeclared string

definition ParseControllerResult ::
  "(string \<Rightarrow> string + RawResult) \<Rightarrow> string \<Rightarrow> result_error + ControllerResult" where
  "ParseControllerResult unmarshal data =
     (if blank data then Inl ResultEmpty
      else case unmarshal data of
        Inl e \<Rightarrow> Inl (ResultNotJSON e)
      | Inr raw \<Rightarrow>
          let declared = ToUpper (TrimSpace (raw_state raw));
              s = ControllerState_of declared
          in if \<not> ControllerState_Valid s
             then Inl (ResultStateUndeclared (if declared = [] then ''unset'' else declared))
             else Inr \<lparr>res_state = s, res_terminalReason = raw_terminalReason raw,
                       res_subtype = raw_subtype raw, res_isError = raw_isError raw,
                       res_detail = raw_detail raw, res_numTurns = raw_numTurns raw\<rparr>)"

section \<open>Verdicts\<close>

datatype Disposition =
    DispositionSucceeded | DispositionContinue | DispositionResume | DispositionRetry
  | DispositionHumanBlocked | DispositionFailSafe

fun Disposition_text :: "Disposition \<Rightarrow> string" where
  "Disposition_text DispositionSucceeded = ''succeeded''"
| "Disposition_text DispositionContinue = ''continue''"
| "Disposition_text DispositionResume = ''resume''"
| "Disposition_text DispositionRetry = ''retry''"
| "Disposition_text DispositionHumanBlocked = ''human-blocked''"
| "Disposition_text DispositionFailSafe = ''fail-safe''"

definition Resumable :: "Disposition \<Rightarrow> bool" where
  "Resumable d = (d = DispositionContinue \<or> d = DispositionResume)"

record ControllerVerdict =
  v_disposition :: Disposition
  v_class :: FailureClass
  v_reason :: string
  v_structured :: bool
  v_state :: ControllerState
  v_terminalReason :: string
  v_gateResult :: GateResult

record Execution =
  ex_exitedZero :: bool
  ex_output :: string
  ex_err :: "string option"
  ex_declaredResult :: bool
  ex_result :: "ControllerResult option"
  ex_resultErr :: "string option"

definition ex_text :: "Execution \<Rightarrow> string" where
  "ex_text e = (case ex_err e of Some m \<Rightarrow> m @ newline @ ex_output e | None \<Rightarrow> ex_output e)"

definition classForBlockedReason :: "string \<Rightarrow> FailureClass" where
  "classForBlockedReason reason =
     (if reasonClasses reason = Some FailureAuth then FailureAuth else FailureHumanDecision)"

definition blockedReasonText :: "string \<Rightarrow> string \<Rightarrow> string" where
  "blockedReasonText reason detail =
     ''the task reported HUMAN_BLOCKED''
     @ (if reason \<noteq> [] then '' ('' @ reason @ '')'' else [])
     @ (if TrimSpace detail \<noteq> [] then '': '' @ firstLine (Redact (TrimSpace detail)) else [])"

definition interpretStructured ::
  "compiler \<Rightarrow> ControllerResult \<Rightarrow> ClassificationRule list \<Rightarrow> string \<Rightarrow> ControllerVerdict" where
  "interpretStructured compile res rules text' =
     (let reason = effectiveReason res;
          v = \<lparr>v_disposition = DispositionFailSafe, v_class = FailureOther [], v_reason = [],
               v_structured = True, v_state = res_state res, v_terminalReason = reason,
               v_gateResult = GateOther []\<rparr>
      in if IsResumableReason reason then
           v\<lparr>v_disposition := DispositionResume,
             v_reason := ''the harness stopped the agent at its turn cap ('' @ reason @
               ''); the work is unfinished, not failed''\<rparr>
         else case res_state res of
           StateComplete \<Rightarrow>
             v\<lparr>v_disposition := DispositionSucceeded, v_reason := ''the task reported COMPLETE'',
               v_gateResult := GatePass\<rparr>
         | StateContinue \<Rightarrow>
             v\<lparr>v_disposition := DispositionContinue,
               v_reason := ''the task reported CONTINUE; it has more to do''\<rparr>
         | StateHumanBlocked \<Rightarrow>
             v\<lparr>v_disposition := DispositionHumanBlocked, v_class := classForBlockedReason reason,
               v_reason := blockedReasonText reason (res_detail res), v_gateResult := GateError\<rparr>
         | StateFailed \<Rightarrow>
             (let (class, why) =
                (case reasonClasses reason of
                   Some c \<Rightarrow> (c, ''the task reported FAILED with terminal reason '' @ reason)
                 | None \<Rightarrow> (cl_class (Classify compile text' rules), cl_reason (Classify compile text' rules)))
              in if class = FailureAuth then
                   v\<lparr>v_class := class, v_reason := why, v_disposition := DispositionHumanBlocked,
                     v_gateResult := GateError\<rparr>
                 else v\<lparr>v_class := class, v_reason := why, v_disposition := DispositionRetry,
                        v_gateResult := GateFail\<rparr>)
         | StateOther s \<Rightarrow>
             v\<lparr>v_disposition := DispositionFailSafe, v_class := FailureEnvironment,
               v_reason := ''the structured result declared state '' @ s @ '', which this run cannot adjudicate'',
               v_gateResult := GateError\<rparr>)"

definition InterpretExecution :: "compiler \<Rightarrow> Execution \<Rightarrow> ClassificationRule list \<Rightarrow> ControllerVerdict" where
  "InterpretExecution compile e rules =
     (if ex_declaredResult e \<and> ex_result e = None then
        let silence = (case ex_resultErr e of
              Some m \<Rightarrow> m
            | None \<Rightarrow> ''the task declared a structured controller result and did not produce a usable one'');
            v = \<lparr>v_disposition = DispositionFailSafe, v_class = FailureEnvironment,
                 v_reason = silence @ '' '' @ em_dash @ '' nothing is known about this attempt, so nothing is assumed'',
                 v_structured = True, v_state = StateOther [], v_terminalReason = [], v_gateResult = GateError\<rparr>
        in if ex_err e \<noteq> None \<or> \<not> ex_exitedZero e
           then let c = Classify compile (ex_text e) rules
                in v\<lparr>v_class := cl_class c, v_reason := cl_reason c @ ''; and '' @ silence\<rparr>
           else v
      else case ex_result e of
        Some res \<Rightarrow> interpretStructured compile res rules (ex_text e)
      | None \<Rightarrow>
          if ex_exitedZero e \<and> ex_err e = None then
            \<lparr>v_disposition = DispositionSucceeded, v_class = FailureOther [], v_reason = ''the command exited zero'',
             v_structured = False, v_state = StateOther [], v_terminalReason = [], v_gateResult = GatePass\<rparr>
          else
            let c = Classify compile (ex_text e) rules in
            \<lparr>v_disposition = DispositionRetry, v_class = cl_class c, v_reason = cl_reason c,
             v_structured = False, v_state = StateOther [], v_terminalReason = [], v_gateResult = GateFail\<rparr>)"

section \<open>Lemmas\<close>

lemma ControllerState_of_Valid:
  "ControllerState_Valid (ControllerState_of s) \<longleftrightarrow> s \<in> {''CONTINUE'', ''COMPLETE'', ''HUMAN_BLOCKED'', ''FAILED''}"
  by (auto simp: ControllerState_of_def)

lemma interpretStructured_disposition:
  "v_disposition (interpretStructured compile res rules t) =
     (if IsResumableReason (effectiveReason res) then DispositionResume
      else case res_state res of
        StateComplete \<Rightarrow> DispositionSucceeded
      | StateContinue \<Rightarrow> DispositionContinue
      | StateHumanBlocked \<Rightarrow> DispositionHumanBlocked
      | StateFailed \<Rightarrow>
          if reasonClasses (effectiveReason res) = Some FailureAuth \<or>
             reasonClasses (effectiveReason res) = None \<and> cl_class (Classify compile t rules) = FailureAuth
          then DispositionHumanBlocked else DispositionRetry
      | StateOther s \<Rightarrow> DispositionFailSafe)"
  by (auto simp: interpretStructured_def Let_def split: ControllerState.split option.split)

lemma interpretStructured_gate:
  "v_gateResult (interpretStructured compile res rules t) = GatePass \<longleftrightarrow>
   v_disposition (interpretStructured compile res rules t) = DispositionSucceeded"
  by (auto simp: interpretStructured_def Let_def split: ControllerState.split option.split)

lemma InterpretExecution_structured:
  "ex_result e = Some res \<Longrightarrow> InterpretExecution compile e rules = interpretStructured compile res rules (ex_text e)"
  by (simp add: InterpretExecution_def Let_def)

lemma InterpretExecution_gate:
  "v_gateResult (InterpretExecution compile e rules) = GatePass \<longleftrightarrow>
   v_disposition (InterpretExecution compile e rules) = DispositionSucceeded"
  by (cases "ex_result e") (auto simp: InterpretExecution_def Let_def interpretStructured_gate)

lemma InterpretExecution_blocked_class:
  "v_disposition (InterpretExecution compile e rules) = DispositionHumanBlocked \<Longrightarrow>
   v_class (InterpretExecution compile e rules) \<in> {FailureAuth, FailureHumanDecision} \<and>
   v_gateResult (InterpretExecution compile e rules) = GateError"
  by (cases "ex_result e")
    (auto simp: InterpretExecution_def interpretStructured_def Let_def classForBlockedReason_def
      split: ControllerState.splits option.splits if_splits)

lemma IsResumableReason_normal: "normalizeReason ''max_turns'' = ''max_turns''"
  by code_simp

section \<open>Properties\<close>

text \<open>What an attempt means, exactly. With a usable structured result the attempt succeeded exactly when
  the task reported COMPLETE and was not cut off, whatever the exit status; a promised result that is missing is
  never a success; without a promise the command has to exit zero. A drive is resumed exactly when the task was cut
  off or reported CONTINUE, and the gate passes exactly when the attempt succeeded.\<close>

theorem controller_verdict_exact:
  "let v = InterpretExecution compile e rules in
   (v_disposition v = DispositionSucceeded \<longleftrightarrow>
      (case ex_result e of
         Some res \<Rightarrow> res_state res = StateComplete \<and> \<not> IsResumableReason (effectiveReason res)
       | None \<Rightarrow> \<not> ex_declaredResult e \<and> ex_exitedZero e \<and> ex_err e = None)) \<and>
   (Resumable (v_disposition v) \<longleftrightarrow>
      (\<exists>res. ex_result e = Some res \<and> (IsResumableReason (effectiveReason res) \<or> res_state res = StateContinue))) \<and>
   (v_gateResult v = GatePass \<longleftrightarrow> v_disposition v = DispositionSucceeded) \<and>
   (v_disposition v = DispositionFailSafe \<longleftrightarrow>
      (case ex_result e of
         Some res \<Rightarrow> \<not> ControllerState_Valid (res_state res) \<and> \<not> IsResumableReason (effectiveReason res)
       | None \<Rightarrow> ex_declaredResult e))"
  unfolding Let_def InterpretExecution_gate
  by (cases "ex_result e")
    (auto simp: InterpretExecution_structured interpretStructured_disposition Resumable_def InterpretExecution_def Let_def
      split: ControllerState.split if_splits)

end
