(* ===== verification/Lock.thy ===== *)
theory Lock
  imports Go_Prelude "HOL-Library.Multiset"
begin

text \<open>
  The writer lock of a worktree (\<^verbatim>\<open>internal/unattended/lock.go\<close>, with the locking primitives of
  \<^verbatim>\<open>lock_unix.go\<close>).

  A lock directory (\<open>LockDir\<close>) holds the owner evidence, the superseded evidence and the operating
  system's lock table. A lock is visible to a process only within its own locking domain, the pair of
  host and operating system family: \<open>tryLockFile\<close> is denied by a conflicting holder of the same
  domain and by nobody else. The outcome of every file operation is the parameter \<open>lock_io\<close>
  (\<open>io_missing\<close>: the directory does not exist, which only \<open>ProbeOwner\<close> can meet). Times are not modelled. The processes that share a directory are the steps of \<open>lock_step\<close>.
\<close>

section \<open>Data\<close>

datatype Role = RoleWriter | RoleController | RoleReadOnly | RoleOther string

definition Exclusive :: "Role \<Rightarrow> bool" where
  "Exclusive r = (r = RoleWriter \<or> r = RoleController)"

definition Role_Valid :: "Role \<Rightarrow> bool" where
  "Role_Valid r = (r = RoleWriter \<or> r = RoleController \<or> r = RoleReadOnly)"

fun Role_text :: "Role \<Rightarrow> string" where
  "Role_text RoleWriter = ''writer''"
| "Role_text RoleController = ''controller''"
| "Role_text RoleReadOnly = ''read-only''"
| "Role_text (RoleOther s) = s"

text \<open>A displaced owner is stored with its own \<open>Displaced\<close> field cleared, so one level is enough.\<close>

record OwnerCore =
  o_runID :: string
  o_projectID :: string
  o_session :: string
  o_worktree :: string
  o_role :: Role
  o_pid :: int
  o_host :: string
  o_osFamily :: string

record Owner = OwnerCore +
  o_displaced :: "OwnerCore option"

record Proc =
  pr_pid :: int
  pr_host :: string
  pr_os :: string

datatype owner_evidence = NoEvidence | BadEvidence string | Evidence Owner

datatype superseded = NoSuperseded | DisplacedOwner Owner | ClearedOwner Owner string string

record LockDir =
  ld_owner :: owner_evidence
  ld_superseded :: superseded
  ld_holders :: "(Proc \<times> bool) list"

record Lock =
  lk_proc :: Proc
  lk_owner :: Owner
  lk_open :: bool

record lock_io =
  io_missing :: bool
  io_open :: "string option"
  io_lock :: "string option"
  io_archive :: "string option"
  io_write :: "string option"
  io_remove :: "string option"
  io_unlock :: "string option"
  io_close :: "string option"

definition io_ok :: lock_io where
  "io_ok = \<lparr>io_missing = False, io_open = None, io_lock = None, io_archive = None, io_write = None, io_remove = None,
            io_unlock = None, io_close = None\<rparr>"

datatype lock_error =
    ErrInvalidRole string
  | ErrLockIO string string
  | ErrWriterHeld "Owner option"
  | ErrForeignWriter Owner Proc

section \<open>Operations\<close>

definition same_domain :: "Proc \<Rightarrow> Proc \<Rightarrow> bool" where
  "same_domain p q = (pr_host p = pr_host q \<and> pr_os p = pr_os q)"

definition tryLockFile :: "Proc \<Rightarrow> bool \<Rightarrow> LockDir \<Rightarrow> bool" where
  "tryLockFile p exclusive d =
     list_all (\<lambda>(q, e). same_domain p q \<longrightarrow> \<not> exclusive \<and> \<not> e) (ld_holders d)"

definition ReadOwner :: "LockDir \<Rightarrow> string + Owner option" where
  "ReadOwner d = (case ld_owner d of
     NoEvidence \<Rightarrow> Inr None
   | BadEvidence e \<Rightarrow> Inl e
   | Evidence ow \<Rightarrow> Inr (Some ow))"

definition isForeign :: "Proc \<Rightarrow> Owner \<Rightarrow> bool" where
  "isForeign p prev =
     (if o_host prev = [] \<and> o_osFamily prev = [] then False
      else if o_osFamily prev \<noteq> [] \<and> o_osFamily prev \<noteq> pr_os p then True
      else o_host prev \<noteq> [] \<and> o_host prev \<noteq> pr_host p)"

definition owner_core :: "Owner \<Rightarrow> OwnerCore" where
  "owner_core ow =
     \<lparr>o_runID = o_runID ow, o_projectID = o_projectID ow, o_session = o_session ow,
      o_worktree = o_worktree ow, o_role = o_role ow, o_pid = o_pid ow, o_host = o_host ow,
      o_osFamily = o_osFamily ow\<rparr>"

definition claim_owner :: "Proc \<Rightarrow> Owner option \<Rightarrow> Owner \<Rightarrow> Owner" where
  "claim_owner p prev ow =
     (let ow1 = ow\<lparr>o_pid := pr_pid p, o_host := pr_host p, o_osFamily := pr_os p\<rparr>
      in case prev of None \<Rightarrow> ow1 | Some po \<Rightarrow> ow1\<lparr>o_displaced := Some (owner_core po)\<rparr>)"

definition Acquire :: "lock_io \<Rightarrow> Proc \<Rightarrow> Owner \<Rightarrow> LockDir \<Rightarrow> (lock_error + Lock) \<times> LockDir" where
  "Acquire io p ow d =
     (if \<not> Role_Valid (o_role ow) then (Inl (ErrInvalidRole (Role_text (o_role ow))), d)
      else case io_open io of Some e \<Rightarrow> (Inl (ErrLockIO ''open'' e), d) | None \<Rightarrow>
      case io_lock io of Some e \<Rightarrow> (Inl (ErrLockIO ''lock'' e), d) | None \<Rightarrow>
      if \<not> tryLockFile p (Exclusive (o_role ow)) d then
        (Inl (ErrWriterHeld (case ReadOwner d of Inr prev \<Rightarrow> prev | Inl _ \<Rightarrow> None)), d)
      else case ReadOwner d of
        Inl e \<Rightarrow> (Inl (ErrLockIO ''read'' e), d)
      | Inr prev \<Rightarrow>
          if (case prev of Some po \<Rightarrow> Exclusive (o_role ow) \<and> isForeign p po | None \<Rightarrow> False)
          then (Inl (ErrForeignWriter (the prev) p), d)
          else case (prev, io_archive io) of
            (Some po, Some e) \<Rightarrow> (Inl (ErrLockIO ''archive'' e), d)
          | _ \<Rightarrow>
            let d1 = (case prev of Some po \<Rightarrow> d\<lparr>ld_superseded := DisplacedOwner po\<rparr> | None \<Rightarrow> d);
                mine = claim_owner p prev ow
            in case io_write io of
                 Some e \<Rightarrow> (Inl (ErrLockIO ''write'' e), d1)
               | None \<Rightarrow>
                   (Inr \<lparr>lk_proc = p, lk_owner = mine, lk_open = True\<rparr>,
                    d1\<lparr>ld_owner := Evidence mine,
                       ld_holders := (p, Exclusive (o_role ow)) # ld_holders d\<rparr>))"

definition holder_of :: "Lock \<Rightarrow> Proc \<times> bool" where
  "holder_of l = (lk_proc l, Exclusive (o_role (lk_owner l)))"

definition drop_holder :: "Lock \<Rightarrow> LockDir \<Rightarrow> LockDir" where
  "drop_holder l d = d\<lparr>ld_holders := remove1 (holder_of l) (ld_holders d)\<rparr>"

definition names_owner :: "Lock \<Rightarrow> LockDir \<Rightarrow> bool" where
  "names_owner l d = (case ReadOwner d of
     Inr (Some cur) \<Rightarrow> o_runID cur = o_runID (lk_owner l) \<and> o_pid cur = o_pid (lk_owner l)
   | _ \<Rightarrow> False)"

text \<open>Closing the descriptor drops the operating system lock, whether or not unlocking it worked.\<close>

definition Release :: "lock_io \<Rightarrow> Lock \<Rightarrow> LockDir \<Rightarrow> lock_error option \<times> Lock \<times> LockDir" where
  "Release io l d =
     (if \<not> lk_open l then (None, l, d)
      else let l' = l\<lparr>lk_open := False\<rparr> in
      case (names_owner l d, io_remove io) of
        (True, Some e) \<Rightarrow> (Some (ErrLockIO ''remove'' e), l', drop_holder l d)
      | (mine, _) \<Rightarrow>
          let d1 = (if mine then d\<lparr>ld_owner := NoEvidence\<rparr> else d)
          in (case io_unlock io of
                Some e \<Rightarrow> Some (ErrLockIO ''unlock'' e)
              | None \<Rightarrow> map_option (ErrLockIO ''close'') (io_close io),
              l', drop_holder l d1))"

definition ProbeOwner :: "lock_io \<Rightarrow> Proc \<Rightarrow> LockDir \<Rightarrow> lock_error + (Owner option \<times> bool)" where
  "ProbeOwner io p d = (case ReadOwner d of
     Inl e \<Rightarrow> Inl (ErrLockIO ''read'' e)
   | Inr recorded \<Rightarrow>
      if io_missing io then Inr (recorded, False) else
      (case io_open io of Some e \<Rightarrow> Inl (ErrLockIO ''open'' e) | None \<Rightarrow>
       case io_lock io of Some e \<Rightarrow> Inl (ErrLockIO ''lock'' e) | None \<Rightarrow>
       if \<not> tryLockFile p True d then Inr (recorded, True)
       else case io_unlock io of Some e \<Rightarrow> Inl (ErrLockIO ''unlock'' e) | None \<Rightarrow> Inr (recorded, False)))"

datatype clear_error = ErrClearUnstated | ErrClearIO string string

definition ForceClearOwner :: "lock_io \<Rightarrow> string \<Rightarrow> string \<Rightarrow> LockDir \<Rightarrow> clear_error option \<times> LockDir" where
  "ForceClearOwner io reason actor d =
     (if reason = [] \<or> actor = [] then (Some ErrClearUnstated, d)
      else case ReadOwner d of
        Inl e \<Rightarrow> (Some (ErrClearIO ''read'' e), d)
      | Inr None \<Rightarrow> (None, d)
      | Inr (Some prev) \<Rightarrow>
         (case io_archive io of
            Some e \<Rightarrow> (Some (ErrClearIO ''archive'' e), d)
          | None \<Rightarrow>
              let d1 = d\<lparr>ld_superseded := ClearedOwner prev actor reason\<rparr>
              in case io_remove io of
                   Some e \<Rightarrow> (Some (ErrClearIO ''remove'' e), d1)
                 | None \<Rightarrow> (None, d1\<lparr>ld_owner := NoEvidence\<rparr>)))"

section \<open>Processes sharing a lock directory\<close>

datatype lock_event =
    EvAcquire lock_io Proc Owner
  | EvRelease lock_io Lock
  | EvExit Lock
  | EvForceClear lock_io string string

text \<open>
  A host name is never empty (\<open>hostname\<close> falls back to a constant) and neither is the operating
  system family. A process that exits without releasing leaves its evidence behind.
\<close>

definition proc_ok :: "Proc \<Rightarrow> bool" where
  "proc_ok p = (pr_host p \<noteq> [] \<and> pr_os p \<noteq> [])"

inductive lock_step :: "LockDir \<times> Lock list \<Rightarrow> lock_event \<Rightarrow> LockDir \<times> Lock list \<Rightarrow> bool" where
  acquired: "proc_ok p \<Longrightarrow> Acquire io p ow d = (Inr l, d') \<Longrightarrow>
    lock_step (d, ls) (EvAcquire io p ow) (d', l # ls)"
| refused: "Acquire io p ow d = (Inl e, d') \<Longrightarrow> lock_step (d, ls) (EvAcquire io p ow) (d', ls)"
| released: "l \<in> set ls \<Longrightarrow> Release io l d = (r, l', d') \<Longrightarrow>
    lock_step (d, ls) (EvRelease io l) (d', remove1 l ls)"
| exited: "l \<in> set ls \<Longrightarrow> lock_step (d, ls) (EvExit l) (drop_holder l d, remove1 l ls)"
| cleared: "ForceClearOwner io reason actor d = (r, d') \<Longrightarrow>
    lock_step (d, ls) (EvForceClear io reason actor) (d', ls)"

definition lock_exclusive :: "Lock \<Rightarrow> bool" where
  "lock_exclusive l = Exclusive (o_role (lk_owner l))"

text \<open>
  The discipline the single-writer guarantee rests on: evidence is force-cleared only when no
  exclusive session is live, a read-only session does not join a directory whose live exclusive
  session is in another locking domain, and no two live sessions share both run id and process id.
\<close>

fun governed :: "Lock list \<Rightarrow> lock_event \<Rightarrow> bool" where
  "governed ls (EvAcquire io p ow) =
     (Exclusive (o_role ow) \<or> (\<forall>l\<in>set ls. lock_exclusive l \<longrightarrow> same_domain p (lk_proc l)))"
| "governed ls (EvRelease io l) =
     (\<forall>m\<in>set (remove1 l ls). lock_exclusive m \<longrightarrow>
        (o_runID (lk_owner m), o_pid (lk_owner m)) \<noteq> (o_runID (lk_owner l), o_pid (lk_owner l)))"
| "governed ls (EvExit l) = True"
| "governed ls (EvForceClear io reason actor) = (\<forall>l\<in>set ls. \<not> lock_exclusive l)"

inductive lock_run :: "bool \<Rightarrow> LockDir \<times> Lock list \<Rightarrow> LockDir \<times> Lock list \<Rightarrow> bool" for g where
  run_start: "lock_run g s s"
| run_step: "lock_run g s (d, ls) \<Longrightarrow> lock_step (d, ls) ev s' \<Longrightarrow> (g \<Longrightarrow> governed ls ev) \<Longrightarrow> lock_run g s s'"

inductive_cases lock_stepE: "lock_step (d, ls) ev s'"

definition compatible :: "Lock \<Rightarrow> Lock \<Rightarrow> bool" where
  "compatible l m = (same_domain (lk_proc l) (lk_proc m) \<longrightarrow> \<not> lock_exclusive l \<and> \<not> lock_exclusive m)"

definition lock_inv :: "LockDir \<times> Lock list \<Rightarrow> bool" where
  "lock_inv s = (case s of (d, ls) \<Rightarrow>
     mset (ld_holders d) = mset (map holder_of ls) \<and>
     (\<forall>l\<in>set ls. lk_open l \<and> proc_ok (lk_proc l) \<and> o_pid (lk_owner l) = pr_pid (lk_proc l) \<and>
        o_host (lk_owner l) = pr_host (lk_proc l) \<and> o_osFamily (lk_owner l) = pr_os (lk_proc l)) \<and>
     length (filter lock_exclusive ls) \<le> 1 \<and> sorted_wrt compatible ls \<and>
     (\<forall>l\<in>set ls. lock_exclusive l \<longrightarrow> ld_owner d = Evidence (lk_owner l)))"

section \<open>Lemmas\<close>

lemma Acquire_success:
  assumes "Acquire io p ow d = (Inr l, d')"
  obtains prev where "Role_Valid (o_role ow)" and "tryLockFile p (Exclusive (o_role ow)) d"
    and "ReadOwner d = Inr prev"
    and "\<And>po. prev = Some po \<Longrightarrow> Exclusive (o_role ow) \<Longrightarrow> \<not> isForeign p po"
    and "l = \<lparr>lk_proc = p, lk_owner = claim_owner p prev ow, lk_open = True\<rparr>"
    and "d' = d\<lparr>ld_owner := Evidence (claim_owner p prev ow),
               ld_superseded := (case prev of Some po \<Rightarrow> DisplacedOwner po | None \<Rightarrow> ld_superseded d),
               ld_holders := (p, Exclusive (o_role ow)) # ld_holders d\<rparr>"
  using assms
  by (auto simp: Acquire_def Let_def split: if_splits option.splits sum.splits)

lemma Acquire_refused:
  assumes "Acquire io p ow d = (Inl e, d')"
  shows "ld_owner d' = ld_owner d" "ld_holders d' = ld_holders d"
  using assms by (auto simp: Acquire_def Let_def split: if_splits option.splits sum.splits)

lemma claim_owner_sel [simp]:
  "o_role (claim_owner p prev ow) = o_role ow" "o_pid (claim_owner p prev ow) = pr_pid p"
  "o_host (claim_owner p prev ow) = pr_host p" "o_osFamily (claim_owner p prev ow) = pr_os p"
  "o_runID (claim_owner p prev ow) = o_runID ow"
  by (cases prev; simp add: claim_owner_def)+

lemma ReadOwner_Evidence: "ld_owner d = Evidence ow \<Longrightarrow> ReadOwner d = Inr (Some ow)"
  by (simp add: ReadOwner_def)

lemma isForeign_other_domain:
  assumes "proc_ok q" "o_host ow = pr_host q" "o_osFamily ow = pr_os q" "\<not> same_domain p q"
  shows "isForeign p ow"
  using assms by (auto simp: isForeign_def proc_ok_def same_domain_def)

lemma sorted_wrt_remove1: "sorted_wrt P xs \<Longrightarrow> sorted_wrt P (remove1 x xs)"
  by (induction xs) (auto dest: notin_set_remove1)

lemma filter_remove1_le: "length (filter P (remove1 x xs)) \<le> length (filter P xs)"
  by (induction xs) auto

lemma lock_inv_drop:
  assumes inv: "lock_inv (d, ls)" and l: "l \<in> set ls"
    and same: "ld_holders d' = ld_holders d"
    and kept: "\<And>m. m \<in> set (remove1 l ls) \<Longrightarrow> lock_exclusive m \<Longrightarrow> ld_owner d' = ld_owner d"
  shows "lock_inv (drop_holder l d', remove1 l ls)"
proof -
  have "mset (remove1 (holder_of l) (ld_holders d')) = mset (map holder_of (remove1 l ls))"
    using inv l same by (simp add: lock_inv_def image_mset_Diff)
  moreover have "length (filter lock_exclusive (remove1 l ls)) \<le> 1"
    using inv filter_remove1_le [of lock_exclusive l ls] by (simp add: lock_inv_def)
  moreover have "ld_owner d' = Evidence (lk_owner m)" if m: "m \<in> set (remove1 l ls)" "lock_exclusive m" for m
    using inv kept [OF m] m notin_set_remove1 by (fastforce simp: lock_inv_def)
  ultimately show ?thesis
    using inv sorted_wrt_remove1 [of compatible ls l] notin_set_remove1
    by (fastforce simp: lock_inv_def drop_holder_def)
qed

lemma Release_open:
  assumes "lk_open l" "Release io l d = (r, l', d')"
  obtains d1 where "d' = drop_holder l d1" and "ld_holders d1 = ld_holders d"
    and "\<not> names_owner l d \<Longrightarrow> ld_owner d1 = ld_owner d"
  using assms by (cases "names_owner l d") (auto simp: Release_def Let_def split: if_splits option.splits)

lemma ForceClearOwner_holders:
  "ForceClearOwner io reason actor d = (r, d') \<Longrightarrow> ld_holders d' = ld_holders d"
  unfolding ForceClearOwner_def Let_def
  by (cases "ReadOwner d") (auto split: if_splits option.splits)

lemma tryLockFile_holders:
  assumes "lock_inv (d, ls)" "tryLockFile p e d" "l \<in> set ls" "same_domain p (lk_proc l)"
  shows "\<not> e \<and> \<not> lock_exclusive l"
proof -
  have "holder_of l \<in> set (ld_holders d)"
    using assms(1,3) mset_eq_setD [of "ld_holders d" "map holder_of ls"] by (simp add: lock_inv_def)
  with assms(2,4) show ?thesis
    by (auto simp: tryLockFile_def list_all_iff holder_of_def lock_exclusive_def)
qed

lemma lock_inv_acquire:
  assumes inv: "lock_inv (d, ls)" and ok: "proc_ok p" and acq: "Acquire io p ow d = (Inr l, d')"
    and gov: "governed ls (EvAcquire io p ow)"
  shows "lock_inv (d', l # ls)"
proof -
  obtain prev where got: "tryLockFile p (Exclusive (o_role ow)) d" and rd: "ReadOwner d = Inr prev"
    and nf: "\<And>po. prev = Some po \<Longrightarrow> Exclusive (o_role ow) \<Longrightarrow> \<not> isForeign p po"
    and l: "l = \<lparr>lk_proc = p, lk_owner = claim_owner p prev ow, lk_open = True\<rparr>"
    and d': "ld_owner d' = Evidence (claim_owner p prev ow)"
      "ld_holders d' = (p, Exclusive (o_role ow)) # ld_holders d"
    using acq by (elim Acquire_success) auto
  have none: "\<not> lock_exclusive m" if m: "m \<in> set ls" for m
  proof
    assume ex: "lock_exclusive m"
    have dom: "\<not> same_domain p (lk_proc m)"
      using tryLockFile_holders [OF inv got m] ex by auto
    then have "Exclusive (o_role ow)"
      using gov m ex by auto
    moreover have "prev = Some (lk_owner m)"
      using inv m ex rd by (auto simp: lock_inv_def ReadOwner_def)
    moreover have "isForeign p (lk_owner m)"
      using inv m dom by (intro isForeign_other_domain [of "lk_proc m"]) (auto simp: lock_inv_def)
    ultimately show False
      using nf by blast
  qed
  have "compatible l m" if "m \<in> set ls" for m
    using tryLockFile_holders [OF inv got that] none [OF that]
    by (auto simp: compatible_def l lock_exclusive_def)
  moreover have "filter lock_exclusive ls = []"
    using none by (simp add: filter_empty_conv)
  ultimately show ?thesis
    using inv none d' ok by (simp add: lock_inv_def l holder_of_def lock_exclusive_def)
qed

lemma lock_inv_release:
  assumes inv: "lock_inv (d, ls)" and l: "l \<in> set ls" and rel: "Release io l d = (r, l', d')"
    and gov: "governed ls (EvRelease io l)"
  shows "lock_inv (d', remove1 l ls)"
proof -
  have "lk_open l"
    using inv l by (auto simp: lock_inv_def)
  then obtain d1 where d1: "d' = drop_holder l d1" "ld_holders d1 = ld_holders d"
    "\<not> names_owner l d \<Longrightarrow> ld_owner d1 = ld_owner d"
    using rel by (elim Release_open) auto
  have "\<not> names_owner l d" if m: "m \<in> set (remove1 l ls)" "lock_exclusive m" for m
    using gov inv m notin_set_remove1 by (fastforce simp: lock_inv_def names_owner_def ReadOwner_def)
  then show ?thesis
    using lock_inv_drop [OF inv l d1(2)] d1 by auto
qed

lemma lock_inv_step:
  assumes "lock_step (d, ls) ev s'" "lock_inv (d, ls)" "governed ls ev"
  shows "lock_inv s'"
  using assms
proof (elim lock_stepE)
  fix io p ow e d'
  assume "Acquire io p ow d = (Inl e, d')" "s' = (d', ls)" "lock_inv (d, ls)"
  then show ?thesis
    using Acquire_refused [of io p ow d e d'] by (simp add: lock_inv_def)
next
  fix io reason actor r d'
  assume "ForceClearOwner io reason actor d = (r, d')" "s' = (d', ls)" "lock_inv (d, ls)"
    "governed ls ev" "ev = EvForceClear io reason actor"
  then show ?thesis
    using ForceClearOwner_holders [of io reason actor d r d'] by (auto simp: lock_inv_def)
qed (use lock_inv_drop lock_inv_acquire lock_inv_release in blast)+

lemma lock_inv_run:
  "lock_run g s s' \<Longrightarrow> g \<Longrightarrow> lock_inv s \<Longrightarrow> lock_inv s'"
  by (induction rule: lock_run.induct) (auto intro: lock_inv_step)

lemma lock_inv_start: "ld_holders d = [] \<Longrightarrow> lock_inv (d, [])"
  by (simp add: lock_inv_def)

lemma sorted_wrt_remove1_related:
  "sorted_wrt P xs \<Longrightarrow> (\<And>x y. P x y \<Longrightarrow> P y x) \<Longrightarrow> x \<in> set xs \<Longrightarrow> y \<in> set (remove1 x xs) \<Longrightarrow> P x y"
  by (induction xs) (auto split: if_splits)

lemma compatible_sym: "compatible l m \<Longrightarrow> compatible m l"
  by (auto simp: compatible_def same_domain_def)

lemma exit_frees_domain:
  assumes "lock_inv (d, ls)" "l \<in> set ls" "lock_exclusive l" "same_domain p (lk_proc l)"
  shows "tryLockFile p e (drop_holder l d)"
proof -
  have inv: "lock_inv (drop_holder l d, remove1 l ls)"
    using assms by (intro lock_inv_drop) auto
  have "\<not> same_domain (lk_proc l) (lk_proc m)" if "m \<in> set (remove1 l ls)" for m
    using assms sorted_wrt_remove1_related [of compatible ls l m] that
    by (auto simp: lock_inv_def compatible_def same_domain_def)
  then have "\<not> same_domain p (fst h)" if "h \<in> holder_of ` set (remove1 l ls)" for h
    using assms(4) that unfolding holder_of_def same_domain_def by force
  moreover have "set (ld_holders (drop_holder l d)) = holder_of ` set (remove1 l ls)"
    using inv mset_eq_setD [of "ld_holders (drop_holder l d)" "map holder_of (remove1 l ls)"]
    by (simp add: lock_inv_def)
  ultimately show ?thesis
    unfolding tryLockFile_def list_all_iff by (metis case_prodI2 fst_conv)
qed

definition empty_dir :: LockDir where
  "empty_dir = \<lparr>ld_owner = NoEvidence, ld_superseded = NoSuperseded, ld_holders = []\<rparr>"

definition host_a :: Proc where
  "host_a = \<lparr>pr_pid = 41, pr_host = ''alpha'', pr_os = ''linux''\<rparr>"

definition host_b :: Proc where
  "host_b = \<lparr>pr_pid = 57, pr_host = ''beta'', pr_os = ''linux''\<rparr>"

definition session_owner :: "string \<Rightarrow> Role \<Rightarrow> Owner" where
  "session_owner run role =
     \<lparr>o_runID = run, o_projectID = ''p'', o_session = ''s'', o_worktree = ''/w'', o_role = role,
      o_pid = 0, o_host = [], o_osFamily = [], o_displaced = None\<rparr>"

lemmas lock_eval = Acquire_def Release_def names_owner_def ReadOwner_def tryLockFile_def isForeign_def
  same_domain_def claim_owner_def owner_core_def drop_holder_def holder_of_def Exclusive_def Role_Valid_def
  empty_dir_def host_a_def host_b_def session_owner_def io_ok_def

lemma first_writer:
  "\<exists>l d. Acquire io_ok host_a (session_owner ''run-1'' RoleWriter) empty_dir = (Inr l, d) \<and>
     lock_exclusive l \<and> lk_proc l = host_a \<and> lock_run True (empty_dir, []) (d, [l])"
proof -
  have "fst (Acquire io_ok host_a (session_owner ''run-1'' RoleWriter) empty_dir) =
      Inr \<lparr>lk_proc = host_a, lk_owner = claim_owner host_a None (session_owner ''run-1'' RoleWriter), lk_open = True\<rparr>"
    by (simp add: lock_eval Let_def)
  then obtain l d where acq: "Acquire io_ok host_a (session_owner ''run-1'' RoleWriter) empty_dir = (Inr l, d)"
    and l: "lock_exclusive l" "lk_proc l = host_a"
    by (cases "Acquire io_ok host_a (session_owner ''run-1'' RoleWriter) empty_dir")
      (auto simp: lock_exclusive_def Exclusive_def session_owner_def)
  have "lock_run True (empty_dir, []) (d, [l])"
    by (rule run_step [OF run_start acquired [OF _ acq]])
      (simp_all add: proc_ok_def host_a_def session_owner_def Exclusive_def)
  with acq l show ?thesis
    by blast
qed

section \<open>Properties\<close>



text \<open>A crash never wedges the worktree. When the process of the live exclusive session exits
  without releasing, any session of a valid role on the same host and operating system acquires the
  lock at once; the dead session's evidence is archived and carried in the new owner's record.\<close>

theorem crashed_owner_recovered:
  assumes "lock_run True (d0, []) (d, ls)" "ld_holders d0 = []" "l \<in> set ls" "lock_exclusive l"
    and "same_domain p (lk_proc l)" "Role_Valid (o_role ow)"
  shows "\<exists>l' d'. Acquire io_ok p ow (drop_holder l d) = (Inr l', d') \<and>
    ReadOwner d' = Inr (Some (lk_owner l')) \<and>
    o_displaced (lk_owner l') = Some (owner_core (lk_owner l)) \<and>
    ld_superseded d' = DisplacedOwner (lk_owner l)"
proof -
  have inv: "lock_inv (d, ls)"
    using assms(1,2) lock_inv_run lock_inv_start by blast
  then have ow: "ReadOwner (drop_holder l d) = Inr (Some (lk_owner l))"
    and "o_host (lk_owner l) = pr_host (lk_proc l)" "o_osFamily (lk_owner l) = pr_os (lk_proc l)"
    using assms(3,4) by (auto simp: lock_inv_def ReadOwner_def drop_holder_def)
  then have "\<not> isForeign p (lk_owner l)"
    using assms(5) by (simp add: isForeign_def same_domain_def)
  then show ?thesis
    using assms(6) ow exit_frees_domain [OF inv assms(3-5)]
    by (simp add: Acquire_def io_ok_def claim_owner_def Let_def ReadOwner_Evidence)
qed

theorem crashed_owner_recovered_witness:
  "\<exists>l d l' d'. Acquire io_ok host_a (session_owner ''run-1'' RoleWriter) empty_dir = (Inr l, d) \<and>
     Acquire io_ok host_a (session_owner ''run-2'' RoleWriter) (drop_holder l d) = (Inr l', d') \<and>
     o_displaced (lk_owner l') = Some (owner_core (lk_owner l))"
proof -
  obtain l d where acq: "Acquire io_ok host_a (session_owner ''run-1'' RoleWriter) empty_dir = (Inr l, d)"
    and l: "lock_exclusive l" "lk_proc l = host_a" and run: "lock_run True (empty_dir, []) (d, [l])"
    using first_writer by blast
  show ?thesis
    using crashed_owner_recovered [OF run, of l host_a "session_owner ''run-2'' RoleWriter"] l acq
    by (auto simp: empty_dir_def same_domain_def session_owner_def Role_Valid_def)
qed


end
