(* ===== verification/Fence.thy ===== *)
theory Fence
  imports QA Lock
begin

text \<open>
  The fence of a run (\<^verbatim>\<open>internal/unattended/fence.go\<close>): the repository position a run claims, and its
  verification before every material stage.

  What \<open>ReadOwner\<close> and \<open>ProbeRepo\<close> answer when the fence asks are arguments of the operations: an
  \<open>owner_reading\<close> (an error, or the owner recorded if any) and a \<open>repo_reading\<close> (an error, or the
  state of the worktree). An error is carried as the fields its message renders. Times are not modelled.
\<close>

section \<open>Data\<close>

record RepoState =
  rp_dir :: string
  rp_root :: string
  rp_gitDir :: string
  rp_commonDir :: string
  rp_branch :: string
  rp_detached :: bool
  rp_head :: string
  rp_originURL :: string
  rp_dirty :: "string list"
  rp_inProgress :: string
  rp_worktrees :: "string list"

definition Clean :: "RepoState \<Rightarrow> bool" where
  "Clean s = (length (rp_dirty s) = 0)"

type_synonym owner_reading = "string + Owner option"
type_synonym repo_reading = "string + RepoState"

datatype FenceStatus =
  FenceNone | FenceIntact | FenceBranchChanged | FenceHeadMoved | FenceOwnerLost | FenceUnreadable

record FenceResult =
  fr_status :: FenceStatus
  fr_expected :: string
  fr_observed :: string
  fr_evidence :: string

definition Intact :: "FenceResult \<Rightarrow> bool" where
  "Intact r = (fr_status r = FenceIntact)"

definition FenceResult_Error :: "FenceResult \<Rightarrow> FenceResult option" where
  "FenceResult_Error r = (if Intact r then None else Some r)"

record FenceAdvance =
  fa_from :: string
  fa_to :: string
  fa_reason :: string

record Fence =
  f_worktree :: string
  f_lockDir :: string
  f_runID :: string
  f_pid :: int
  f_branch :: string
  f_head :: string
  f_advances :: "FenceAdvance list"

section \<open>Operations\<close>

definition TakeFence :: "RepoState \<Rightarrow> string \<Rightarrow> Owner \<Rightarrow> Fence" where
  "TakeFence state lockDir owner =
     \<lparr>f_worktree = rp_root state, f_lockDir = lockDir, f_runID = o_runID owner, f_pid = o_pid owner,
      f_branch = rp_branch state, f_head = rp_head state, f_advances = []\<rparr>"

definition named_pid :: "string \<Rightarrow> int \<Rightarrow> string" where
  "named_pid run pid = run @ '' (pid '' @ Itoa pid @ '')''"

definition Fence_Check :: "Fence \<Rightarrow> owner_reading \<Rightarrow> repo_reading \<Rightarrow> FenceResult" where
  "Fence_Check f owner repo = (case owner of
     Inl e \<Rightarrow> \<lparr>fr_status = FenceOwnerLost, fr_expected = f_runID f, fr_observed = ''unreadable'', fr_evidence = e\<rparr>
   | Inr None \<Rightarrow>
       \<lparr>fr_status = FenceOwnerLost, fr_expected = f_runID f, fr_observed = ''no owner recorded'',
        fr_evidence = ''the writer lock record was removed while this run held it''\<rparr>
   | Inr (Some ow) \<Rightarrow>
       if o_runID ow \<noteq> f_runID f \<or> o_pid ow \<noteq> f_pid f then
         \<lparr>fr_status = FenceOwnerLost, fr_expected = named_pid (f_runID f) (f_pid f),
          fr_observed = named_pid (o_runID ow) (o_pid ow),
          fr_evidence = ''another session took ownership of this worktree''\<rparr>
       else (case repo of
         Inl e \<Rightarrow> \<lparr>fr_status = FenceUnreadable, fr_expected = f_worktree f, fr_observed = ''unreadable'', fr_evidence = e\<rparr>
       | Inr state \<Rightarrow>
           if rp_branch state \<noteq> f_branch f then
             \<lparr>fr_status = FenceBranchChanged, fr_expected = f_branch f,
              fr_observed = (if rp_detached state then ''detached HEAD at '' @ shortSHA (rp_head state)
                             else rp_branch state),
              fr_evidence = ''the worktree was moved to a different ref outside this run''\<rparr>
           else if rp_head state \<noteq> f_head f then
             \<lparr>fr_status = FenceHeadMoved, fr_expected = shortSHA (f_head f), fr_observed = shortSHA (rp_head state),
              fr_evidence = ''HEAD moved without an authorized advance being recorded by this run''\<rparr>
           else
             \<lparr>fr_status = FenceIntact, fr_expected = f_branch f @ ''@'' @ shortSHA (f_head f),
              fr_observed = ''unchanged'', fr_evidence = []\<rparr>))"

datatype advance_error = AdvanceUnreasoned | AdvanceViolation FenceResult

definition violation :: "FenceResult \<Rightarrow> FenceResult \<times> advance_error option" where
  "violation r = (r, map_option AdvanceViolation (FenceResult_Error r))"

definition no_result :: FenceResult where
  "no_result = \<lparr>fr_status = FenceNone, fr_expected = [], fr_observed = [], fr_evidence = []\<rparr>"

text \<open>The readings \<open>owner2\<close> and \<open>repo2\<close> are the ones of the \<open>Check\<close> made when ownership is not confirmed.\<close>

definition RecordAuthorisedAdvance ::
  "Fence \<Rightarrow> string \<Rightarrow> owner_reading \<Rightarrow> repo_reading \<Rightarrow> owner_reading \<Rightarrow> repo_reading \<Rightarrow>
   (FenceResult \<times> advance_error option) \<times> Fence" where
  "RecordAuthorisedAdvance f reason owner repo owner2 repo2 =
     (if reason = [] then ((no_result, Some AdvanceUnreasoned), f)
      else if (case owner of Inr (Some ow) \<Rightarrow> o_runID ow \<noteq> f_runID f \<or> o_pid ow \<noteq> f_pid f | _ \<Rightarrow> True)
      then (violation (Fence_Check f owner2 repo2), f)
      else case repo of
        Inl e \<Rightarrow> (violation \<lparr>fr_status = FenceUnreadable, fr_expected = f_worktree f,
                           fr_observed = ''unreadable'', fr_evidence = e\<rparr>, f)
      | Inr state \<Rightarrow>
          if rp_branch state \<noteq> f_branch f
          then (violation \<lparr>fr_status = FenceBranchChanged, fr_expected = f_branch f, fr_observed = rp_branch state,
                          fr_evidence = ''an advance was claimed on a branch this run does not own''\<rparr>, f)
          else
            let f' = (if rp_head state \<noteq> f_head f
                      then f\<lparr>f_advances := f_advances f @
                               [\<lparr>fa_from = f_head f, fa_to = rp_head state, fa_reason = reason\<rparr>],
                             f_head := rp_head state\<rparr>
                      else f)
            in ((\<lparr>fr_status = FenceIntact, fr_expected = f_branch f' @ ''@'' @ shortSHA (f_head f'),
                  fr_observed = ''advanced by this run'', fr_evidence = []\<rparr>, None), f'))"

section \<open>Lemmas\<close>

definition owns :: "Fence \<Rightarrow> owner_reading \<Rightarrow> bool" where
  "owns f owner = (case owner of
     Inr (Some ow) \<Rightarrow> o_runID ow = f_runID f \<and> o_pid ow = f_pid f | _ \<Rightarrow> False)"

definition on_branch :: "Fence \<Rightarrow> repo_reading \<Rightarrow> bool" where
  "on_branch f repo = (case repo of Inr state \<Rightarrow> rp_branch state = f_branch f | Inl _ \<Rightarrow> False)"

definition at_head :: "Fence \<Rightarrow> repo_reading \<Rightarrow> bool" where
  "at_head f repo = (case repo of Inr state \<Rightarrow> rp_head state = f_head f | Inl _ \<Rightarrow> False)"

lemma Fence_Check_Intact:
  "Intact (Fence_Check f owner repo) \<longleftrightarrow> owns f owner \<and> on_branch f repo \<and> at_head f repo"
  by (auto simp: Fence_Check_def Intact_def owns_def on_branch_def at_head_def split: sum.split option.split)

fun advance_chain :: "string \<Rightarrow> FenceAdvance list \<Rightarrow> string \<Rightarrow> bool" where
  "advance_chain h [] h' = (h = h')"
| "advance_chain h (a # as) h' =
     (fa_from a = h \<and> fa_to a \<noteq> h \<and> fa_reason a \<noteq> [] \<and> advance_chain (fa_to a) as h')"

lemma advance_chain_snoc:
  "advance_chain h (as @ [a]) h' \<longleftrightarrow>
   advance_chain h as (fa_from a) \<and> fa_to a \<noteq> fa_from a \<and> fa_reason a \<noteq> [] \<and> fa_to a = h'"
  by (induction as arbitrary: h) auto

lemma RecordAuthorisedAdvance_moves:
  assumes "RecordAuthorisedAdvance f reason owner repo owner2 repo2 = (res, f')" "f' \<noteq> f"
  shows "owns f owner \<and> on_branch f repo \<and> reason \<noteq> [] \<and>
    (\<exists>state. repo = Inr state \<and> rp_head state \<noteq> f_head f \<and>
      f' = f\<lparr>f_head := rp_head state,
             f_advances := f_advances f @ [\<lparr>fa_from = f_head f, fa_to = rp_head state, fa_reason = reason\<rparr>]\<rparr>)"
  using assms
  by (auto simp: RecordAuthorisedAdvance_def owns_def on_branch_def Let_def
      split: if_splits sum.splits option.splits)

lemma RecordAuthorisedAdvance_claim:
  assumes "RecordAuthorisedAdvance f reason owner repo owner2 repo2 = (res, f')"
  shows "f_worktree f' = f_worktree f" "f_lockDir f' = f_lockDir f" "f_runID f' = f_runID f"
    "f_pid f' = f_pid f" "f_branch f' = f_branch f"
  using RecordAuthorisedAdvance_moves [OF assms] by (cases "f' = f"; auto)+

lemma RecordAuthorisedAdvance_chain:
  assumes "RecordAuthorisedAdvance f reason owner repo owner2 repo2 = (res, f')"
    and "advance_chain h (f_advances f) (f_head f)"
  shows "advance_chain h (f_advances f') (f_head f')"
  using RecordAuthorisedAdvance_moves [OF assms(1)] assms(2)
  by (cases "f' = f") (auto simp: advance_chain_snoc)

text \<open>A sequence of advance requests, each with its reason and everything it reads.\<close>

type_synonym advance_request = "string \<times> owner_reading \<times> repo_reading \<times> owner_reading \<times> repo_reading"

fun advance_all :: "Fence \<Rightarrow> advance_request list \<Rightarrow> Fence" where
  "advance_all f [] = f"
| "advance_all f ((reason, ow, rp, ow2, rp2) # rs) =
     advance_all (snd (RecordAuthorisedAdvance f reason ow rp ow2 rp2)) rs"

lemma advance_all_claim:
  "f_worktree (advance_all f rs) = f_worktree f \<and> f_lockDir (advance_all f rs) = f_lockDir f \<and>
   f_runID (advance_all f rs) = f_runID f \<and> f_pid (advance_all f rs) = f_pid f \<and>
   f_branch (advance_all f rs) = f_branch f"
proof (induction f rs rule: advance_all.induct)
  case (2 f reason ow rp ow2 rp2 rs)
  then show ?case
    using RecordAuthorisedAdvance_claim [of f reason ow rp ow2 rp2, OF prod.collapse [symmetric]] by simp
qed simp

lemma advance_all_chain:
  "advance_chain h (f_advances f) (f_head f) \<Longrightarrow>
   advance_chain h (f_advances (advance_all f rs)) (f_head (advance_all f rs))"
proof (induction f rs rule: advance_all.induct)
  case (2 f reason ow rp ow2 rp2 rs)
  then show ?case
    using RecordAuthorisedAdvance_chain [of f reason ow rp ow2 rp2, OF prod.collapse [symmetric]] by simp
qed simp

section \<open>Properties\<close>

text \<open>No advance launders an external change. Whatever advances are requested of a fence and
  whatever each of them reads, the claim (worktree, lock directory, run, process, branch) is the one
  taken, and the recorded advances form a chain of real movements, each with a reason, from the head
  the fence was taken at to the head it is at: HEAD moved only through its recorded advances.\<close>

theorem fence_advances_form_chain:
  "let f0 = TakeFence state lockDir owner; f = advance_all f0 rs in
   f_worktree f = f_worktree f0 \<and> f_lockDir f = f_lockDir f0 \<and> f_runID f = f_runID f0 \<and>
   f_pid f = f_pid f0 \<and> f_branch f = f_branch f0 \<and>
   advance_chain (rp_head state) (f_advances f) (f_head f)"
  using advance_all_claim [of "TakeFence state lockDir owner" rs]
    advance_all_chain [of "rp_head state" "TakeFence state lockDir owner" rs]
  by (simp add: Let_def TakeFence_def)

end
