(* ===== verification/Run_Spec.thy ===== *)
theory Run_Spec
  imports Work_Plan Failure Fence
begin

text \<open>
  The declaration of a run (\<^verbatim>\<open>internal/unattended/spec.go\<close>): its requirements, its ownership
  declaration (\<^verbatim>\<open>ownership.go\<close>), their validation, and the comparison of remotes of
  \<^verbatim>\<open>gitprobe.go\<close>.

  As in the plan, a validator returns its problems with the values their messages quote. The canonical form
  of a path (\<^verbatim>\<open>filepath.Clean\<close> and \<^verbatim>\<open>EvalSymlinks\<close>, and the case rules of the platform) depends on
  the file system, so it is the parameter \<open>canon\<close>; what \<^verbatim>\<open>git\<close> answers is a \<open>repo_reading\<close>. A time is a
  number of seconds and the zero time is \<open>None\<close>. Reading and writing TOML is input and output.
\<close>

section \<open>Requirements\<close>

record Ownership =
  ow_projectID :: string
  ow_worktree :: string
  ow_expectedOrigin :: string
  ow_expectedBranch :: string
  ow_role :: Role
  ow_session :: string
  ow_allowDirtyWorktree :: bool

record ToolRequirement =
  tl_name :: string
  tl_minVersion :: string
  tl_versionArgs :: "string list"
  tl_purpose :: string
  tl_humanAction :: string

datatype PathKind = PathAny | PathDir | PathFile | PathKindOther string

fun PathKind_text :: "PathKind \<Rightarrow> string" where
  "PathKind_text PathAny = []"
| "PathKind_text PathDir = ''dir''"
| "PathKind_text PathFile = ''file''"
| "PathKind_text (PathKindOther s) = s"

record PathRequirement =
  pt_path :: string
  pt_kind :: PathKind
  pt_purpose :: string
  pt_writable :: bool
  pt_create :: bool

record EnvRequirement =
  ev_name :: string
  ev_purpose :: string
  ev_secret :: bool

record PortRequirement =
  po_address :: string
  po_purpose :: string
  po_timeoutSeconds :: int

record CommandRequirement =
  cm_id :: string
  cm_title :: string
  cm_argv :: "string list"
  cm_dir :: string
  cm_timeoutSeconds :: int
  cm_expectOutput :: string
  cm_remedy :: string

record CredentialRequirement =
  cd_id :: string
  cd_title :: string
  cd_env :: string
  cd_file :: string
  cd_notAfter :: "int option"
  cd_probe :: "string list"
  cd_timeoutSeconds :: int
  cd_expiredPattern :: string
  cd_humanAction :: string

record GitHubRequirement =
  gh_repo :: string
  gh_command :: string
  gh_account :: string
  gh_branch :: string
  gh_needPush :: bool
  gh_needPR :: bool
  gh_needChecks :: bool
  gh_needMerge :: bool
  gh_mergeHumanAction :: string

record Spec =
  sp_projectID :: string
  sp_ownership :: Ownership
  sp_tools :: "ToolRequirement list"
  sp_paths :: "PathRequirement list"
  sp_env :: "EnvRequirement list"
  sp_ports :: "PortRequirement list"
  sp_commands :: "CommandRequirement list"
  sp_credentials :: "CredentialRequirement list"
  sp_github :: "GitHubRequirement option"
  sp_classification :: "ClassificationRule list"
  sp_qa :: QAPolicy
  sp_stateDir :: string
  sp_publishPath :: string
  sp_boundaries :: "KnownBoundary list"

section \<open>Validation\<close>

datatype ownership_error =
    OwnershipMissing "string list"
  | OwnershipRole string
  | OwnershipNoBranch string

definition Ownership_Validate :: "Ownership \<Rightarrow> ownership_error option" where
  "Ownership_Validate o' =
     (let missing =
        problem_if (blank (ow_projectID o')) ''projectId'' @
        problem_if (blank (ow_worktree o')) ''worktree'' @
        problem_if (blank (ow_session o')) ''session''
      in if missing \<noteq> [] then Some (OwnershipMissing missing)
         else if \<not> Role_Valid (ow_role o') then Some (OwnershipRole (Role_text (ow_role o')))
         else if Exclusive (ow_role o') \<and> blank (ow_expectedBranch o')
         then Some (OwnershipNoBranch (Role_text (ow_role o')))
         else None)"

datatype spec_problem =
    SpecNoProject | SpecNoStateDir | SpecOwnership ownership_error | SpecProjectMismatch string string
  | ToolNoName nat
  | PathNoPath nat | PathKindUnknown nat string | PathCreateNotDir nat
  | EnvNoName nat
  | PortNotHostPort nat string
  | CommandNoID nat | CommandNoArgv nat
  | CredentialNoID nat | CredentialNothing nat string
  | SpecGateUnknown string
  | SpecRepo string
  | BoundaryNoID nat | BoundaryDuplicated nat string | BoundaryNoAction nat string
  | ClassifyNoPattern nat | ClassifyClass nat string

definition path_problems :: "nat \<Rightarrow> PathRequirement \<Rightarrow> spec_problem list" where
  "path_problems i p =
     problem_if (blank (pt_path p)) (PathNoPath i) @
     problem_if (pt_kind p \<notin> {PathAny, PathDir, PathFile}) (PathKindUnknown i (PathKind_text (pt_kind p))) @
     problem_if (pt_create p \<and> pt_kind p \<noteq> PathDir) (PathCreateNotDir i)"

definition command_problems :: "nat \<Rightarrow> CommandRequirement \<Rightarrow> spec_problem list" where
  "command_problems i c =
     problem_if (blank (cm_id c)) (CommandNoID i) @ problem_if (cm_argv c = []) (CommandNoArgv i)"

definition credential_problems :: "nat \<Rightarrow> CredentialRequirement \<Rightarrow> spec_problem list" where
  "credential_problems i c =
     problem_if (blank (cd_id c)) (CredentialNoID i) @
     problem_if (cd_env c = [] \<and> cd_file c = [] \<and> cd_probe c = [] \<and> cd_notAfter c = None)
       (CredentialNothing i (cd_id c))"

fun boundary_problems :: "string set \<Rightarrow> nat \<Rightarrow> KnownBoundary list \<Rightarrow> spec_problem list" where
  "boundary_problems seen i [] = []"
| "boundary_problems seen i (b # bs) =
     (let (ps, seen') =
        (if blank (kb_id b) then ([BoundaryNoID i], seen)
         else if kb_id b \<in> seen then ([BoundaryDuplicated i (kb_id b)], seen)
         else ([], insert (kb_id b) seen))
      in ps @ problem_if (blank (kb_action b)) (BoundaryNoAction i (kb_id b)) @
         boundary_problems seen' (Suc i) bs)"

definition classify_problems :: "nat \<Rightarrow> ClassificationRule \<Rightarrow> spec_problem list" where
  "classify_problems i r =
     problem_if (blank (cr_pattern r)) (ClassifyNoPattern i) @
     problem_if (\<not> FailureClass_Valid (cr_class r)) (ClassifyClass i (FailureClass_text (cr_class r)))"

definition Spec_Validate :: "Spec \<Rightarrow> spec_problem list" where
  "Spec_Validate s =
     problem_if (blank (sp_projectID s)) SpecNoProject @
     problem_if (blank (sp_stateDir s)) SpecNoStateDir @
     (case Ownership_Validate (sp_ownership s) of None \<Rightarrow> [] | Some e \<Rightarrow> [SpecOwnership e]) @
     problem_if (ow_projectID (sp_ownership s) \<noteq> [] \<and> sp_projectID s \<noteq> [] \<and>
                 ow_projectID (sp_ownership s) \<noteq> sp_projectID s)
       (SpecProjectMismatch (ow_projectID (sp_ownership s)) (sp_projectID s)) @
     each_from 0 (\<lambda>i t. problem_if (blank (tl_name t)) (ToolNoName i)) (sp_tools s) @
     each_from 0 path_problems (sp_paths s) @
     each_from 0 (\<lambda>i e. problem_if (blank (ev_name e)) (EnvNoName i)) (sp_env s) @
     each_from 0 (\<lambda>i p. problem_if (\<not> Contains (po_address p) '':'') (PortNotHostPort i (po_address p))) (sp_ports s) @
     each_from 0 command_problems (sp_commands s) @
     each_from 0 credential_problems (sp_credentials s) @
     map SpecGateUnknown (filter (\<lambda>g. \<not> gate_known g) (qa_requireGates (sp_qa s))) @
     (case sp_github s of
        Some g \<Rightarrow> problem_if (\<not> Contains (gh_repo g) ''/'') (SpecRepo (gh_repo g)) | None \<Rightarrow> []) @
     boundary_problems {} 0 (sp_boundaries s) @
     each_from 0 classify_problems (sp_classification s)"

section \<open>Remotes\<close>

definition normalizeRemoteURL :: "string \<Rightarrow> string" where
  "normalizeRemoteURL raw =
     (let u = TrimSpace raw in
      if u = [] then []
      else
        let u1 = TrimSuffix u ''/'';
            u2 = foldl TrimPrefix u1 [''https://'', ''http://'', ''ssh://'', ''git://''];
            u3 = (case split_last CHR ''@'' u2 of
                    Some (before, after) \<Rightarrow> if Contains before ''/'' then u2 else after
                  | None \<Rightarrow> u2);
            u4 = replace_first CHR '':'' CHR ''/'' u3;
            u5 = TrimSuffix u4 ''.git''
        in ToLower (TrimSuffix u5 ''/''))"

definition SameRemote :: "string \<Rightarrow> string \<Rightarrow> bool" where
  "SameRemote a b = (normalizeRemoteURL a \<noteq> [] \<and> normalizeRemoteURL a = normalizeRemoteURL b)"

section \<open>The ownership assertion\<close>

definition orNone :: "string \<Rightarrow> string" where
  "orNone s = (if blank s then ''none'' else s)"

definition unprobed_checks :: "Check list" where
  "unprobed_checks =
     (let why = ''the declared worktree could not be probed'' in
     [notReached_check ''ownership.repository'' CategoryOwnership ''worktree is the declared repository''
        (why @ '', so its identity is unknown''),
      notReached_check ''ownership.origin'' CategoryOwnership ''origin remote is the declared repository''
        (why @ '', so it has no readable remote''),
      notReached_check ''ownership.branch'' CategoryOwnership ''checked-out branch is the declared branch''
        (why @ '', so it has no readable branch''),
      notReached_check ''repository.head'' CategoryRepository ''HEAD is known'' (why @ '', so HEAD is unknown''),
      notReached_check ''repository.clean'' CategoryRepository ''worktree state is known and acceptable''
        (why @ '', so its cleanliness is unknown''),
      notReached_check ''repository.operation'' CategoryRepository ''no unfinished merge, rebase or cherry-pick''
        (why @ '', so an unfinished operation cannot be ruled out'')])"

definition repository_check :: "(string \<Rightarrow> string) \<Rightarrow> Ownership \<Rightarrow> RepoState \<Rightarrow> Check" where
  "repository_check canon o' st =
     (if canon (rp_root st) = canon (ow_worktree o')
      then pass_check ''ownership.repository'' CategoryOwnership ''worktree is the declared repository'' (rp_root st)
      else fail_check ''ownership.repository'' CategoryOwnership ''worktree is the declared repository''
        (ow_worktree o') (rp_root st)
        (''this session is pointed at a different repository than it declared '' @ em_dash @ '' stop before mutating anything''))"

definition origin_check :: "Ownership \<Rightarrow> RepoState \<Rightarrow> Check" where
  "origin_check o' st =
     (let title = ''origin remote is the declared repository'' in
      if ow_expectedOrigin o' = [] then pass_check ''ownership.origin'' CategoryOwnership title ''no origin expectation declared''
      else if SameRemote (rp_originURL st) (ow_expectedOrigin o')
      then pass_check ''ownership.origin'' CategoryOwnership title (rp_originURL st)
      else fail_check ''ownership.origin'' CategoryOwnership title (ow_expectedOrigin o') (orNone (rp_originURL st))
        (''the directory is a git worktree but not of the declared project '' @ em_dash @ '' do not push or open a PR from here''))"

definition branch_check :: "Ownership \<Rightarrow> RepoState \<Rightarrow> Check" where
  "branch_check o' st =
     (let title = ''checked-out branch is the declared branch'' in
      if ow_expectedBranch o' = [] then pass_check ''ownership.branch'' CategoryOwnership title ''no branch expectation declared''
      else if rp_detached st then fail_check ''ownership.branch'' CategoryOwnership title (ow_expectedBranch o')
        (''detached HEAD at '' @ shortSHA (rp_head st)) ''check out the declared branch before starting an unattended run''
      else if rp_branch st = ow_expectedBranch o'
      then pass_check ''ownership.branch'' CategoryOwnership title (rp_branch st)
      else fail_check ''ownership.branch'' CategoryOwnership title (ow_expectedBranch o') (rp_branch st)
        (''another session may already have moved this worktree '' @ em_dash @ '' do not mutate it''))"

definition head_check :: "RepoState \<Rightarrow> Check" where
  "head_check st =
     (if rp_head st \<noteq> [] then pass_check ''repository.head'' CategoryRepository ''HEAD is known'' (shortSHA (rp_head st))
      else fail_check ''repository.head'' CategoryRepository ''HEAD is known'' ''a commit''
        (''unborn branch '' @ em_dash @ '' no commits'') ''make an initial commit; a run cannot fence a HEAD that does not exist'')"

definition clean_check :: "Ownership \<Rightarrow> RepoState \<Rightarrow> Check" where
  "clean_check o' st =
     (let title = ''worktree state is known and acceptable'';
          dirt = ''dirty, '' @ Itoa (int (length (rp_dirty st))) @ '' path(s)'' in
      if Clean st then pass_check ''repository.clean'' CategoryRepository title ''clean''
      else if ow_allowDirtyWorktree o' then
        (pass_check ''repository.clean'' CategoryRepository title (dirt @ '', permitted by declaration''))
          \<lparr>c_detail := Join (rp_dirty st) ''; ''\<rparr>
      else
        (fail_check ''repository.clean'' CategoryRepository title ''clean'' dirt
           ''commit or stash the change, or declare allowDirtyWorktree if the dirt is expected'')
          \<lparr>c_detail := Join (rp_dirty st) ''; ''\<rparr>)"

definition operation_check :: "RepoState \<Rightarrow> Check" where
  "operation_check st =
     (let title = ''no unfinished merge, rebase or cherry-pick'' in
      if rp_inProgress st = [] then pass_check ''repository.operation'' CategoryRepository title ''none''
      else fail_check ''repository.operation'' CategoryRepository title ''no operation in progress''
        (rp_inProgress st @ '' in progress'')
        (''finish or abort the '' @ rp_inProgress st @ '' by hand '' @ em_dash @
         '' an unattended run must not compound a state a human was resolving''))"

definition Assert :: "(string \<Rightarrow> string) \<Rightarrow> Ownership \<Rightarrow> RepoState \<Rightarrow> string option \<Rightarrow> Check list" where
  "Assert canon o' st probeErr =
     (let title = ''declared worktree is a readable git worktree'' in
      case probeErr of
        Some e \<Rightarrow> fail_check ''ownership.worktree'' CategoryOwnership title (ow_worktree o') e
            ''point the run at a real git worktree, or create it before starting'' # unprobed_checks
      | None \<Rightarrow>
          [pass_check ''ownership.worktree'' CategoryOwnership title (rp_root st),
           repository_check canon o' st, origin_check o' st, branch_check o' st, head_check st,
           clean_check o' st, operation_check st])"

text \<open>A failed probe of the worktree returns what it had read so far beside the error.\<close>

definition unprobed :: "string \<Rightarrow> RepoState" where
  "unprobed dir =
     \<lparr>rp_dir = dir, rp_root = [], rp_gitDir = [], rp_commonDir = [], rp_branch = [], rp_detached = False,
      rp_head = [], rp_originURL = [], rp_dirty = [], rp_inProgress = [], rp_worktrees = []\<rparr>"

definition AssertOwnership ::
  "(string \<Rightarrow> string) \<Rightarrow> (string \<Rightarrow> string option) \<Rightarrow> (string \<Rightarrow> RepoState \<times> string option) \<Rightarrow>
   Ownership \<Rightarrow> RepoState \<times> Check list" where
  "AssertOwnership canon stat probe o' =
     (case stat (ow_worktree o') of
        Some e \<Rightarrow> (unprobed (ow_worktree o'), Assert canon o' (unprobed (ow_worktree o')) (Some e))
      | None \<Rightarrow> (case probe (ow_worktree o') of (st, err) \<Rightarrow> (st, Assert canon o' st err)))"

section \<open>Lemmas\<close>

lemma Ownership_Validate_None:
  "Ownership_Validate o' = None \<longleftrightarrow>
     \<not> blank (ow_projectID o') \<and> \<not> blank (ow_worktree o') \<and> \<not> blank (ow_session o') \<and>
     Role_Valid (ow_role o') \<and> (Exclusive (ow_role o') \<longrightarrow> \<not> blank (ow_expectedBranch o'))"
  by (auto simp: Ownership_Validate_def Let_def problem_if_def)

lemma boundary_problems_Nil:
  "boundary_problems seen i bs = [] \<longleftrightarrow>
     (\<forall>b\<in>set bs. \<not> blank (kb_id b) \<and> \<not> blank (kb_action b)) \<and>
     distinct (map kb_id bs) \<and> seen \<inter> kb_id ` set bs = {}"
proof (induction bs arbitrary: seen i)
  case (Cons b bs)
  show ?case
    by (simp add: Let_def Cons.IH) auto
qed simp

lemma path_problems_Nil:
  "path_problems i p = [] \<longleftrightarrow> \<not> blank (pt_path p) \<and> pt_kind p \<in> {PathAny, PathDir, PathFile} \<and>
     (pt_create p \<longrightarrow> pt_kind p = PathDir)"
  by (auto simp: path_problems_def)

lemma command_problems_Nil: "command_problems i c = [] \<longleftrightarrow> \<not> blank (cm_id c) \<and> cm_argv c \<noteq> []"
  by (simp add: command_problems_def)

lemma credential_problems_Nil:
  "credential_problems i c = [] \<longleftrightarrow> \<not> blank (cd_id c) \<and>
     (cd_env c \<noteq> [] \<or> cd_file c \<noteq> [] \<or> cd_probe c \<noteq> [] \<or> cd_notAfter c \<noteq> None)"
  by (auto simp: credential_problems_def)

lemma classify_problems_Nil:
  "classify_problems i r = [] \<longleftrightarrow> \<not> blank (cr_pattern r) \<and> FailureClass_Valid (cr_class r)"
  by (simp add: classify_problems_def)

lemmas spec_problems_Nil =
  each_from_Nil [of path_problems, OF path_problems_Nil]
  each_from_Nil [of command_problems, OF command_problems_Nil]
  each_from_Nil [of credential_problems, OF credential_problems_Nil]
  each_from_Nil [of classify_problems, OF classify_problems_Nil]
  each_from_Nil [of "\<lambda>i t. problem_if (blank (tl_name t)) (ToolNoName i)", OF problem_if_Nil]
  each_from_Nil [of "\<lambda>i e. problem_if (blank (ev_name e)) (EnvNoName i)", OF problem_if_Nil]
  each_from_Nil [of "\<lambda>i p. problem_if (\<not> Contains (po_address p) '':'') (PortNotHostPort i (po_address p))",
    OF problem_if_Nil]

lemma TrimSuffix_append [simp]: "TrimSuffix (s @ p) p = s"
  by (simp add: TrimSuffix_def HasSuffix_def)

lemma TrimSuffix_other: "\<not> suffix p s \<Longrightarrow> TrimSuffix s p = s"
  by (simp add: TrimSuffix_def HasSuffix_suffix)

lemma TrimSuffix_last: "s \<noteq> [] \<Longrightarrow> last s \<noteq> c \<Longrightarrow> TrimSuffix s [c] = s"
  by (intro TrimSuffix_other) (auto simp: suffix_def)

text \<open>The characters of host, owner and repository names.\<close>

definition name_char :: "char \<Rightarrow> bool" where
  "name_char c =
     (let n = of_char c :: nat in
      48 \<le> n \<and> n \<le> 57 \<or> 65 \<le> n \<and> n \<le> 90 \<or> 97 \<le> n \<and> n \<le> 122 \<or> n = 45 \<or> n = 46 \<or> n = 95)"

lemma name_charD:
  assumes "name_char c"
  shows "c \<noteq> CHR ''/''" "c \<noteq> CHR '':''" "c \<noteq> CHR ''@''"
  using assms by (auto simp: name_char_def)

definition graphic :: "char \<Rightarrow> bool" where
  "graphic c = (let n = of_char c :: nat in 32 < n \<and> n < 127)"

lemma name_char_graphic: "name_char c \<Longrightarrow> graphic c"
  by (auto simp: name_char_def graphic_def Let_def)

lemma lead_len_hd: "\<forall>w\<in>set ws. w \<noteq> [] \<and> hd w \<noteq> c \<Longrightarrow> lead_len ws (c # s) = 0"
  by (induction ws) (auto simp: prefix_Cons)

lemma space_runes_not_graphic:
  "list_all (\<lambda>w. w \<noteq> [] \<and> \<not> graphic (hd w)) (space_runes @ map rev space_runes)"
  by code_simp

lemma lead_len_graphic:
  assumes "graphic c"
  shows "lead_len space_runes (c # s) = 0 \<and> lead_len (map rev space_runes) (c # s) = 0"
  using assms space_runes_not_graphic unfolding list_all_iff by (intro conjI lead_len_hd) auto

lemma TrimSpace_graphic:
  assumes "s \<noteq> []" "graphic (hd s)" "graphic (last s)"
  shows "TrimSpace s = s"
proof -
  obtain c cs where s: "s = c # cs"
    using assms(1) by (cases s) auto
  obtain d ds where r: "rev s = d # ds" "d = last s"
    using assms(1) by (cases "rev s") (auto simp: last_rev [symmetric] hd_rev)
  have "trim_lead space_runes s = s"
    using assms lead_len_graphic s by (subst trim_lead.simps) simp
  moreover have "trim_lead (map rev space_runes) (rev s) = rev s"
    using assms lead_len_graphic [of d ds] r by (subst trim_lead.simps) (simp only: r(1), simp)
  ultimately show ?thesis
    by (simp add: TrimSpace_def)
qed

section \<open>Properties\<close>

text \<open>A spec is accepted exactly when it can govern a run: the project, the state directory and
  the ownership declaration are there and agree, an exclusive role names its branch, every requirement
  names what it checks, only directories are created, gates are in the catalogue, every declared boundary has
  an identifier of its own and an action, and every classification rule has a pattern and a declared class.\<close>

theorem spec_validate_exact:
  "Spec_Validate s = [] \<longleftrightarrow>
     \<not> blank (sp_projectID s) \<and> \<not> blank (sp_stateDir s) \<and>
     ow_projectID (sp_ownership s) = sp_projectID s \<and>
     Ownership_Validate (sp_ownership s) = None \<and>
     (\<forall>t\<in>set (sp_tools s). \<not> blank (tl_name t)) \<and>
     (\<forall>p\<in>set (sp_paths s). \<not> blank (pt_path p) \<and> pt_kind p \<in> {PathAny, PathDir, PathFile} \<and>
        (pt_create p \<longrightarrow> pt_kind p = PathDir)) \<and>
     (\<forall>e\<in>set (sp_env s). \<not> blank (ev_name e)) \<and>
     (\<forall>p\<in>set (sp_ports s). Contains (po_address p) '':'') \<and>
     (\<forall>c\<in>set (sp_commands s). \<not> blank (cm_id c) \<and> cm_argv c \<noteq> []) \<and>
     (\<forall>c\<in>set (sp_credentials s). \<not> blank (cd_id c) \<and>
        (cd_env c \<noteq> [] \<or> cd_file c \<noteq> [] \<or> cd_probe c \<noteq> [] \<or> cd_notAfter c \<noteq> None)) \<and>
     (\<forall>g\<in>set (qa_requireGates (sp_qa s)). gate_known g) \<and>
     (\<forall>g. sp_github s = Some g \<longrightarrow> Contains (gh_repo g) ''/'') \<and>
     (\<forall>b\<in>set (sp_boundaries s). \<not> blank (kb_id b) \<and> \<not> blank (kb_action b)) \<and>
     distinct (map kb_id (sp_boundaries s)) \<and>
     (\<forall>r\<in>set (sp_classification s). \<not> blank (cr_pattern r) \<and> FailureClass_Valid (cr_class r))"
proof -
  have "sp_projectID s \<noteq> []" if "\<not> blank (sp_projectID s)"
    using that by auto
  moreover have "ow_projectID (sp_ownership s) \<noteq> []" if "Ownership_Validate (sp_ownership s) = None"
    using that by (auto simp: Ownership_Validate_None)
  ultimately show ?thesis
    by (auto simp: Spec_Validate_def spec_problems_Nil boundary_problems_Nil filter_empty_conv
        split: option.splits)
qed

definition sample_ownership :: Ownership where
  "sample_ownership =
     \<lparr>ow_projectID = ''p'', ow_worktree = ''/w'', ow_expectedOrigin = ''https://github.com/o/r.git'',
      ow_expectedBranch = ''main'', ow_role = RoleWriter, ow_session = ''s'', ow_allowDirtyWorktree = False\<rparr>"

definition sample_spec :: Spec where
  "sample_spec =
     \<lparr>sp_projectID = ''p'', sp_ownership = sample_ownership, sp_tools = [], sp_paths = [], sp_env = [],
      sp_ports = [], sp_commands = [], sp_credentials = [], sp_github = None, sp_classification = [],
      sp_qa = \<lparr>qa_requireGates = []\<rparr>, sp_stateDir = ''/state'', sp_publishPath = [],
      sp_boundaries = [\<lparr>kb_id = ''release'', kb_title = [], kb_detail = [], kb_action = ''approve the release''\<rparr>]\<rparr>"

theorem spec_validate_exact_witness:
  "Spec_Validate sample_spec = [] \<and> Spec_Validate (sample_spec\<lparr>sp_stateDir := []\<rparr>) \<noteq> []"
proof -
  have "\<not> blank ''p''" "\<not> blank ''/state''" "\<not> blank ''release''" "\<not> blank ''approve the release''"
    "Ownership_Validate sample_ownership = None"
    by code_simp+
  then show ?thesis
    using spec_validate_exact [of sample_spec] spec_validate_exact [of "sample_spec\<lparr>sp_stateDir := []\<rparr>"]
    by (simp add: sample_spec_def sample_ownership_def)
qed

text \<open>The ownership assertion passes exactly when the session is where it declared to be: the
  probed worktree is the declared one, its origin is the declared remote when one is declared, it is on the
  declared branch and not detached when one is declared, HEAD exists, the tree is clean or dirt is
  permitted, and no operation is unfinished. When the worktree cannot be probed nothing passes.\<close>

theorem ownership_assertion_exact:
  "((\<forall>c\<in>set (Assert canon o' st None). c_outcome c = OutcomePass) \<longleftrightarrow>
      canon (rp_root st) = canon (ow_worktree o') \<and>
      (ow_expectedOrigin o' = [] \<or> SameRemote (rp_originURL st) (ow_expectedOrigin o')) \<and>
      (ow_expectedBranch o' = [] \<or> \<not> rp_detached st \<and> rp_branch st = ow_expectedBranch o') \<and>
      rp_head st \<noteq> [] \<and> (rp_dirty st = [] \<or> ow_allowDirtyWorktree o') \<and> rp_inProgress st = []) \<and>
   (\<forall>c\<in>set (Assert canon o' st (Some e)). c_outcome c = OutcomeFail \<or> c_outcome c = OutcomeNotReached)"
  by (simp add: Assert_def Let_def repository_check_def origin_check_def branch_check_def head_check_def
      clean_check_def operation_check_def pass_check_def fail_check_def notReached_check_def
      unprobed_checks_def Clean_def)

definition sample_repo :: RepoState where
  "sample_repo =
     \<lparr>rp_dir = ''/w'', rp_root = ''/w'', rp_gitDir = ''/w/.git'', rp_commonDir = ''/w/.git'', rp_branch = ''main'',
      rp_detached = False, rp_head = ''abc'', rp_originURL = ''git@github.com:O/r'', rp_dirty = [],
      rp_inProgress = [], rp_worktrees = [''/w'']\<rparr>"

theorem ownership_assertion_exact_witness:
  "list_all (\<lambda>c. c_outcome c = OutcomePass) (Assert id sample_ownership sample_repo None) \<and>
   \<not> list_all (\<lambda>c. c_outcome c = OutcomePass)
       (Assert id sample_ownership (sample_repo\<lparr>rp_branch := ''other''\<rparr>) None)"
proof -
  have "SameRemote ''git@github.com:O/r'' ''https://github.com/o/r.git''"
    by code_simp
  then show ?thesis
    using ownership_assertion_exact [of id sample_ownership sample_repo]
      ownership_assertion_exact [of id sample_ownership "sample_repo\<lparr>rp_branch := ''other''\<rparr>"]
    by (simp add: sample_ownership_def sample_repo_def list_all_iff)
qed

text \<open>What is left of a remote after the space, a trailing slash and the scheme are dropped.\<close>

definition remote_tail :: "string \<Rightarrow> string" where
  "remote_tail u2 =
     (let u3 = (case split_last CHR ''@'' u2 of
                  Some (before, after) \<Rightarrow> if Contains before ''/'' then u2 else after
                | None \<Rightarrow> u2);
          u5 = TrimSuffix (replace_first CHR '':'' CHR ''/'' u3) ''.git''
      in ToLower (TrimSuffix u5 ''/''))"

lemma normalizeRemoteURL_tail:
  assumes "s \<noteq> []" "graphic (hd s)" "graphic (last s)"
  shows "normalizeRemoteURL s =
    remote_tail (foldl TrimPrefix (TrimSuffix s ''/'') [''https://'', ''http://'', ''ssh://'', ''git://''])"
  using assms by (simp add: normalizeRemoteURL_def TrimSpace_graphic remote_tail_def Let_def)

lemma TrimPrefix_Cons: "TrimPrefix (c # s) (d # p) = (if c = d \<and> prefix p s then drop (length p) s else c # s)"
  by (auto simp: TrimPrefix_def HasPrefix_def)

lemma TrimPrefix_scheme: "CHR '':'' \<notin> set s \<Longrightarrow> CHR '':'' \<in> set p \<Longrightarrow> TrimPrefix s p = s"
  by (auto simp: TrimPrefix_def HasPrefix_def dest: set_mono_prefix)

lemma normalize_spelling:
  assumes "list_all name_char h" "list_all name_char w" "list_all name_char n" "h \<noteq> []" "w \<noteq> []" "n \<noteq> []"
    and "\<not> suffix ''.git'' n"
  defines "p \<equiv> h @ ''/'' @ w @ ''/'' @ n"
  shows "normalizeRemoteURL (''https://'' @ p @ ''.git'') = ToLower p"
    and "normalizeRemoteURL (''git@'' @ h @ '':'' @ w @ ''/'' @ n) = ToLower p"
    and "normalizeRemoteURL (''ssh://git@'' @ p @ ''/'') = ToLower p"
proof -
  have chars: "c \<noteq> CHR ''/'' \<and> c \<noteq> CHR '':'' \<and> c \<noteq> CHR ''@''" if "c \<in> set h \<union> set w \<union> set n" for c
    using assms(1-3) name_charD [of c] that by (auto simp: list_all_iff)
  then have at: "CHR ''@'' \<notin> set p" and colon: "CHR '':'' \<notin> set p"
    by (auto simp: p_def)
  have last: "last p = last n" "p \<noteq> []" "last n \<in> set n"
    using assms(6) by (auto simp: p_def)
  have g: "graphic (last n)"
    using assms(3) last name_char_graphic by (auto simp: list_all_iff)
  have noslash: "TrimSuffix p ''/'' = p"
    using chars [of "last n"] last by (intro TrimSuffix_last) auto
  have "\<not> suffix ''.git'' p"
  proof
    assume "suffix ''.git'' p"
    moreover have "suffix (''/'' @ n) p"
      by (simp add: p_def suffix_def)
    ultimately have "suffix ''.git'' (''/'' @ n) \<or> suffix (''/'' @ n) ''.git''"
      using suffix_same_cases by blast
    then show False
      using assms(7) set_mono_suffix [of "''/'' @ n" "''.git''"] by (auto simp: suffix_Cons)
  qed
  then have nogit: "TrimSuffix p ''.git'' = p"
    by (rule TrimSuffix_other)
  have tail1: "remote_tail (p @ ''.git'') = ToLower p"
    using at colon noslash split_last_None [of "CHR ''@''" "p @ ''.git''"]
    by (simp add: remote_tail_def replace_first_absent)
  have "split_last CHR ''@'' (''git'' @ CHR ''@'' # h @ '':'' @ w @ ''/'' @ n) = Some (''git'', h @ '':'' @ w @ ''/'' @ n)"
    using at by (intro split_last_append) (auto simp: p_def)
  moreover have "replace_first CHR '':'' CHR ''/'' (h @ CHR '':'' # w @ ''/'' @ n) = p"
    using colon by (subst replace_first_append) (auto simp: p_def)
  ultimately have tail2: "remote_tail (''git@'' @ h @ '':'' @ w @ ''/'' @ n) = ToLower p"
    using nogit noslash by (simp add: remote_tail_def)
  have "split_last CHR ''@'' (''git'' @ CHR ''@'' # p) = Some (''git'', p)"
    using at by (rule split_last_append)
  then have tail3: "remote_tail (''git@'' @ p) = ToLower p"
    using nogit noslash colon by (simp add: remote_tail_def replace_first_absent)
  have "TrimSuffix (''https://'' @ p @ ''.git'') ''/'' = ''https://'' @ p @ ''.git''"
    by (rule TrimSuffix_last) auto
  moreover have "foldl TrimPrefix (''https://'' @ p @ ''.git'') [''https://'', ''http://'', ''ssh://'', ''git://''] = p @ ''.git''"
    using colon by (simp add: TrimPrefix_Cons TrimPrefix_scheme)
  ultimately show "normalizeRemoteURL (''https://'' @ p @ ''.git'') = ToLower p"
    using tail1 by (subst normalizeRemoteURL_tail) (simp_all add: graphic_def)
  have "TrimSuffix (''git@'' @ h @ '':'' @ w @ ''/'' @ n) ''/'' = ''git@'' @ h @ '':'' @ w @ ''/'' @ n"
    using chars [of "last n"] last assms(6) by (intro TrimSuffix_last) auto
  then show "normalizeRemoteURL (''git@'' @ h @ '':'' @ w @ ''/'' @ n) = ToLower p"
    using tail2 g assms(6) by (subst normalizeRemoteURL_tail) (simp_all add: graphic_def TrimPrefix_Cons)
  have "TrimSuffix (''ssh://git@'' @ p @ ''/'') ''/'' = ''ssh://git@'' @ p"
    using TrimSuffix_append [of "''ssh://git@'' @ p" "''/''"] by simp
  then show "normalizeRemoteURL (''ssh://git@'' @ p @ ''/'') = ToLower p"
    using tail3 by (subst normalizeRemoteURL_tail) (simp_all add: graphic_def TrimPrefix_Cons)
qed

text \<open>The three spellings of a repository's remote name the same repository: with HTTPS and the
  \<^verbatim>\<open>.git\<close> suffix, in the form of \<^verbatim>\<open>scp\<close>, and with SSH and a trailing slash, for every host, owner and
  repository name made of letters, digits, hyphens, dots and underscores.\<close>

theorem remote_spellings_agree:
  assumes "list_all name_char host" "list_all name_char owner" "list_all name_char name"
    and "host \<noteq> []" "owner \<noteq> []" "name \<noteq> []" "\<not> HasSuffix name ''.git''"
  shows "SameRemote (''https://'' @ host @ ''/'' @ owner @ ''/'' @ name @ ''.git'')
           (''git@'' @ host @ '':'' @ owner @ ''/'' @ name) \<and>
         SameRemote (''git@'' @ host @ '':'' @ owner @ ''/'' @ name)
           (''ssh://git@'' @ host @ ''/'' @ owner @ ''/'' @ name @ ''/'')"
proof -
  have "ToLower (host @ ''/'' @ owner @ ''/'' @ name) \<noteq> []"
    using assms(4) by (cases host) auto
  then show ?thesis
    using normalize_spelling [of host owner name] assms by (simp add: SameRemote_def HasSuffix_suffix)
qed

theorem remote_spellings_agree_witness:
  "SameRemote ''https://github.com/corsolv/engine.git'' ''git@github.com:corsolv/engine'' \<and>
   SameRemote ''git@github.com:corsolv/engine'' ''ssh://git@github.com/corsolv/engine/''"
  using remote_spellings_agree [of "''github.com''" "''corsolv''" "''engine''"]
  by (simp add: name_char_def HasSuffix_def)

end
