(* ===== verification/Go_Path.thy ===== *)
theory Go_Path
  imports Go_Prelude
begin

text \<open>
  The part of Go's \<^verbatim>\<open>path/filepath\<close> the control layer uses, for the Unix separator: \<^verbatim>\<open>Clean\<close>,
  \<^verbatim>\<open>Join\<close>, \<^verbatim>\<open>Dir\<close> and \<^verbatim>\<open>IsAbs\<close>. A path is cleaned segment by segment, on a stack: empty segments and dots
  are dropped, and a double dot takes the segment before it away, is dropped at the root, and stays where
  there is nothing to take.
\<close>

definition slash :: char where
  "slash = CHR ''/''"

definition IsAbs :: "string \<Rightarrow> bool" where
  "IsAbs p = HasPrefix p ''/''"

fun clean_segs :: "bool \<Rightarrow> string list \<Rightarrow> string list \<Rightarrow> string list" where
  "clean_segs rooted st [] = rev st"
| "clean_segs rooted st (s # ss) =
     (if s = [] \<or> s = ''.'' then clean_segs rooted st ss
      else if s = ''..'' then
        (case st of
           t # ts \<Rightarrow> if t \<noteq> ''..'' then clean_segs rooted ts ss else clean_segs rooted (''..'' # st) ss
         | [] \<Rightarrow> if rooted then clean_segs rooted [] ss else clean_segs rooted [''..''] ss)
      else clean_segs rooted (s # st) ss)"

definition path_segs :: "string \<Rightarrow> string list" where
  "path_segs p = clean_segs (IsAbs p) [] (Split slash p)"

definition path_of :: "bool \<Rightarrow> string list \<Rightarrow> string" where
  "path_of rooted segs =
     (if rooted then ''/'' @ Join segs ''/'' else if segs = [] then ''.'' else Join segs ''/'')"

definition filepath_Clean :: "string \<Rightarrow> string" where
  "filepath_Clean p = path_of (IsAbs p) (path_segs p)"

definition filepath_Join :: "string \<Rightarrow> string \<Rightarrow> string" where
  "filepath_Join a b =
     (if a \<noteq> [] then filepath_Clean (a @ ''/'' @ b) else if b \<noteq> [] then filepath_Clean b else [])"

definition filepath_Dir :: "string \<Rightarrow> string" where
  "filepath_Dir p = filepath_Clean (case split_last slash p of None \<Rightarrow> [] | Some (d, b) \<Rightarrow> d @ ''/'')"

section \<open>Lemmas\<close>

definition proper_seg :: "string \<Rightarrow> bool" where
  "proper_seg s = (s \<noteq> [] \<and> s \<noteq> ''.'' \<and> s \<noteq> ''..'' \<and> slash \<notin> set s)"

text \<open>A stack of a cleaned path: proper segments over double dots, which a rooted path has none of.\<close>

fun seg_stack :: "bool \<Rightarrow> string list \<Rightarrow> bool" where
  "seg_stack rooted [] = True"
| "seg_stack rooted (s # ss) =
     (if s = ''..'' then \<not> rooted \<and> list_all (\<lambda>t. t = ''..'') ss else proper_seg s \<and> seg_stack rooted ss)"

lemma Split_noslash: "s \<in> set (Split d p) \<Longrightarrow> d \<notin> set s"
  by (induction p arbitrary: s) (auto split: list.splits if_splits)

lemma Split_sep: "Split d (a @ d # b) = Split d a @ Split d b"
  by (induction a) (auto split: list.split)

lemma Split_no_sep: "d \<notin> set a \<Longrightarrow> Split d a = [a]"
  by (induction a) auto

lemma Split_Join: "segs \<noteq> [] \<Longrightarrow> \<forall>s\<in>set segs. d \<notin> set s \<Longrightarrow> Split d (Join segs [d]) = segs"
  by (induction segs "[d]" rule: Join.induct) (auto simp: Split_sep Split_no_sep)

lemma clean_segs_shape:
  "seg_stack rooted st \<Longrightarrow> (\<forall>s\<in>set ss. slash \<notin> set s) \<Longrightarrow> seg_stack rooted (rev (clean_segs rooted st ss))"
proof (induction rooted st ss rule: clean_segs.induct)
  case (2 rooted st s ss)
  show ?case
  proof (cases "s = ''..''")
    case True
    with 2 show ?thesis by (cases st) (auto split: if_splits)
  next
    case False
    with 2 show ?thesis by (auto simp: proper_seg_def)
  qed
qed simp

lemma clean_segs_append: "clean_segs rooted st (xs @ ys) = clean_segs rooted (rev (clean_segs rooted st xs)) ys"
proof (induction rooted st xs rule: clean_segs.induct)
  case (2 rooted st s ss)
  then show ?case by (cases st) auto
qed simp

lemma clean_segs_proper: "list_all proper_seg xs \<Longrightarrow> clean_segs rooted st xs = rev st @ xs"
  by (induction xs arbitrary: st) (auto simp: proper_seg_def)

lemma path_segs_shape: "seg_stack (IsAbs p) (rev (path_segs p))"
  using clean_segs_shape [of "IsAbs p" "[]"] Split_noslash by (auto simp: path_segs_def)

lemma seg_stack_up: "seg_stack rooted st \<Longrightarrow> st \<noteq> [] \<Longrightarrow> last st \<noteq> ''..'' \<Longrightarrow> list_all proper_seg st"
  by (induction st) (auto simp: list_all_iff split: if_splits)

text \<open>A path that does not climb out has only proper segments.\<close>

lemma proper_segs:
  assumes "path_segs p \<noteq> []" "hd (path_segs p) \<noteq> ''..''"
  shows "list_all proper_seg (path_segs p)"
  using seg_stack_up [OF path_segs_shape, of p] assms by (simp add: last_rev)

text \<open>Joining a relative path that does not climb out onto a root stays under the root.\<close>

lemma Join_under_root:
  assumes root: "root \<noteq> []" and rel: "\<not> IsAbs rel" and segs: "path_segs rel = [] \<or> hd (path_segs rel) \<noteq> ''..''"
  shows "path_segs (root @ ''/'' @ filepath_Clean rel) = path_segs root @ path_segs rel"
proof (cases "path_segs rel = []")
  case True
  then have "filepath_Clean rel = ''.''"
    using rel by (simp add: filepath_Clean_def path_of_def)
  moreover have "Split slash (root @ slash # ''.'') = Split slash root @ [''.'']"
    by (simp add: Split_sep) (simp add: slash_def)
  ultimately show ?thesis
    using root True
    by (cases root) (simp_all add: path_segs_def IsAbs_def HasPrefix_def slash_def clean_segs_append)
next
  case False
  then have p: "list_all proper_seg (path_segs rel)"
    using segs by (intro proper_segs) auto
  have c: "filepath_Clean rel = Join (path_segs rel) [slash]"
    using rel False by (simp add: filepath_Clean_def path_of_def slash_def)
  have "Split slash (root @ slash # filepath_Clean rel) = Split slash root @ path_segs rel"
    using p False by (simp add: Split_sep c Split_Join list_all_iff proper_seg_def)
  then show ?thesis
    using root p
    by (cases root) (simp_all add: path_segs_def IsAbs_def HasPrefix_def slash_def clean_segs_append clean_segs_proper)
qed

lemma climbs_out:
  assumes "\<not> IsAbs rel" "path_segs rel \<noteq> []" "hd (path_segs rel) = ''..''"
  shows "filepath_Clean rel = ''..'' \<or> HasPrefix (filepath_Clean rel) ''../''"
proof -
  obtain ss where "path_segs rel = ''..'' # ss"
    using assms(2,3) by (cases "path_segs rel") auto
  then show ?thesis
    using assms(1) by (cases ss) (auto simp: filepath_Clean_def path_of_def HasPrefix_def)
qed

text \<open>Cleaning a path twice is cleaning it once.\<close>

lemma clean_segs_push: "seg_stack rooted (s # st) \<Longrightarrow> clean_segs rooted st [s] = rev st @ [s]"
  by (cases st) (auto simp: proper_seg_def split: if_splits)

lemma seg_stack_tail: "seg_stack rooted (s # st) \<Longrightarrow> seg_stack rooted st"
  by (cases st) (auto simp: list_all_iff split: if_splits)

lemma clean_segs_fixed: "seg_stack rooted (rev segs) \<Longrightarrow> clean_segs rooted [] segs = segs"
proof (induction segs rule: rev_induct)
  case (snoc s ss)
  then have "clean_segs rooted [] ss = ss"
    using seg_stack_tail [of rooted s "rev ss"] by (simp del: seg_stack.simps)
  then have "clean_segs rooted [] (ss @ [s]) = clean_segs rooted (rev ss) [s]"
    by (simp only: clean_segs_append)
  also have "\<dots> = ss @ [s]"
    using clean_segs_push [of rooted s "rev ss"] snoc.prems by simp
  finally show ?case .
qed simp

lemma seg_stack_noslash: "seg_stack rooted st \<Longrightarrow> s \<in> set st \<Longrightarrow> slash \<notin> set s \<and> s \<noteq> []"
proof (induction st)
  case (Cons t ts)
  show ?case
  proof (cases "t = ''..''")
    case True
    with Cons.prems(1) have "list_all (\<lambda>x. x = ''..'') (t # ts)"
      by simp
    with Cons.prems(2) have "s = ''..''"
      unfolding list_all_iff by blast
    then show ?thesis
      by (simp add: slash_def)
  next
    case False
    with Cons.prems(1) have "proper_seg t" "seg_stack rooted ts"
      by simp_all
    with Cons.IH Cons.prems(2) show ?thesis
      by (auto simp: proper_seg_def)
  qed
qed simp

lemma path_segs_Clean: "path_segs (filepath_Clean p) = path_segs p"
proof -
  define segs where "segs = path_segs p"
  have shape: "seg_stack (IsAbs p) (rev segs)"
    by (simp add: segs_def path_segs_shape)
  then have ns: "\<forall>s\<in>set segs. slash \<notin> set s \<and> s \<noteq> []"
    using seg_stack_noslash by fastforce
  have fixed: "clean_segs (IsAbs p) [] segs = segs"
    by (rule clean_segs_fixed [OF shape])
  have join: "segs \<noteq> [] \<Longrightarrow> Split slash (Join segs [slash]) = segs"
    using ns by (intro Split_Join) auto
  show ?thesis
  proof (cases "IsAbs p")
    case True
    then have "filepath_Clean p = slash # Join segs [slash]"
      by (simp add: filepath_Clean_def path_of_def segs_def slash_def)
    moreover have "path_segs (slash # Join segs [slash]) = clean_segs True [] ([] # Split slash (Join segs [slash]))"
      by (simp add: path_segs_def IsAbs_def HasPrefix_def slash_def)
    moreover have "clean_segs True [] ([] # Split slash (Join segs [slash])) = segs"
      using fixed join True by (cases "segs = []") simp_all
    ultimately show ?thesis
      by (simp add: segs_def)
  next
    case False
    show ?thesis
    proof (cases segs)
      case Nil
      with False have "filepath_Clean p = ''.''"
        by (simp add: filepath_Clean_def path_of_def flip: segs_def)
      then show ?thesis
        using Nil by (simp add: path_segs_def [of "''.''"] slash_def flip: segs_def)
    next
      case (Cons s ss)
      with False have c: "filepath_Clean p = Join segs [slash]"
        by (simp add: filepath_Clean_def path_of_def slash_def flip: segs_def)
      have "\<not> IsAbs (Join segs [slash])"
        using ns Cons by (cases ss; cases s) (auto simp: IsAbs_def HasPrefix_def slash_def)
      then have "path_segs (Join segs [slash]) = clean_segs False [] (Split slash (Join segs [slash]))"
        by (simp add: path_segs_def)
      also have "\<dots> = segs"
        using join fixed False Cons by (metis list.distinct(1))
      finally show ?thesis
        by (simp only: c segs_def)
    qed
  qed
qed

end
