(* ===== verification/Preflight.thy ===== *)
theory Preflight
  imports Run_Spec Redact Go_Path
begin

text \<open>
  The readiness questions of a run and their single verdict: the probes (\<^verbatim>\<open>internal/unattended/probes.go\<close>),
  the forge (\<^verbatim>\<open>github.go\<close>), the worktree's registration (\<^verbatim>\<open>worktree.go\<close>) and \<^verbatim>\<open>Preflight\<close>
  (\<^verbatim>\<open>preflight.go\<close>).

  Everything a probe asks of the machine is a field of \<open>world\<close>: what a command printed and how it ended,
  what a path is, what an environment variable holds, what \<^verbatim>\<open>git\<close> and the lock say. Decoding the forge's
  JSON, compiling a pattern, and the text Go gives a quoted string, a time or an owner are fields as well.
  The checks, with their identifiers, texts and outcomes, are the code's.
\<close>

section \<open>The world a preflight asks\<close>

datatype exec_result =
    ExecExited string bool
  | ExecTimedOut string string
  | ExecError string string

record world =
  w_lookPath :: "string \<Rightarrow> string option"
  w_exec :: "int \<Rightarrow> string \<Rightarrow> string list \<Rightarrow> exec_result"
  w_mkdirAll :: "string \<Rightarrow> string option"
  w_stat :: "string \<Rightarrow> (bool \<times> int) option"
  w_statErr :: "string \<Rightarrow> string option"
  w_writable :: "string \<Rightarrow> bool \<Rightarrow> string option"
  w_lookupEnv :: "string \<Rightarrow> string option"
  w_dial :: "string \<Rightarrow> int \<Rightarrow> string option"
  w_now :: int
  w_rfc3339 :: "int \<Rightarrow> string"
  w_quote :: "string \<Rightarrow> string"
  w_compile :: compiler
  w_canon :: "string \<Rightarrow> string"
  w_within :: "string \<Rightarrow> string \<Rightarrow> bool"
  w_probeRepo :: "string \<Rightarrow> RepoState \<times> string option"
  w_probeOwner :: "string \<Rightarrow> string + (Owner option \<times> bool)"
  w_describeOwner :: "Owner \<Rightarrow> string"
  w_dotGit :: "string \<Rightarrow> string + string option"
  w_readFile :: "string \<Rightarrow> string option"
  w_viewJSON :: "string \<Rightarrow> (string \<times> string) option"
  w_protectionJSON :: "string \<Rightarrow> int option option"

definition defaultProbeTimeout :: int where
  "defaultProbeTimeout = 20"

definition timeoutOr :: "int \<Rightarrow> int \<Rightarrow> int" where
  "timeoutOr secs fallback = (if secs > 0 then secs else fallback)"

text \<open>The combined output, whether the command exited zero, and the error of a probe that could not run.\<close>

definition runProbe :: "world \<Rightarrow> int \<Rightarrow> string \<Rightarrow> string list \<Rightarrow> string \<times> bool \<times> string option" where
  "runProbe w timeout dir argv =
     (if argv = [] then ([], False, Some ''probe has no command'')
      else case w_exec w timeout dir argv of
        ExecTimedOut raw e \<Rightarrow> (TrimSpace raw, False, Some e)
      | ExecExited raw ok \<Rightarrow> (TrimSpace raw, ok, None)
      | ExecError raw e \<Rightarrow> (TrimSpace raw, False, Some e))"

definition purpose_notes :: "string \<Rightarrow> string" where
  "purpose_notes purpose = (if purpose = [] then [] else '' '' @ em_dash @ '' '' @ purpose)"

text \<open>The backquote the messages set a command in.\<close>

definition quoted_command :: "string \<Rightarrow> string" where
  "quoted_command s = [CHR 0x60] @ s @ [CHR 0x60]"

definition boundary_check :: "string \<Rightarrow> Category \<Rightarrow> string \<Rightarrow> string \<Rightarrow> string \<Rightarrow> string \<Rightarrow> Check" where
  "boundary_check i c title expected observed action =
     \<lparr>c_id = i, c_category = c, c_title = title, c_outcome = OutcomeHumanBoundary, c_expected = expected,
      c_observed = observed, c_detail = [], c_remedy = [], c_boundary = action\<rparr>"

section \<open>Probes\<close>

definition version_error_text :: "world \<Rightarrow> version_error \<Rightarrow> string" where
  "version_error_text w e = (case e of
     NoVersionFound s \<Rightarrow> ''no version number found in '' @ w_quote w s
   | RequiredNotAVersion s \<Rightarrow> ''required version '' @ w_quote w s @ '' is not a version number'')"

definition tool_check :: "world \<Rightarrow> ToolRequirement \<Rightarrow> Check" where
  "tool_check w tool =
     (let i = ''tool.'' @ tl_name tool; title = ''tool available: '' @ tl_name tool;
          wanted = tl_name tool @ '' >= '' @ tl_minVersion tool in
      case w_lookPath w (tl_name tool) of
        None \<Rightarrow>
          if tl_humanAction tool \<noteq> []
          then boundary_check i CategoryTools title (tl_name tool @ '' on PATH'') ''not found'' (tl_humanAction tool)
          else fail_check i CategoryTools title (tl_name tool @ '' on PATH'') ''not found''
            (''install '' @ tl_name tool @ purpose_notes (tl_purpose tool))
      | Some path \<Rightarrow>
          if tl_minVersion tool = [] then pass_check i CategoryTools title path
          else
            let args = (if tl_versionArgs tool = [] then [''--version''] else tl_versionArgs tool) in
            case runProbe w defaultProbeTimeout [] (tl_name tool # args) of
              (out, _, Some e) \<Rightarrow>
                fail_check i CategoryTools title wanted (''version could not be read: '' @ e)
                  (''check that '' @ quoted_command (tl_name tool @ '' '' @ Join args '' '') @ '' runs'')
            | (out, _, None) \<Rightarrow>
                (case VersionAtLeast out (tl_minVersion tool) of
                   Inl e \<Rightarrow> fail_check i CategoryTools title wanted (''unreadable version: '' @ version_error_text w e)
                     ''correct tool.versionArgs so the banner contains a version number''
                 | Inr False \<Rightarrow> fail_check i CategoryTools title wanted (firstLine out)
                     (''upgrade '' @ tl_name tool @ '' to at least '' @ tl_minVersion tool @ purpose_notes (tl_purpose tool))
                 | Inr True \<Rightarrow> pass_check i CategoryTools title (path @ '' ('' @ firstLine out @ '')'')))"

definition ToolChecks :: "world \<Rightarrow> ToolRequirement list \<Rightarrow> Check list" where
  "ToolChecks w tools = map (tool_check w) tools"

definition path_check :: "world \<Rightarrow> PathRequirement \<Rightarrow> Check" where
  "path_check w p =
     (let i = ''path.'' @ pt_path p; title = ''path present: '' @ pt_path p;
          failed = fail_check i CategoryEnvironment title in
      case (if pt_create p then w_mkdirAll w (pt_path p) else None) of
        Some e \<Rightarrow> failed ''a directory this run may create'' e
          (''give the run permission to create '' @ pt_path p @ purpose_notes (pt_purpose p))
      | None \<Rightarrow>
         (case w_stat w (pt_path p) of
            None \<Rightarrow> failed (pt_path p) ''absent''
              (''create it, or correct the path in the run spec'' @ purpose_notes (pt_purpose p))
          | Some (isDir, _) \<Rightarrow>
              if pt_kind p = PathDir \<and> \<not> isDir
              then failed ''a directory'' ''a file'' ''correct path.kind or the path itself''
              else if pt_kind p = PathFile \<and> isDir
              then failed ''a file'' ''a directory'' ''correct path.kind or the path itself''
              else case (if pt_writable p then w_writable w (pt_path p) isDir else None) of
                     Some e \<Rightarrow> failed ''writable'' e (''grant write permission on '' @ pt_path p @ purpose_notes (pt_purpose p))
                   | None \<Rightarrow> pass_check i CategoryEnvironment title (pt_path p)))"

definition PathChecks :: "world \<Rightarrow> PathRequirement list \<Rightarrow> Check list" where
  "PathChecks w paths = map (path_check w) paths"

definition env_check :: "world \<Rightarrow> EnvRequirement \<Rightarrow> Check" where
  "env_check w e =
     (let i = ''env.'' @ ev_name e; title = ''environment value set: '' @ ev_name e in
      case w_lookupEnv w (ev_name e) of
        None \<Rightarrow> fail_check i CategoryEnvironment title ''set'' ''unset'' (''export '' @ ev_name e @ purpose_notes (ev_purpose e))
      | Some v \<Rightarrow>
          if blank v then fail_check i CategoryEnvironment title ''a non-empty value'' ''set but empty''
            (''set '' @ ev_name e @ '' to a real value'' @ purpose_notes (ev_purpose e))
          else pass_check i CategoryEnvironment title ''set (value withheld)'')"

definition EnvChecks :: "world \<Rightarrow> EnvRequirement list \<Rightarrow> Check list" where
  "EnvChecks w env = map (env_check w) env"

definition port_check :: "world \<Rightarrow> PortRequirement \<Rightarrow> Check" where
  "port_check w p =
     (let i = ''port.'' @ po_address p; title = ''service reachable: '' @ po_address p in
      case w_dial w (po_address p) (timeoutOr (po_timeoutSeconds p) 5) of
        Some e \<Rightarrow> fail_check i CategoryEnvironment title (po_address p @ '' accepting connections'')
          (''unreachable: '' @ e) (''start the service'' @ purpose_notes (po_purpose p))
      | None \<Rightarrow> pass_check i CategoryEnvironment title (po_address p))"

definition PortChecks :: "world \<Rightarrow> PortRequirement list \<Rightarrow> Check list" where
  "PortChecks w ports = map (port_check w) ports"

definition command_check :: "world \<Rightarrow> CommandRequirement \<Rightarrow> Check" where
  "command_check w c =
     (let i = ''command.'' @ cm_id c;
          title = (if cm_title c = [] then ''dependency responds: '' @ Join (cm_argv c) '' '' else cm_title c);
          remedy = (if cm_remedy c = [] then ''check '' @ quoted_command (Join (cm_argv c) '' '') else cm_remedy c) in
      case runProbe w (timeoutOr (cm_timeoutSeconds c) defaultProbeTimeout) (cm_dir c) (cm_argv c) of
        (out, _, Some e) \<Rightarrow> fail_check i CategoryDependencies title ''the probe runs'' e remedy
      | (out, ok, None) \<Rightarrow>
          if \<not> ok then fail_check i CategoryDependencies title ''exit status 0'' (firstLine out) remedy
          else if cm_expectOutput c \<noteq> [] \<and> \<not> Contains out (cm_expectOutput c)
          then fail_check i CategoryDependencies title (''output containing '' @ cm_expectOutput c) (firstLine out) remedy
          else pass_check i CategoryDependencies title (firstLine out))"

definition CommandChecks :: "world \<Rightarrow> CommandRequirement list \<Rightarrow> Check list" where
  "CommandChecks w cmds = map (command_check w) cmds"

datatype CredentialState = CredentialReady | CredentialMissing | CredentialExpired | CredentialHumanAuthRequired

fun CredentialState_text :: "CredentialState \<Rightarrow> string" where
  "CredentialState_text CredentialReady = ''ready''"
| "CredentialState_text CredentialMissing = ''missing''"
| "CredentialState_text CredentialExpired = ''expired''"
| "CredentialState_text CredentialHumanAuthRequired = ''human-auth-required''"

definition ClassifyCredential :: "world \<Rightarrow> CredentialRequirement \<Rightarrow> CredentialState \<times> string" where
  "ClassifyCredential w c =
     (if (case cd_notAfter c of Some t \<Rightarrow> w_now w > t | None \<Rightarrow> False)
      then (CredentialExpired, ''declared expiry '' @ w_rfc3339 w (the (cd_notAfter c)) @ '' has passed'')
      else if cd_env c \<noteq> [] \<and> (case w_lookupEnv w (cd_env c) of None \<Rightarrow> True | Some v \<Rightarrow> blank v)
      then (CredentialMissing, ''environment value '' @ cd_env c @ '' is unset or empty'')
      else if cd_file c \<noteq> [] \<and> w_stat w (cd_file c) = None
      then (CredentialMissing, ''credential file '' @ cd_file c @ '' is absent'')
      else if cd_file c \<noteq> [] \<and> (case w_stat w (cd_file c) of Some (_, sz) \<Rightarrow> sz = 0 | None \<Rightarrow> False)
      then (CredentialMissing, ''credential file '' @ cd_file c @ '' is empty'')
      else if cd_probe c = [] then (CredentialReady, ''declared material is present'')
      else case runProbe w (timeoutOr (cd_timeoutSeconds c) defaultProbeTimeout) [] (cd_probe c) of
        (out, _, Some e) \<Rightarrow> (CredentialHumanAuthRequired, ''the probe could not run: '' @ Redact e)
      | (out, True, None) \<Rightarrow> (CredentialReady, ''the probe accepted the credential'')
      | (out, False, None) \<Rightarrow>
          if cd_expiredPattern c \<noteq> [] \<and>
             (case w_compile w (cd_expiredPattern c) of Some matches \<Rightarrow> matches out | None \<Rightarrow> False)
          then (CredentialExpired, ''the probe reported expiry: '' @ Redact (firstLine out))
          else (CredentialHumanAuthRequired, ''the probe refused: '' @ Redact (firstLine out)))"

definition credential_check :: "world \<Rightarrow> CredentialRequirement \<Rightarrow> Check" where
  "credential_check w c =
     (let i = ''credential.'' @ cd_id c;
          title = (if cd_title c = [] then ''credential ready: '' @ cd_id c else cd_title c);
          (state, why) = ClassifyCredential w c;
          observed = CredentialState_text state @ '': '' @ why in
      if state = CredentialReady
      then pass_check i CategoryCredentials title (CredentialState_text CredentialReady)
      else if cd_humanAction c = []
      then fail_check i CategoryCredentials title (CredentialState_text CredentialReady) observed
        ''declare credential.humanAction so this state can be reported as a boundary a person can clear''
      else boundary_check i CategoryCredentials title (CredentialState_text CredentialReady) observed (cd_humanAction c))"

definition CredentialChecks :: "world \<Rightarrow> CredentialRequirement list \<Rightarrow> Check list" where
  "CredentialChecks w creds = map (credential_check w) creds"

section \<open>The forge\<close>

record GitHubProbe =
  gp_authenticated :: bool
  gp_account :: string
  gp_repoReadable :: bool
  gp_viewerPermission :: string
  gp_defaultBranch :: string
  gp_protectionReadable :: bool
  gp_protectionPresent :: bool
  gp_requiredApprovals :: int
  gp_requiresReview :: bool
  gp_notes :: "string list"

definition no_probe :: GitHubProbe where
  "no_probe =
     \<lparr>gp_authenticated = False, gp_account = [], gp_repoReadable = False, gp_viewerPermission = [],
      gp_defaultBranch = [], gp_protectionReadable = False, gp_protectionPresent = False,
      gp_requiredApprovals = 0, gp_requiresReview = False, gp_notes = []\<rparr>"

definition writeCapablePermissions :: "string set" where
  "writeCapablePermissions = {''ADMIN'', ''MAINTAIN'', ''WRITE''}"

definition mergeCapablePermissions :: "string set" where
  "mergeCapablePermissions = {''ADMIN'', ''MAINTAIN'', ''WRITE''}"

definition forge_command :: "GitHubRequirement \<Rightarrow> string" where
  "forge_command r = (if \<not> blank (gh_command r) then gh_command r else ''gh'')"

definition add_note :: "string \<Rightarrow> GitHubProbe \<Rightarrow> GitHubProbe" where
  "add_note n p = p\<lparr>gp_notes := gp_notes p @ [n]\<rparr>"

definition probe_protection :: "world \<Rightarrow> GitHubRequirement \<Rightarrow> GitHubProbe \<Rightarrow> GitHubProbe" where
  "probe_protection w req p =
     (let base = (if gh_branch req = [] then gp_defaultBranch p else gh_branch req) in
      if base = [] then p
      else case runProbe w defaultProbeTimeout []
             [forge_command req, ''api'', ''repos/'' @ gh_repo req @ ''/branches/'' @ base @ ''/protection''] of
        (out, _, Some e) \<Rightarrow> add_note (''branch protection probe failed: '' @ Redact e) p
      | (out, True, None) \<Rightarrow>
          let p1 = p\<lparr>gp_protectionReadable := True, gp_protectionPresent := True\<rparr> in
          (case w_protectionJSON w out of
             Some (Some n) \<Rightarrow> p1\<lparr>gp_requiredApprovals := n, gp_requiresReview := n > 0\<rparr>
           | _ \<Rightarrow> p1)
      | (out, False, None) \<Rightarrow>
          if Contains out ''Branch not protected'' \<or> Contains out ''Not Found''
          then p\<lparr>gp_protectionReadable := True\<rparr>
          else add_note (''branch protection unreadable: '' @ Redact (firstLine out)) p)"

definition probe_view :: "world \<Rightarrow> GitHubRequirement \<Rightarrow> GitHubProbe \<Rightarrow> GitHubProbe" where
  "probe_view w req p =
     (if gh_repo req = [] then p
      else case runProbe w defaultProbeTimeout []
             [forge_command req, ''repo'', ''view'', gh_repo req, ''--json'', ''viewerPermission,defaultBranchRef''] of
        (out, _, Some e) \<Rightarrow> add_note (''repo view probe failed: '' @ Redact e) p
      | (out, False, None) \<Rightarrow> add_note (''repo view refused: '' @ Redact (firstLine out)) p
      | (out, True, None) \<Rightarrow>
          (case w_viewJSON w out of
             None \<Rightarrow> add_note ''repo view returned unparseable JSON'' p
           | Some (permission, branch) \<Rightarrow>
               probe_protection w req
                 (p\<lparr>gp_repoReadable := True, gp_viewerPermission := ToUpper permission, gp_defaultBranch := branch\<rparr>)))"

definition ProbeGitHub :: "world \<Rightarrow> GitHubRequirement \<Rightarrow> GitHubProbe" where
  "ProbeGitHub w req =
     (case runProbe w defaultProbeTimeout [] [forge_command req, ''auth'', ''status''] of
        (out, _, Some e) \<Rightarrow> add_note (''auth status probe failed: '' @ Redact e) no_probe
      | (out, False, None) \<Rightarrow> add_note (''not authenticated: '' @ Redact (firstLine out)) no_probe
      | (out, True, None) \<Rightarrow>
          probe_view w req
            (no_probe\<lparr>gp_authenticated := True,
               gp_account := (case runProbe w defaultProbeTimeout []
                   [forge_command req, ''api'', ''user'', ''--jq'', ''.login''] of
                 (login, True, None) \<Rightarrow> firstLine login | _ \<Rightarrow> [])\<rparr>))"

definition ghNotReached :: "string \<Rightarrow> Check list" where
  "ghNotReached why =
     [notReached_check ''github.repo'' CategoryGitHub ''repository is readable'' why,
      notReached_check ''github.push'' CategoryGitHub ''push authority on the working branch'' why,
      notReached_check ''github.pr'' CategoryGitHub ''pull requests may be opened'' why,
      notReached_check ''github.checks'' CategoryGitHub ''CI results are readable'' why,
      notReached_check ''github.merge'' CategoryGitHub ''pull requests may be merged'' why]"

definition capabilityCheck :: "string \<Rightarrow> string \<Rightarrow> bool \<Rightarrow> bool \<Rightarrow> string \<Rightarrow> string \<Rightarrow> Check" where
  "capabilityCheck i title needed held permission humanAction =
     (if \<not> needed then pass_check i CategoryGitHub title ''not required by this run''
      else if held then pass_check i CategoryGitHub title permission
      else boundary_check i CategoryGitHub title ''write-capable permission''
        (''permission '' @ orNone permission) humanAction)"

definition notesSuffix :: "string list \<Rightarrow> string" where
  "notesSuffix ns = (if ns = [] then [] else '' ('' @ Join ns ''; '' @ '')'')"

definition mergeCheck :: "GitHubRequirement \<Rightarrow> GitHubProbe \<Rightarrow> Check" where
  "mergeCheck req p =
     (let i = ''github.merge''; title = ''pull requests may be merged'';
          humanAction = (if gh_mergeHumanAction req = []
            then ''a person with merge rights on '' @ gh_repo req @ '' merges the pull request this run opens''
            else gh_mergeHumanAction req) in
      if \<not> gh_needMerge req then
        boundary_check i CategoryGitHub title ''a merge this run performs'' ''this run does not claim merge authority'' humanAction
      else if gp_viewerPermission p \<notin> mergeCapablePermissions then
        boundary_check i CategoryGitHub title ''merge-capable permission'' (''permission '' @ orNone (gp_viewerPermission p)) humanAction
      else if \<not> gp_protectionReadable p then
        fail_check i CategoryGitHub title ''branch protection readable'' (''unreadable'' @ notesSuffix (gp_notes p))
          ''grant this account permission to read branch protection, or set needMerge=false and plan for a human merge''
      else if gp_requiresReview p then
        boundary_check i CategoryGitHub title ''no blocking review requirement''
          (''branch protection requires '' @ Itoa (gp_requiredApprovals p) @ '' approving review(s)'')
          ''a human reviewer approves the pull request before it can merge''
      else pass_check i CategoryGitHub title
        (if gp_protectionPresent p
         then gp_viewerPermission p @ '', branch protection present but requires no approving review''
         else gp_viewerPermission p @ '', no branch protection''))"

definition GitHubChecks :: "GitHubRequirement \<Rightarrow> GitHubProbe \<Rightarrow> Check list" where
  "GitHubChecks req p =
     (if \<not> gp_authenticated p then
        boundary_check ''github.auth'' CategoryGitHub ''the forge CLI is authenticated'' ''authenticated'' ''not authenticated''
          (''run '' @ quoted_command (forge_command req @ '' auth login'') @ '' '' @ em_dash @
           '' an interactive login cannot be performed by the run'')
        # ghNotReached ''the forge CLI is not authenticated, so this could not be asked''
      else
        let canWrite = gp_viewerPermission p \<in> writeCapablePermissions in
        [pass_check ''github.auth'' CategoryGitHub ''the forge CLI is authenticated'' (''as '' @ orNone (gp_account p))]
        @ (if gh_account req = [] then []
           else if EqualFold (gh_account req) (gp_account p)
           then [pass_check ''github.account'' CategoryGitHub ''authenticated as the declared account'' (gp_account p)]
           else [fail_check ''github.account'' CategoryGitHub ''authenticated as the declared account''
                   (gh_account req) (orNone (gp_account p))
                   (''switch accounts with '' @ quoted_command (forge_command req @ '' auth switch'') @
                    '' before starting a run that pushes'')])
        @ (if \<not> gp_repoReadable p then
             fail_check ''github.repo'' CategoryGitHub ''repository is readable'' (gh_repo req)
               (''not readable'' @ notesSuffix (gp_notes p))
               ''check the repository name, and that this account has access to it''
             # ghNotReached ''the repository could not be read, so this could not be asked''
           else
             [pass_check ''github.repo'' CategoryGitHub ''repository is readable''
                (gh_repo req @ '' ('' @ gp_viewerPermission p @ '')''),
              capabilityCheck ''github.push'' ''push authority on the working branch'' (gh_needPush req) canWrite
                (gp_viewerPermission p) (''ask an administrator of '' @ gh_repo req @ '' for write access''),
              capabilityCheck ''github.pr'' ''pull requests may be opened'' (gh_needPR req) canWrite
                (gp_viewerPermission p) (''use a fork-and-pull workflow, or obtain write access to '' @ gh_repo req),
              capabilityCheck ''github.checks'' ''CI results are readable'' (gh_needChecks req) True
                (gp_viewerPermission p) (''obtain read access to Actions on '' @ gh_repo req),
              mergeCheck req p]))"

section \<open>The worktree's registration\<close>

definition IsAbsoluteAnyOS :: "string \<Rightarrow> bool" where
  "IsAbsoluteAnyOS path =
     (let p = TrimSpace path in
      if p = [] then False
      else if HasPrefix p ''/'' \<or> HasPrefix p [CHR 0x5C] then True
      else length p \<ge> 2 \<and> p ! 1 = CHR '':'' \<and>
        (let n = of_char (p ! 0) :: nat in 97 \<le> n \<and> n \<le> 122 \<or> 65 \<le> n \<and> n \<le> 90))"

record WorktreePointers =
  wp_dotGit :: string
  wp_gitDirBack :: string

text \<open>\<open>w_dotGit\<close> answers for the path of the \<^verbatim>\<open>.git\<close> entry: an error, a directory, or the text of a file.\<close>

definition ReadWorktreePointers :: "world \<Rightarrow> string \<Rightarrow> string + WorktreePointers" where
  "ReadWorktreePointers w worktree =
     (let none = \<lparr>wp_dotGit = [], wp_gitDirBack = []\<rparr> in
      case w_dotGit w (filepath_Join worktree ''.git'') of
        Inl e \<Rightarrow> Inl e
      | Inr None \<Rightarrow> Inr none
      | Inr (Some raw) \<Rightarrow>
          if \<not> HasPrefix (TrimSpace raw) ''gitdir:'' then Inr none
          else
            let dot = TrimSpace (TrimPrefix (TrimSpace raw) ''gitdir:'');
                adminDir = (if IsAbsoluteAnyOS dot then dot else filepath_Join worktree dot)
            in (case w_readFile w (filepath_Join adminDir ''gitdir'') of
                  None \<Rightarrow> Inr (none\<lparr>wp_dotGit := dot\<rparr>)
                | Some back \<Rightarrow> Inr \<lparr>wp_dotGit = dot, wp_gitDirBack = TrimSpace back\<rparr>))"

definition right_arrow :: string where
  "right_arrow = [CHR 0xE2, CHR 0x86, CHR 0x92]"

definition ellipsis :: string where
  "ellipsis = [CHR 0xE2, CHR 0x80, CHR 0xA6]"

definition CheckWorktreeCrossOSDurable :: "world \<Rightarrow> string \<Rightarrow> Check" where
  "CheckWorktreeCrossOSDurable w worktree =
     (let i = ''worktree.crossOsDurable'';
          title = ''worktree registration survives a prune from the other OS'' in
      case ReadWorktreePointers w worktree of
        Inl e \<Rightarrow> fail_check i CategoryRepository title ''readable worktree pointers'' e
          ''check the worktree exists and is a git worktree''
      | Inr wp \<Rightarrow>
          if wp_dotGit wp = [] then pass_check i CategoryRepository title
            (''main worktree '' @ em_dash @ '' no cross-repository pointer to break'')
          else
            let offenders =
              problem_if (IsAbsoluteAnyOS (wp_dotGit wp)) (''.git '' @ right_arrow @ '' '' @ wp_dotGit wp) @
              problem_if (wp_gitDirBack wp \<noteq> [] \<and> IsAbsoluteAnyOS (wp_gitDirBack wp))
                (''worktrees/'' @ ellipsis @ ''/gitdir '' @ right_arrow @ '' '' @ wp_gitDirBack wp)
            in if offenders = [] then pass_check i CategoryRepository title ''both pointers are relative''
               else
                 \<lparr>c_id = i, c_category = CategoryRepository, c_title = title, c_outcome = OutcomeFail,
                  c_expected = ''relative pointers, resolvable from Windows and WSL alike'',
                  c_observed = Join offenders ''; '',
                  c_detail = ''an absolute pointer names a path only one OS can resolve; git on the other side treats the worktree as gone, and ''
                    @ quoted_command ''git worktree prune'' @ '' there deletes its registration '' @ em_dash @
                    '' which is what removed the pilot and D8 worktrees mid-program'',
                  c_remedy = ''re-create the worktree with '' @ quoted_command ''git worktree add --relative-paths'' @
                    '', or set worktree.useRelativePaths=true, and place it where both namespaces can reach it (a Windows-hosted path, reached from WSL through /mnt)'',
                  c_boundary = []\<rparr>)"

definition CrossOSWorktreeArgs :: "string \<Rightarrow> string \<Rightarrow> string \<Rightarrow> string list" where
  "CrossOSWorktreeArgs path branch baseRef =
     [''worktree'', ''add'', ''--relative-paths''] @
     (if branch \<noteq> [] then [''-b'', branch] else [''--detach'']) @ [path] @
     (if baseRef \<noteq> [] then [baseRef] else [])"

section \<open>The report\<close>

record Report =
  rep_runID :: string
  rep_projectID :: string
  rep_session :: string
  rep_readiness :: Readiness
  rep_checks :: "Check list"
  rep_repo :: RepoState
  rep_github :: "GitHubProbe option"

definition Report_PermitsUnattendedRun :: "Report \<Rightarrow> bool" where
  "Report_PermitsUnattendedRun r = PermitsUnattendedRun (rep_readiness r)"

definition Report_Check :: "Report \<Rightarrow> string \<Rightarrow> Check option" where
  "Report_Check r i = find (\<lambda>c. c_id c = i) (rep_checks r)"

definition Report_Boundaries :: "Report \<Rightarrow> string \<rightharpoonup> string" where
  "Report_Boundaries r = foldl (\<lambda>m c. m(c_id c \<mapsto> c_boundary c)) Map.empty (Boundaries (rep_checks r))"

definition Report_Blocking :: "Report \<Rightarrow> Check list" where
  "Report_Blocking r = Failures (rep_checks r)"

definition WriterLockDir :: "RepoState \<Rightarrow> string" where
  "WriterLockDir st = filepath_Join (rp_gitDir st) ''gc-unattended''"

definition describeOwner :: "world \<Rightarrow> Owner option \<Rightarrow> string" where
  "describeOwner w ow = (case ow of None \<Rightarrow> ''an unrecorded holder'' | Some x \<Rightarrow> w_describeOwner w x)"

definition competingWriterCheck :: "world \<Rightarrow> RepoState \<Rightarrow> Check" where
  "competingWriterCheck w st =
     (let i = ''concurrency.writer''; title = ''no competing writer on this worktree'' in
      if rp_root st = [] then notReached_check i CategoryConcurrency title
        ''the worktree could not be probed, so its lock could not be read''
      else case w_probeOwner w (WriterLockDir st) of
        Inl e \<Rightarrow> fail_check i CategoryConcurrency title ''a readable lock'' e ''inspect the lock directory by hand''
      | Inr (ow, True) \<Rightarrow>
          (fail_check i CategoryConcurrency title ''no live owner'' (describeOwner w ow)
             ''wait for the other session to finish; do not break a live lock'')
            \<lparr>c_detail := ''the lock is held right now, so another session is genuinely working in this worktree''\<rparr>
      | Inr (Some ow, False) \<Rightarrow>
          (pass_check i CategoryConcurrency title (''no live owner; a stale record from '' @ describeOwner w (Some ow)))
            \<lparr>c_detail := ''the previous owner's record outlived its lock, so it will be archived when this run acquires''\<rparr>
      | Inr (None, False) \<Rightarrow> pass_check i CategoryConcurrency title ''no owner recorded and the lock is free'')"

definition probeStateDir :: "world \<Rightarrow> string \<Rightarrow> string option" where
  "probeStateDir w dir = (case w_mkdirAll w dir of Some e \<Rightarrow> Some e | None \<Rightarrow> w_writable w dir True)"

definition stateChecks :: "world \<Rightarrow> Spec \<Rightarrow> Check list" where
  "stateChecks w s =
     (let i = ''state.dir''; title = ''durable run state has somewhere to go'';
          wt = ow_worktree (sp_ownership s); dir = sp_stateDir s in
      if blank dir then
        [fail_check i CategoryProject title ''stateDir'' ''unset''
           (''set stateDir '' @ em_dash @ '' a run whose journal has nowhere to go cannot be resumed or audited'')]
      else if wt \<noteq> [] \<and> w_within w wt dir then
        [fail_check i CategoryProject title ''a directory outside the mutable worktree'' dir
           (''move stateDir outside '' @ wt @ '' so a checkout cannot disturb the run journal'')]
      else case probeStateDir w dir of
        Some e \<Rightarrow> [fail_check i CategoryProject title ''a writable directory'' e
           (''create '' @ dir @ '' and make it writable'')]
      | None \<Rightarrow>
          [pass_check i CategoryProject title dir,
           (let t = ''run progress is published where the dashboard reads it'' in
            if blank (sp_publishPath s) then
              (pass_check ''state.publish'' CategoryProject t ''this run publishes nothing'')
                \<lparr>c_detail := ''publishPath is unset, so no delivery projection is written; the report says so rather than implying publication happened''\<rparr>
            else pass_check ''state.publish'' CategoryProject t (sp_publishPath s))])"

definition Preflight :: "world \<Rightarrow> Spec \<Rightarrow> Plan option \<Rightarrow> Report" where
  "Preflight w s plan =
     (let (st, ownershipChecks) = AssertOwnership (w_canon w) (w_statErr w) (w_probeRepo w) (sp_ownership s);
          probe = map_option (ProbeGitHub w) (sp_github s);
          checks =
            ownershipChecks @ [competingWriterCheck w st] @
            (if rp_root st \<noteq> [] then [CheckWorktreeCrossOSDurable w (rp_root st)] else []) @
            (case sp_github s of Some req \<Rightarrow> GitHubChecks req (ProbeGitHub w req) | None \<Rightarrow> []) @
            ToolChecks w (sp_tools s) @ PathChecks w (sp_paths s) @ EnvChecks w (sp_env s) @
            PortChecks w (sp_ports s) @ CommandChecks w (sp_commands s) @
            CredentialChecks w (sp_credentials s) @ stateChecks w s @
            DeclaredBoundaryChecks (sp_boundaries s) @
            (case plan of
               None \<Rightarrow>
                 [notReached_check ''plan.work'' CategoryProject ''the run has declared work''
                    ''no work plan was supplied to preflight'',
                  notReached_check ''plan.fallback'' CategoryProject ''useful work exists below the primary band''
                    ''no work plan was supplied to preflight'']
             | Some p \<Rightarrow> PlanChecks p)
      in \<lparr>rep_runID = (case plan of None \<Rightarrow> [] | Some p \<Rightarrow> p_runID p), rep_projectID = sp_projectID s,
          rep_session = ow_session (sp_ownership s), rep_readiness = Checks_Readiness checks,
          rep_checks = checks, rep_repo = st, rep_github = probe\<rparr>)"

section \<open>Lemmas\<close>

lemma check_outcomes [simp]:
  "c_outcome (pass_check i c t ob) = OutcomePass" "c_outcome (fail_check i c t ex ob r) = OutcomeFail"
  "c_outcome (notReached_check i c t why) = OutcomeNotReached"
  "c_outcome (boundary_check i c t ex ob a) = OutcomeHumanBoundary"
  by (simp_all add: pass_check_def fail_check_def notReached_check_def boundary_check_def)

text \<open>A check that does not refuse the run.\<close>

definition clears :: "Check \<Rightarrow> bool" where
  "clears c = (c_outcome c = OutcomePass \<or> c_outcome c = OutcomeHumanBoundary)"

lemma clears_simps [simp]:
  "clears (pass_check i c t ob)" "\<not> clears (fail_check i c t ex ob r)"
  "\<not> clears (notReached_check i c t why)" "clears (boundary_check i c t ex ob a)"
  "clears (c'\<lparr>c_detail := d\<rparr>) = clears c'"
  by (simp_all add: clears_def)

lemma Preflight_permits:
  assumes "Report_PermitsUnattendedRun (Preflight w s plan)" "c \<in> set (rep_checks (Preflight w s plan))"
  shows "clears c"
proof -
  have "rep_readiness (Preflight w s plan) = Checks_Readiness (rep_checks (Preflight w s plan))"
    by (simp add: Preflight_def Let_def split: prod.split)
  then show ?thesis
    using assms
    by (auto simp: Report_PermitsUnattendedRun_def Checks_Readiness_def Outcomes_def PermitsUnattendedRun_iff clears_def)
qed

lemma Preflight_checks:
  assumes "AssertOwnership (w_canon w) (w_statErr w) (w_probeRepo w) (sp_ownership s) = (st, own)"
  shows "set own \<union> {competingWriterCheck w st} \<union> set (EnvChecks w (sp_env s)) \<union>
    set (CredentialChecks w (sp_credentials s)) \<union> set (stateChecks w s) \<union> set (ToolChecks w (sp_tools s)) \<union>
    (case sp_github s of Some req \<Rightarrow> set (GitHubChecks req (ProbeGitHub w req)) | None \<Rightarrow> {})
    \<subseteq> set (rep_checks (Preflight w s plan))" "rep_repo (Preflight w s plan) = st"
  using assms by (auto simp: Preflight_def Let_def split: option.splits)

lemma Preflight_plan_checks: "set (PlanChecks p) \<subseteq> set (rep_checks (Preflight w s (Some p)))"
  by (auto simp: Preflight_def Let_def split: prod.splits)

lemma Assert_clears:
  "(\<forall>c\<in>set (Assert canon o' st err). clears c) \<longleftrightarrow>
     err = None \<and> canon (rp_root st) = canon (ow_worktree o') \<and>
     (ow_expectedOrigin o' = [] \<or> SameRemote (rp_originURL st) (ow_expectedOrigin o')) \<and>
     (ow_expectedBranch o' = [] \<or> \<not> rp_detached st \<and> rp_branch st = ow_expectedBranch o') \<and>
     rp_head st \<noteq> [] \<and> (rp_dirty st = [] \<or> ow_allowDirtyWorktree o') \<and> rp_inProgress st = []"
  by (simp add: Assert_def Let_def repository_check_def origin_check_def branch_check_def head_check_def
      clean_check_def operation_check_def unprobed_checks_def Clean_def split: option.split)

lemma competingWriterCheck_clears:
  "clears (competingWriterCheck w st) \<longleftrightarrow>
     rp_root st \<noteq> [] \<and> (\<exists>recorded. w_probeOwner w (WriterLockDir st) = Inr (recorded, False))"
  by (simp add: competingWriterCheck_def Let_def split: sum.split option.split bool.split)

lemma env_check_clears: "clears (env_check w e) \<longleftrightarrow> (\<exists>v. w_lookupEnv w (ev_name e) = Some v \<and> \<not> blank v)"
  by (simp add: env_check_def Let_def split: option.split)

lemma credential_check_clears:
  "clears (credential_check w c) \<longleftrightarrow> fst (ClassifyCredential w c) = CredentialReady \<or> cd_humanAction c \<noteq> []"
  by (simp add: credential_check_def Let_def split: prod.split)

lemma stateChecks_clears:
  "(\<forall>c\<in>set (stateChecks w s). clears c) \<longleftrightarrow>
     \<not> blank (sp_stateDir s) \<and>
     (ow_worktree (sp_ownership s) = [] \<or> \<not> w_within w (ow_worktree (sp_ownership s)) (sp_stateDir s)) \<and>
     w_mkdirAll w (sp_stateDir s) = None \<and> w_writable w (sp_stateDir s) True = None"
  by (simp add: stateChecks_def Let_def probeStateDir_def split: option.split)

lemma GitHubChecks_clears:
  "(\<forall>c\<in>set (GitHubChecks req p). clears c) \<longrightarrow>
     gp_authenticated p \<and> gp_repoReadable p \<and> (gh_account req = [] \<or> EqualFold (gh_account req) (gp_account p))"
  by (auto simp: GitHubChecks_def Let_def ghNotReached_def)

lemma tool_check_clears:
  "clears (tool_check w t) \<Longrightarrow> w_lookPath w (tl_name t) \<noteq> None \<or> tl_humanAction t \<noteq> []"
  by (auto simp: tool_check_def Let_def split: option.splits if_splits)

text \<open>What a probe of an environment value may tell of it: whether it is set, and whether it is blank.\<close>

definition presence :: "string option \<Rightarrow> bool option" where
  "presence v = map_option blank v"

lemma presence_cases:
  assumes "presence a = presence b"
  shows "(case a of None \<Rightarrow> x | Some v \<Rightarrow> if blank v then y else z) = (case b of None \<Rightarrow> x | Some v \<Rightarrow> if blank v then y else z)"
    and "(case a of None \<Rightarrow> True | Some v \<Rightarrow> blank v) = (case b of None \<Rightarrow> True | Some v \<Rightarrow> blank v)"
  using assms by (cases a; cases b; simp add: presence_def)+

lemma world_env_sel:
  "w_lookPath (w\<lparr>w_lookupEnv := look\<rparr>) = w_lookPath w"
  "w_exec (w\<lparr>w_lookupEnv := look\<rparr>) = w_exec w"
  "w_mkdirAll (w\<lparr>w_lookupEnv := look\<rparr>) = w_mkdirAll w"
  "w_stat (w\<lparr>w_lookupEnv := look\<rparr>) = w_stat w"
  "w_statErr (w\<lparr>w_lookupEnv := look\<rparr>) = w_statErr w"
  "w_writable (w\<lparr>w_lookupEnv := look\<rparr>) = w_writable w"
  "w_dial (w\<lparr>w_lookupEnv := look\<rparr>) = w_dial w"
  "w_now (w\<lparr>w_lookupEnv := look\<rparr>) = w_now w"
  "w_rfc3339 (w\<lparr>w_lookupEnv := look\<rparr>) = w_rfc3339 w"
  "w_quote (w\<lparr>w_lookupEnv := look\<rparr>) = w_quote w"
  "w_compile (w\<lparr>w_lookupEnv := look\<rparr>) = w_compile w"
  "w_canon (w\<lparr>w_lookupEnv := look\<rparr>) = w_canon w"
  "w_within (w\<lparr>w_lookupEnv := look\<rparr>) = w_within w"
  "w_probeRepo (w\<lparr>w_lookupEnv := look\<rparr>) = w_probeRepo w"
  "w_probeOwner (w\<lparr>w_lookupEnv := look\<rparr>) = w_probeOwner w"
  "w_describeOwner (w\<lparr>w_lookupEnv := look\<rparr>) = w_describeOwner w"
  "w_dotGit (w\<lparr>w_lookupEnv := look\<rparr>) = w_dotGit w"
  "w_readFile (w\<lparr>w_lookupEnv := look\<rparr>) = w_readFile w"
  "w_viewJSON (w\<lparr>w_lookupEnv := look\<rparr>) = w_viewJSON w"
  "w_protectionJSON (w\<lparr>w_lookupEnv := look\<rparr>) = w_protectionJSON w"
  by simp_all

lemma runProbe_env: "runProbe (w\<lparr>w_lookupEnv := look\<rparr>) = runProbe w"
  unfolding runProbe_def world_env_sel by (rule refl)

lemma checks_env [simp]:
  "tool_check (w\<lparr>w_lookupEnv := look\<rparr>) = tool_check w" "path_check (w\<lparr>w_lookupEnv := look\<rparr>) = path_check w"
  "port_check (w\<lparr>w_lookupEnv := look\<rparr>) = port_check w" "command_check (w\<lparr>w_lookupEnv := look\<rparr>) = command_check w"
  "stateChecks (w\<lparr>w_lookupEnv := look\<rparr>) = stateChecks w"
  "competingWriterCheck (w\<lparr>w_lookupEnv := look\<rparr>) = competingWriterCheck w"
  "CheckWorktreeCrossOSDurable (w\<lparr>w_lookupEnv := look\<rparr>) = CheckWorktreeCrossOSDurable w"
  "ProbeGitHub (w\<lparr>w_lookupEnv := look\<rparr>) = ProbeGitHub w"
  unfolding tool_check_def version_error_text_def path_check_def port_check_def command_check_def
    stateChecks_def probeStateDir_def competingWriterCheck_def describeOwner_def
    CheckWorktreeCrossOSDurable_def ReadWorktreePointers_def ProbeGitHub_def probe_view_def probe_protection_def
    world_env_sel runProbe_env
  by (rule refl)+

lemma env_check_presence:
  assumes "presence (look (ev_name e)) = presence (w_lookupEnv w (ev_name e))"
  shows "env_check (w\<lparr>w_lookupEnv := look\<rparr>) e = env_check w e"
  using presence_cases(1) [OF assms] by (simp add: env_check_def Let_def)

lemma ClassifyCredential_presence:
  assumes "presence (look (cd_env c)) = presence (w_lookupEnv w (cd_env c))"
  shows "ClassifyCredential (w\<lparr>w_lookupEnv := look\<rparr>) c = ClassifyCredential w c"
  using presence_cases(2) [OF assms] unfolding ClassifyCredential_def world_env_sel runProbe_env by simp

text \<open>A machine on which every probe answers well, for the witnesses.\<close>

definition sample_world :: world where
  "sample_world =
     \<lparr>w_lookPath = (\<lambda>n. Some (''/bin/'' @ n)), w_exec = (\<lambda>t d a. ExecExited [] True), w_mkdirAll = (\<lambda>p. None),
      w_stat = (\<lambda>p. Some (True, 1)), w_statErr = (\<lambda>p. None), w_writable = (\<lambda>p d. None),
      w_lookupEnv = (\<lambda>n. Some ''first-value''), w_dial = (\<lambda>a t. None), w_now = 0, w_rfc3339 = (\<lambda>t. ''t''),
      w_quote = (\<lambda>x. x), w_compile = (\<lambda>p. None), w_canon = (\<lambda>p. p), w_within = (\<lambda>p c. False),
      w_probeRepo = (\<lambda>d. (sample_repo, None)), w_probeOwner = (\<lambda>d. Inr (None, False)),
      w_describeOwner = (\<lambda>ow. o_runID ow), w_dotGit = (\<lambda>d. Inr None), w_readFile = (\<lambda>p. None),
      w_viewJSON = (\<lambda>j. None), w_protectionJSON = (\<lambda>j. None)\<rparr>"

definition sample_fallback_plan :: Plan where
  "sample_fallback_plan = sample_plan\<lparr>p_tasks := [sample_task\<lparr>t_band := BandValidation\<rparr>]\<rparr>"

section \<open>Properties\<close>



text \<open>No environment value reaches a report. Two machines that differ only in the values of their
  environment variables, each set, unset or blank on one as on the other, get the same report to the
  letter, verdict included, whatever a spec declares and whether or not a value is marked secret.\<close>

theorem report_withholds_environment:
  assumes "\<And>n. presence (look n) = presence (w_lookupEnv w n)"
  shows "Preflight (w\<lparr>w_lookupEnv := look\<rparr>) s plan = Preflight w s plan"
proof -
  have env: "EnvChecks (w\<lparr>w_lookupEnv := look\<rparr>) = EnvChecks w"
    using env_check_presence assms by (auto simp: EnvChecks_def fun_eq_iff)
  have cred: "credential_check (w\<lparr>w_lookupEnv := look\<rparr>) = credential_check w"
    using ClassifyCredential_presence assms by (intro ext) (simp add: credential_check_def)
  show ?thesis
    unfolding Preflight_def ToolChecks_def PathChecks_def PortChecks_def CommandChecks_def CredentialChecks_def
      world_env_sel checks_env env cred
    by (rule refl)
qed

theorem report_withholds_environment_witness:
  "Preflight (sample_world\<lparr>w_lookupEnv := (\<lambda>n. Some ''second-value'')\<rparr>) sample_spec None =
   Preflight sample_world sample_spec None"
proof (rule report_withholds_environment)
  show "presence (Some ''second-value'') = presence (w_lookupEnv sample_world n)" for n
    by (simp add: sample_world_def presence_def) code_simp
qed

text \<open>A forge nobody is logged in to refuses the run. The login is reported as a human boundary, but
  the questions behind it are reported as not reached, so preflight never permits a run whose declared forge
  is not authenticated: that login is never a boundary a run starts with and works around.\<close>

theorem unauthenticated_forge_refuses_run:
  assumes "sp_github s = Some req" "\<not> gp_authenticated (ProbeGitHub w req)"
  shows "\<not> Report_PermitsUnattendedRun (Preflight w s plan) \<and>
    (\<exists>c\<in>set (rep_checks (Preflight w s plan)). c_id c = ''github.auth'' \<and> c_outcome c = OutcomeHumanBoundary)"
proof -
  obtain st own where own: "AssertOwnership (w_canon w) (w_statErr w) (w_probeRepo w) (sp_ownership s) = (st, own)"
    by fastforce
  have sub: "set (GitHubChecks req (ProbeGitHub w req)) \<subseteq> set (rep_checks (Preflight w s plan))"
    using Preflight_checks(1) [OF own, of plan] assms(1) by simp
  moreover have "\<not> (\<forall>c\<in>set (GitHubChecks req (ProbeGitHub w req)). clears c)"
    using GitHubChecks_clears [of req "ProbeGitHub w req"] assms(2) by blast
  ultimately have "\<not> Report_PermitsUnattendedRun (Preflight w s plan)"
    using Preflight_permits by blast
  moreover have "\<exists>c\<in>set (GitHubChecks req (ProbeGitHub w req)). c_id c = ''github.auth'' \<and> c_outcome c = OutcomeHumanBoundary"
    using assms(2) by (simp add: GitHubChecks_def boundary_check_def)
  ultimately show ?thesis
    using sub by blast
qed

definition sample_forge :: GitHubRequirement where
  "sample_forge =
     \<lparr>gh_repo = ''o/r'', gh_command = [], gh_account = [], gh_branch = [], gh_needPush = True, gh_needPR = True,
      gh_needChecks = True, gh_needMerge = False, gh_mergeHumanAction = []\<rparr>"

theorem unauthenticated_forge_refuses_run_witness:
  "let w = sample_world\<lparr>w_exec := (\<lambda>t d a. ExecExited ''not logged in'' False)\<rparr>;
       s = sample_spec\<lparr>sp_github := Some sample_forge\<rparr>
   in \<not> Report_PermitsUnattendedRun (Preflight w s (Some sample_fallback_plan))"
proof -
  let ?w = "sample_world\<lparr>w_exec := (\<lambda>t d a. ExecExited ''not logged in'' False)\<rparr>"
  have "\<not> gp_authenticated (ProbeGitHub ?w sample_forge)"
    by (simp add: ProbeGitHub_def runProbe_def no_probe_def add_note_def)
  then show ?thesis
    using unauthenticated_forge_refuses_run [of "sample_spec\<lparr>sp_github := Some sample_forge\<rparr>" sample_forge ?w]
    by (simp add: Let_def)
qed

end
