(* ===== verification/Runner.thy ===== *)
theory Runner
  imports Work_Queue Controller Preflight
begin

text \<open>
  The runner (\<^verbatim>\<open>internal/unattended/runner.go\<close>, with the heartbeat and the completion event of
  \<^verbatim>\<open>progress.go\<close>): it drains the queue under the fence, drives one task at a time, writes the journal, keeps the
  gate evidence and decides how the run ended.

  A Go \<^verbatim>\<open>Runner\<close> is split in what a run never changes (\<open>run_config\<close>) and what it does (\<open>runner\<close>). What the
  run asks of the world is the record \<open>run_env\<close> of answers, indexed by a counter (\<open>rn_tick\<close>) that every
  question increments, so that the same question may get another answer later: whether the context was
  cancelled, whether a write reached the disk, what the lock and the repository say, how a command ended.
  The ghost field \<open>rn_trace\<close> lists the fence checks and the drives in order; nothing reads it. The loop may
  in principle not end, so it is a partial function to \<open>option\<close>; that it ends is a theorem.
  Times, durations and the sleep between attempts are not modelled.
\<close>

section \<open>Data\<close>

record Progress =
  pg_runID :: string
  pg_projectID :: string
  pg_session :: string
  pg_stage :: string
  pg_currentTask :: string
  pg_currentBand :: Band
  pg_lastMilestone :: string
  pg_activeBlocker :: string
  pg_usingFallback :: bool
  pg_nextAction :: string
  pg_writerOwner :: string
  pg_writerPID :: int
  pg_worktree :: string
  pg_branch :: string
  pg_head :: string
  pg_tasks :: "TaskState \<Rightarrow> nat"
  pg_attempts :: int
  pg_resumes :: int
  pg_boundaries :: "string list"
  pg_qa :: ProgressionDecision

record CompletionEvent =
  ce_runID :: string
  ce_projectID :: string
  ce_session :: string
  ce_sessionLabel :: string
  ce_outcome :: RunOutcome
  ce_reason :: string
  ce_worktree :: string
  ce_branch :: string
  ce_head :: string
  ce_tasks :: "TaskState \<Rightarrow> nat"
  ce_attempts :: int
  ce_resumes :: int
  ce_humanActions :: "string list"
  ce_failures :: "string list"
  ce_qa :: ProgressionDecision

record run_config =
  rc_spec :: Spec
  rc_plan :: Plan
  rc_report :: "Report option"
  rc_lock :: "Owner option"

datatype run_event = FenceChecked nat FenceResult | Drove nat Execution

record runner =
  rn_tick :: nat
  rn_journal :: Journal
  rn_queue :: Queue
  rn_evidence :: ledger
  rn_fence :: Fence
  rn_lastMilestone :: string
  rn_stopReason :: string
  rn_stopClass :: FailureClass
  rn_stopOutcome :: RunOutcome
  rn_attempts :: int
  rn_resumes :: int
  rn_progress :: "Progress list"
  rn_captures :: "(string \<times> string) list"
  rn_trace :: "run_event list"

record run_env =
  e_ctxErr :: "nat \<Rightarrow> string option"
  e_durable :: "nat \<Rightarrow> bool"
  e_owner :: "nat \<Rightarrow> owner_reading"
  e_repo :: "nat \<Rightarrow> repo_reading"
  e_removeErr :: "nat \<Rightarrow> string option"
  e_mkdirErr :: "nat \<Rightarrow> string option"
  e_exec :: "nat \<Rightarrow> Task \<Rightarrow> exec_result"
  e_result :: "nat \<Rightarrow> string + string option"
  e_progressErr :: "nat \<Rightarrow> string option"
  e_publishErr :: "nat \<Rightarrow> string option"
  e_captureErr :: "nat \<Rightarrow> string option"
  e_completionErr :: "nat \<Rightarrow> string option"
  e_unmarshal :: "string \<Rightarrow> string + RawResult"
  e_resultText :: "result_error \<Rightarrow> string"
  e_compile :: compiler
  e_quote :: "string \<Rightarrow> string"
  e_duration :: "int \<Rightarrow> string"

section \<open>Helpers\<close>

definition advance_tick :: "runner \<Rightarrow> runner" where
  "advance_tick r = r\<lparr>rn_tick := Suc (rn_tick r)\<rparr>"

text \<open>The call \<^verbatim>\<open>r.Journal.Append\<close> whose error is ignored.\<close>

definition log_record :: "run_env \<Rightarrow> Record \<Rightarrow> runner \<Rightarrow> runner" where
  "log_record env rec r =
     advance_tick (r\<lparr>rn_journal := fst (Append (e_durable env (rn_tick r)) (rn_journal r) rec)\<rparr>)"

fun FenceStatus_text :: "FenceStatus \<Rightarrow> string" where
  "FenceStatus_text FenceNone = []"
| "FenceStatus_text FenceIntact = ''intact''"
| "FenceStatus_text FenceBranchChanged = ''branch-changed''"
| "FenceStatus_text FenceHeadMoved = ''head-moved''"
| "FenceStatus_text FenceOwnerLost = ''owner-lost''"
| "FenceStatus_text FenceUnreadable = ''unreadable''"

definition evidenceSuffix :: "string \<Rightarrow> string" where
  "evidenceSuffix e = (if e = [] then [] else '' ('' @ e @ '')'')"

definition fence_error_text :: "run_env \<Rightarrow> FenceResult \<Rightarrow> string" where
  "fence_error_text env res =
     ''unattended: fence '' @ FenceStatus_text (fr_status res) @ '' '' @ em_dash @ '' expected '' @
     e_quote env (fr_expected res) @ '', observed '' @ e_quote env (fr_observed res) @
     evidenceSuffix (fr_evidence res)"

definition advance_error_text :: "run_env \<Rightarrow> advance_error \<Rightarrow> string" where
  "advance_error_text env e = (case e of
     AdvanceUnreasoned \<Rightarrow> ''unattended: an authorized advance must state its reason''
   | AdvanceViolation res \<Rightarrow> fence_error_text env res)"

definition maxCapturedOutput :: nat where
  "maxCapturedOutput = 8 * 1024"

definition truncate :: "string \<Rightarrow> string" where
  "truncate s = (if length s \<le> maxCapturedOutput then s
     else take maxCapturedOutput s @ newline @ ellipsis @ '' truncated'')"

definition stateDirPath :: "string \<Rightarrow> string \<Rightarrow> string" where
  "stateDirPath dir name = filepath_Join dir name"

definition isAuthBoundary :: "string \<Rightarrow> bool" where
  "isAuthBoundary i = (HasPrefix i ''credential.'' \<or> i = ''github.auth'')"

definition run_boundaries :: "run_config \<Rightarrow> string \<rightharpoonup> string" where
  "run_boundaries cfg = (case rc_report cfg of None \<Rightarrow> Map.empty | Some rep \<Rightarrow> Report_Boundaries rep)"

definition observedToolVersion :: "run_config \<Rightarrow> string \<Rightarrow> string" where
  "observedToolVersion cfg tool = (case rc_report cfg of
     None \<Rightarrow> []
   | Some rep \<Rightarrow> (case Report_Check rep (''tool.'' @ tool) of
        Some c \<Rightarrow> if c_outcome c = OutcomePass then c_observed c else []
      | None \<Rightarrow> []))"

definition QADecision :: "run_config \<Rightarrow> runner \<Rightarrow> ProgressionDecision" where
  "QADecision cfg r =
     EvaluateProgression (sp_qa (rc_spec cfg)) (p_risk (rc_plan cfg)) (f_head (rn_fence r)) (rn_evidence r)"

section \<open>The heartbeat\<close>

definition held_lines :: "Queue \<Rightarrow> string list" where
  "held_lines q =
     map (\<lambda>qt. t_id (q_task qt) @ '': '' @ q_heldReason qt)
       (filter (\<lambda>qt. q_state qt = TaskHeld \<and> q_heldReason qt \<noteq> []) (qu_tasks q))"

definition progress_of :: "run_config \<Rightarrow> string \<Rightarrow> nat option \<Rightarrow> runner \<Rightarrow> Progress" where
  "progress_of cfg stage current r =
     (let q = rn_queue r; held = held_lines q in
      \<lparr>pg_runID = p_runID (rc_plan cfg), pg_projectID = sp_projectID (rc_spec cfg),
       pg_session = ow_session (sp_ownership (rc_spec cfg)), pg_stage = stage,
       pg_currentTask = (case current of Some i \<Rightarrow> t_id (q_task (task_at q i)) | None \<Rightarrow> []),
       pg_currentBand = (case current of Some i \<Rightarrow> t_band (q_task (task_at q i)) | None \<Rightarrow> BandOther []),
       pg_lastMilestone = rn_lastMilestone r,
       pg_activeBlocker = (case held of [] \<Rightarrow> [] | h # _ \<Rightarrow> h),
       pg_usingFallback = (case current of
          Some i \<Rightarrow> t_band (q_task (task_at q i)) \<noteq> BandPrimary \<and> PrimaryWorkOutstanding q | None \<Rightarrow> False),
       pg_nextAction = (case Next q of
          Some i \<Rightarrow> t_id (q_task (task_at q i)) @ '' ('' @ Band_text (t_band (q_task (task_at q i))) @ '')''
        | None \<Rightarrow> []),
       pg_writerOwner = (case rc_lock cfg of Some ow \<Rightarrow> o_runID ow | None \<Rightarrow> []),
       pg_writerPID = (case rc_lock cfg of Some ow \<Rightarrow> o_pid ow | None \<Rightarrow> 0),
       pg_worktree = f_worktree (rn_fence r), pg_branch = f_branch (rn_fence r), pg_head = f_head (rn_fence r),
       pg_tasks = Counts q, pg_attempts = rn_attempts r, pg_resumes = rn_resumes r,
       pg_boundaries = held, pg_qa = QADecision cfg r\<rparr>)"

definition publish :: "run_config \<Rightarrow> run_env \<Rightarrow> string \<Rightarrow> nat option \<Rightarrow> runner \<Rightarrow> runner" where
  "publish cfg env stage current r =
     (let r1 = r\<lparr>rn_progress := rn_progress r @ [progress_of cfg stage current r]\<rparr>;
          r2 = (case e_progressErr env (rn_tick r1) of
                  Some e \<Rightarrow> log_record env ((new_record RecordPreflight)
                    \<lparr>r_outcome := ''progress-publication-failed'', r_detail := e\<rparr>) r1
                | None \<Rightarrow> advance_tick r1)
      in case e_publishErr env (rn_tick r2) of
           Some e \<Rightarrow> log_record env ((new_record RecordPreflight)
             \<lparr>r_outcome := ''delivery-projection-failed'', r_detail := e\<rparr>) r2
         | None \<Rightarrow> advance_tick r2)"

section \<open>One attempt\<close>

definition resultPath :: "run_config \<Rightarrow> Task \<Rightarrow> string" where
  "resultPath cfg t =
     (if t_resultPath t = [] then []
      else if IsAbs (t_resultPath t) then t_resultPath t
      else stateDirPath (sp_stateDir (rc_spec cfg)) (t_resultPath t))"

text \<open>The command's answer: output, whether it exited zero, and the error that kept it from answering.\<close>

definition execute :: "run_env \<Rightarrow> nat \<Rightarrow> Task \<Rightarrow> string \<Rightarrow> string \<times> bool \<times> string option" where
  "execute env n t path =
     (case (if path \<noteq> [] then e_mkdirErr env n else None) of
        Some e \<Rightarrow> ([], False, Some e)
      | None \<Rightarrow>
         (case e_exec env n t of
            ExecTimedOut raw e \<Rightarrow> (TrimSpace raw, False, Some e)
          | ExecExited raw ok \<Rightarrow> (TrimSpace raw, ok, None)
          | ExecError raw e \<Rightarrow> (TrimSpace raw, False, Some e)))"

definition ReadControllerResult :: "run_env \<Rightarrow> nat \<Rightarrow> string \<Rightarrow> string + ControllerResult" where
  "ReadControllerResult env n path =
     (let unusable = ''unattended: the task's structured controller result is unusable: '' in
      case e_result env n of
        Inr None \<Rightarrow> Inl (unusable @ path @ '' was never written'')
      | Inl e \<Rightarrow> Inl (unusable @ ''reading '' @ path @ '': '' @ e)
      | Inr (Some data) \<Rightarrow>
          (case ParseControllerResult (e_unmarshal env) data of
             Inl e \<Rightarrow> Inl (e_resultText env e)
           | Inr res \<Rightarrow> Inr res))"

definition observe :: "run_config \<Rightarrow> run_env \<Rightarrow> nat \<Rightarrow> Task \<Rightarrow> Execution" where
  "observe cfg env n t =
     (let declared = (t_resultPath t \<noteq> []); path = resultPath cfg t;
          e = \<lparr>ex_exitedZero = False, ex_output = [], ex_err = None, ex_declaredResult = declared,
               ex_result = None, ex_resultErr = None\<rparr> in
      case (if declared then e_removeErr env n else None) of
        Some m \<Rightarrow> e\<lparr>ex_resultErr := Some (''unattended: the task's structured controller result is unusable: clearing '' @
                       path @ '' before the attempt: '' @ m)\<rparr>
      | None \<Rightarrow>
          (case execute env n t path of (out, ok, err) \<Rightarrow>
             let e1 = e\<lparr>ex_output := out, ex_exitedZero := ok, ex_err := err\<rparr> in
             if \<not> declared then e1
             else case ReadControllerResult env n path of
                    Inl m \<Rightarrow> e1\<lparr>ex_resultErr := Some m\<rparr>
                  | Inr res \<Rightarrow> e1\<lparr>ex_result := Some res\<rparr>))"

definition recordGateEvidence ::
  "run_config \<Rightarrow> run_env \<Rightarrow> nat \<Rightarrow> GateResult \<Rightarrow> string \<Rightarrow> runner \<Rightarrow> runner" where
  "recordGateEvidence cfg env i result detail r =
     (let t = q_task (task_at (rn_queue r) i) in
      if t_qaGate t = [] \<or> result = GateOther [] then r
      else
        let ev = \<lparr>ge_gateID = t_qaGate t, ge_taskID = t_id t,
                  ge_tool = (case t_argv t of [] \<Rightarrow> [] | a # _ \<Rightarrow> a),
                  ge_toolVersion = (case t_argv t of [] \<Rightarrow> [] | a # _ \<Rightarrow> observedToolVersion cfg a),
                  ge_result = result, ge_targetSHA = f_head (rn_fence r), ge_reproduce = t_argv t,
                  ge_detail = detail, ge_evidencePath = []\<rparr>
        in log_record env ((new_record RecordGateEvidence)
             \<lparr>r_taskID := t_id t, r_outcome := GateResult_text result,
              r_detail := ''gate '' @ ge_gateID ev @ '' against '' @ shortSHA (ge_targetSHA ev), r_gate := Some ev\<rparr>)
             (r\<lparr>rn_evidence := ledger_merge (rn_evidence r) ev\<rparr>))"

definition recordAdvance :: "run_env \<Rightarrow> nat \<Rightarrow> runner \<Rightarrow> runner" where
  "recordAdvance env i r =
     (let t = q_task (task_at (rn_queue r) i); n = rn_tick r;
          ((res, err), f) = RecordAuthorisedAdvance (rn_fence r) (''task '' @ t_id t @ '' mutated the worktree'')
            (e_owner env n) (e_repo env n) (e_owner env (Suc n)) (e_repo env (Suc n));
          r1 = advance_tick (advance_tick (r\<lparr>rn_fence := f\<rparr>))
      in case err of
           Some e \<Rightarrow> log_record env ((new_record RecordFenceViolated)
             \<lparr>r_taskID := t_id t, r_outcome := FenceStatus_text (fr_status res),
              r_detail := ''an advance after a mutating task was refused: '' @ advance_error_text env e\<rparr>) r1
         | None \<Rightarrow> log_record env ((new_record RecordFenceAdvanced)
             \<lparr>r_taskID := t_id t, r_detail := shortSHA (f_head f)\<rparr>) r1)"

definition captureFailure :: "run_config \<Rightarrow> run_env \<Rightarrow> string \<Rightarrow> int \<Rightarrow> string \<Rightarrow> runner \<Rightarrow> string \<times> runner" where
  "captureFailure cfg env taskID attempt text' r =
     (let path = stateDirPath (sp_stateDir (rc_spec cfg))
            (''failures/'' @ taskID @ ''-attempt-'' @ Itoa attempt @ ''.log'') in
      case e_captureErr env (rn_tick r) of
        Some e \<Rightarrow> (''not captured'', log_record env ((new_record RecordTaskFailed)
          \<lparr>r_taskID := taskID, r_attempt := attempt, r_outcome := ''failure-output-not-captured'', r_detail := e\<rparr>) r)
      | None \<Rightarrow> (path, advance_tick (r\<lparr>rn_captures := rn_captures r @ [(path, Redact text' @ newline)]\<rparr>)))"

section \<open>One task\<close>

text \<open>Each function returns whether the run must stop. The position \<open>i\<close> stands for the pointer to the
  queued task, so the task is read from the queue at the moment the code reads it.\<close>

definition set_queue :: "Queue \<Rightarrow> runner \<Rightarrow> runner" where
  "set_queue q r = r\<lparr>rn_queue := q\<rparr>"

definition driveAgain ::
  "run_config \<Rightarrow> run_env \<Rightarrow> nat \<Rightarrow> ControllerVerdict \<Rightarrow> runner \<Rightarrow> bool \<times> runner" where
  "driveAgain cfg env i verdict r =
     (let t = q_task (task_at (rn_queue r) i);
          (q1, used, bgt, mayResume) = RecordResume (rn_queue r) i;
          r1 = (set_queue q1 r)\<lparr>rn_resumes := rn_resumes r + 1\<rparr>;
          of_budget = '' (resume '' @ Itoa used @ '' of '' @ Itoa bgt @ '')'';
          r2 = log_record env ((new_record RecordTaskResumed)
            \<lparr>r_taskID := t_id t, r_attempt := AttemptCount (task_at q1 i),
             r_outcome := Disposition_text (v_disposition verdict), r_detail := v_reason verdict @ of_budget\<rparr>) r1
      in if \<not> mayResume then
           let reason = ''did not converge within its '' @ Itoa bgt @ '' resume(s): '' @ v_reason verdict;
               r3 = set_queue (Hold q1 i reason) r2;
               r4 = log_record env ((new_record RecordTaskHeld)
                 \<lparr>r_taskID := t_id t, r_outcome := TaskState_text TaskHeld, r_detail := reason\<rparr>) r3;
               r5 = recordGateEvidence cfg env i GateError reason r4
           in (False, publish cfg env ''running'' None r5)
         else
           let r3 = r2\<lparr>rn_lastMilestone := t_id t @ '' '' @ Disposition_text (v_disposition verdict) @ of_budget\<rparr>
           in (False, publish cfg env ''resuming'' (Some i) r3))"

definition stopOnHumanBoundary ::
  "run_config \<Rightarrow> run_env \<Rightarrow> nat \<Rightarrow> ControllerVerdict \<Rightarrow> int \<Rightarrow> string \<Rightarrow> runner \<Rightarrow> bool \<times> runner" where
  "stopOnHumanBoundary cfg env i verdict attemptNumber text' r =
     (let t = q_task (task_at (rn_queue r) i);
          (outputPath, r1) = captureFailure cfg env (t_id t) attemptNumber text' r;
          r2 = set_queue (Hold (rn_queue r1) i (v_reason verdict)) r1;
          detail = v_reason verdict @ '' | output: '' @ outputPath;
          r3 = log_record env ((new_record RecordTaskHeld)
            \<lparr>r_taskID := t_id t, r_attempt := attemptNumber, r_class := v_class verdict,
             r_outcome := TaskState_text TaskHeld, r_detail := detail\<rparr>) r2;
          r4 = recordGateEvidence cfg env i (v_gateResult verdict) detail r3;
          r5 = r4\<lparr>rn_stopReason := t_id t @ '' reached a boundary this run may not cross: '' @ v_reason verdict,
                  rn_stopClass := v_class verdict,
                  rn_stopOutcome := (if v_class verdict = FailureAuth then RunAwaitingAuth else RunBlockedHuman)\<rparr>
      in (True, publish cfg env ''stopping'' None r5))"

definition succeed ::
  "run_config \<Rightarrow> run_env \<Rightarrow> nat \<Rightarrow> ControllerVerdict \<Rightarrow> int \<Rightarrow> runner \<Rightarrow> bool \<times> runner" where
  "succeed cfg env i verdict attemptNumber r =
     (let t = q_task (task_at (rn_queue r) i);
          r1 = log_record env ((new_record RecordTaskSucceeded)
            \<lparr>r_taskID := t_id t, r_attempt := attemptNumber, r_detail := v_reason verdict\<rparr>) r;
          r2 = set_queue (fst (RecordAttempt (rn_queue r1) i ok_attempt)) r1;
          r3 = r2\<lparr>rn_lastMilestone := t_id t @ '' succeeded''\<rparr>;
          r4 = recordGateEvidence cfg env i (v_gateResult verdict) [] r3;
          r5 = (if t_mutates t then recordAdvance env i r4 else r4)
      in (False, publish cfg env ''running'' None r5))"

definition fail_attempt ::
  "run_config \<Rightarrow> run_env \<Rightarrow> nat \<Rightarrow> ControllerVerdict \<Rightarrow> int \<Rightarrow> string \<Rightarrow> runner \<Rightarrow> bool \<times> runner" where
  "fail_attempt cfg env i verdict attemptNumber text' r =
     (let t = q_task (task_at (rn_queue r) i); class = v_class verdict;
          (outputPath, r1) = captureFailure cfg env (t_id t) attemptNumber text' r;
          (q2, delay, willRetry) = RecordAttempt (rn_queue r1) i
            \<lparr>a_number = 0, a_succeeded = False, a_class = class, a_reason = v_reason verdict,
             a_output = truncate (Redact text')\<rparr>;
          r2 = set_queue q2 r1;
          detail = v_reason verdict @ '' | '' @ firstLine (Redact text') @ '' | output: '' @ outputPath;
          r3 = log_record env ((new_record RecordTaskFailed)
            \<lparr>r_taskID := t_id t, r_attempt := attemptNumber, r_class := class,
             r_outcome := TaskState_text (state_at q2 i), r_detail := detail\<rparr>) r2;
          r4 = (if state_at q2 i = TaskFailed
                then recordGateEvidence cfg env i (v_gateResult verdict) detail r3 else r3);
          policy = PolicyFor class
      in if pol_stopsRun policy then
           let r5 = r4\<lparr>rn_stopReason := t_id t @ '' failed with a '' @ FailureClass_text class @
                         '' failure, which ends the run: '' @ pol_why policy,
                       rn_stopClass := class\<rparr>
           in (True, publish cfg env ''stopping'' None r5)
         else if willRetry then
           let r5 = log_record env ((new_record RecordTaskRetry)
                 \<lparr>r_taskID := t_id t, r_attempt := attemptNumber, r_class := class,
                  r_detail := ''retrying in '' @ e_duration env delay\<rparr>) r4
           in (False, publish cfg env ''retrying'' (Some i) r5)
         else (False, publish cfg env ''running'' None r4))"

definition conclude ::
  "run_config \<Rightarrow> run_env \<Rightarrow> nat \<Rightarrow> ControllerVerdict \<Rightarrow> int \<Rightarrow> string \<Rightarrow> runner \<Rightarrow> bool \<times> runner" where
  "conclude cfg env i verdict attemptNumber text' r =
     (case v_disposition verdict of
        DispositionSucceeded \<Rightarrow> succeed cfg env i verdict attemptNumber r
      | DispositionContinue \<Rightarrow> driveAgain cfg env i verdict r
      | DispositionResume \<Rightarrow> driveAgain cfg env i verdict r
      | DispositionHumanBlocked \<Rightarrow> stopOnHumanBoundary cfg env i verdict attemptNumber text' r
      | DispositionRetry \<Rightarrow> fail_attempt cfg env i verdict attemptNumber text' r
      | DispositionFailSafe \<Rightarrow> fail_attempt cfg env i verdict attemptNumber text' r)"

definition drive :: "run_config \<Rightarrow> run_env \<Rightarrow> nat \<Rightarrow> runner \<Rightarrow> bool \<times> runner" where
  "drive cfg env i r =
     (let qt = task_at (rn_queue r) i; t = q_task qt; attemptNumber = AttemptCount qt + 1;
          r1 = log_record env ((new_record RecordTaskStarted)
            \<lparr>r_taskID := t_id t, r_attempt := attemptNumber, r_detail := Join (t_argv t) '' ''\<rparr>) r;
          exec = observe cfg env (rn_tick r1) t;
          r2 = advance_tick (r1\<lparr>rn_trace := rn_trace r1 @ [Drove i exec]\<rparr>);
          verdict = InterpretExecution (e_compile env) exec (sp_classification (rc_spec cfg));
          text' = ex_text exec;
          r3 = (if Resumable (v_disposition verdict) then r2 else r2\<lparr>rn_attempts := rn_attempts r2 + 1\<rparr>)
      in conclude cfg env i verdict attemptNumber text' r3)"

definition runOne :: "run_config \<Rightarrow> run_env \<Rightarrow> nat \<Rightarrow> runner \<Rightarrow> bool \<times> runner" where
  "runOne cfg env i r =
     (let r1 = publish cfg env ''running'' (Some i) r; t = q_task (task_at (rn_queue r1) i) in
      if t_mutates t then
        let res = Fence_Check (rn_fence r1) (e_owner env (rn_tick r1)) (e_repo env (rn_tick r1));
            r2 = advance_tick (r1\<lparr>rn_trace := rn_trace r1 @ [FenceChecked i res]\<rparr>)
        in if \<not> Intact res then
             let r3 = log_record env ((new_record RecordFenceViolated)
                   \<lparr>r_taskID := t_id t, r_outcome := FenceStatus_text (fr_status res),
                    r_detail := ''expected '' @ e_quote env (fr_expected res) @ '', observed '' @
                      e_quote env (fr_observed res) @ '' '' @ em_dash @ '' '' @ fr_evidence res\<rparr>) r2;
                 r4 = set_queue (Hold (rn_queue r3) i
                   (''the repository moved outside this run: '' @ FenceStatus_text (fr_status res))) r3
             in (True, r4\<lparr>rn_stopReason := fence_error_text env res, rn_stopClass := FailureConcurrentWriter\<rparr>)
           else
             drive cfg env i (log_record env ((new_record RecordFenceVerified)
               \<lparr>r_taskID := t_id t, r_detail := fr_expected res\<rparr>) r2)
      else drive cfg env i r1)"

section \<open>The run\<close>

partial_function (option) run_loop :: "run_config \<Rightarrow> run_env \<Rightarrow> runner \<Rightarrow> runner option" where
  "run_loop cfg env r =
     (case e_ctxErr env (rn_tick r) of
        Some e \<Rightarrow> Some (r\<lparr>rn_stopReason := ''the run was canceled: '' @ e, rn_stopClass := FailureEnvironment\<rparr>)
      | None \<Rightarrow>
         (case Next (rn_queue r) of
            None \<Rightarrow> Some r
          | Some i \<Rightarrow>
             (case runOne cfg env i (advance_tick r) of
                (stop, r') \<Rightarrow> if stop then Some r' else run_loop cfg env r')))"

declare run_loop.simps [code]

fun human_actions :: "string set \<Rightarrow> QueuedTask list \<Rightarrow> string list" where
  "human_actions seen [] = []"
| "human_actions seen (qt # qts) =
     (if q_state qt = TaskHeld \<and> q_heldReason qt \<noteq> [] \<and> q_heldReason qt \<notin> seen
      then (t_id (q_task qt) @ '': '' @ q_heldReason qt) # human_actions (insert (q_heldReason qt) seen) qts
      else human_actions seen qts)"

definition failed_ids :: "Queue \<Rightarrow> string list" where
  "failed_ids q = sort (map (\<lambda>qt. t_id (q_task qt)) (filter (\<lambda>qt. q_state qt = TaskFailed) (qu_tasks q)))"

definition awaits_auth :: "run_config \<Rightarrow> Queue \<Rightarrow> bool" where
  "awaits_auth cfg q =
     list_ex (\<lambda>qt. q_state qt = TaskHeld \<and>
       list_ex (\<lambda>i. run_boundaries cfg i \<noteq> None \<and> isAuthBoundary i) (t_requiresChecks (q_task qt))) (qu_tasks q)"

definition run_ending :: "run_config \<Rightarrow> runner \<Rightarrow> RunOutcome \<times> string" where
  "run_ending cfg r =
     (let q = rn_queue r; held = Itoa (int (Counts q TaskHeld)); failures = failed_ids q in
      if rn_stopReason r \<noteq> [] then
        ((if rn_stopOutcome r \<noteq> RunOutcomeOther [] then rn_stopOutcome r else RunFailed), rn_stopReason r)
      else if failures \<noteq> [] then
        (RunFailed, Itoa (int (length failures)) @ '' task(s) exhausted their attempts: '' @ Join failures '', '')
      else if Counts q TaskHeld > 0 \<and> awaits_auth cfg q then
        (RunAwaitingAuth, held @ '' task(s) are waiting on an authentication a person must perform'')
      else if Counts q TaskHeld > 0 then
        (RunBlockedHuman, held @ '' task(s) are held behind a human boundary; everything else the run could do is done'')
      else if \<not> pd_allowed (QADecision cfg r) then
        (RunFailed, ''the packet may not progress: '' @ Decision_Reason (QADecision cfg r))
      else (RunCompleted, ''every declared task succeeded''))"

definition finish :: "run_config \<Rightarrow> runner \<Rightarrow> CompletionEvent" where
  "finish cfg r =
     (let session = ow_session (sp_ownership (rc_spec cfg)) in
      \<lparr>ce_runID = p_runID (rc_plan cfg), ce_projectID = sp_projectID (rc_spec cfg), ce_session = session,
       ce_sessionLabel = session, ce_outcome = fst (run_ending cfg r), ce_reason = snd (run_ending cfg r),
       ce_worktree = f_worktree (rn_fence r), ce_branch = f_branch (rn_fence r), ce_head = f_head (rn_fence r),
       ce_tasks = Counts (rn_queue r), ce_attempts = rn_attempts r, ce_resumes = rn_resumes r,
       ce_humanActions = human_actions {} (qu_tasks (rn_queue r)), ce_failures = failed_ids (rn_queue r),
       ce_qa = QADecision cfg r\<rparr>)"

datatype run_error = JournalNotDurable | CompletionNotWritten string

text \<open>What \<^verbatim>\<open>Run\<close> returns, and the runner it leaves; a run refused before it starts has no event.\<close>

definition run_started :: "run_config \<Rightarrow> Fence \<Rightarrow> Record" where
  "run_started cfg f =
     (new_record RecordRunStarted)
       \<lparr>r_runID := p_runID (rc_plan cfg),
        r_detail := ''session='' @ ow_session (sp_ownership (rc_spec cfg)) @ '' worktree='' @ f_worktree f @
          '' branch='' @ f_branch f @ '' head='' @ shortSHA (f_head f)\<rparr>"

definition end_run :: "run_config \<Rightarrow> run_env \<Rightarrow> runner \<Rightarrow> CompletionEvent option \<times> run_error option \<times> runner" where
  "end_run cfg env r =
     (let event = finish cfg r;
          r1 = log_record env ((new_record RecordRunFinished)
            \<lparr>r_outcome := RunOutcome_text (ce_outcome event), r_detail := ce_reason event\<rparr>) r
      in if \<not> e_durable env (rn_tick r) then (Some event, Some JournalNotDurable, r1)
         else case e_completionErr env (rn_tick r1) of
           Some e \<Rightarrow> (Some event, Some (CompletionNotWritten e), advance_tick r1)
         | None \<Rightarrow> (Some event, None, publish cfg env ''finished'' None (advance_tick r1)))"

definition Run :: "run_config \<Rightarrow> run_env \<Rightarrow> runner \<Rightarrow> (CompletionEvent option \<times> run_error option \<times> runner) option" where
  "Run cfg env r =
     (let r1 = log_record env (run_started cfg (rn_fence r)) r in
      if \<not> e_durable env (rn_tick r) then Some (None, Some JournalNotDurable, r1)
      else map_option (end_run cfg env) (run_loop cfg env (publish cfg env ''starting'' None r1)))"

section \<open>What each step changes\<close>

lemma advance_tick_sel [run_simps]:
  "rn_journal (advance_tick r) = rn_journal r" "rn_queue (advance_tick r) = rn_queue r"
  "rn_evidence (advance_tick r) = rn_evidence r" "rn_fence (advance_tick r) = rn_fence r"
  "rn_stopReason (advance_tick r) = rn_stopReason r" "rn_stopOutcome (advance_tick r) = rn_stopOutcome r"
  "rn_attempts (advance_tick r) = rn_attempts r" "rn_resumes (advance_tick r) = rn_resumes r"
  "rn_trace (advance_tick r) = rn_trace r"
  by (simp_all add: advance_tick_def)

lemma log_record_sel [run_simps]:
  "rn_queue (log_record env rec r) = rn_queue r" "rn_evidence (log_record env rec r) = rn_evidence r"
  "rn_fence (log_record env rec r) = rn_fence r" "rn_stopReason (log_record env rec r) = rn_stopReason r"
  "rn_stopOutcome (log_record env rec r) = rn_stopOutcome r" "rn_attempts (log_record env rec r) = rn_attempts r"
  "rn_resumes (log_record env rec r) = rn_resumes r" "rn_trace (log_record env rec r) = rn_trace r"
  "rn_journal (log_record env rec r) = fst (Append (e_durable env (rn_tick r)) (rn_journal r) rec)"
  by (simp_all add: log_record_def advance_tick_def)

lemma log_record_tick [run_simps]: "rn_tick (log_record env rec r) = Suc (rn_tick r)"
  by (simp add: log_record_def advance_tick_def)

lemma set_queue_sel [run_simps]:
  "rn_queue (set_queue q r) = q" "rn_evidence (set_queue q r) = rn_evidence r"
  "rn_fence (set_queue q r) = rn_fence r" "rn_stopReason (set_queue q r) = rn_stopReason r"
  "rn_stopOutcome (set_queue q r) = rn_stopOutcome r" "rn_attempts (set_queue q r) = rn_attempts r"
  "rn_resumes (set_queue q r) = rn_resumes r" "rn_trace (set_queue q r) = rn_trace r"
  "rn_journal (set_queue q r) = rn_journal r"
  by (simp_all add: set_queue_def)

lemma publish_sel [run_simps]:
  "rn_queue (publish cfg env st c r) = rn_queue r" "rn_evidence (publish cfg env st c r) = rn_evidence r"
  "rn_fence (publish cfg env st c r) = rn_fence r" "rn_stopReason (publish cfg env st c r) = rn_stopReason r"
  "rn_stopOutcome (publish cfg env st c r) = rn_stopOutcome r"
  "rn_attempts (publish cfg env st c r) = rn_attempts r" "rn_resumes (publish cfg env st c r) = rn_resumes r"
  "rn_trace (publish cfg env st c r) = rn_trace r"
  by (simp_all add: publish_def Let_def run_simps split: option.split)

lemma recordGateEvidence_sel [run_simps]:
  "rn_queue (recordGateEvidence cfg env i g d r) = rn_queue r"
  "rn_fence (recordGateEvidence cfg env i g d r) = rn_fence r"
  "rn_stopReason (recordGateEvidence cfg env i g d r) = rn_stopReason r"
  "rn_stopOutcome (recordGateEvidence cfg env i g d r) = rn_stopOutcome r"
  "rn_attempts (recordGateEvidence cfg env i g d r) = rn_attempts r"
  "rn_resumes (recordGateEvidence cfg env i g d r) = rn_resumes r"
  "rn_trace (recordGateEvidence cfg env i g d r) = rn_trace r"
  by (simp_all add: recordGateEvidence_def Let_def run_simps)

lemma recordAdvance_sel [run_simps]:
  "rn_queue (recordAdvance env i r) = rn_queue r" "rn_evidence (recordAdvance env i r) = rn_evidence r"
  "rn_stopReason (recordAdvance env i r) = rn_stopReason r" "rn_stopOutcome (recordAdvance env i r) = rn_stopOutcome r"
  "rn_attempts (recordAdvance env i r) = rn_attempts r" "rn_resumes (recordAdvance env i r) = rn_resumes r"
  "rn_trace (recordAdvance env i r) = rn_trace r"
  by (simp_all add: recordAdvance_def Let_def run_simps split: prod.split option.split)

lemma captureFailure_sel [run_simps]:
  "rn_queue (snd (captureFailure cfg env t n x r)) = rn_queue r"
  "rn_evidence (snd (captureFailure cfg env t n x r)) = rn_evidence r"
  "rn_fence (snd (captureFailure cfg env t n x r)) = rn_fence r"
  "rn_stopReason (snd (captureFailure cfg env t n x r)) = rn_stopReason r"
  "rn_stopOutcome (snd (captureFailure cfg env t n x r)) = rn_stopOutcome r"
  "rn_attempts (snd (captureFailure cfg env t n x r)) = rn_attempts r"
  "rn_resumes (snd (captureFailure cfg env t n x r)) = rn_resumes r"
  "rn_trace (snd (captureFailure cfg env t n x r)) = rn_trace r"
  by (simp_all add: captureFailure_def Let_def run_simps split: option.split)

text \<open>The step relation of a drive: what the four ways a drive ends have in common.\<close>

lemma succeed_effect:
  "succeed cfg env i v n r = (stop, r') \<Longrightarrow>
   \<not> stop \<and> rn_queue r' = attempt_outcome ok_attempt (rn_queue r) i \<and> rn_trace r' = rn_trace r \<and>
   rn_attempts r' = rn_attempts r \<and> rn_resumes r' = rn_resumes r \<and> rn_stopReason r' = rn_stopReason r \<and>
   rn_stopOutcome r' = rn_stopOutcome r"
  by (auto simp: succeed_def Let_def run_simps attempt_outcome_def)

lemma driveAgain_effect:
  assumes "driveAgain cfg env i v r = (stop, r')"
  shows "\<not> stop \<and> rn_queue r' =
     resume_outcome (\<lambda>bgt. ''did not converge within its '' @ Itoa bgt @ '' resume(s): '' @ v_reason v) (rn_queue r) i \<and>
   rn_trace r' = rn_trace r \<and> rn_attempts r' = rn_attempts r \<and> rn_resumes r' = rn_resumes r + 1 \<and>
   rn_stopReason r' = rn_stopReason r \<and> rn_stopOutcome r' = rn_stopOutcome r"
  using assms by (auto simp: driveAgain_def Let_def run_simps resume_outcome_def split: prod.splits if_splits)

lemma stopOnHumanBoundary_effect:
  "stopOnHumanBoundary cfg env i v n x r = (stop, r') \<Longrightarrow>
   stop \<and> rn_queue r' = hold_outcome (v_reason v) (rn_queue r) i \<and> rn_trace r' = rn_trace r \<and>
   rn_attempts r' = rn_attempts r \<and> rn_resumes r' = rn_resumes r \<and> rn_stopReason r' \<noteq> [] \<and>
   rn_stopOutcome r' = (if v_class v = FailureAuth then RunAwaitingAuth else RunBlockedHuman)"
  by (cases "captureFailure cfg env (t_id (q_task (task_at (rn_queue r) i))) n x r")
    (use captureFailure_sel [of cfg env "t_id (q_task (task_at (rn_queue r) i))" n x r] in
      \<open>auto simp: stopOnHumanBoundary_def Let_def run_simps hold_outcome_def\<close>)

lemma fail_attempt_effect:
  assumes "fail_attempt cfg env i v n x r = (stop, r')"
  shows "\<exists>a. \<not> a_succeeded a \<and> a_class a = v_class v \<and> rn_queue r' = attempt_outcome a (rn_queue r) i \<and>
   rn_trace r' = rn_trace r \<and> rn_attempts r' = rn_attempts r \<and> rn_resumes r' = rn_resumes r \<and>
   stop = pol_stopsRun (PolicyFor (v_class v)) \<and> (stop \<longrightarrow> rn_stopReason r' \<noteq> []) \<and>
   (\<not> stop \<longrightarrow> rn_stopReason r' = rn_stopReason r) \<and> rn_stopOutcome r' = rn_stopOutcome r"
proof -
  let ?a = "\<lparr>a_number = 0, a_succeeded = False, a_class = v_class v, a_reason = v_reason v,
    a_output = truncate (Redact x)\<rparr>"
  obtain path r1 where c: "captureFailure cfg env (t_id (q_task (task_at (rn_queue r) i))) n x r = (path, r1)"
    by fastforce
  then have r1: "rn_queue r1 = rn_queue r" "rn_trace r1 = rn_trace r" "rn_attempts r1 = rn_attempts r"
    "rn_resumes r1 = rn_resumes r" "rn_stopReason r1 = rn_stopReason r" "rn_stopOutcome r1 = rn_stopOutcome r"
    using captureFailure_sel [of cfg env "t_id (q_task (task_at (rn_queue r) i))" n x r] by simp_all
  obtain q2 d w where a: "RecordAttempt (rn_queue r) i ?a = (q2, d, w)"
    by (metis prod_cases3)
  show ?thesis
    using assms r1 a by (intro exI [of _ ?a])
      (auto simp: fail_attempt_def c Let_def run_simps attempt_outcome_def split: if_splits)
qed

lemma conclude_effect:
  assumes c: "conclude cfg env i v n x r = (stop, r')"
  shows "\<exists>f\<in>queue_outcomes. rn_queue r' = f (rn_queue r) i"
    and "rn_trace r' = rn_trace r" and "rn_attempts r' = rn_attempts r"
    and "rn_resumes r' = rn_resumes r + (if Resumable (v_disposition v) then 1 else 0)"
    and "stop \<Longrightarrow> rn_stopReason r' \<noteq> []" and "\<not> stop \<Longrightarrow> rn_stopReason r' = rn_stopReason r"
    and "rn_stopOutcome r \<noteq> RunCompleted \<Longrightarrow> rn_stopOutcome r' \<noteq> RunCompleted"
proof -
  have kinds: "attempt_outcome a \<in> queue_outcomes" "resume_outcome b \<in> queue_outcomes"
    "hold_outcome h \<in> queue_outcomes" for a b h
    by (simp_all add: queue_outcomes_def)
  have "(\<exists>f\<in>queue_outcomes. rn_queue r' = f (rn_queue r) i) \<and> rn_trace r' = rn_trace r \<and>
      rn_attempts r' = rn_attempts r \<and>
      rn_resumes r' = rn_resumes r + (if Resumable (v_disposition v) then 1 else 0) \<and>
      (if stop then rn_stopReason r' \<noteq> [] else rn_stopReason r' = rn_stopReason r) \<and>
      (rn_stopOutcome r \<noteq> RunCompleted \<longrightarrow> rn_stopOutcome r' \<noteq> RunCompleted)"
  proof (cases "v_disposition v")
    case DispositionSucceeded
    then show ?thesis
      using c succeed_effect [of cfg env i v n r stop r'] kinds(1) by (auto simp: conclude_def Resumable_def)
  next
    case DispositionHumanBlocked
    then show ?thesis
      using c stopOnHumanBoundary_effect [of cfg env i v n x r stop r'] kinds(3)
      by (auto simp: conclude_def Resumable_def)
  next
    case DispositionRetry
    then show ?thesis
      using c fail_attempt_effect [of cfg env i v n x r stop r'] kinds(1) by (auto simp: conclude_def Resumable_def)
  next
    case DispositionFailSafe
    then show ?thesis
      using c fail_attempt_effect [of cfg env i v n x r stop r'] kinds(1) by (auto simp: conclude_def Resumable_def)
  qed (use c driveAgain_effect [of cfg env i v r stop r'] kinds(2) in \<open>auto simp: conclude_def Resumable_def\<close>)
  then show "\<exists>f\<in>queue_outcomes. rn_queue r' = f (rn_queue r) i" "rn_trace r' = rn_trace r"
    "rn_attempts r' = rn_attempts r" "rn_resumes r' = rn_resumes r + (if Resumable (v_disposition v) then 1 else 0)"
    "stop \<Longrightarrow> rn_stopReason r' \<noteq> []" "\<not> stop \<Longrightarrow> rn_stopReason r' = rn_stopReason r"
    "rn_stopOutcome r \<noteq> RunCompleted \<Longrightarrow> rn_stopOutcome r' \<noteq> RunCompleted"
    by auto
qed

lemma drive_effect:
  assumes "drive cfg env i r = (stop, r')"
  shows "\<exists>f exec. f \<in> queue_outcomes \<and> rn_queue r' = f (rn_queue r) i \<and>
    rn_trace r' = rn_trace r @ [Drove i exec] \<and>
    rn_attempts r' + rn_resumes r' = rn_attempts r + rn_resumes r + 1 \<and>
    (stop \<longrightarrow> rn_stopReason r' \<noteq> []) \<and> (\<not> stop \<longrightarrow> rn_stopReason r' = rn_stopReason r) \<and>
    (rn_stopOutcome r \<noteq> RunCompleted \<longrightarrow> rn_stopOutcome r' \<noteq> RunCompleted)"
proof -
  define t where "t = q_task (task_at (rn_queue r) i)"
  define exec where "exec = observe cfg env (Suc (rn_tick r)) t"
  define v where "v = InterpretExecution (e_compile env) exec (sp_classification (rc_spec cfg))"
  define n where "n = AttemptCount (task_at (rn_queue r) i) + 1"
  obtain r3 where r3: "rn_queue r3 = rn_queue r" "rn_trace r3 = rn_trace r @ [Drove i exec]"
    "rn_resumes r3 = rn_resumes r" "rn_stopReason r3 = rn_stopReason r" "rn_stopOutcome r3 = rn_stopOutcome r"
    "rn_attempts r3 = (if Resumable (v_disposition v) then rn_attempts r else rn_attempts r + 1)"
    and d: "conclude cfg env i v n (ex_text exec) r3 = (stop, r')"
  proof -
    let ?rec = "(new_record RecordTaskStarted)\<lparr>r_taskID := t_id t, r_attempt := n, r_detail := Join (t_argv t) '' ''\<rparr>"
    let ?r2 = "advance_tick ((log_record env ?rec r)\<lparr>rn_trace := rn_trace r @ [Drove i exec]\<rparr>)"
    note defs = t_def [symmetric] n_def [symmetric] exec_def [symmetric] v_def [symmetric]
    show thesis
    proof (cases "Resumable (v_disposition v)")
      case True
      then show thesis
        using assms by (intro that [of ?r2]) (simp_all add: drive_def Let_def run_simps defs)
    next
      case False
      then show thesis
        using assms by (intro that [of "?r2\<lparr>rn_attempts := rn_attempts r + 1\<rparr>"])
          (simp_all add: drive_def Let_def run_simps defs)
    qed
  qed
  obtain f where "f \<in> queue_outcomes" "rn_queue r' = f (rn_queue r) i"
    using conclude_effect(1) [OF d] r3 by auto
  then show ?thesis
    using conclude_effect(2-7) [OF d] r3
    by (intro exI [of _ f] exI [of _ exec]) (auto split: if_splits)
qed

text \<open>The events one call of \<^verbatim>\<open>runOne\<close> adds to the trace, and the tasks a trace shows as taken.\<close>

definition one_task :: "bool \<Rightarrow> nat \<Rightarrow> bool \<Rightarrow> run_event list \<Rightarrow> bool" where
  "one_task mutates i stop tr =
     (if mutates then
        (\<exists>res exec. Intact res \<and> tr = [FenceChecked i res, Drove i exec]) \<or>
        (\<exists>res. \<not> Intact res \<and> stop \<and> tr = [FenceChecked i res])
      else \<exists>exec. tr = [Drove i exec])"

fun drives :: "run_event list \<Rightarrow> nat list" where
  "drives [] = []"
| "drives (Drove i e # tr) = i # drives tr"
| "drives (FenceChecked i res # tr) = drives tr"

lemma drives_append [simp]: "drives (xs @ ys) = drives xs @ drives ys"
  by (induction xs rule: drives.induct) auto

lemma runOne_effect:
  assumes "runOne cfg env i r = (stop, r')"
  shows "\<exists>f tr. f \<in> queue_outcomes \<and> rn_queue r' = f (rn_queue r) i \<and> rn_trace r' = rn_trace r @ tr \<and>
    one_task (t_mutates (q_task (task_at (rn_queue r) i))) i stop tr \<and>
    rn_attempts r' + rn_resumes r' = rn_attempts r + rn_resumes r + int (length (drives tr)) \<and>
    (stop \<longrightarrow> rn_stopReason r' \<noteq> []) \<and> (\<not> stop \<longrightarrow> rn_stopReason r' = rn_stopReason r) \<and>
    (rn_stopOutcome r \<noteq> RunCompleted \<longrightarrow> rn_stopOutcome r' \<noteq> RunCompleted)"
proof -
  let ?r1 = "publish cfg env ''running'' (Some i) r" and ?t = "q_task (task_at (rn_queue r) i)"
  let ?res = "Fence_Check (rn_fence ?r1) (e_owner env (rn_tick ?r1)) (e_repo env (rn_tick ?r1))"
  consider (plain) "\<not> t_mutates ?t" | (moved) "t_mutates ?t" "\<not> Intact ?res" | (held) "t_mutates ?t" "Intact ?res"
    by blast
  then show ?thesis
  proof cases
    case plain
    then have "drive cfg env i ?r1 = (stop, r')"
      using assms by (simp add: runOne_def Let_def run_simps)
    from drive_effect [OF this] plain show ?thesis
      by (fastforce simp: run_simps one_task_def)
  next
    case moved
    let ?why = "''the repository moved outside this run: '' @ FenceStatus_text (fr_status ?res)"
    have "hold_outcome ?why \<in> queue_outcomes"
      by (simp add: queue_outcomes_def)
    moreover have "rn_queue r' = hold_outcome ?why (rn_queue r) i" "stop" "rn_stopReason r' \<noteq> []"
      "rn_trace r' = rn_trace r @ [FenceChecked i ?res]" "rn_attempts r' = rn_attempts r" "rn_resumes r' = rn_resumes r"
      "rn_stopOutcome r' = rn_stopOutcome r"
      using assms moved by (auto simp: runOne_def Let_def run_simps hold_outcome_def fence_error_text_def)
    ultimately show ?thesis
      using moved by (intro exI [of _ "hold_outcome ?why"] exI [of _ "[FenceChecked i ?res]"]) (auto simp: one_task_def)
  next
    case held
    let ?r2 = "log_record env ((new_record RecordFenceVerified)\<lparr>r_taskID := t_id ?t, r_detail := fr_expected ?res\<rparr>)
      (advance_tick (?r1\<lparr>rn_trace := rn_trace r @ [FenceChecked i ?res]\<rparr>))"
    have "drive cfg env i ?r2 = (stop, r')"
      using assms held by (simp add: runOne_def Let_def run_simps)
    from drive_effect [OF this] obtain f exec where f: "f \<in> queue_outcomes" "rn_queue r' = f (rn_queue r) i"
      "rn_trace r' = rn_trace r @ [FenceChecked i ?res, Drove i exec]"
      "rn_attempts r' + rn_resumes r' = rn_attempts r + rn_resumes r + 1"
      "stop \<longrightarrow> rn_stopReason r' \<noteq> []" "\<not> stop \<longrightarrow> rn_stopReason r' = rn_stopReason r"
      "rn_stopOutcome r \<noteq> RunCompleted \<longrightarrow> rn_stopOutcome r' \<noteq> RunCompleted"
      by (auto simp: run_simps)
    then show ?thesis
      using held by (intro exI [of _ f] exI [of _ "[FenceChecked i ?res, Drove i exec]"]) (auto simp: one_task_def)
  qed
qed

section \<open>The loop\<close>

text \<open>A trace under the fence: a task that mutates is driven only directly after an intact check for it,
  and a check that is not intact is the last event.\<close>

fun fenced :: "(nat \<Rightarrow> bool) \<Rightarrow> run_event list \<Rightarrow> bool" where
  "fenced m [] = True"
| "fenced m (Drove i e # tr) = (\<not> m i \<and> fenced m tr)"
| "fenced m [FenceChecked i res] = (m i \<and> \<not> Intact res)"
| "fenced m (FenceChecked i res # Drove j e # tr) = (m i \<and> Intact res \<and> i = j \<and> fenced m tr)"
| "fenced m (FenceChecked i res # FenceChecked j res' # tr) = False"

text \<open>The tasks taken from the queue: those driven, and the one a violated fence held.\<close>

fun taken :: "run_event list \<Rightarrow> nat list" where
  "taken [] = []"
| "taken (Drove i e # tr) = i # taken tr"
| "taken (FenceChecked i res # tr) = (if Intact res then taken tr else i # taken tr)"

lemma one_task_taken: "one_task m i stop tr \<Longrightarrow> taken (tr @ tr') = i # taken tr'"
  by (auto simp: one_task_def split: if_splits)

lemma one_task_fenced:
  "one_task (m i) i stop tr \<Longrightarrow> fenced m tr' \<Longrightarrow> (stop \<Longrightarrow> tr' = []) \<Longrightarrow> fenced m (tr @ tr')"
  by (auto simp: one_task_def split: if_splits)

lemma set_drives_taken: "set (drives tr) \<subseteq> set (taken tr)"
  by (induction tr rule: drives.induct) auto

lemma length_drives_taken: "length (drives tr) \<le> length (taken tr)"
  by (induction tr rule: drives.induct) auto

definition mutates_at :: "Queue \<Rightarrow> nat \<Rightarrow> bool" where
  "mutates_at q i = t_mutates (queue_plan q ! i)"

text \<open>The loop refines draining the queue: it is one sequence of outcomes of the scheduler, with the
  trace and the counts to match, and without a stop it ends only when nothing is offered.\<close>

lemma run_loop_drain:
  assumes "run_loop cfg env r = Some r'"
  shows "queue_inv (rn_queue r) \<longrightarrow> (\<exists>fs is tr. set fs \<subseteq> queue_outcomes \<and>
     drain Next fs (rn_queue r) = (is, rn_queue r') \<and> rn_trace r' = rn_trace r @ tr \<and> taken tr = is \<and>
     fenced (mutates_at (rn_queue r)) tr \<and>
     rn_attempts r' + rn_resumes r' = rn_attempts r + rn_resumes r + int (length (drives tr)) \<and>
     (rn_stopReason r' = [] \<longrightarrow> Next (rn_queue r') = None) \<and>
     (rn_stopOutcome r \<noteq> RunCompleted \<longrightarrow> rn_stopOutcome r' \<noteq> RunCompleted))"
  using assms
proof (induction rule: run_loop.raw_induct [rotated, consumes 1])
  case (1 loop cfg env r r')
  note IH = 1(1) and body = 1(2)
  show ?case
  proof
    assume inv: "queue_inv (rn_queue r)"
    show "\<exists>fs is tr. set fs \<subseteq> queue_outcomes \<and> drain Next fs (rn_queue r) = (is, rn_queue r') \<and>
       rn_trace r' = rn_trace r @ tr \<and> taken tr = is \<and> fenced (mutates_at (rn_queue r)) tr \<and>
       rn_attempts r' + rn_resumes r' = rn_attempts r + rn_resumes r + int (length (drives tr)) \<and>
       (rn_stopReason r' = [] \<longrightarrow> Next (rn_queue r') = None) \<and>
       (rn_stopOutcome r \<noteq> RunCompleted \<longrightarrow> rn_stopOutcome r' \<noteq> RunCompleted)"
    proof (cases "e_ctxErr env (rn_tick r) = None \<and> Next (rn_queue r) \<noteq> None")
      case False
      then have "rn_queue r' = rn_queue r \<and> rn_trace r' = rn_trace r \<and> rn_attempts r' = rn_attempts r \<and>
          rn_resumes r' = rn_resumes r \<and> (rn_stopReason r' = [] \<longrightarrow> Next (rn_queue r') = None) \<and>
          rn_stopOutcome r' = rn_stopOutcome r"
        using body by (auto split: option.splits)
      then show ?thesis
        by (intro exI [of _ "[]"]) auto
    next
      case True
      then obtain i where i: "Next (rn_queue r) = Some i" and ctx: "e_ctxErr env (rn_tick r) = None"
        by auto
      obtain stop r1 where one: "runOne cfg env i (advance_tick r) = (stop, r1)"
        by fastforce
      obtain f tr where f: "f \<in> queue_outcomes" "rn_queue r1 = f (rn_queue r) i" "rn_trace r1 = rn_trace r @ tr"
        "one_task (t_mutates (q_task (task_at (rn_queue r) i))) i stop tr"
        "rn_attempts r1 + rn_resumes r1 = rn_attempts r + rn_resumes r + int (length (drives tr))"
        "stop \<longrightarrow> rn_stopReason r1 \<noteq> []" "rn_stopOutcome r \<noteq> RunCompleted \<longrightarrow> rn_stopOutcome r1 \<noteq> RunCompleted"
        using runOne_effect [OF one] by (auto simp: run_simps)
      have "t_mutates (q_task (task_at (rn_queue r) i)) = mutates_at (rn_queue r) i"
        using Next_pending [OF i] by (simp add: mutates_at_def queue_plan_def)
      then have block: "one_task (mutates_at (rn_queue r) i) i stop tr"
        using f(4) by simp
      show ?thesis
      proof (cases stop)
        case True
        then have "r' = r1"
          using body i ctx one by simp
        then show ?thesis
          using f True block i one_task_taken [OF block, of "[]"] one_task_fenced [of "mutates_at (rn_queue r)" i stop tr "[]"]
          by (intro exI [of _ "[f]"] exI [of _ "[i]"] exI [of _ tr]) auto
      next
        case False
        then have loop1: "loop cfg env r1 = Some r'"
          using body i ctx one by simp
        have inv1: "queue_inv (rn_queue r1)"
          using wq.outcome_inv [OF inv i f(1)] f(2) by simp
        from IH [OF loop1] inv1 obtain fs "is" tr' where fs: "set fs \<subseteq> queue_outcomes"
          "drain Next fs (rn_queue r1) = (is, rn_queue r')" "rn_trace r' = rn_trace r1 @ tr'" "taken tr' = is"
          "fenced (mutates_at (rn_queue r1)) tr'"
          "rn_attempts r' + rn_resumes r' = rn_attempts r1 + rn_resumes r1 + int (length (drives tr'))"
          "rn_stopReason r' = [] \<longrightarrow> Next (rn_queue r') = None"
          "rn_stopOutcome r1 \<noteq> RunCompleted \<longrightarrow> rn_stopOutcome r' \<noteq> RunCompleted"
          by blast
        have "mutates_at (rn_queue r1) = mutates_at (rn_queue r)"
          using wq.outcome_plan [OF inv i f(1)] f(2) by (simp add: mutates_at_def fun_eq_iff)
        then show ?thesis
          using f fs block i False one_task_taken [OF block, of tr'] one_task_fenced [of "mutates_at (rn_queue r)" i stop tr tr']
          by (intro exI [of _ "f # fs"] exI [of _ "i # is"] exI [of _ "tr @ tr'"]) auto
      qed
    qed
  qed
qed

lemma run_loop_total: "queue_inv (rn_queue r) \<Longrightarrow> \<exists>r'. run_loop cfg env r = Some r'"
proof (induction "queue_weight (rn_queue r)" arbitrary: r rule: less_induct)
  case less
  show ?case
  proof (cases "e_ctxErr env (rn_tick r)")
    case None
    show ?thesis
    proof (cases "Next (rn_queue r)")
      case (Some i)
      obtain stop r1 where one: "runOne cfg env i (advance_tick r) = (stop, r1)"
        by fastforce
      obtain f where f: "f \<in> queue_outcomes" "rn_queue r1 = f (rn_queue r) i"
        using runOne_effect [OF one] by (auto simp: run_simps)
      have "\<exists>r'. run_loop cfg env r1 = Some r'"
        using less wq.outcome_weight [OF less.prems Some f(1)] wq.outcome_inv [OF less.prems Some f(1)] f(2) by simp
      then show ?thesis
        using None Some one by (subst run_loop.simps) auto
    qed (use None in \<open>simp add: run_loop.simps\<close>)
  qed (simp add: run_loop.simps)
qed

lemma end_run_sel:
  "fst (end_run cfg env r) = Some (finish cfg r)"
  "rn_queue (snd (snd (end_run cfg env r))) = rn_queue r" "rn_trace (snd (snd (end_run cfg env r))) = rn_trace r"
  "rn_fence (snd (snd (end_run cfg env r))) = rn_fence r" "rn_evidence (snd (snd (end_run cfg env r))) = rn_evidence r"
  "rn_attempts (snd (snd (end_run cfg env r))) = rn_attempts r" "rn_resumes (snd (snd (end_run cfg env r))) = rn_resumes r"
  by (simp_all add: end_run_def Let_def run_simps split: option.split)

text \<open>What a run that returns went through: it is refused at once, or drains the queue and finishes.\<close>

lemma Run_cases:
  assumes "Run cfg env r = Some (ev, err, r')" "queue_inv (rn_queue r)"
  obtains (refused) "ev = None" "err = Some JournalNotDurable" "rn_queue r' = rn_queue r" "rn_trace r' = rn_trace r"
      "rn_attempts r' = rn_attempts r" "rn_resumes r' = rn_resumes r"
  | (ran) r0 r2 where "run_loop cfg env r0 = Some r2" "ev = Some (finish cfg r2)"
      "rn_queue r0 = rn_queue r" "rn_trace r0 = rn_trace r" "rn_attempts r0 = rn_attempts r" "rn_resumes r0 = rn_resumes r"
      "rn_stopOutcome r0 = rn_stopOutcome r" "rn_queue r' = rn_queue r2" "rn_trace r' = rn_trace r2" "rn_fence r' = rn_fence r2" "rn_evidence r' = rn_evidence r2"
      "rn_attempts r' = rn_attempts r2" "rn_resumes r' = rn_resumes r2"
proof -
  define r1 where "r1 = log_record env (run_started cfg (rn_fence r)) r"
  define r0 where "r0 = publish cfg env ''starting'' None r1"
  have sel: "rn_queue r1 = rn_queue r" "rn_trace r1 = rn_trace r" "rn_attempts r1 = rn_attempts r"
    "rn_resumes r1 = rn_resumes r" "rn_queue r0 = rn_queue r" "rn_trace r0 = rn_trace r"
    "rn_attempts r0 = rn_attempts r" "rn_resumes r0 = rn_resumes r" "rn_stopOutcome r0 = rn_stopOutcome r"
    by (simp_all add: r1_def r0_def run_simps)
  obtain r2 where r2: "run_loop cfg env r0 = Some r2"
    using run_loop_total [of r0 cfg env] assms(2) sel by auto
  show thesis
  proof (cases "e_durable env (rn_tick r)")
    case True
    then have "end_run cfg env r2 = (ev, err, r')"
      using assms(1) r2 by (simp add: Run_def Let_def r0_def r1_def)
    then show thesis
      using sel r2 end_run_sel by (intro ran [of r0 r2]) (metis fst_conv snd_conv)+
  next
    case False
    then show thesis
      using assms(1) sel by (intro refused) (auto simp: Run_def Let_def r1_def [symmetric])
  qed
qed

lemma Run_total:
  assumes "queue_inv (rn_queue r)"
  shows "\<exists>ev err r'. Run cfg env r = Some (ev, err, r')"
proof -
  let ?r0 = "publish cfg env ''starting'' None (log_record env (run_started cfg (rn_fence r)) r)"
  have "queue_inv (rn_queue ?r0)"
    using assms by (simp add: run_simps)
  from run_loop_total [OF this] obtain r2 where "run_loop cfg env ?r0 = Some r2"
    by blast
  then show ?thesis
    by (cases "end_run cfg env r2") (auto simp: Run_def Let_def)
qed

lemma Run_drain:
  assumes "Run cfg env r = Some (ev, err, r')" "queue_inv (rn_queue r)"
  obtains fs "is" tr where "set fs \<subseteq> queue_outcomes" "drain Next fs (rn_queue r) = (is, rn_queue r')"
    "rn_trace r' = rn_trace r @ tr" "taken tr = is" "fenced (mutates_at (rn_queue r)) tr"
    "rn_attempts r' + rn_resumes r' = rn_attempts r + rn_resumes r + int (length (drives tr))"
  using assms
proof (cases rule: Run_cases)
  case refused
  then show thesis
    by (intro that [of "[]" "[]" "[]"]) auto
next
  case (ran r0 r2)
  then show thesis
    using run_loop_drain [OF ran(1)] assms(2) that by (metis (no_types, lifting))
qed

lemma run_ending_completed:
  assumes "fst (run_ending cfg r) = RunCompleted" "rn_stopReason r = [] \<or> rn_stopOutcome r \<noteq> RunCompleted"
  shows "rn_stopReason r = [] \<and> failed_ids (rn_queue r) = [] \<and> Counts (rn_queue r) TaskHeld = 0 \<and>
    pd_allowed (QADecision cfg r)"
  using assms by (auto simp: run_ending_def Let_def split: if_splits)

lemma sort_Nil_iff: "sort xs = [] \<longleftrightarrow> xs = []"
  by (metis length_0_conv length_sort)

lemma no_failed_held:
  assumes "failed_ids q = []" "Counts q TaskHeld = 0" "i < num_tasks q"
  shows "state_at q i \<noteq> TaskFailed \<and> state_at q i \<noteq> TaskHeld"
proof -
  have "task_at q i \<in> set (qu_tasks q)"
    using assms(3) by simp
  moreover have "filter (\<lambda>qt. q_state qt = TaskFailed) (qu_tasks q) = []"
    "filter (\<lambda>qt. q_state qt = TaskHeld) (qu_tasks q) = []"
    using assms(1,2) by (simp_all add: failed_ids_def Counts_def sort_Nil_iff)
  ultimately show ?thesis
    by (auto simp: filter_empty_conv)
qed

section \<open>Properties\<close>


text \<open>C6. No mutation without the fence. In every run, a task that mutates the worktree is driven only
  directly after a check that found the fence intact, and after a check that did not nothing is driven
  any more.\<close>

theorem mutations_stay_fenced:
  assumes "rn_queue r = session_queue (rc_plan cfg) b st" "Run cfg env r = Some (ev, err, r')"
  shows "\<exists>tr. rn_trace r' = rn_trace r @ tr \<and> fenced (\<lambda>i. t_mutates (p_tasks (rc_plan cfg) ! i)) tr"
proof -
  have inv: "queue_inv (rn_queue r)" and plan: "queue_plan (rn_queue r) = p_tasks (rc_plan cfg)"
    using assms session_queue_contract(1,2) by simp_all
  obtain tr where "rn_trace r' = rn_trace r @ tr" "fenced (mutates_at (rn_queue r)) tr"
    using assms(2) inv by (rule Run_drain) blast
  then show ?thesis
    by (auto simp: mutates_at_def [abs_def] plan)
qed

text \<open>C2. A completed run is a certified one. When a run of a validated plan reports completed, every
  declared task succeeded, and for every gate its risk class and its policy require the run holds evidence that
  passed, against exactly the revision the run ended at.\<close>

theorem completed_run_is_certified:
  assumes "Plan_Validate (rc_plan cfg) = []" "rn_queue r = session_queue (rc_plan cfg) b st"
    and "rn_stopOutcome r = RunOutcomeOther []" "Run cfg env r = Some (Some ev, err, r')" "ce_outcome ev = RunCompleted"
  shows "(\<forall>i<length (p_tasks (rc_plan cfg)). state_at (rn_queue r') i = TaskSucceeded) \<and>
    (\<forall>g\<in>set (RequiredGates (sp_qa (rc_spec cfg)) (p_risk (rc_plan cfg))).
       \<exists>e. rn_evidence r' g = Some e \<and> ge_result e = GatePass \<and> ge_targetSHA e = ce_head ev \<and> \<not> blank (ce_head ev))"
proof -
  have inv: "queue_inv (rn_queue r)" and plan: "queue_plan (rn_queue r) = p_tasks (rc_plan cfg)"
    using assms session_queue_contract(1,2) by simp_all
  from assms(4) inv obtain r0 r2 where r: "run_loop cfg env r0 = Some r2" "ev = finish cfg r2"
    "rn_queue r0 = rn_queue r" "rn_stopOutcome r0 = rn_stopOutcome r" "rn_queue r' = rn_queue r2"
    "rn_evidence r' = rn_evidence r2"
    by (cases rule: Run_cases) auto
  from run_loop_drain [OF r(1)] r(3) inv obtain fs "is" where fs: "set fs \<subseteq> queue_outcomes"
    "drain Next fs (rn_queue r) = (is, rn_queue r2)" "rn_stopReason r2 = [] \<longrightarrow> Next (rn_queue r2) = None"
    "rn_stopOutcome r2 \<noteq> RunCompleted"
    using assms(3) r(4) by auto
  have "fst (run_ending cfg r2) = RunCompleted"
    using assms(5) r(2) by (simp add: finish_def Let_def)
  then have fin: "rn_stopReason r2 = []" "failed_ids (rn_queue r2) = []" "Counts (rn_queue r2) TaskHeld = 0"
    "pd_allowed (QADecision cfg r2)"
    using run_ending_completed fs(4) by blast+
  have q: "queue_inv (rn_queue r2)" "queue_plan (rn_queue r2) = p_tasks (rc_plan cfg)"
    using wq.drain_inv [OF inv fs(1,2)] plan by auto
  have "state_at (rn_queue r2) i = TaskSucceeded" if "i < length (p_tasks (rc_plan cfg))" for i
  proof -
    have i: "i < num_tasks (rn_queue r2)"
      using that q(2) by (metis length_map queue_plan_def)
    have "state_at (rn_queue r2) i \<noteq> TaskPending"
      using no_pending_left [of "rn_queue r2" i] q assms(1) fs(3) fin(1) i by (simp add: queue_inv_def Plan_Validate_iff)
    then show ?thesis
      using no_failed_held [OF fin(2,3) i] by (cases "state_at (rn_queue r2) i") auto
  qed
  then show ?thesis
    using fin(4) r(2,5,6) by (auto simp: QADecision_def EvaluateProgression_allowed Certifies_iff finish_def Let_def)
qed

text \<open>A run in which every command exits zero and nothing fails, for the witnesses.\<close>

definition brief_plan :: Plan where
  "brief_plan = \<lparr>p_runID = ''run-1'', p_risk = RiskQ0, p_tasks = [sample_task\<lparr>t_band := BandValidation, t_mutates := True\<rparr>]\<rparr>"

definition sample_config :: run_config where
  "sample_config = \<lparr>rc_spec = sample_spec, rc_plan = brief_plan, rc_report = None, rc_lock = None\<rparr>"

definition sample_owner :: Owner where
  "sample_owner = (session_owner ''run-1'' RoleWriter)\<lparr>o_pid := 41, o_host := ''alpha'', o_osFamily := ''linux''\<rparr>"

definition sample_env :: run_env where
  "sample_env =
     \<lparr>e_ctxErr = (\<lambda>n. None), e_durable = (\<lambda>n. True), e_owner = (\<lambda>n. Inr (Some sample_owner)),
      e_repo = (\<lambda>n. Inr sample_repo), e_removeErr = (\<lambda>n. None), e_mkdirErr = (\<lambda>n. None),
      e_exec = (\<lambda>n t. ExecExited [] True), e_result = (\<lambda>n. Inr None), e_progressErr = (\<lambda>n. None),
      e_publishErr = (\<lambda>n. None), e_captureErr = (\<lambda>n. None), e_completionErr = (\<lambda>n. None),
      e_unmarshal = (\<lambda>x. Inl []), e_resultText = (\<lambda>e. []), e_compile = (\<lambda>p. None), e_quote = (\<lambda>x. x),
      e_duration = (\<lambda>d. [])\<rparr>"

definition sample_runner :: runner where
  "sample_runner =
     \<lparr>rn_tick = 0, rn_journal = \<lparr>j_runID = ''run-1'', j_seq = 0, j_log = []\<rparr>, rn_queue = session_queue brief_plan Map.empty None,
      rn_evidence = Map.empty, rn_fence = TakeFence sample_repo ''/w/.git'' sample_owner, rn_lastMilestone = [],
      rn_stopReason = [], rn_stopClass = FailureOther [], rn_stopOutcome = RunOutcomeOther [], rn_attempts = 0,
      rn_resumes = 0, rn_progress = [], rn_captures = [], rn_trace = []\<rparr>"

lemma sample_run:
  "map_option (\<lambda>(ev, err, r). (map_option ce_outcome ev, drives (rn_trace r)))
     (Run sample_config sample_env sample_runner) = Some (Some RunCompleted, [0])"
  by code_simp


theorem mutations_stay_fenced_witness:
  "\<exists>ev err r'. Run sample_config sample_env sample_runner = Some (ev, err, r') \<and>
     t_mutates (p_tasks brief_plan ! 0) \<and> fenced (\<lambda>i. t_mutates (p_tasks brief_plan ! i)) (rn_trace r') \<and>
     drives (rn_trace r') = [0]"
proof -
  obtain ev err r' where run: "Run sample_config sample_env sample_runner = Some (ev, err, r')"
    and d: "drives (rn_trace r') = [0]"
    using sample_run by auto
  show ?thesis
    using run d mutations_stay_fenced [OF _ run, of Map.empty None]
    by (auto simp: sample_runner_def sample_config_def brief_plan_def)
qed

theorem completed_run_is_certified_witness:
  "\<exists>ev err r'. Run sample_config sample_env sample_runner = Some (Some ev, err, r') \<and>
     state_at (rn_queue r') 0 = TaskSucceeded"
proof -
  obtain ev err r' where run: "Run sample_config sample_env sample_runner = Some (Some ev, err, r')"
    and o: "ce_outcome ev = RunCompleted"
    using sample_run by auto
  have "Plan_Validate (rc_plan sample_config) = []"
    by code_simp
  then have "state_at (rn_queue r') 0 = TaskSucceeded"
    using completed_run_is_certified [OF _ _ _ run o, of Map.empty None]
    by (simp add: sample_runner_def sample_config_def brief_plan_def)
  with run show ?thesis
    by blast
qed

end
