(* ===== verification/Session.thy ===== *)
theory Session
  imports Runner
begin

text \<open>
  The start of a session (\<^verbatim>\<open>internal/unattended/session.go\<close>): the order in which a run is validated,
  its history read, its readiness decided, the worktree claimed, fenced, the journal opened and the queue
  built; and its end.

  \<open>Begin\<close> takes what the machine answers (\<open>begin_env\<close>) and the state of the worktree's lock directory, and
  returns a session or the error that refused it, with what it left behind (\<open>begin_effects\<close>): the lock
  directory, the records it made durable, and the report it wrote. The journal is read twice, before preflight and
  when it is opened, and may have changed in between; both readings are arguments. The deferred release of
  the lock is the last step of every refusal after the claim.
\<close>

section \<open>Data\<close>

datatype session_error =
    SpecInvalid "spec_problem list"
  | PlanInvalid "plan_problem list"
  | RulesInvalid "rule_problem list"
  | QAPacketInvalid "qa_problem list"
  | JournalRefused journal_error
  | ErrRunAlreadyCompleted string RunOutcome string
  | ErrNotReady "Check list"
  | LockRefused lock_error
  | AppendFailed

record begin_env =
  bg_compile :: compiler
  bg_dec :: "string \<Rightarrow> Record option"
  bg_file :: jfile
  bg_world :: world
  bg_proc :: Proc
  bg_lockIO :: lock_io
  bg_fileAtOpen :: jfile
  bg_openErr :: "string option"
  bg_durable :: "nat \<Rightarrow> bool"
  bg_releaseIO :: lock_io

record begin_effects =
  be_dir :: LockDir
  be_appended :: "Record list"
  be_report :: "Report option"

record Session =
  ss_config :: run_config
  ss_lock :: Lock
  ss_runner :: runner
  ss_resumed :: bool
  ss_truncatedTail :: bool

section \<open>Operations\<close>

fun Readiness_text :: "Readiness \<Rightarrow> string" where
  "Readiness_text Ready = ''READY''"
| "Readiness_text ReadyWithKnownHumanBoundary = ''READY-WITH-KNOWN-HUMAN-BOUNDARY''"
| "Readiness_text NotReady = ''NOT-READY''"

text \<open>A sequence of \<^verbatim>\<open>Append\<close> calls, each of which returns from the function on an error.\<close>

fun append_all :: "(nat \<Rightarrow> bool) \<Rightarrow> nat \<Rightarrow> Journal \<Rightarrow> Record list \<Rightarrow> bool \<times> Journal" where
  "append_all durable n j [] = (True, j)"
| "append_all durable n j (r # rs) =
     (let j' = fst (Append (durable n) j r)
      in if durable n then append_all durable (Suc n) j' rs else (False, j'))"

definition session_claim :: "Spec \<Rightarrow> Plan \<Rightarrow> Report \<Rightarrow> Owner" where
  "session_claim spec plan rep =
     \<lparr>o_runID = p_runID plan, o_projectID = sp_projectID spec, o_session = ow_session (sp_ownership spec),
      o_worktree = rp_root (rep_repo rep), o_role = ow_role (sp_ownership spec), o_pid = 0, o_host = [],
      o_osFamily = [], o_displaced = None\<rparr>"

definition opening_records :: "Spec \<Rightarrow> Report \<Rightarrow> Owner \<Rightarrow> Fence \<Rightarrow> bool \<Rightarrow> Record list" where
  "opening_records spec rep owner f truncated =
     [(new_record RecordLockAcquired)
        \<lparr>r_detail := ''role='' @ Role_text (ow_role (sp_ownership spec)) @ '' worktree='' @ rp_root (rep_repo rep) @
           '' pid='' @ Itoa (o_pid owner)\<rparr>,
      (new_record RecordFenceTaken)\<lparr>r_detail := f_branch f @ ''@'' @ shortSHA (f_head f)\<rparr>,
      (new_record RecordPreflight)
        \<lparr>r_outcome := Readiness_text (rep_readiness rep),
         r_detail := Itoa (int (length (rep_checks rep))) @ '' checks, '' @
           Itoa (int (length (remdups (map c_id (Boundaries (rep_checks rep)))))) @ '' boundaries''\<rparr>] @
     (if truncated then
        [(new_record RecordPreflight)
           \<lparr>r_outcome := ''resumed-after-interruption'',
            r_detail := ''the previous run died between writing and syncing its last record; that record was never durable and is not replayed''\<rparr>]
      else [])"

text \<open>Whether this run has been here before.\<close>

definition resumed_run :: "ResumeState \<Rightarrow> bool" where
  "resumed_run st = (rs_lastSeq st > 0 \<and> (rs_succeeded st \<noteq> {} \<or> rs_attempts st \<noteq> Map.empty))"

definition new_runner :: "Journal \<Rightarrow> Queue \<Rightarrow> Fence \<Rightarrow> ledger \<Rightarrow> runner" where
  "new_runner j q f evidence =
     \<lparr>rn_tick = 0, rn_journal = j, rn_queue = q, rn_evidence = evidence, rn_fence = f, rn_lastMilestone = [],
      rn_stopReason = [], rn_stopClass = FailureOther [], rn_stopOutcome = RunOutcomeOther [], rn_attempts = 0,
      rn_resumes = 0, rn_progress = [], rn_captures = [], rn_trace = []\<rparr>"

text \<open>The part of \<^verbatim>\<open>Begin\<close> after the claim: an error, or the session, with the records it made durable.\<close>

definition open_session ::
  "begin_env \<Rightarrow> Spec \<Rightarrow> Plan \<Rightarrow> Report \<Rightarrow> ResumeState \<Rightarrow> bool \<Rightarrow> Lock \<Rightarrow> (session_error + Session) \<times> Record list" where
  "open_session b spec plan rep resume truncated lock =
     (let fence = TakeFence (rep_repo rep) (WriterLockDir (rep_repo rep)) (lk_owner lock) in
      case OpenJournal (bg_dec b) (bg_fileAtOpen b) (p_runID plan) (bg_openErr b) of
        Inl e \<Rightarrow> (Inl (JournalRefused e), [])
      | Inr j \<Rightarrow>
          let resumed = resumed_run resume;
              q = session_queue plan (Report_Boundaries rep) (if resumed then Some resume else None);
              (ok, j') = append_all (bg_durable b) 0 j (opening_records spec rep (lk_owner lock) fence truncated);
              appended = drop (length (j_log j)) (j_log j')
          in if \<not> ok then (Inl AppendFailed, appended)
             else (Inr \<lparr>ss_config = \<lparr>rc_spec = spec, rc_plan = plan, rc_report = Some rep,
                                     rc_lock = Some (lk_owner lock)\<rparr>,
                        ss_lock = lock, ss_runner = new_runner j' q fence (rs_gates resume),
                        ss_resumed = resumed, ss_truncatedTail = truncated\<rparr>, appended))"

text \<open>The part after the verdict permits the run.\<close>

definition claim_session ::
  "begin_env \<Rightarrow> Spec \<Rightarrow> Plan \<Rightarrow> Report \<Rightarrow> ResumeState \<Rightarrow> bool \<Rightarrow> LockDir \<Rightarrow> (session_error + Session) \<times> begin_effects" where
  "claim_session b spec plan rep resume truncated d =
     (case Acquire (bg_lockIO b) (bg_proc b) (session_claim spec plan rep) d of
        (Inl e, d1) \<Rightarrow> (Inl (LockRefused e), \<lparr>be_dir = d1, be_appended = [], be_report = Some rep\<rparr>)
      | (Inr lock, d1) \<Rightarrow>
          (case open_session b spec plan rep resume truncated lock of
             (Inr s, recs) \<Rightarrow> (Inr s, \<lparr>be_dir = d1, be_appended = recs, be_report = Some rep\<rparr>)
           | (Inl e, recs) \<Rightarrow>
               (Inl e, \<lparr>be_dir = snd (snd (Release (bg_releaseIO b) lock d1)), be_appended = recs,
                        be_report = Some rep\<rparr>)))"

text \<open>The part after the validations.\<close>

definition start_session ::
  "begin_env \<Rightarrow> Spec \<Rightarrow> Plan \<Rightarrow> LockDir \<Rightarrow> (session_error + Session) \<times> begin_effects" where
  "start_session b spec plan d =
     (let untouched = \<lparr>be_dir = d, be_appended = [], be_report = None\<rparr> in
      case ReadJournal (bg_dec b) (bg_file b) of
        Inl e \<Rightarrow> (Inl (JournalRefused e), untouched)
      | Inr (records, truncated) \<Rightarrow>
          let resume = Replay records (p_runID plan) in
          if rs_finished resume \<and> rs_finalOutcome resume = RunCompleted then
            (Inl (ErrRunAlreadyCompleted (p_runID plan) (rs_finalOutcome resume)
               (stateDirPath (sp_stateDir spec) ''run-journal.jsonl'')), untouched)
          else
            let rep = Preflight (bg_world b) spec (Some plan) in
            if \<not> Report_PermitsUnattendedRun rep then
              (Inl (ErrNotReady (Report_Blocking rep)), untouched\<lparr>be_report := Some rep\<rparr>)
            else claim_session b spec plan rep resume truncated d)"

definition Begin ::
  "begin_env \<Rightarrow> Spec \<Rightarrow> Plan \<Rightarrow> LockDir \<Rightarrow> (session_error + Session) \<times> begin_effects" where
  "Begin b spec plan d =
     (let untouched = \<lparr>be_dir = d, be_appended = [], be_report = None\<rparr> in
      if Spec_Validate spec \<noteq> [] then (Inl (SpecInvalid (Spec_Validate spec)), untouched)
      else if Plan_Validate plan \<noteq> [] then (Inl (PlanInvalid (Plan_Validate plan)), untouched)
      else if ValidateClassificationRules (bg_compile b) (sp_classification spec) \<noteq> [] then
        (Inl (RulesInvalid (ValidateClassificationRules (bg_compile b) (sp_classification spec))), untouched)
      else if ValidateQAPacket (sp_qa spec) plan \<noteq> [] then
        (Inl (QAPacketInvalid (ValidateQAPacket (sp_qa spec) plan)), untouched)
      else start_session b spec plan d)"

text \<open>\<^verbatim>\<open>Close\<close>: the first error, and the lock released whatever closing the journal said.\<close>

definition Close :: "string option \<Rightarrow> lock_io \<Rightarrow> Session \<Rightarrow> LockDir \<Rightarrow> (string + lock_error) option \<times> LockDir" where
  "Close journalErr io s d =
     (case Release io (ss_lock s) d of
        (err, l', d') \<Rightarrow>
          (case journalErr of Some e \<Rightarrow> Some (Inl e) | None \<Rightarrow> map_option Inr err, d'))"

section \<open>Lemmas\<close>

lemma append_all_log:
  "append_all durable n j rs = (ok, j') \<Longrightarrow>
   j_runID j' = j_runID j \<and> (\<exists>ss. j_log j' = j_log j @ ss \<and> length ss \<le> length rs)"
proof (induction rs arbitrary: n j)
  case (Cons r rs)
  show ?case
  proof (cases "durable n")
    case True
    then obtain ss where "j_runID j' = j_runID j \<and> j_log j' = j_log (fst (Append True j r)) @ ss \<and> length ss \<le> length rs"
      using Cons.IH [of "Suc n" "fst (Append True j r)"] Cons.prems by (auto simp: Append_def Let_def)
    then show ?thesis
      by (auto simp: Append_def Let_def)
  next
    case False
    then show ?thesis
      using Cons.prems by (auto simp: Append_def Let_def)
  qed
qed simp

text \<open>What a session that began went through.\<close>

lemma Begin_success:
  assumes "Begin b spec plan d = (Inr s, eff)"
  obtains records truncated rep j j' where "Spec_Validate spec = []" "Plan_Validate plan = []"
    "ValidateQAPacket (sp_qa spec) plan = []" "ReadJournal (bg_dec b) (bg_file b) = Inr (records, truncated)"
    "\<not> (rs_finished (Replay records (p_runID plan)) \<and> rs_finalOutcome (Replay records (p_runID plan)) = RunCompleted)"
    "rep = Preflight (bg_world b) spec (Some plan)" "Report_PermitsUnattendedRun rep"
    "Acquire (bg_lockIO b) (bg_proc b) (session_claim spec plan rep) d = (Inr (ss_lock s), be_dir eff)"
    "OpenJournal (bg_dec b) (bg_fileAtOpen b) (p_runID plan) (bg_openErr b) = Inr j"
    "append_all (bg_durable b) 0 j (opening_records spec rep (lk_owner (ss_lock s)) (rn_fence (ss_runner s)) truncated) = (True, j')"
    "ss_config s = \<lparr>rc_spec = spec, rc_plan = plan, rc_report = Some rep, rc_lock = Some (lk_owner (ss_lock s))\<rparr>"
    "ss_runner s = new_runner j'
       (session_queue plan (Report_Boundaries rep)
          (if resumed_run (Replay records (p_runID plan)) then Some (Replay records (p_runID plan)) else None))
       (TakeFence (rep_repo rep) (WriterLockDir (rep_repo rep)) (lk_owner (ss_lock s)))
       (rs_gates (Replay records (p_runID plan)))"
proof -
  define rep where "rep = Preflight (bg_world b) spec (Some plan)"
  have valid: "Spec_Validate spec = []" "Plan_Validate plan = []" "ValidateQAPacket (sp_qa spec) plan = []"
    and start: "start_session b spec plan d = (Inr s, eff)"
    using assms by (auto simp: Begin_def Let_def split: if_splits)
  from start obtain records truncated where read: "ReadJournal (bg_dec b) (bg_file b) = Inr (records, truncated)"
    and open': "\<not> (rs_finished (Replay records (p_runID plan)) \<and> rs_finalOutcome (Replay records (p_runID plan)) = RunCompleted)"
    and ready: "Report_PermitsUnattendedRun rep"
    and claim: "claim_session b spec plan rep (Replay records (p_runID plan)) truncated d = (Inr s, eff)"
    by (auto simp: start_session_def Let_def rep_def split: sum.splits prod.splits if_splits)
  from claim obtain lock recs where acq: "Acquire (bg_lockIO b) (bg_proc b) (session_claim spec plan rep) d = (Inr lock, be_dir eff)"
    and opened: "open_session b spec plan rep (Replay records (p_runID plan)) truncated lock = (Inr s, recs)"
    by (auto simp: claim_session_def split: sum.splits prod.splits)
  from opened obtain j where j: "OpenJournal (bg_dec b) (bg_fileAtOpen b) (p_runID plan) (bg_openErr b) = Inr j"
    by (auto simp: open_session_def Let_def split: sum.splits)
  obtain ok j' where all: "append_all (bg_durable b) 0 j (opening_records spec rep (lk_owner lock)
      (TakeFence (rep_repo rep) (WriterLockDir (rep_repo rep)) (lk_owner lock)) truncated) = (ok, j')"
    by fastforce
  have s: "ok" "ss_lock s = lock" "ss_config s = \<lparr>rc_spec = spec, rc_plan = plan, rc_report = Some rep, rc_lock = Some (lk_owner lock)\<rparr>"
    "ss_runner s = new_runner j' (session_queue plan (Report_Boundaries rep)
        (if resumed_run (Replay records (p_runID plan)) then Some (Replay records (p_runID plan)) else None))
      (TakeFence (rep_repo rep) (WriterLockDir (rep_repo rep)) (lk_owner lock)) (rs_gates (Replay records (p_runID plan)))"
    using opened j all by (auto simp: open_session_def Let_def split: if_splits)
  then have "rn_fence (ss_runner s) = TakeFence (rep_repo rep) (WriterLockDir (rep_repo rep)) (lk_owner lock)"
    by (simp add: new_runner_def)
  with s all show thesis
    by (intro that [OF valid read open' rep_def ready, of j j']) (simp_all add: acq j)
qed

text \<open>What a claim that came to nothing leaves of the lock directory.\<close>

lemma claim_then_release:
  assumes "Acquire io p ow d = (Inr lock, d1)" "Release io' lock d1 = (err, lock', d2)"
  shows "ld_holders d2 = ld_holders d" and "io_remove io' = None \<Longrightarrow> ld_owner d2 = NoEvidence"
proof -
  from assms(1) obtain prev where a: "lock = \<lparr>lk_proc = p, lk_owner = claim_owner p prev ow, lk_open = True\<rparr>"
    "ld_owner d1 = Evidence (claim_owner p prev ow)" "ld_holders d1 = (p, Exclusive (o_role ow)) # ld_holders d"
    by (rule Acquire_success) auto
  then have "names_owner lock d1"
    by (simp add: names_owner_def ReadOwner_def)
  then show "ld_holders d2 = ld_holders d" "io_remove io' = None \<Longrightarrow> ld_owner d2 = NoEvidence"
    using a assms(2) by (auto simp: Release_def drop_holder_def holder_of_def Let_def split: option.splits)
qed

lemma claim_session_refused:
  assumes "claim_session b spec plan rep resume truncated d = (Inl e, eff)"
  shows "ld_holders (be_dir eff) = ld_holders d"
    and "io_remove (bg_releaseIO b) = None \<Longrightarrow> ld_owner (be_dir eff) = ld_owner d \<or> ld_owner (be_dir eff) = NoEvidence"
    and "be_appended eff \<noteq> [] \<Longrightarrow> e = AppendFailed"
    and "(\<exists>le. e = LockRefused le) \<or> (\<exists>je. e = JournalRefused je) \<or> e = AppendFailed"
proof -
  obtain r d1 where acq: "Acquire (bg_lockIO b) (bg_proc b) (session_claim spec plan rep) d = (r, d1)"
    by fastforce
  have "ld_holders (be_dir eff) = ld_holders d \<and>
    (io_remove (bg_releaseIO b) = None \<longrightarrow> ld_owner (be_dir eff) = ld_owner d \<or> ld_owner (be_dir eff) = NoEvidence) \<and>
    (be_appended eff \<noteq> [] \<longrightarrow> e = AppendFailed) \<and>
    ((\<exists>le. e = LockRefused le) \<or> (\<exists>je. e = JournalRefused je) \<or> e = AppendFailed)"
  proof (cases r)
    case (Inl le)
    then show ?thesis
      using assms acq Acquire_refused [of "bg_lockIO b" "bg_proc b" "session_claim spec plan rep" d le d1]
      by (auto simp: claim_session_def)
  next
    case (Inr lock)
    obtain recs where opened: "open_session b spec plan rep resume truncated lock = (Inl e, recs)"
      and eff: "eff = \<lparr>be_dir = snd (snd (Release (bg_releaseIO b) lock d1)), be_appended = recs, be_report = Some rep\<rparr>"
      using assms acq Inr by (auto simp: claim_session_def split: sum.splits prod.splits)
    obtain err lock' d2 where rel: "Release (bg_releaseIO b) lock d1 = (err, lock', d2)"
      by (metis prod_cases3)
    have "recs \<noteq> [] \<longrightarrow> e = AppendFailed" "(\<exists>je. e = JournalRefused je) \<or> e = AppendFailed"
      using opened by (auto simp: open_session_def Let_def split: sum.splits prod.splits if_splits)
    then show ?thesis
      using claim_then_release [of "bg_lockIO b" "bg_proc b" "session_claim spec plan rep" d lock d1 _ err lock' d2]
        acq Inr rel eff by auto
  qed
  then show "ld_holders (be_dir eff) = ld_holders d"
    "io_remove (bg_releaseIO b) = None \<Longrightarrow> ld_owner (be_dir eff) = ld_owner d \<or> ld_owner (be_dir eff) = NoEvidence"
    "be_appended eff \<noteq> [] \<Longrightarrow> e = AppendFailed"
    "(\<exists>le. e = LockRefused le) \<or> (\<exists>je. e = JournalRefused je) \<or> e = AppendFailed"
    by auto
qed

section \<open>Properties\<close>

text \<open>C32. A refused session claims nothing. Whatever refuses a session, the worktree is held by exactly
  those who held it before, and with a file system that removes files the owner evidence is the one that was there or
  none. Before the verdict permits the run the directory is not touched and nothing is journalled; records
  are left behind only when the disk failed while the session was opening.\<close>

theorem refused_session_claims_nothing:
  assumes "Begin b spec plan d = (Inl e, eff)"
  shows "ld_holders (be_dir eff) = ld_holders d \<and>
    (io_remove (bg_releaseIO b) = None \<longrightarrow> ld_owner (be_dir eff) = ld_owner d \<or> ld_owner (be_dir eff) = NoEvidence) \<and>
    (be_appended eff \<noteq> [] \<longrightarrow> e = AppendFailed) \<and>
    (be_dir eff = d \<or> (\<exists>le. e = LockRefused le) \<or> (\<exists>je. e = JournalRefused je) \<or> e = AppendFailed) \<and>
    (be_dir eff \<noteq> d \<longrightarrow> Report_PermitsUnattendedRun (Preflight (bg_world b) spec (Some plan)))"
proof (cases "\<exists>rep resume truncated. Report_PermitsUnattendedRun rep \<and> rep = Preflight (bg_world b) spec (Some plan) \<and>
    claim_session b spec plan rep resume truncated d = (Inl e, eff)")
  case True
  then obtain resume truncated where ready: "Report_PermitsUnattendedRun (Preflight (bg_world b) spec (Some plan))"
    and c: "claim_session b spec plan (Preflight (bg_world b) spec (Some plan)) resume truncated d = (Inl e, eff)"
    by blast
  from claim_session_refused [OF c] ready show ?thesis
    by blast
next
  case False
  then have "be_dir eff = d \<and> be_appended eff = []"
    using assms by (auto simp: Begin_def start_session_def Let_def split: if_splits sum.splits prod.splits)
  then show ?thesis
    by simp
qed

text \<open>A session that begins on an empty lock directory with no history, for the witnesses.\<close>

definition sample_begin :: begin_env where
  "sample_begin =
     \<lparr>bg_compile = (\<lambda>p. None), bg_dec = (\<lambda>l. None), bg_file = FileMissing, bg_world = sample_world,
      bg_proc = \<lparr>pr_pid = 41, pr_host = ''alpha'', pr_os = ''linux''\<rparr>, bg_lockIO = io_ok,
      bg_fileAtOpen = FileMissing, bg_openErr = None, bg_durable = (\<lambda>n. True), bg_releaseIO = io_ok\<rparr>"

definition sample_report :: Report where
  "sample_report = Preflight sample_world sample_spec (Some brief_plan)"

definition sample_lock :: Lock where
  "sample_lock =
     \<lparr>lk_proc = bg_proc sample_begin,
      lk_owner = claim_owner (bg_proc sample_begin) None (session_claim sample_spec brief_plan sample_report), lk_open = True\<rparr>"

definition sample_fence :: Fence where
  "sample_fence = TakeFence (rep_repo sample_report) (WriterLockDir (rep_repo sample_report)) (lk_owner sample_lock)"

definition sample_session :: Session where
  "sample_session =
     \<lparr>ss_config = \<lparr>rc_spec = sample_spec, rc_plan = brief_plan, rc_report = Some sample_report,
                    rc_lock = Some (lk_owner sample_lock)\<rparr>,
      ss_lock = sample_lock,
      ss_runner = new_runner
        (snd (append_all (bg_durable sample_begin) 0 \<lparr>j_runID = ''run-1'', j_seq = 0, j_log = []\<rparr>
           (opening_records sample_spec sample_report (lk_owner sample_lock) sample_fence False)))
        (session_queue brief_plan (Report_Boundaries sample_report) None) sample_fence Map.empty,
      ss_resumed = False, ss_truncatedTail = False\<rparr>"

lemma append_all_durable: "(\<And>n. durable n) \<Longrightarrow> fst (append_all durable n j rs)"
  by (induction rs arbitrary: n j) (simp_all add: Let_def)

lemma sample_start:
  "Spec_Validate sample_spec = []" "Plan_Validate brief_plan = []"
  "ValidateClassificationRules (bg_compile sample_begin) (sp_classification sample_spec) = []"
  "ValidateQAPacket (sp_qa sample_spec) brief_plan = []" "Report_PermitsUnattendedRun sample_report"
  by code_simp+

lemma no_history_sel [simp]:
  "Replay [] run = no_history" "rs_gates no_history = Map.empty" "\<not> rs_finished no_history" "\<not> resumed_run no_history"
  by (simp_all add: Replay_def no_history_def resumed_run_def)

lemma sample_acquire:
  "\<exists>d. Acquire (bg_lockIO b) (bg_proc sample_begin) (session_claim sample_spec brief_plan sample_report) empty_dir =
     (Inr sample_lock, d)" if "bg_lockIO b = io_ok" for b
  using that
  by (simp add: Acquire_def io_ok_def empty_dir_def tryLockFile_def ReadOwner_def session_claim_def sample_spec_def
      sample_ownership_def Role_Valid_def sample_lock_def Let_def)

lemma sample_begins: "\<exists>eff. Begin sample_begin sample_spec brief_plan empty_dir = (Inr sample_session, eff)"
proof -
  obtain d where acq: "Acquire io_ok (bg_proc sample_begin) (session_claim sample_spec brief_plan sample_report) empty_dir =
     (Inr sample_lock, d)"
    using sample_acquire [of sample_begin] by (auto simp: sample_begin_def)
  have io: "bg_lockIO sample_begin = io_ok"
    by (simp add: sample_begin_def)
  obtain j' where j': "append_all (bg_durable sample_begin) 0 \<lparr>j_runID = ''run-1'', j_seq = 0, j_log = []\<rparr>
      (opening_records sample_spec sample_report (lk_owner sample_lock) sample_fence False) = (True, j')"
    using append_all_durable [of "bg_durable sample_begin"] by (simp add: sample_begin_def prod_eq_iff)
  have "OpenJournal (bg_dec sample_begin) (bg_fileAtOpen sample_begin) (p_runID brief_plan) (bg_openErr sample_begin) =
      Inr \<lparr>j_runID = ''run-1'', j_seq = 0, j_log = []\<rparr>"
    by (simp add: OpenJournal_def ReadJournal_def sample_begin_def brief_plan_def)
  then have "\<exists>recs. open_session sample_begin sample_spec brief_plan sample_report no_history False sample_lock = (Inr sample_session, recs)"
    using j' by (simp add: open_session_def Let_def sample_fence_def [symmetric] sample_session_def)
  then have "\<exists>eff. claim_session sample_begin sample_spec brief_plan sample_report no_history False empty_dir = (Inr sample_session, eff)"
    using acq by (auto simp: claim_session_def io)
  moreover have "ReadJournal (bg_dec sample_begin) (bg_file sample_begin) = Inr ([], False)"
    by (simp add: ReadJournal_def sample_begin_def)
  moreover have "Preflight (bg_world sample_begin) sample_spec (Some brief_plan) = sample_report"
    by (simp add: sample_begin_def sample_report_def)
  ultimately show ?thesis
    using sample_start by (auto simp: Begin_def start_session_def Let_def)
qed

text \<open>The same session on a disk that keeps nothing: refused after the claim, which is given back.\<close>

theorem refused_session_claims_nothing_witness:
  "\<exists>eff. Begin (sample_begin\<lparr>bg_durable := (\<lambda>n. False)\<rparr>) sample_spec brief_plan empty_dir = (Inl AppendFailed, eff) \<and>
     ld_holders (be_dir eff) = [] \<and> ld_owner (be_dir eff) = NoEvidence"
proof -
  let ?b = "sample_begin\<lparr>bg_durable := (\<lambda>n. False)\<rparr>"
  obtain d where acq: "Acquire io_ok (bg_proc sample_begin) (session_claim sample_spec brief_plan sample_report) empty_dir =
     (Inr sample_lock, d)"
    using sample_acquire [of sample_begin] by (auto simp: sample_begin_def)
  have io: "bg_lockIO ?b = io_ok" "bg_proc ?b = bg_proc sample_begin" "io_remove (bg_releaseIO ?b) = None"
    by (simp_all add: sample_begin_def io_ok_def)
  have "\<exists>recs. open_session ?b sample_spec brief_plan sample_report no_history False sample_lock = (Inl AppendFailed, recs)"
    by (simp add: open_session_def OpenJournal_def ReadJournal_def sample_begin_def opening_records_def Let_def)
  then have "\<exists>eff. claim_session ?b sample_spec brief_plan sample_report no_history False empty_dir = (Inl AppendFailed, eff)"
    using acq by (auto simp: claim_session_def io)
  moreover have "ReadJournal (bg_dec ?b) (bg_file ?b) = Inr ([], False)"
    by (simp add: ReadJournal_def sample_begin_def)
  moreover have "Preflight (bg_world ?b) sample_spec (Some brief_plan) = sample_report"
    by (simp add: sample_begin_def sample_report_def)
  ultimately obtain eff where eff: "Begin ?b sample_spec brief_plan empty_dir = (Inl AppendFailed, eff)"
    using sample_start by (auto simp: Begin_def start_session_def Let_def)
  from refused_session_claims_nothing [OF eff] eff io(3) show ?thesis
    by (auto simp: empty_dir_def)
qed

end
