(* ===== verification/Restart.thy ===== *)
theory Restart
  imports Session "HOL-Library.Sublist"
begin

text \<open>
  What restarts do to a run: sessions of one plan that follow each other over one journal, each of which
  may end by itself, be refused, or die at any moment.

  The run in memory and the run its journal tells of are kept equal by every step (\<open>synced\<close>): the gate
  ledger, which tasks succeeded, and how often each was resumed. The invariant is stated of the runner's
  journal, queue and ledger and proved operation by operation; \<open>run_history\<close> is the set of journals that
  sessions of a plan can leave behind.
\<close>

section \<open>Quiet records\<close>

text \<open>Records that say nothing of successes, resumes or gates.\<close>

definition quiet_kind :: "RecordKind \<Rightarrow> bool" where
  "quiet_kind k \<longleftrightarrow> k \<notin> {RecordTaskSucceeded, RecordTaskResumed, RecordGateEvidence}"

definition quiet :: "Journal \<Rightarrow> Journal \<Rightarrow> bool" where
  "quiet j j' \<longleftrightarrow> j_runID j' = j_runID j \<and> j_seq j \<le> j_seq j' \<and>
     (\<exists>ss. j_log j' = j_log j @ ss \<and> (\<forall>x\<in>set ss. j_seq j < r_seq x \<and> quiet_kind (r_kind x)))"

lemma quiet_refl [simp]: "quiet j j"
  by (simp add: quiet_def)

lemma quiet_trans [trans]: "quiet j j1 \<Longrightarrow> quiet j1 j2 \<Longrightarrow> quiet j j2"
  unfolding quiet_def by (fastforce intro: order_trans)

lemma quiet_Append: "quiet_kind (r_kind rec) \<Longrightarrow> quiet j (fst (Append durable j rec))"
  by (auto simp: quiet_def Append_def Let_def)

lemma quiet_log_record: "quiet_kind (r_kind rec) \<Longrightarrow> quiet (rn_journal r) (rn_journal (log_record env rec r))"
  by (simp add: run_simps quiet_Append)

lemma quiet_publish: "quiet (rn_journal r) (rn_journal (publish cfg env st c r))"
proof -
  have k: "quiet_kind (r_kind ((new_record RecordPreflight)\<lparr>r_outcome := x, r_detail := y\<rparr>))" for x y
    by (simp add: new_record_def quiet_kind_def)
  define r1 where "r1 = r\<lparr>rn_progress := rn_progress r @ [progress_of cfg st c r]\<rparr>"
  define r2 where "r2 = (case e_progressErr env (rn_tick r1) of
      Some e \<Rightarrow> log_record env ((new_record RecordPreflight)\<lparr>r_outcome := ''progress-publication-failed'', r_detail := e\<rparr>) r1
    | None \<Rightarrow> advance_tick r1)"
  have "rn_journal r1 = rn_journal r"
    by (simp add: r1_def)
  then have "quiet (rn_journal r) (rn_journal r2)"
    using quiet_log_record [OF k, of r1] by (auto simp: r2_def run_simps split: option.split)
  also have "quiet (rn_journal r2) (rn_journal (publish cfg env st c r))"
    using quiet_log_record [OF k, of r2]
    by (auto simp: publish_def Let_def r1_def [symmetric] r2_def [symmetric] run_simps split: option.split)
  finally show ?thesis .
qed

lemma quiet_then_publish: "quiet j (rn_journal r) \<Longrightarrow> quiet j (rn_journal (publish cfg env st c r))"
  using quiet_publish quiet_trans by blast

lemma quiet_recordAdvance: "quiet (rn_journal r) (rn_journal (recordAdvance env i r))"
  by (auto simp: recordAdvance_def Let_def run_simps quiet_Append quiet_kind_def new_record_def
      split: prod.split option.split)

lemma quiet_captureFailure: "quiet (rn_journal r) (rn_journal (snd (captureFailure cfg env t n x r)))"
  by (auto simp: captureFailure_def Let_def run_simps quiet_Append quiet_kind_def new_record_def split: option.split)

lemma quiet_append_all:
  "append_all durable n j rs = (ok, j') \<Longrightarrow> \<forall>x\<in>set rs. quiet_kind (r_kind x) \<Longrightarrow> quiet j j'"
proof (induction rs arbitrary: n j)
  case (Cons r rs)
  have step: "quiet j (fst (Append (durable n) j r))"
    using Cons.prems by (simp add: quiet_Append)
  show ?case
  proof (cases "durable n")
    case True
    then have "quiet (fst (Append (durable n) j r)) j'"
      using Cons.IH [of "Suc n" "fst (Append (durable n) j r)"] Cons.prems by (simp add: Let_def)
    with step show ?thesis
      by (rule quiet_trans)
  qed (use Cons.prems step in \<open>auto simp: Let_def\<close>)
qed simp

section \<open>The journal and the run in memory\<close>

definition journal_state :: "Journal \<Rightarrow> ResumeState" where
  "journal_state j = Replay (j_log j) (j_runID j)"

definition task_synced :: "ResumeState \<Rightarrow> QueuedTask \<Rightarrow> bool" where
  "task_synced st qt \<longleftrightarrow>
     (t_id (q_task qt) \<in> rs_succeeded st \<longleftrightarrow> q_state qt = TaskSucceeded) \<and>
     (q_state qt \<noteq> TaskSucceeded \<longrightarrow> q_resumes qt = count_of (rs_resumes st) (t_id (q_task qt))) \<and>
     (q_state qt = TaskPending \<longrightarrow> q_resumes qt \<le> resumeBudget qt) \<and>
     count_of (rs_resumes st) (t_id (q_task qt)) \<le> resumeBudget qt + 1"

definition synced :: "Journal \<Rightarrow> Queue \<Rightarrow> ledger \<Rightarrow> bool" where
  "synced j q ev \<longleftrightarrow> rs_gates (journal_state j) = ev \<and> list_all (task_synced (journal_state j)) (qu_tasks q)"

text \<open>No resume without a start before it, and sequence numbers that a reader can trust.\<close>

definition own_record :: "string \<Rightarrow> RecordKind \<Rightarrow> Record \<Rightarrow> bool" where
  "own_record run k x \<longleftrightarrow> r_runID x = run \<and> r_kind x = k"

definition backed :: "string \<Rightarrow> Record list \<Rightarrow> bool" where
  "backed run log \<longleftrightarrow>
     (\<forall>pre x post. log = pre @ x # post \<and> own_record run RecordTaskResumed x \<longrightarrow>
        (\<exists>y\<in>set pre. own_record run RecordTaskStarted y))"

definition log_ok :: "string \<Rightarrow> Record list \<Rightarrow> bool" where
  "log_ok run log \<longleftrightarrow> backed run log \<and> (\<forall>x\<in>set log. 0 < r_seq x)"

definition journal_ok :: "Journal \<Rightarrow> bool" where
  "journal_ok j \<longleftrightarrow> 0 \<le> j_seq j \<and> log_ok (j_runID j) (j_log j)"

definition grows :: "Journal \<Rightarrow> Journal \<Rightarrow> bool" where
  "grows j j' \<longleftrightarrow> j_runID j' = j_runID j \<and> prefix (j_log j) (j_log j')"

lemma grows_refl [simp]: "grows j j"
  by (simp add: grows_def)

lemma grows_trans [trans]: "grows j j1 \<Longrightarrow> grows j1 j2 \<Longrightarrow> grows j j2"
  by (auto simp: grows_def)

lemma quiet_grows: "quiet j j' \<Longrightarrow> grows j j'"
  by (auto simp: quiet_def grows_def)

lemma grows_Append: "grows j (fst (Append durable j rec))"
  by (simp add: grows_def Append_def Let_def)

lemma backed_snoc:
  "backed run (log @ [x]) \<longleftrightarrow>
   backed run log \<and> (own_record run RecordTaskResumed x \<longrightarrow> (\<exists>y\<in>set log. own_record run RecordTaskStarted y))"
proof
  assume b: "backed run (log @ [x])"
  show "backed run log \<and> (own_record run RecordTaskResumed x \<longrightarrow> (\<exists>y\<in>set log. own_record run RecordTaskStarted y))"
    using b unfolding backed_def by (metis append.assoc append_Cons)
next
  assume b: "backed run log \<and> (own_record run RecordTaskResumed x \<longrightarrow> (\<exists>y\<in>set log. own_record run RecordTaskStarted y))"
  show "backed run (log @ [x])"
    unfolding backed_def
  proof (intro allI impI)
    fix pre z post
    assume "log @ [x] = pre @ z # post \<and> own_record run RecordTaskResumed z"
    then show "\<exists>y\<in>set pre. own_record run RecordTaskStarted y"
      using b by (cases post rule: rev_cases) (auto simp: backed_def)
  qed
qed

lemma backed_Nil [simp]: "backed run []"
  by (simp add: backed_def)

lemma backed_prefix: "backed run log \<Longrightarrow> prefix log' log \<Longrightarrow> backed run log'"
  unfolding backed_def prefix_def by (metis append.assoc append_Cons)

lemma log_ok_prefix: "log_ok run log \<Longrightarrow> prefix log' log \<Longrightarrow> log_ok run log'"
  using backed_prefix set_mono_prefix unfolding log_ok_def by blast

lemma backed_other:
  "backed run log \<Longrightarrow> \<forall>x\<in>set ss. \<not> own_record run RecordTaskResumed x \<Longrightarrow> backed run (log @ ss)"
proof (induction ss rule: rev_induct)
  case (snoc x ss)
  then have "backed run ((log @ ss) @ [x])"
    by (subst backed_snoc) simp
  then show ?case
    by simp
qed simp

lemma quiet_ok: "quiet j j' \<Longrightarrow> journal_ok j \<Longrightarrow> journal_ok j'"
  unfolding quiet_def journal_ok_def log_ok_def
  by (fastforce intro!: backed_other simp: own_record_def quiet_kind_def)

lemma Replay_quiet:
  assumes "\<forall>x\<in>set ss. r_runID x = run \<longrightarrow> quiet_kind (r_kind x)"
  shows "rs_gates (Replay (log @ ss) run) = rs_gates (Replay log run)"
    and "rs_succeeded (Replay (log @ ss) run) = rs_succeeded (Replay log run)"
    and "count_of (rs_resumes (Replay (log @ ss) run)) t = count_of (rs_resumes (Replay log run)) t"
  using assms
  by (induction ss rule: rev_induct)
    (auto simp: append_assoc [symmetric] Replay_snoc replay_step_fields quiet_kind_def simp del: append_assoc)

lemma quiet_state:
  assumes "quiet j j'"
  shows "rs_gates (journal_state j') = rs_gates (journal_state j)"
    and "rs_succeeded (journal_state j') = rs_succeeded (journal_state j)"
    and "count_of (rs_resumes (journal_state j')) t = count_of (rs_resumes (journal_state j)) t"
  using assms Replay_quiet unfolding quiet_def journal_state_def by auto

lemma synced_quiet: "synced j q ev \<Longrightarrow> quiet j j' \<Longrightarrow> synced j' q ev"
  using quiet_state [of j j'] by (simp add: synced_def task_synced_def [abs_def])

lemma Append_state:
  fixes j :: Journal
  assumes "r_runID rec = []"
  defines "j' \<equiv> fst (Append True j rec)"
  shows "rs_succeeded (journal_state j') =
      (if r_kind rec = RecordTaskSucceeded then insert (r_taskID rec) (rs_succeeded (journal_state j))
       else rs_succeeded (journal_state j))"
    and "rs_gates (journal_state j') =
      (if r_kind rec = RecordGateEvidence
       then case r_gate rec of None \<Rightarrow> rs_gates (journal_state j)
            | Some e \<Rightarrow> if ge_gateID e = [] then rs_gates (journal_state j) else ledger_merge (rs_gates (journal_state j)) e
       else rs_gates (journal_state j))"
    and "count_of (rs_resumes (journal_state j')) t =
      (if r_kind rec = RecordTaskResumed \<and> r_taskID rec = t then count_of (rs_resumes (journal_state j)) t + 1
       else count_of (rs_resumes (journal_state j)) t)"
  using assms(1) unfolding j'_def journal_state_def
  by (simp_all add: Append_def Let_def Replay_snoc replay_step_fields)

lemma Append_ok:
  assumes "journal_ok j" "r_runID rec = []"
    and "r_kind rec = RecordTaskResumed \<Longrightarrow> \<exists>y\<in>set (j_log j). own_record (j_runID j) RecordTaskStarted y"
  shows "journal_ok (fst (Append durable j rec))"
  using assms by (auto simp: journal_ok_def log_ok_def Append_def Let_def backed_snoc own_record_def)

section \<open>What each outcome does to the agreement\<close>

lemma resumeBudget_upd [simp]:
  "resumeBudget (qt\<lparr>q_state := s\<rparr>) = resumeBudget qt" "resumeBudget (qt\<lparr>q_heldReason := why\<rparr>) = resumeBudget qt"
  "resumeBudget (qt\<lparr>q_resumes := n\<rparr>) = resumeBudget qt" "resumeBudget (qt\<lparr>q_attempts := as\<rparr>) = resumeBudget qt"
  by (simp_all add: resumeBudget_def)

lemma task_synced_held:
  "task_synced st qt \<Longrightarrow> q_state qt = TaskPending \<Longrightarrow> task_synced st (qt\<lparr>q_state := TaskHeld, q_heldReason := why\<rparr>)"
  by (simp add: task_synced_def)

lemma propagate_synced:
  assumes "queue_wf q" "list_all (task_synced st) (qu_tasks q)"
  shows "list_all (task_synced st) (qu_tasks (propagateHolds q))"
proof -
  have e: "held_ext q (propagateHolds q)"
    using propagateHolds_ext [OF assms(1)] by simp
  show ?thesis
    unfolding list_all_length
  proof (intro allI impI)
    fix k
    assume "k < num_tasks (propagateHolds q)"
    then have k: "k < num_tasks q"
      using held_ext_fields(1) [OF e] by simp
    then have s: "task_synced st (task_at q k)"
      using assms(2) by (simp add: list_all_length)
    from e k consider "task_at (propagateHolds q) k = task_at q k"
      | why where "doomed q k" "task_at (propagateHolds q) k = (task_at q k)\<lparr>q_state := TaskHeld, q_heldReason := why\<rparr>"
      by (auto simp: held_ext_def)
    then show "task_synced st (task_at (propagateHolds q) k)"
      using s doomed_D [of q k] task_synced_held by cases auto
  qed
qed

text \<open>The offered task is replaced and the journal may have learned of it; the other tasks have other
  identifiers.\<close>

lemma put_synced:
  assumes "list_all (task_synced st) (qu_tasks q)" "i < num_tasks q" "distinct (map t_id (queue_plan q))"
    and "\<And>k. k < num_tasks q \<Longrightarrow> t_id (q_task (task_at q k)) \<noteq> t_id (q_task (task_at q i)) \<Longrightarrow>
      task_synced st (task_at q k) \<Longrightarrow> task_synced st' (task_at q k)"
    and "task_synced st' x"
  shows "list_all (task_synced st') (qu_tasks (put_task q i x))"
  unfolding list_all_length
proof (intro allI impI)
  fix k
  assume "k < num_tasks (put_task q i x)"
  then have k: "k < num_tasks q"
    by simp
  have "t_id (q_task (task_at q k)) \<noteq> t_id (q_task (task_at q i))" if "k \<noteq> i"
    using nth_eq_iff_index_eq [OF assms(3), of k i] that k assms(2) by (simp add: queue_plan_def)
  then show "task_synced st' (task_at (put_task q i x) k)"
    using assms k by (auto simp: list_all_length)
qed

lemma synced_settle:
  assumes "synced j q ev" "queue_wf q" "i < num_tasks q" "distinct (map t_id (queue_plan q))"
    and "rs_gates (journal_state j') = rs_gates (journal_state j)" "q_task x = q_task (task_at q i)"
    and "\<And>k. k < num_tasks q \<Longrightarrow> t_id (q_task (task_at q k)) \<noteq> t_id (q_task (task_at q i)) \<Longrightarrow>
      task_synced (journal_state j) (task_at q k) \<Longrightarrow> task_synced (journal_state j') (task_at q k)"
    and "task_synced (journal_state j') x"
  shows "synced j' (put_task q i x) ev" "synced j' (propagateHolds (put_task q i x)) ev"
proof -
  have "list_all (task_synced (journal_state j')) (qu_tasks (put_task q i x))"
    using put_synced [of "journal_state j" q i "journal_state j'" x] assms by (simp add: synced_def)
  moreover have "queue_wf (put_task q i x)"
    using put_task_wf assms by simp
  ultimately show "synced j' (put_task q i x) ev" "synced j' (propagateHolds (put_task q i x)) ev"
    using propagate_synced assms by (auto simp: synced_def)
qed

lemma synced_success:
  assumes "synced j q ev" "queue_wf q" "i < num_tasks q" "distinct (map t_id (queue_plan q))"
    and "r_kind rec = RecordTaskSucceeded" "r_runID rec = []" "r_taskID rec = t_id (q_task (task_at q i))" "a_succeeded a"
  shows "synced (fst (Append True j rec)) (attempt_outcome a q i) ev"
proof -
  have "task_synced (journal_state j) (task_at q i)"
    using assms by (simp add: synced_def list_all_length)
  then show ?thesis
    using assms Append_state [OF assms(6), of j]
    by (auto simp: attempt_outcome_def RecordAttempt_def Let_def intro!: synced_settle(2))
      (auto simp: task_synced_def)
qed

lemma synced_failure:
  assumes "synced j q ev" "queue_wf q" "i < num_tasks q" "distinct (map t_id (queue_plan q))"
    and "state_at q i = TaskPending" "\<not> a_succeeded a"
  shows "synced j (attempt_outcome a q i) ev"
proof -
  have "task_synced (journal_state j) (task_at q i)"
    using assms by (simp add: synced_def list_all_length)
  then show ?thesis
    using assms
    by (auto simp: attempt_outcome_def RecordAttempt_def Let_def intro!: synced_settle)
      (auto simp: task_synced_def)
qed

lemma synced_hold:
  assumes "synced j q ev" "queue_wf q" "i < num_tasks q" "distinct (map t_id (queue_plan q))" "state_at q i = TaskPending"
  shows "synced j (hold_outcome why q i) ev"
proof -
  have "task_synced (journal_state j) (task_at q i)"
    using assms by (simp add: synced_def list_all_length)
  then show ?thesis
    using assms task_synced_held by (auto simp: hold_outcome_def Hold_def intro!: synced_settle(2))
qed

lemma synced_resume:
  assumes "synced j q ev" "queue_wf q" "i < num_tasks q" "distinct (map t_id (queue_plan q))" "state_at q i = TaskPending"
    and "r_kind rec = RecordTaskResumed" "r_runID rec = []" "r_taskID rec = t_id (q_task (task_at q i))"
  shows "synced (fst (Append True j rec)) (resume_outcome why q i) ev"
proof -
  have "task_synced (journal_state j) (task_at q i)"
    using assms by (simp add: synced_def list_all_length)
  then show ?thesis
    using assms Append_state [OF assms(7), of j]
    by (auto simp: resume_outcome_def RecordResume_def Hold_def put_put_task Let_def intro!: synced_settle)
      (auto simp: task_synced_def)
qed

lemma synced_gate:
  assumes "synced j q ev" "r_kind rec = RecordGateEvidence" "r_runID rec = []" "r_gate rec = Some e" "ge_gateID e \<noteq> []"
  shows "synced (fst (Append True j rec)) q (ledger_merge ev e)"
  using assms Append_state [OF assms(3), of j] by (simp add: synced_def task_synced_def [abs_def])

section \<open>What each step of the runner does to the agreement\<close>

definition agrees :: "runner \<Rightarrow> bool" where
  "agrees r \<longleftrightarrow> synced (rn_journal r) (rn_queue r) (rn_evidence r) \<and> journal_ok (rn_journal r)"

definition offered :: "Queue \<Rightarrow> nat \<Rightarrow> bool" where
  "offered q i \<longleftrightarrow>
     queue_wf q \<and> i < num_tasks q \<and> distinct (map t_id (queue_plan q)) \<and> state_at q i = TaskPending"

definition durable_env :: "run_env \<Rightarrow> bool" where
  "durable_env env \<longleftrightarrow> (\<forall>n. e_durable env n)"

lemma agrees_quiet:
  assumes "agrees r" "quiet (rn_journal r) (rn_journal r')" "rn_queue r' = rn_queue r" "rn_evidence r' = rn_evidence r"
  shows "agrees r'"
  using assms synced_quiet quiet_ok by (auto simp: agrees_def)

lemma agrees_publish: "agrees r \<Longrightarrow> agrees (publish cfg env st c r)"
  by (rule agrees_quiet [OF _ quiet_publish]) (simp_all add: run_simps)

lemma agrees_log_record: "agrees r \<Longrightarrow> quiet_kind (r_kind rec) \<Longrightarrow> agrees (log_record env rec r)"
  by (rule agrees_quiet [OF _ quiet_log_record]) (simp_all add: run_simps)

lemma agrees_gate:
  assumes "agrees r" "durable_env env"
  shows "agrees (recordGateEvidence cfg env i g d r)"
proof (cases "t_qaGate (q_task (task_at (rn_queue r) i)) = [] \<or> g = GateOther []")
  case False
  then show ?thesis
    using assms
    by (auto simp: recordGateEvidence_def Let_def agrees_def run_simps durable_env_def new_record_def
        intro!: synced_gate Append_ok)
qed (use assms in \<open>auto simp: recordGateEvidence_def Let_def\<close>)

lemma grows_gate: "grows (rn_journal r) (rn_journal (recordGateEvidence cfg env i g d r))"
  using grows_Append by (auto simp: recordGateEvidence_def Let_def run_simps)

lemma agrees_succeed:
  assumes "succeed cfg env i v n r = (stop, r')" "agrees r" "durable_env env" "offered (rn_queue r) i"
  shows "agrees r' \<and> grows (rn_journal r) (rn_journal r')"
proof -
  define t where "t = q_task (task_at (rn_queue r) i)"
  define rec where "rec = (new_record RecordTaskSucceeded)\<lparr>r_taskID := t_id t, r_attempt := n, r_detail := v_reason v\<rparr>"
  define r3 where "r3 = (set_queue (fst (RecordAttempt (rn_queue (log_record env rec r)) i ok_attempt)) (log_record env rec r))
    \<lparr>rn_lastMilestone := t_id t @ '' succeeded''\<rparr>"
  define r4 where "r4 = recordGateEvidence cfg env i (v_gateResult v) [] r3"
  define r5 where "r5 = (if t_mutates t then recordAdvance env i r4 else r4)"
  have r': "r' = publish cfg env ''running'' None r5"
    using assms(1) unfolding succeed_def Let_def t_def rec_def r3_def r4_def r5_def by simp
  have rec: "r_kind rec = RecordTaskSucceeded" "r_runID rec = []" "r_taskID rec = t_id t"
    by (simp_all add: rec_def new_record_def)
  have j3: "rn_journal r3 = fst (Append True (rn_journal r) rec)" "rn_evidence r3 = rn_evidence r"
    "rn_queue r3 = attempt_outcome ok_attempt (rn_queue r) i"
    using assms(3) by (simp_all add: r3_def run_simps durable_env_def attempt_outcome_def)
  have "agrees r3"
    using assms(2,4) rec synced_success [of "rn_journal r" "rn_queue r" "rn_evidence r" i rec ok_attempt]
    by (auto simp: agrees_def j3 offered_def t_def ok_attempt_def intro!: Append_ok)
  then have "agrees r4"
    unfolding r4_def using assms(3) by (rule agrees_gate)
  then have "agrees r5"
    using agrees_quiet [OF \<open>agrees r4\<close> quiet_recordAdvance] by (simp add: r5_def run_simps)
  moreover have "grows (rn_journal r) (rn_journal r')"
  proof -
    have "grows (rn_journal r) (rn_journal r3)"
      by (simp add: j3 grows_Append)
    also have "grows (rn_journal r3) (rn_journal r4)"
      by (simp add: r4_def grows_gate)
    also have "grows (rn_journal r4) (rn_journal r5)"
      using quiet_grows [OF quiet_recordAdvance] by (simp add: r5_def)
    also have "grows (rn_journal r5) (rn_journal r')"
      unfolding r' by (rule quiet_grows [OF quiet_publish])
    finally show ?thesis .
  qed
  ultimately show ?thesis
    using agrees_publish r' by blast
qed

lemma agrees_driveAgain:
  assumes "driveAgain cfg env i v r = (stop, r')" "agrees r" "durable_env env" "offered (rn_queue r) i"
    and "\<exists>y\<in>set (j_log (rn_journal r)). own_record (j_runID (rn_journal r)) RecordTaskStarted y"
  shows "agrees r' \<and> grows (rn_journal r) (rn_journal r')"
proof -
  define t where "t = q_task (task_at (rn_queue r) i)"
  obtain q1 used bgt may where rr: "RecordResume (rn_queue r) i = (q1, used, bgt, may)"
    by (metis prod_cases4)
  define ob where "ob = '' (resume '' @ Itoa used @ '' of '' @ Itoa bgt @ '')''"
  define why where "why = (\<lambda>b. ''did not converge within its '' @ Itoa b @ '' resume(s): '' @ v_reason v)"
  define rec where "rec = (new_record RecordTaskResumed)
    \<lparr>r_taskID := t_id t, r_attempt := AttemptCount (task_at q1 i),
     r_outcome := Disposition_text (v_disposition v), r_detail := v_reason v @ ob\<rparr>"
  define r2 where "r2 = log_record env rec ((set_queue q1 r)\<lparr>rn_resumes := rn_resumes r + 1\<rparr>)"
  have rec: "r_kind rec = RecordTaskResumed" "r_runID rec = []" "r_taskID rec = t_id t"
    by (simp_all add: rec_def new_record_def)
  have j2: "rn_journal r2 = fst (Append True (rn_journal r) rec)" "rn_evidence r2 = rn_evidence r" "rn_queue r2 = q1"
    using assms(3) by (simp_all add: r2_def run_simps durable_env_def)
  have s: "synced (rn_journal r2) (resume_outcome why (rn_queue r) i) (rn_evidence r)"
    using assms(2,4) rec synced_resume [of "rn_journal r" "rn_queue r" "rn_evidence r" i rec why]
    by (simp add: agrees_def j2 offered_def t_def)
  have ok: "journal_ok (rn_journal r2)"
    using assms(2,5) rec by (auto simp: agrees_def j2 intro!: Append_ok)
  have g: "grows (rn_journal r) (rn_journal r2)"
    by (simp add: j2 grows_Append)
  show ?thesis
  proof (cases may)
    case True
    define r3 where "r3 = r2\<lparr>rn_lastMilestone := t_id t @ '' '' @ Disposition_text (v_disposition v) @ ob\<rparr>"
    have r': "r' = publish cfg env ''resuming'' (Some i) r3"
      using assms(1) True by (simp add: driveAgain_def rr Let_def t_def rec_def r2_def r3_def ob_def)
    have j3: "rn_journal r3 = rn_journal r2" and a3: "agrees r3"
      using s ok True by (simp_all add: agrees_def r3_def j2 resume_outcome_def rr)
    have "grows (rn_journal r2) (rn_journal r')"
      using quiet_grows [OF quiet_publish, of r3] by (simp add: r' j3)
    then show ?thesis
      using grows_trans [OF g] agrees_publish [OF a3] r' by simp
  next
    case False
    define r4 where "r4 = log_record env ((new_record RecordTaskHeld)
      \<lparr>r_taskID := t_id t, r_outcome := TaskState_text TaskHeld, r_detail := why bgt\<rparr>) (set_queue (Hold q1 i (why bgt)) r2)"
    define r5 where "r5 = recordGateEvidence cfg env i GateError (why bgt) r4"
    have r': "r' = publish cfg env ''running'' None r5"
      using assms(1) False by (simp add: driveAgain_def rr Let_def t_def rec_def r2_def r4_def r5_def ob_def why_def)
    have "agrees (set_queue (Hold q1 i (why bgt)) r2)"
      using s ok False by (simp add: agrees_def run_simps j2 resume_outcome_def rr)
    then have "agrees r4"
      unfolding r4_def by (rule agrees_log_record) (simp add: new_record_def quiet_kind_def)
    then have "agrees r5"
      unfolding r5_def using assms(3) by (rule agrees_gate)
    note g
    also have "grows (rn_journal r2) (rn_journal r4)"
      by (simp add: r4_def run_simps grows_Append)
    also have "grows (rn_journal r4) (rn_journal r5)"
      by (simp add: r5_def grows_gate)
    also have "grows (rn_journal r5) (rn_journal r')"
      unfolding r' by (rule quiet_grows [OF quiet_publish])
    finally show ?thesis
      using agrees_publish [OF \<open>agrees r5\<close>] r' by simp
  qed
qed

lemma agrees_stopOnHumanBoundary:
  assumes "stopOnHumanBoundary cfg env i v n x r = (stop, r')" "agrees r" "durable_env env" "offered (rn_queue r) i"
  shows "agrees r' \<and> grows (rn_journal r) (rn_journal r')"
proof -
  define t where "t = q_task (task_at (rn_queue r) i)"
  obtain path r1 where c: "captureFailure cfg env (t_id t) n x r = (path, r1)"
    by fastforce
  then have r1: "rn_queue r1 = rn_queue r" "rn_evidence r1 = rn_evidence r" "quiet (rn_journal r) (rn_journal r1)"
    using captureFailure_sel [of cfg env "t_id t" n x r] quiet_captureFailure [of r cfg env "t_id t" n x] by simp_all
  define r2 where "r2 = set_queue (hold_outcome (v_reason v) (rn_queue r) i) r1"
  define detail where "detail = v_reason v @ '' | output: '' @ path"
  define r3 where "r3 = log_record env ((new_record RecordTaskHeld)
    \<lparr>r_taskID := t_id t, r_attempt := n, r_class := v_class v, r_outcome := TaskState_text TaskHeld, r_detail := detail\<rparr>) r2"
  define r4 where "r4 = recordGateEvidence cfg env i (v_gateResult v) detail r3"
  obtain r5 where r': "r' = publish cfg env ''stopping'' None r5" and r5: "rn_journal r5 = rn_journal r4"
    "rn_queue r5 = rn_queue r4" "rn_evidence r5 = rn_evidence r4"
    using assms(1) that
    by (fastforce simp: stopOnHumanBoundary_def Let_def t_def [symmetric] c r1 r2_def r3_def r4_def detail_def hold_outcome_def)
  have "synced (rn_journal r) (rn_queue r2) (rn_evidence r)"
    using assms(2,4) synced_hold by (simp add: r2_def run_simps agrees_def offered_def)
  then have "agrees r2"
    using r1 assms(2) synced_quiet quiet_ok by (simp add: agrees_def r2_def run_simps)
  then have "agrees r3"
    unfolding r3_def by (rule agrees_log_record) (simp add: new_record_def quiet_kind_def)
  then have "agrees r4"
    unfolding r4_def using assms(3) by (rule agrees_gate)
  then have a5: "agrees r5"
    using r5 by (simp add: agrees_def)
  have "grows (rn_journal r) (rn_journal r2)"
    using r1 quiet_grows by (simp add: r2_def run_simps)
  also have "grows (rn_journal r2) (rn_journal r3)"
    by (simp add: r3_def run_simps grows_Append)
  also have "grows (rn_journal r3) (rn_journal r5)"
    by (simp add: r5 r4_def grows_gate)
  also have "grows (rn_journal r5) (rn_journal r')"
    unfolding r' by (rule quiet_grows [OF quiet_publish])
  finally show ?thesis
    using agrees_publish [OF a5] r' by simp
qed

lemma agrees_fail_attempt:
  assumes "fail_attempt cfg env i v n x r = (stop, r')" "agrees r" "durable_env env" "offered (rn_queue r) i"
  shows "agrees r' \<and> grows (rn_journal r) (rn_journal r')"
proof -
  define t where "t = q_task (task_at (rn_queue r) i)"
  define a where "a = \<lparr>a_number = 0, a_succeeded = False, a_class = v_class v, a_reason = v_reason v,
    a_output = Runner.truncate (Redact x)\<rparr>"
  obtain path r1 where c: "captureFailure cfg env (t_id t) n x r = (path, r1)"
    by fastforce
  then have r1: "rn_queue r1 = rn_queue r" "rn_evidence r1 = rn_evidence r" "quiet (rn_journal r) (rn_journal r1)"
    using captureFailure_sel [of cfg env "t_id t" n x r] quiet_captureFailure [of r cfg env "t_id t" n x] by simp_all
  obtain q2 delay will where ra: "RecordAttempt (rn_queue r) i a = (q2, delay, will)"
    by (metis prod_cases3)
  define detail where "detail = v_reason v @ '' | '' @ firstLine (Redact x) @ '' | output: '' @ path"
  define r3 where "r3 = log_record env ((new_record RecordTaskFailed)
    \<lparr>r_taskID := t_id t, r_attempt := n, r_class := v_class v, r_outcome := TaskState_text (state_at q2 i),
     r_detail := detail\<rparr>) (set_queue q2 r1)"
  define r4 where "r4 = (if state_at q2 i = TaskFailed then recordGateEvidence cfg env i (v_gateResult v) detail r3 else r3)"
  have "quiet (rn_journal r4) (rn_journal r') \<and> rn_queue r' = rn_queue r4 \<and> rn_evidence r' = rn_evidence r4"
    using assms(1)
    unfolding fail_attempt_def Let_def t_def [symmetric] c prod.case r1(1) a_def [symmetric] ra detail_def [symmetric]
      r3_def [symmetric] r4_def [symmetric]
    by (auto simp: run_simps quiet_Append quiet_kind_def new_record_def intro!: quiet_then_publish split: if_splits)
  then have tail: "quiet (rn_journal r4) (rn_journal r')" "rn_queue r' = rn_queue r4" "rn_evidence r' = rn_evidence r4"
    by simp_all
  have "synced (rn_journal r) q2 (rn_evidence r)"
    using assms(2,4) ra synced_failure [of "rn_journal r" "rn_queue r" "rn_evidence r" i a]
    by (simp add: agrees_def offered_def attempt_outcome_def a_def)
  then have "agrees (set_queue q2 r1)"
    using r1 assms(2) synced_quiet quiet_ok by (simp add: agrees_def run_simps)
  then have "agrees r3"
    unfolding r3_def by (rule agrees_log_record) (simp add: new_record_def quiet_kind_def)
  then have "agrees r4"
    using agrees_gate assms(3) by (simp add: r4_def)
  then have "agrees r'"
    using agrees_quiet tail by blast
  moreover have "grows (rn_journal r) (rn_journal r')"
  proof -
    have "grows (rn_journal r) (rn_journal r1)"
      using r1 quiet_grows by simp
    also have "grows (rn_journal r1) (rn_journal r3)"
      by (simp add: r3_def run_simps grows_Append)
    also have "grows (rn_journal r3) (rn_journal r4)"
      by (simp add: r4_def grows_gate)
    also have "grows (rn_journal r4) (rn_journal r')"
      using tail quiet_grows by simp
    finally show ?thesis .
  qed
  ultimately show ?thesis
    by simp
qed

lemma agrees_conclude:
  assumes "conclude cfg env i v n x r = (stop, r')" "agrees r" "durable_env env" "offered (rn_queue r) i"
    and "\<exists>y\<in>set (j_log (rn_journal r)). own_record (j_runID (rn_journal r)) RecordTaskStarted y"
  shows "agrees r' \<and> grows (rn_journal r) (rn_journal r')"
  using assms agrees_succeed [OF _ assms(2-4)] agrees_driveAgain [OF _ assms(2-5)]
    agrees_stopOnHumanBoundary [OF _ assms(2-4)] agrees_fail_attempt [OF _ assms(2-4)]
  by (cases "v_disposition v") (auto simp: conclude_def)

lemma agrees_drive:
  assumes "drive cfg env i r = (stop, r')" "agrees r" "durable_env env" "offered (rn_queue r) i"
  shows "agrees r' \<and> grows (rn_journal r) (rn_journal r')"
proof -
  define qt where "qt = task_at (rn_queue r) i"
  define rec where "rec = (new_record RecordTaskStarted)
    \<lparr>r_taskID := t_id (q_task qt), r_attempt := AttemptCount qt + 1, r_detail := Join (t_argv (q_task qt)) '' ''\<rparr>"
  define r1 where "r1 = log_record env rec r"
  have rec: "r_kind rec = RecordTaskStarted" "r_runID rec = []"
    by (simp_all add: rec_def new_record_def)
  have a1: "agrees r1" "rn_queue r1 = rn_queue r" "grows (rn_journal r) (rn_journal r1)"
    using agrees_log_record [OF assms(2), of rec] rec by (simp_all add: r1_def run_simps grows_Append quiet_kind_def)
  have started: "\<exists>y\<in>set (j_log (rn_journal r1)). own_record (j_runID (rn_journal r1)) RecordTaskStarted y"
    using assms(3) rec by (simp add: r1_def run_simps durable_env_def Append_def Let_def own_record_def)
  obtain v n x r3 where r3: "conclude cfg env i v n x r3 = (stop, r')" "rn_journal r3 = rn_journal r1"
    "rn_queue r3 = rn_queue r1" "rn_evidence r3 = rn_evidence r1"
    using assms(1) unfolding drive_def Let_def qt_def [symmetric] rec_def [symmetric] r1_def [symmetric]
    by (auto simp: run_simps split: if_splits)
  show ?thesis
    using agrees_conclude [OF r3(1)] r3 a1 started assms(3,4) grows_trans by (auto simp: agrees_def)
qed

lemma agrees_runOne:
  assumes "runOne cfg env i r = (stop, r')" "agrees r" "durable_env env" "offered (rn_queue r) i"
  shows "agrees r' \<and> grows (rn_journal r) (rn_journal r')"
proof -
  define r1 where "r1 = publish cfg env ''running'' (Some i) r"
  have r1: "agrees r1" "grows (rn_journal r) (rn_journal r1)" "rn_queue r1 = rn_queue r"
    using agrees_publish [OF assms(2)] quiet_grows [OF quiet_publish] by (simp_all add: r1_def run_simps)
  define t where "t = q_task (task_at (rn_queue r1) i)"
  define res where "res = Fence_Check (rn_fence r1) (e_owner env (rn_tick r1)) (e_repo env (rn_tick r1))"
  define r2 where "r2 = advance_tick (r1\<lparr>rn_trace := rn_trace r1 @ [FenceChecked i res]\<rparr>)"
  have r2: "agrees r2" "rn_journal r2 = rn_journal r1" "rn_queue r2 = rn_queue r"
    using r1 by (simp_all add: r2_def run_simps agrees_def)
  have step: "agrees r' \<and> grows (rn_journal r1) (rn_journal r')"
  proof (cases "t_mutates t \<and> \<not> Intact res")
    case True
    define why where "why = ''the repository moved outside this run: '' @ FenceStatus_text (fr_status res)"
    define rec where "rec = (new_record RecordFenceViolated)
      \<lparr>r_taskID := t_id t, r_outcome := FenceStatus_text (fr_status res),
       r_detail := ''expected '' @ e_quote env (fr_expected res) @ '', observed '' @ e_quote env (fr_observed res) @ '' '' @
         em_dash @ '' '' @ fr_evidence res\<rparr>"
    define r3 where "r3 = log_record env rec r2"
    have a3: "agrees r3" "rn_queue r3 = rn_queue r" "grows (rn_journal r1) (rn_journal r3)"
      using agrees_log_record [OF r2(1), of rec] r2(2,3)
      by (simp_all add: r3_def rec_def run_simps grows_Append quiet_kind_def new_record_def)
    have "rn_journal r' = rn_journal r3" "rn_evidence r' = rn_evidence r3" "rn_queue r' = hold_outcome why (rn_queue r3) i"
      using assms(1) True unfolding runOne_def Let_def r1_def [symmetric] t_def [symmetric] res_def [symmetric]
        r2_def [symmetric] rec_def [symmetric] r3_def [symmetric]
      by (auto simp: run_simps hold_outcome_def why_def)
    then show ?thesis
      using a3 assms(4) synced_hold by (simp add: agrees_def offered_def)
  next
    case False
    obtain r4 where r4: "drive cfg env i r4 = (stop, r')" "agrees r4" "rn_queue r4 = rn_queue r"
      "grows (rn_journal r1) (rn_journal r4)"
    proof (cases "t_mutates t")
      case True
      define r3 where
        "r3 = log_record env ((new_record RecordFenceVerified)\<lparr>r_taskID := t_id t, r_detail := fr_expected res\<rparr>) r2"
      have "drive cfg env i r3 = (stop, r')"
        using assms(1) True False unfolding runOne_def Let_def r1_def [symmetric] t_def [symmetric] res_def [symmetric]
          r2_def [symmetric] r3_def [symmetric] by simp
      moreover have "agrees r3"
        unfolding r3_def using r2(1) by (rule agrees_log_record) (simp add: quiet_kind_def new_record_def)
      ultimately show thesis
        using r2 by (intro that [of r3]) (simp_all add: r3_def run_simps grows_Append)
    next
      case False
      then have "drive cfg env i r1 = (stop, r')"
        using assms(1) unfolding runOne_def Let_def r1_def [symmetric] t_def [symmetric] by simp
      then show thesis
        using r1 by (intro that [of r1]) auto
    qed
    then show ?thesis
      using agrees_drive [OF r4(1,2) assms(3)] assms(4) grows_trans by fastforce
  qed
  then show ?thesis
    using r1(2) grows_trans by blast
qed

lemma agrees_run_loop:
  assumes "run_loop cfg env r = Some r'"
  shows "queue_inv (rn_queue r) \<and> distinct (map t_id (queue_plan (rn_queue r))) \<and> agrees r \<and> durable_env env \<longrightarrow>
    agrees r' \<and> grows (rn_journal r) (rn_journal r')"
  using assms
proof (induction rule: run_loop.raw_induct [rotated, consumes 1])
  case (1 loop cfg env r r')
  note IH = 1(1) and body = 1(2)
  show ?case
  proof
    assume a: "queue_inv (rn_queue r) \<and> distinct (map t_id (queue_plan (rn_queue r))) \<and> agrees r \<and> durable_env env"
    show "agrees r' \<and> grows (rn_journal r) (rn_journal r')"
    proof (cases "e_ctxErr env (rn_tick r) = None \<and> Next (rn_queue r) \<noteq> None")
      case False
      then have "rn_queue r' = rn_queue r \<and> rn_journal r' = rn_journal r \<and> rn_evidence r' = rn_evidence r"
        using body by (auto split: option.splits)
      then show ?thesis
        using a by (simp add: agrees_def)
    next
      case True
      then obtain i where i: "Next (rn_queue r) = Some i" and ctx: "e_ctxErr env (rn_tick r) = None"
        by auto
      obtain stop r1 where one: "runOne cfg env i (advance_tick r) = (stop, r1)"
        by fastforce
      have "agrees r1 \<and> grows (rn_journal r) (rn_journal r1)"
        using agrees_runOne [OF one] a Next_pending [OF i] by (simp add: run_simps agrees_def offered_def queue_inv_def)
      moreover obtain f where f: "f \<in> queue_outcomes" "rn_queue r1 = f (rn_queue r) i"
        using runOne_effect [OF one] by (auto simp: run_simps)
      moreover have "queue_inv (rn_queue r1)" "queue_plan (rn_queue r1) = queue_plan (rn_queue r)"
        using a wq.outcome_inv [OF _ i f(1)] wq.outcome_plan [OF _ i f(1)] f(2) by auto
      moreover have "r' = r1 \<or> loop cfg env r1 = Some r'"
        using body i ctx one by (auto split: if_splits)
      ultimately show ?thesis
        using IH [of cfg env r1 r'] a grows_trans by (elim disjE) auto
    qed
  qed
qed

lemma agrees_Run:
  assumes "Run cfg env r = Some (ev, err, r')" "agrees r" "durable_env env" "queue_inv (rn_queue r)"
    and "distinct (map t_id (queue_plan (rn_queue r)))"
  shows "agrees r' \<and> grows (rn_journal r) (rn_journal r')"
proof -
  define r1 where "r1 = log_record env (run_started cfg (rn_fence r)) r"
  define r0 where "r0 = publish cfg env ''starting'' None r1"
  have q1: "quiet (rn_journal r) (rn_journal r1)"
    by (simp add: r1_def run_simps run_started_def new_record_def quiet_kind_def quiet_Append)
  then have q0: "quiet (rn_journal r) (rn_journal r0)"
    unfolding r0_def by (rule quiet_then_publish)
  have a0: "agrees r0" "rn_queue r0 = rn_queue r"
    using agrees_quiet [OF assms(2) q0] by (simp_all add: r0_def r1_def run_simps)
  obtain r2 where r2: "run_loop cfg env r0 = Some r2" "end_run cfg env r2 = (ev, err, r')"
    using assms(1,3) by (auto simp: Run_def Let_def r0_def r1_def durable_env_def)
  then have a2: "agrees r2" "grows (rn_journal r0) (rn_journal r2)"
    using agrees_run_loop [OF r2(1)] a0 assms(3-5) by simp_all
  have "quiet (rn_journal r2) (rn_journal r')"
    using r2(2) unfolding end_run_def Let_def
    by (auto simp: run_simps quiet_Append quiet_kind_def new_record_def intro!: quiet_then_publish split: if_splits option.splits)
  moreover have "rn_queue r' = rn_queue r2" "rn_evidence r' = rn_evidence r2"
    using end_run_sel [of cfg env r2] r2(2) by simp_all
  ultimately show ?thesis
    using a2 agrees_quiet quiet_grows q0 grows_trans by meson
qed

section \<open>What a session starts from\<close>

lemma NewQueue_fresh:
  assumes "qt \<in> set (qu_tasks (NewQueue p b))"
  shows "q_resumes qt = 0 \<and> q_attempts qt = [] \<and> (q_state qt = TaskPending \<or> q_state qt = TaskHeld)"
proof -
  have e: "held_ext (built b (p_tasks p)) (NewQueue p b)"
    using propagateHolds_ext [OF built_wf] by (auto simp: NewQueue_def)
  from assms obtain k where k: "k < num_tasks (NewQueue p b)" "qt = task_at (NewQueue p b) k"
    by (auto simp: in_set_conv_nth)
  then have k': "k < length (p_tasks p)"
    using held_ext_fields(1) [OF e] by (simp add: built_tasks)
  have "task_at (built b (p_tasks p)) k = new_task b (p_tasks p ! k)"
    using k' by (simp add: built_tasks)
  then have "qt = new_task b (p_tasks p ! k) \<or> (\<exists>why. qt = (new_task b (p_tasks p ! k))\<lparr>q_state := TaskHeld, q_heldReason := why\<rparr>)"
    using e k k' by (auto simp: held_ext_def built_tasks)
  then show ?thesis
    by (auto simp: new_task_def split: option.splits)
qed

lemma seq_le_lastSeq: "x \<in> set log \<Longrightarrow> r_seq x \<le> rs_lastSeq (Replay log run)"
  by (induction log rule: rev_induct) (auto simp: Replay_lastSeq)

lemma started_attempts:
  "x \<in> set log \<Longrightarrow> own_record run RecordTaskStarted x \<Longrightarrow> rs_attempts (Replay log run) \<noteq> Map.empty"
proof (induction log rule: rev_induct)
  case (snoc y log)
  have keep: "rs_attempts st \<noteq> Map.empty \<Longrightarrow> rs_attempts (replay_step run st y) \<noteq> Map.empty" for st
    by (auto simp: replay_step_def replay_own_def Let_def split: RecordKind.split option.split)
  have new: "own_record run RecordTaskStarted y \<Longrightarrow> rs_attempts (replay_step run st y) \<noteq> Map.empty" for st
    by (auto simp: replay_step_def replay_own_def Let_def own_record_def)
  show ?case
    using snoc keep new by (auto simp: Replay_snoc)
qed simp

lemma not_resumed_no_resumes:
  assumes "log_ok run log" "\<not> resumed_run (Replay log run)"
  shows "rs_succeeded (Replay log run) = {}" "count_of (rs_resumes (Replay log run)) t = 0"
proof -
  have none: "rs_succeeded (Replay log run) = {} \<and> (\<forall>x\<in>set log. \<not> own_record run RecordTaskStarted x)"
  proof (cases log)
    case Nil
    then show ?thesis
      by (simp add: Replay_def no_history_def)
  next
    case (Cons x xs)
    have "0 < r_seq x"
      using assms(1) Cons by (simp add: log_ok_def)
    moreover have "r_seq x \<le> rs_lastSeq (Replay log run)"
      using Cons by (simp add: seq_le_lastSeq)
    ultimately show ?thesis
      using assms(2) started_attempts by (auto simp: resumed_run_def)
  qed
  show "rs_succeeded (Replay log run) = {}"
    using none by simp
  have "\<not> own_record run RecordTaskResumed x" if x: "x \<in> set log" for x
  proof
    assume own: "own_record run RecordTaskResumed x"
    obtain pre post where "log = pre @ x # post"
      using split_list [OF x] by blast
    then show False
      using assms(1) own none by (fastforce simp: log_ok_def backed_def)
  qed
  then show "count_of (rs_resumes (Replay log run)) t = 0"
    by (auto simp: Replay_resumes own_record_def filter_empty_conv)
qed

lemma restore_synced:
  assumes "q_resumes qt = 0" "q_state qt = TaskPending \<or> q_state qt = TaskHeld"
    and "0 \<le> count_of (rs_resumes st) (t_id (q_task qt))"
    and "count_of (rs_resumes st) (t_id (q_task qt)) \<le> resumeBudget qt + 1"
  shows "task_synced st (restore_task st qt)"
proof -
  have "0 < resumeBudget qt"
    by (simp add: resumeBudget_def DefaultMaxResumes_def)
  moreover have "resumeBudget (x\<lparr>q_interrupted := c\<rparr>) = resumeBudget x" for x c
    by (simp add: resumeBudget_def)
  ultimately show ?thesis
    using assms by (auto simp: task_synced_def restore_task_def Let_def)
qed

definition resumes_within :: "Plan \<Rightarrow> Record list \<Rightarrow> bool" where
  "resumes_within p log \<longleftrightarrow>
     (\<forall>t\<in>set (p_tasks p). count_of (rs_resumes (Replay log (p_runID p))) (t_id t) \<le>
        resumeBudget (new_task Map.empty t) + 1)"

lemma session_queue_synced:
  fixes p :: Plan and b :: "string \<rightharpoonup> string" and log :: "Record list"
  defines "st \<equiv> Replay log (p_runID p)"
  assumes "log_ok (p_runID p) log" "resumes_within p log"
  shows "list_all (task_synced st) (qu_tasks (session_queue p b (if resumed_run st then Some st else None)))"
proof -
  have within: "count_of (rs_resumes st) (t_id (q_task qt)) \<le> resumeBudget qt + 1"
    if "qt \<in> set (qu_tasks (NewQueue p b))" for qt
  proof -
    have "q_task qt \<in> set (p_tasks p)"
      using that NewQueue_contract(2) [of p b] by (metis image_eqI list.set_map queue_plan_def)
    moreover have "resumeBudget qt = resumeBudget (new_task Map.empty (q_task qt))"
      by (rule resumeBudget_cong) simp
    ultimately show ?thesis
      using assms(3) by (simp add: resumes_within_def st_def)
  qed
  have pos: "0 \<le> count_of (rs_resumes st) t" for t
    by (simp add: st_def Replay_resumes)
  show ?thesis
  proof (cases "resumed_run st")
    case True
    have "task_synced st (restore_task st qt)" if "qt \<in> set (qu_tasks (NewQueue p b))" for qt
      using NewQueue_fresh [OF that] within [OF that] pos by (intro restore_synced) auto
    then have "list_all (task_synced st) (map (restore_task st) (qu_tasks (NewQueue p b)))"
      by (simp add: list_all_iff)
    then have "list_all (task_synced st) (qu_tasks (Restore (NewQueue p b) st))"
      unfolding Restore_def using NewQueue_contract(1) [of p b]
      by (intro propagate_synced restored_wf) (simp_all add: queue_inv_def)
    with True show ?thesis
      by (simp add: session_queue_def)
  next
    case False
    have "task_synced st qt" if "qt \<in> set (qu_tasks (NewQueue p b))" for qt
    proof -
      have "0 < resumeBudget qt"
        by (simp add: resumeBudget_def DefaultMaxResumes_def)
      then show ?thesis
        using NewQueue_fresh [OF that] not_resumed_no_resumes [OF assms(2)] False
        by (auto simp: task_synced_def st_def)
    qed
    with False show ?thesis
      by (simp add: session_queue_def list_all_iff)
  qed
qed

text \<open>A session that began, over a journal whose file did not change while it did.\<close>

lemma Begin_agrees:
  assumes "Begin b spec plan d = (Inr s, eff)" "ReadJournal (bg_dec b) (bg_file b) = Inr (log, tr)"
    and "bg_fileAtOpen b = bg_file b" "log_ok (p_runID plan) log" "resumes_within plan log"
  shows "agrees (ss_runner s)" and "prefix log (j_log (rn_journal (ss_runner s)))"
    and "j_runID (rn_journal (ss_runner s)) = p_runID plan" and "rc_plan (ss_config s) = plan"
    and "\<exists>bs. rn_queue (ss_runner s) = session_queue plan bs
      (if resumed_run (Replay log (p_runID plan)) then Some (Replay log (p_runID plan)) else None)"
    and "Plan_Validate plan = []" and "rn_trace (ss_runner s) = []"
proof -
  from assms(1) obtain records truncated rep j j' where o: "Plan_Validate plan = []"
    "ReadJournal (bg_dec b) (bg_file b) = Inr (records, truncated)"
    "OpenJournal (bg_dec b) (bg_fileAtOpen b) (p_runID plan) (bg_openErr b) = Inr j"
    "append_all (bg_durable b) 0 j (opening_records spec rep (lk_owner (ss_lock s)) (rn_fence (ss_runner s)) truncated) = (True, j')"
    "ss_config s = \<lparr>rc_spec = spec, rc_plan = plan, rc_report = Some rep, rc_lock = Some (lk_owner (ss_lock s))\<rparr>"
    "ss_runner s = new_runner j'
       (session_queue plan (Report_Boundaries rep)
          (if resumed_run (Replay records (p_runID plan)) then Some (Replay records (p_runID plan)) else None))
       (TakeFence (rep_repo rep) (WriterLockDir (rep_repo rep)) (lk_owner (ss_lock s)))
       (rs_gates (Replay records (p_runID plan)))"
    by (rule Begin_success) blast
  have rec: "records = log"
    using o(2) assms(2) by simp
  have j: "j_log j = log" "j_runID j = p_runID plan" "j_seq j = rs_lastSeq (Replay log (p_runID plan))"
    using o(3) assms(2,3) by (auto simp: OpenJournal_def Replay_lastSeq split: option.splits)
  have "0 \<le> foldl (\<lambda>s r. if r_seq r > s then r_seq r else s) 0 log"
    by (induction log rule: rev_induct) auto
  then have "journal_ok j"
    using assms(4) j by (simp add: journal_ok_def Replay_lastSeq)
  moreover have q: "quiet j j'"
    using o(4) by (rule quiet_append_all) (auto simp: opening_records_def new_record_def quiet_kind_def)
  moreover have "synced j (session_queue plan (Report_Boundaries rep)
      (if resumed_run (Replay log (p_runID plan)) then Some (Replay log (p_runID plan)) else None))
      (rs_gates (Replay log (p_runID plan)))"
    using session_queue_synced [OF assms(4,5)] by (simp add: synced_def journal_state_def j)
  ultimately show "agrees (ss_runner s)"
    unfolding agrees_def o(6) rec using synced_quiet quiet_ok by (simp add: new_runner_def split del: if_split)
  show "prefix log (j_log (rn_journal (ss_runner s)))" "j_runID (rn_journal (ss_runner s)) = p_runID plan"
    using quiet_grows [OF q] j by (simp_all add: grows_def o(6) new_runner_def)
  show "rc_plan (ss_config s) = plan" "Plan_Validate plan = []" "rn_trace (ss_runner s) = []"
    using o by (simp_all add: new_runner_def)
  show "\<exists>bs. rn_queue (ss_runner s) = session_queue plan bs
      (if resumed_run (Replay log (p_runID plan)) then Some (Replay log (p_runID plan)) else None)"
    using o(6) rec by (auto simp: new_runner_def)
qed

text \<open>The records a refused session leaves behind say nothing of the run's work.\<close>

lemma Begin_refused_quiet:
  assumes "Begin b spec plan d = (Inl e, eff)" "x \<in> set (be_appended eff)"
  shows "quiet_kind (r_kind x) \<and> 0 < r_seq x"
proof -
  obtain rep resume truncated where "claim_session b spec plan rep resume truncated d = (Inl e, eff)"
    using assms by (auto simp: Begin_def start_session_def Let_def split: if_splits sum.splits prod.splits)
  then obtain lock recs where opened: "open_session b spec plan rep resume truncated lock = (Inl e, recs)"
    and "be_appended eff = recs"
    using assms(2) by (auto simp: claim_session_def split: sum.splits prod.splits)
  with assms(2) obtain j j' ok fence where j: "OpenJournal (bg_dec b) (bg_fileAtOpen b) (p_runID plan) (bg_openErr b) = Inr j"
    and all: "append_all (bg_durable b) 0 j (opening_records spec rep (lk_owner lock) fence truncated) = (ok, j')"
    and x: "x \<in> set (drop (length (j_log j)) (j_log j'))"
    by (auto simp: open_session_def Let_def split: sum.splits prod.splits if_splits)
  have "0 \<le> foldl (\<lambda>s r. if r_seq r > s then r_seq r else s) 0 recs'" for recs'
    by (induction recs' rule: rev_induct) auto
  then have "0 \<le> j_seq j"
    using j by (auto simp: OpenJournal_def split: sum.splits prod.splits option.splits)
  moreover have "quiet j j'"
    using all by (rule quiet_append_all) (auto simp: opening_records_def new_record_def quiet_kind_def)
  ultimately show ?thesis
    using x by (fastforce simp: quiet_def)
qed

section \<open>Histories\<close>

text \<open>
  The journals a plan's sessions can leave behind. The journal may hold other runs' records and gain more at any time
  between sessions. A session reads the journal as it is; it is refused, or it begins and runs, with a disk that keeps
  what it is given, and is left at any moment between its start and its end.
\<close>

inductive run_history :: "Plan \<Rightarrow> Record list \<Rightarrow> bool" for plan where
  fresh: "run_history plan []"
| others: "run_history plan log \<Longrightarrow> \<forall>x\<in>set ss. r_runID x \<noteq> p_runID plan \<and> 0 < r_seq x \<Longrightarrow> run_history plan (log @ ss)"
| refused: "run_history plan log \<Longrightarrow> Begin b spec plan d = (Inl e, eff) \<Longrightarrow> run_history plan (log @ be_appended eff)"
| session: "run_history plan log \<Longrightarrow> ReadJournal (bg_dec b) (bg_file b) = Inr (log, tr) \<Longrightarrow>
    bg_fileAtOpen b = bg_file b \<Longrightarrow> Begin b spec plan d = (Inr s, eff) \<Longrightarrow> durable_env env \<Longrightarrow>
    Run (ss_config s) env (ss_runner s) = Some (ev, err, r') \<Longrightarrow>
    prefix log log' \<Longrightarrow> prefix log' (j_log (rn_journal r')) \<Longrightarrow> run_history plan log'"

lemma resumes_prefix:
  "prefix log' log \<Longrightarrow> count_of (rs_resumes (Replay log' run)) t \<le> count_of (rs_resumes (Replay log run)) t"
  by (auto simp: Replay_resumes prefix_def)

lemma Run_after_Begin:
  assumes "Begin b spec plan d = (Inr s, eff)" "ReadJournal (bg_dec b) (bg_file b) = Inr (log, tr)"
    and "bg_fileAtOpen b = bg_file b" "log_ok (p_runID plan) log" "resumes_within plan log" "durable_env env"
    and "Run (ss_config s) env (ss_runner s) = Some (ev, err, r')"
  shows "agrees r'" "j_runID (rn_journal r') = p_runID plan" "queue_plan (rn_queue r') = p_tasks plan"
    "resumes_within plan (j_log (rn_journal r'))" "prefix log (j_log (rn_journal r'))"
proof -
  note b = Begin_agrees [OF assms(1-5)]
  obtain bs st where q: "rn_queue (ss_runner s) = session_queue plan bs st"
    using b(5) by blast
  then have inv: "queue_inv (rn_queue (ss_runner s))" "queue_plan (rn_queue (ss_runner s)) = p_tasks plan"
    using session_queue_contract(1,2) by simp_all
  have "distinct (map t_id (queue_plan (rn_queue (ss_runner s))))"
    using b(6) inv by (simp add: Plan_Validate_iff plan_wf_def task_ids_def)
  then have a: "agrees r' \<and> grows (rn_journal (ss_runner s)) (rn_journal r')"
    using agrees_Run [OF assms(7) b(1) assms(6) inv(1)] by simp
  then show "agrees r'" and run: "j_runID (rn_journal r') = p_runID plan" and "prefix log (j_log (rn_journal r'))"
    using b(2,3) prefix_order.trans by (auto simp: grows_def)
  obtain fs "is" where "set fs \<subseteq> queue_outcomes" "drain Next fs (rn_queue (ss_runner s)) = (is, rn_queue r')"
    using assms(7) inv(1) by (rule Run_drain) blast
  then show plan: "queue_plan (rn_queue r') = p_tasks plan"
    using wq.drain_inv [OF inv(1)] inv(2) by metis
  show "resumes_within plan (j_log (rn_journal r'))"
    unfolding resumes_within_def
  proof
    fix t
    assume "t \<in> set (p_tasks plan)"
    then obtain qt where qt: "qt \<in> set (qu_tasks (rn_queue r'))" "q_task qt = t"
      using plan by (metis imageE list.set_map queue_plan_def)
    then have "task_synced (journal_state (rn_journal r')) qt"
      using a by (simp add: agrees_def synced_def list_all_iff)
    moreover have "resumeBudget qt = resumeBudget (new_task Map.empty t)"
      using qt by (intro resumeBudget_cong) simp
    ultimately show "count_of (rs_resumes (Replay (j_log (rn_journal r')) (p_runID plan))) (t_id t)
        \<le> resumeBudget (new_task Map.empty t) + 1"
      using qt run by (simp add: task_synced_def journal_state_def)
  qed
qed

lemma history_ok: "run_history plan log \<Longrightarrow> log_ok (p_runID plan) log \<and> resumes_within plan log"
proof (induction rule: run_history.induct)
  case fresh
  show ?case
    by (auto simp: log_ok_def resumes_within_def Replay_def no_history_def count_of_def resumeBudget_def DefaultMaxResumes_def)
next
  case (others log ss)
  then show ?case
    using Replay_quiet(3) [of ss "p_runID plan" log] backed_other [of "p_runID plan" log ss]
    by (auto simp: log_ok_def resumes_within_def own_record_def)
next
  case (refused log b spec d e eff)
  then have "\<forall>x\<in>set (be_appended eff). quiet_kind (r_kind x) \<and> 0 < r_seq x"
    using Begin_refused_quiet by blast
  then show ?case
    using refused Replay_quiet(3) [of "be_appended eff" "p_runID plan" log]
      backed_other [of "p_runID plan" log "be_appended eff"]
    by (auto simp: log_ok_def resumes_within_def own_record_def quiet_kind_def)
next
  case (session log b tr spec d s eff env ev err r' log')
  note r = Run_after_Begin [OF session(4,2,3) session.IH [THEN conjunct1] session.IH [THEN conjunct2] session(5,6)]
  have "log_ok (p_runID plan) (j_log (rn_journal r'))"
    using r(1,2) by (simp add: agrees_def journal_ok_def)
  then show ?case
    using log_ok_prefix session.hyps r(4) resumes_prefix order_trans unfolding resumes_within_def by meson
qed

section \<open>A recorded end\<close>

lemma Replay_ended:
  assumes "\<forall>x\<in>set ss. r_runID x = run \<longrightarrow> r_kind x \<noteq> RecordRunFinished"
  shows "rs_finished (Replay (log @ ss) run) = rs_finished (Replay log run)"
    and "rs_finalOutcome (Replay (log @ ss) run) = rs_finalOutcome (Replay log run)"
proof -
  have step: "r_runID x = run \<longrightarrow> r_kind x \<noteq> RecordRunFinished \<Longrightarrow>
      rs_finished (replay_step run st x) = rs_finished st \<and> rs_finalOutcome (replay_step run st x) = rs_finalOutcome st" for x st
    by (auto simp: replay_step_def replay_own_def Let_def split: RecordKind.split option.split)
  have "rs_finished (Replay (log @ ss) run) = rs_finished (Replay log run) \<and>
      rs_finalOutcome (Replay (log @ ss) run) = rs_finalOutcome (Replay log run)"
    using assms
  proof (induction ss rule: rev_induct)
    case (snoc x ss)
    then show ?case
      using step [of x "Replay (log @ ss) run"] Replay_snoc [of "log @ ss" x run] by simp
  qed simp
  then show "rs_finished (Replay (log @ ss) run) = rs_finished (Replay log run)"
    "rs_finalOutcome (Replay (log @ ss) run) = rs_finalOutcome (Replay log run)"
    by simp_all
qed

text \<open>A run never changes the name its journal writes under, whatever the disk does.\<close>

abbreviation run_of :: "runner \<Rightarrow> string" where
  "run_of r \<equiv> j_runID (rn_journal r)"

lemma run_of_steps [simp]:
  "run_of (log_record env rec r) = run_of r" "run_of (advance_tick r) = run_of r" "run_of (set_queue q r) = run_of r"
  "run_of (publish cfg env st c r) = run_of r" "run_of (recordGateEvidence cfg env i g d r) = run_of r"
  "run_of (recordAdvance env i r) = run_of r" "run_of (snd (captureFailure cfg env t n x r)) = run_of r"
proof -
  show l: "run_of (log_record env rec r) = run_of r" for rec r
    by (simp add: run_simps Append_def Let_def)
  show "run_of (advance_tick r) = run_of r" "run_of (set_queue q r) = run_of r"
    by (simp_all add: run_simps)
  show "run_of (publish cfg env st c r) = run_of r" "run_of (recordAdvance env i r) = run_of r"
    "run_of (snd (captureFailure cfg env t n x r)) = run_of r"
    using quiet_publish quiet_recordAdvance quiet_captureFailure by (metis quiet_def)+
  show "run_of (recordGateEvidence cfg env i g d r) = run_of r"
    using grows_gate by (metis grows_def)
qed

lemma run_of_conclude:
  assumes "conclude cfg env i v n x r = (stop, r')"
  shows "run_of r' = run_of r"
proof -
  obtain path r1 where c: "captureFailure cfg env (t_id (q_task (task_at (rn_queue r) i))) n x r = (path, r1)"
    by fastforce
  then have "run_of r1 = run_of r"
    using run_of_steps(7) [of cfg env "t_id (q_task (task_at (rn_queue r) i))" n x r] by simp
  then show ?thesis
    using assms
    by (auto simp: conclude_def succeed_def driveAgain_def stopOnHumanBoundary_def fail_attempt_def c Let_def
        split: Disposition.splits prod.splits if_splits)
qed

lemma run_of_runOne:
  assumes "runOne cfg env i r = (stop, r')"
  shows "run_of r' = run_of r"
proof -
  have d: "run_of r' = run_of r" if "drive cfg env i r = (stop, r')" for r
    using that by (auto simp: drive_def Let_def dest!: run_of_conclude split: if_splits)
  show ?thesis
    using assms by (auto simp: runOne_def Let_def dest!: d split: if_splits)
qed

lemma run_of_run_loop:
  assumes "run_loop cfg env r = Some r'"
  shows "run_of r' = run_of r"
  using assms
proof (induction rule: run_loop.raw_induct [rotated, consumes 1])
  case (1 loop cfg env r r')
  then show ?case
    by (auto dest!: run_of_runOne split: option.splits prod.splits if_splits)
qed

lemma publish_log:
  "\<exists>ss. j_log (rn_journal (publish cfg env st c r)) = j_log (rn_journal r) @ ss \<and> (\<forall>x\<in>set ss. r_kind x = RecordPreflight)"
  by (auto simp: publish_def Let_def run_simps Append_def new_record_def split: option.split)

lemma end_run_recorded:
  assumes "end_run cfg env r = (ev, err, r')" "err \<noteq> Some JournalNotDurable" "ev = Some e" "ce_outcome e = RunCompleted"
  shows "rs_finished (Replay (j_log (rn_journal r')) (run_of r)) \<and>
    rs_finalOutcome (Replay (j_log (rn_journal r')) (run_of r)) = RunCompleted"
proof -
  define rec where "rec = (new_record RecordRunFinished)
    \<lparr>r_outcome := RunOutcome_text (ce_outcome (finish cfg r)), r_detail := ce_reason (finish cfg r)\<rparr>"
  define r1 where "r1 = log_record env rec r"
  have dur: "e_durable env (rn_tick r)" and e: "e = finish cfg r"
    and r': "r' = advance_tick r1 \<or> r' = publish cfg env ''finished'' None (advance_tick r1)"
    using assms unfolding end_run_def Let_def rec_def r1_def by (auto split: if_splits option.splits)
  have "rs_finished (Replay (j_log (rn_journal r1)) (run_of r)) \<and>
      rs_finalOutcome (Replay (j_log (rn_journal r1)) (run_of r)) = RunCompleted"
    using dur e assms(4)
    by (simp add: r1_def rec_def run_simps Append_def Let_def Replay_snoc replay_step_def replay_own_def new_record_def
        RunOutcome_of_def)
  moreover obtain ss where "j_log (rn_journal r') = j_log (rn_journal r1) @ ss" "\<forall>x\<in>set ss. r_kind x = RecordPreflight"
    using r' publish_log [of cfg env "''finished''" None "advance_tick r1"] by (auto simp: run_simps)
  ultimately show ?thesis
    using Replay_ended [of ss "run_of r" "j_log (rn_journal r1)"] by simp
qed

section \<open>Properties\<close>

text \<open>C31. A completed run is history. Once a run has reported completed and recorded it, every later
  session under its identifier is refused, whatever spec, plan, machine or other runs' records it comes with: the
  lock directory is not touched, nothing is journalled and no report is written.\<close>

theorem completed_run_never_reopened:
  assumes "Begin b spec plan d = (Inr s, eff)" "Run (ss_config s) env (ss_runner s) = Some (Some ev, err, r')"
    and "ce_outcome ev = RunCompleted" "err \<noteq> Some JournalNotDurable"
    and "p_runID plan' = p_runID plan" "\<forall>x\<in>set later. r_runID x \<noteq> p_runID plan"
    and "ReadJournal (bg_dec b') (bg_file b') = Inr (j_log (rn_journal r') @ later, tr)"
  shows "\<exists>e. Begin b' spec' plan' d' = (Inl e, \<lparr>be_dir = d', be_appended = [], be_report = None\<rparr>)"
proof -
  from assms(1) obtain j j' recs q f g where j: "OpenJournal (bg_dec b) (bg_fileAtOpen b) (p_runID plan) (bg_openErr b) = Inr j"
    "append_all (bg_durable b) 0 j recs = (True, j')" "ss_runner s = new_runner j' q f g"
    by (rule Begin_success) blast
  have "run_of (ss_runner s) = p_runID plan"
    using j append_all_log [OF j(2)] by (auto simp: new_runner_def OpenJournal_def split: sum.splits prod.splits option.splits)
  moreover obtain r0 r2 where r2: "run_loop (ss_config s) env r0 = Some r2" "end_run (ss_config s) env r2 = (Some ev, err, r')"
    "run_of r0 = run_of (ss_runner s)"
    using assms(2) by (auto simp: Run_def Let_def split: if_splits)
  ultimately have "run_of r2 = p_runID plan"
    using run_of_run_loop [OF r2(1)] by simp
  then have "rs_finished (Replay (j_log (rn_journal r') @ later) (p_runID plan')) \<and>
      rs_finalOutcome (Replay (j_log (rn_journal r') @ later) (p_runID plan')) = RunCompleted"
    using end_run_recorded [OF r2(2) assms(4) refl assms(3)] Replay_ended [of later "p_runID plan" "j_log (rn_journal r')"] assms(5,6)
    by simp
  then show ?thesis
    using assms(7) by (simp add: Begin_def start_session_def Let_def)
qed


text \<open>C30. The bound on resumes is durable. However often the sessions of a plan die and are restarted, and
  whatever the task says of itself, over the whole history a task is driven again as unfinished at most once
  more than its resume budget.\<close>

theorem resumes_bounded_across_restarts:
  assumes "run_history plan log" "t \<in> set (p_tasks plan)"
  shows "int (length (filter (\<lambda>x. r_runID x = p_runID plan \<and> r_kind x = RecordTaskResumed \<and> r_taskID x = t_id t) log))
    \<le> (if t_maxResumes t > 0 then t_maxResumes t else DefaultMaxResumes) + 1"
proof -
  have "resumeBudget (new_task Map.empty t) = (if t_maxResumes t > 0 then t_maxResumes t else DefaultMaxResumes)"
    by (simp add: resumeBudget_def)
  moreover have "count_of (rs_resumes (Replay log (p_runID plan))) (t_id t) \<le> resumeBudget (new_task Map.empty t) + 1"
    using history_ok [OF assms(1)] assms(2) by (simp add: resumes_within_def)
  ultimately show ?thesis
    unfolding Replay_resumes by linarith
qed

section \<open>A session that completes\<close>

lemma sample_session_run:
  "map_option (\<lambda>(ev, err, r). (map_option ce_outcome ev, err = None, drives (rn_trace r),
       length (j_log (rn_journal r)) \<in> {1..20}))
     (Run (ss_config sample_session) sample_env (ss_runner sample_session)) = Some (Some RunCompleted, True, [0], True)"
  by code_simp

lemma sample_session_runs:
  "\<exists>ev r'. Run (ss_config sample_session) sample_env (ss_runner sample_session) = Some (Some ev, None, r') \<and>
     ce_outcome ev = RunCompleted \<and> drives (rn_trace r') = [0] \<and> length (j_log (rn_journal r')) \<in> {1..20}"
  using sample_session_run by auto

lemma sample_env_durable: "durable_env sample_env"
  by (simp add: durable_env_def sample_env_def)

lemma sample_read:
  "ReadJournal (bg_dec sample_begin) (bg_file sample_begin) = Inr ([], False)" "bg_fileAtOpen sample_begin = bg_file sample_begin"
  by (simp_all add: sample_begin_def ReadJournal_def)

text \<open>A short journal can be stored: its records have lines of different lengths.\<close>

lemma short_journal_storable:
  assumes "length log < 100"
  shows "\<exists>dec f. ReadJournal dec f = Inr (log, False)"
proof -
  define enc where "enc = (\<lambda>r. replicate (Suc (length (takeWhile (\<lambda>x. x \<noteq> r) log))) CHR ''x'')"
  define dec where "dec = (\<lambda>l :: string. Some (log ! (length l - 1)))"
  have "codec_ok enc dec r" if r: "r \<in> set log" for r
  proof -
    have "r \<in> set xs \<Longrightarrow> length (takeWhile (\<lambda>x. x \<noteq> r) xs) < length xs \<and> xs ! length (takeWhile (\<lambda>x. x \<noteq> r) xs) = r" for xs
      by (induction xs) auto
    with r have at: "length (takeWhile (\<lambda>x. x \<noteq> r) log) < 100" "log ! length (takeWhile (\<lambda>x. x \<noteq> r) log) = r"
      using assms by fastforce+
    have "TrimSpace (replicate (Suc n) CHR ''x'') = replicate (Suc n) CHR ''x''" for n
      by (rule TrimSpace_graphic) (simp_all add: graphic_def last_replicate)
    with at show ?thesis
      by (simp add: codec_ok_def enc_def dec_def max_line_def blank_def del: replicate_Suc)
  qed
  then have "ReadJournal dec (FileContent (file_of enc log @ [])) = Inr (log, False)"
    by (subst ReadJournal_prefix) auto
  then show ?thesis
    by blast
qed


theorem resumes_bounded_across_restarts_witness:
  "\<exists>log. run_history brief_plan log \<and> log \<noteq> [] \<and>
     int (length (filter (\<lambda>x. r_runID x = ''run-1'' \<and> r_kind x = RecordTaskResumed \<and> r_taskID x = ''build'') log)) \<le> 21"
proof -
  obtain eff where b: "Begin sample_begin sample_spec brief_plan empty_dir = (Inr sample_session, eff)"
    using sample_begins by blast
  obtain ev r' where r: "Run (ss_config sample_session) sample_env (ss_runner sample_session) = Some (Some ev, None, r')"
    "j_log (rn_journal r') \<noteq> []"
    using sample_session_runs by fastforce
  have h: "run_history brief_plan (j_log (rn_journal r'))"
    using run_history.session [OF run_history.fresh sample_read b sample_env_durable r(1), of "j_log (rn_journal r')"] by simp
  show ?thesis
    using h r(2) resumes_bounded_across_restarts [OF h, of "sample_task\<lparr>t_band := BandValidation, t_mutates := True\<rparr>"]
    by (intro exI [of _ "j_log (rn_journal r')"]) (simp add: brief_plan_def sample_task_def DefaultMaxResumes_def)
qed

theorem completed_run_never_reopened_witness:
  "\<exists>ev r' dec f e. Run (ss_config sample_session) sample_env (ss_runner sample_session) = Some (Some ev, None, r') \<and>
     ce_outcome ev = RunCompleted \<and> ReadJournal dec f = Inr (j_log (rn_journal r'), False) \<and>
     Begin (sample_begin\<lparr>bg_dec := dec, bg_file := f\<rparr>) sample_spec brief_plan empty_dir =
       (Inl e, \<lparr>be_dir = empty_dir, be_appended = [], be_report = None\<rparr>)"
proof -
  obtain eff where b: "Begin sample_begin sample_spec brief_plan empty_dir = (Inr sample_session, eff)"
    using sample_begins by blast
  obtain ev r' where r: "Run (ss_config sample_session) sample_env (ss_runner sample_session) = Some (Some ev, None, r')"
    "ce_outcome ev = RunCompleted" "length (j_log (rn_journal r')) < 100"
    using sample_session_runs by fastforce
  obtain dec f where f: "ReadJournal dec f = Inr (j_log (rn_journal r'), False)"
    using short_journal_storable [OF r(3)] by blast
  then have "ReadJournal (bg_dec (sample_begin\<lparr>bg_dec := dec, bg_file := f\<rparr>)) (bg_file (sample_begin\<lparr>bg_dec := dec, bg_file := f\<rparr>)) =
      Inr (j_log (rn_journal r') @ [], False)"
    by simp
  from completed_run_never_reopened [OF b r(1,2) _ refl _ this, of sample_spec empty_dir] r(1,2) f show ?thesis
    by auto
qed

end
