(* ===== verification/Atomic_File.thy ===== *)
theory Atomic_File
  imports Go_Path
begin

text \<open>
  How durable files are replaced. The control layer (\<^verbatim>\<open>internal/unattended/atomicfile.go\<close>) and the projector
  (\<^verbatim>\<open>internal/projector/projector.go\<close>) each have a \<^verbatim>\<open>writeFileAtomic\<close>: both write a temporary file, sync
  it and rename it over the target; the first removes the target before it renames.

  A write is the list of the steps it takes on the file system, so a crash is a prefix of that list. A file is its
  content and whether that content has been synced: what was not synced may hold anything after the machine lost
  power. What the operating system answers, the name of the temporary file and which call fails, is the record
  \<open>write_io\<close>. Names appear and vanish in the order of the steps.
\<close>

section \<open>Files\<close>

type_synonym files = "string \<rightharpoonup> string \<times> bool"

datatype file_step =
    MkdirAll string
  | CreateFile string
  | WriteFile string string
  | SyncFile string
  | CloseFile string
  | RemoveFile string
  | RenameFile string string

fun apply_step :: "file_step \<Rightarrow> files \<Rightarrow> files" where
  "apply_step (MkdirAll d) fs = fs"
| "apply_step (CreateFile t) fs = fs(t \<mapsto> ([], False))"
| "apply_step (WriteFile t data) fs = fs(t \<mapsto> (data, False))"
| "apply_step (SyncFile t) fs = fs(t := map_option (\<lambda>(data, _). (data, True)) (fs t))"
| "apply_step (CloseFile t) fs = fs"
| "apply_step (RemoveFile p) fs = fs(p := None)"
| "apply_step (RenameFile a b) fs = (case fs a of None \<Rightarrow> fs | Some f \<Rightarrow> fs(b \<mapsto> f, a := None))"

definition run_steps :: "file_step list \<Rightarrow> files \<Rightarrow> files" where
  "run_steps steps fs = fold apply_step steps fs"

definition content :: "files \<Rightarrow> string \<Rightarrow> string option" where
  "content fs p = map_option fst (fs p)"

text \<open>What may be left of \<open>fs\<close> after a loss of power: synced files are as they were, the others are there with
  some content.\<close>

definition survives :: "files \<Rightarrow> files \<Rightarrow> bool" where
  "survives fs fs' = (\<forall>p. (fs p = None) = (fs' p = None) \<and> (\<forall>data. fs p = Some (data, True) \<longrightarrow> fs' p = Some (data, True)))"

text \<open>What a crash somewhere during the steps may leave, a write cut short included.\<close>

definition cut_step :: "nat option \<Rightarrow> file_step list \<Rightarrow> file_step list" where
  "cut_step part steps = (case (part, steps) of (Some n, WriteFile t data # _) \<Rightarrow> [WriteFile t (take n data)] | _ \<Rightarrow> [])"

definition crash_leaves :: "file_step list \<Rightarrow> files \<Rightarrow> files \<Rightarrow> bool" where
  "crash_leaves steps fs fs' = (\<exists>k part. survives (run_steps (take k steps @ cut_step part (drop k steps)) fs) fs')"

section \<open>The two writes\<close>

record write_io =
  wi_mkdir :: "string option"
  wi_temp :: "string + string"
  wi_write :: "(nat \<times> string) option"
  wi_sync :: "string option"
  wi_close :: "string option"
  wi_remove :: "string option"
  wi_rename :: "string option"

datatype write_error =
    CreatingDir string string
  | CreatingTempFor string string
  | WritingTemp string string
  | SyncingTemp string string
  | ClosingTemp string string
  | ReplacingTarget string string
  | RenamingTemp string string string

text \<open>What both do before the target is touched: the error, and the steps taken.\<close>

definition fill_temp :: "write_io \<Rightarrow> string \<Rightarrow> string \<Rightarrow> write_error option \<times> file_step list" where
  "fill_temp io tmp data =
     (case wi_write io of
        Some (n, e) \<Rightarrow> (Some (WritingTemp tmp e), [WriteFile tmp (take n data), CloseFile tmp])
      | None \<Rightarrow>
          (case wi_sync io of
             Some e \<Rightarrow> (Some (SyncingTemp tmp e), [WriteFile tmp data, CloseFile tmp])
           | None \<Rightarrow>
               (map_option (ClosingTemp tmp) (wi_close io), [WriteFile tmp data, SyncFile tmp, CloseFile tmp])))"

text \<open>The write of the control layer.\<close>

definition unattended_writeFileAtomic :: "write_io \<Rightarrow> string \<Rightarrow> string \<Rightarrow> write_error option \<times> file_step list" where
  "unattended_writeFileAtomic io path data =
     (let dir = filepath_Dir path in
      case wi_mkdir io of
        Some e \<Rightarrow> (Some (CreatingDir dir e), [])
      | None \<Rightarrow>
          (case wi_temp io of
             Inl e \<Rightarrow> (Some (CreatingTempFor dir e), [MkdirAll dir])
           | Inr tmp \<Rightarrow>
               let (err, body) =
                 (case fill_temp io tmp data of
                    (Some e, steps) \<Rightarrow> (Some e, steps)
                  | (None, steps) \<Rightarrow>
                      (case wi_remove io of
                         Some e \<Rightarrow> (Some (ReplacingTarget path e), steps)
                       | None \<Rightarrow>
                           (case wi_rename io of
                              Some e \<Rightarrow> (Some (RenamingTemp tmp path e), steps @ [RemoveFile path])
                            | None \<Rightarrow> (None, steps @ [RemoveFile path, RenameFile tmp path]))))
               in (err, [MkdirAll dir, CreateFile tmp] @ body @ [RemoveFile tmp])))"

text \<open>The write of the projector.\<close>

definition projector_writeFileAtomic :: "write_io \<Rightarrow> string \<Rightarrow> string \<Rightarrow> write_error option \<times> file_step list" where
  "projector_writeFileAtomic io path data =
     (let dir = filepath_Dir path in
      case wi_mkdir io of
        Some e \<Rightarrow> (Some (CreatingDir dir e), [])
      | None \<Rightarrow>
          (case wi_temp io of
             Inl e \<Rightarrow> (Some (CreatingTempFor path e), [MkdirAll dir])
           | Inr tmp \<Rightarrow>
               let (err, body) =
                 (case fill_temp io tmp data of
                    (Some e, steps) \<Rightarrow> (Some e, steps)
                  | (None, steps) \<Rightarrow>
                      (case wi_rename io of
                         Some e \<Rightarrow> (Some (RenamingTemp tmp path e), steps)
                       | None \<Rightarrow> (None, steps @ [RenameFile tmp path])))
               in (err, [MkdirAll dir, CreateFile tmp] @ body @ [RemoveFile tmp])))"

section \<open>What a target holds along the steps\<close>

fun seen :: "file_step list \<Rightarrow> files \<Rightarrow> string \<Rightarrow> (string \<times> bool) option set" where
  "seen [] fs p = {fs p}"
| "seen (s # steps) fs p = insert (fs p) (seen steps (apply_step s fs) p)"

lemma run_steps_simps [simp]:
  "run_steps [] fs = fs"
  "run_steps (s # steps) fs = run_steps steps (apply_step s fs)"
  by (simp_all add: run_steps_def)

lemma run_steps_append: "run_steps (a @ b) fs = run_steps b (run_steps a fs)"
  by (simp add: run_steps_def)

lemma seen_take: "run_steps (take k steps) fs p \<in> seen steps fs p"
proof (induction steps arbitrary: k fs)
  case (Cons s steps)
  then show ?case by (cases k) auto
qed simp

definition writes_elsewhere :: "string \<Rightarrow> file_step list \<Rightarrow> bool" where
  "writes_elsewhere p steps = list_all (\<lambda>s. case s of WriteFile t _ \<Rightarrow> t \<noteq> p | _ \<Rightarrow> True) steps"

lemma cut_step_elsewhere:
  assumes "writes_elsewhere p steps"
  shows "run_steps (cut_step n (drop k steps)) fs p = fs p"
proof (cases "drop k steps")
  case (Cons s ss)
  then have "s \<in> set steps"
    by (metis in_set_dropD list.set_intros(1))
  with assms Cons show ?thesis
    by (cases s) (auto simp: writes_elsewhere_def list_all_iff cut_step_def split: option.split)
qed (simp add: cut_step_def split: option.split)

text \<open>When all a target ever holds along the steps is synced, a crash leaves one of those contents or, where it held
  none, none.\<close>

lemma crash_leaves_seen:
  assumes "crash_leaves steps fs fs'" "writes_elsewhere p steps"
    and "\<forall>v\<in>seen steps fs p. v = None \<or> (\<exists>data. v = Some (data, True))"
  shows "fs' p \<in> seen steps fs p"
proof -
  from assms(1) obtain k n where s: "survives (run_steps (take k steps @ cut_step n (drop k steps)) fs) fs'"
    by (auto simp: crash_leaves_def)
  let ?v = "run_steps (take k steps @ cut_step n (drop k steps)) fs p"
  have v: "?v = run_steps (take k steps) fs p"
    using cut_step_elsewhere [OF assms(2)] by (simp add: run_steps_append)
  then have "?v \<in> seen steps fs p"
    by (simp add: seen_take)
  moreover from this assms(3) have "fs' p = ?v"
    using s unfolding survives_def by (metis (no_types, lifting))
  ultimately show ?thesis
    by simp
qed

lemma crash_between_steps: "crash_leaves steps fs (run_steps (take k steps) fs)"
  unfolding crash_leaves_def survives_def by (intro exI [of _ k] exI [of _ None]) (simp add: cut_step_def)

section \<open>The two writes along their steps\<close>

text \<open>What \<^verbatim>\<open>os.CreateTemp\<close> promises: the file it creates is a new one, and its name is not the target's.\<close>

definition fresh_temp :: "write_io \<Rightarrow> string \<Rightarrow> files \<Rightarrow> bool" where
  "fresh_temp io path fs = (case wi_temp io of Inl _ \<Rightarrow> True | Inr tmp \<Rightarrow> tmp \<noteq> path \<and> fs tmp = None)"

lemmas write_defs = unattended_writeFileAtomic_def projector_writeFileAtomic_def fill_temp_def Let_def

lemma writes_spare_target:
  assumes "fresh_temp io path fs"
  shows "writes_elsewhere path (snd (projector_writeFileAtomic io path data))"
    and "writes_elsewhere path (snd (unattended_writeFileAtomic io path data))"
  using assms
  by (auto simp: write_defs fresh_temp_def writes_elsewhere_def split: option.split sum.splits)

lemma projector_write_seen:
  assumes "fresh_temp io path fs"
  shows "seen (snd (projector_writeFileAtomic io path data)) fs path =
    (if fst (projector_writeFileAtomic io path data) = None then {fs path, Some (data, True)} else {fs path})"
  using assms by (auto simp: write_defs fresh_temp_def split: option.split sum.splits)

lemma unattended_write_seen:
  assumes "fresh_temp io path fs"
  shows "seen (snd (unattended_writeFileAtomic io path data)) fs path =
    (case fst (unattended_writeFileAtomic io path data) of
       None \<Rightarrow> {fs path, None, Some (data, True)}
     | Some (RenamingTemp _ _ _) \<Rightarrow> {fs path, None}
     | Some _ \<Rightarrow> {fs path})"
  using assms by (auto simp: write_defs fresh_temp_def split: option.split sum.splits)

lemma projector_write_result:
  assumes "fresh_temp io path fs"
  shows "run_steps (snd (projector_writeFileAtomic io path data)) fs =
    (if fst (projector_writeFileAtomic io path data) = None then fs(path \<mapsto> (data, True)) else fs)"
  using assms by (auto simp: write_defs fresh_temp_def fun_eq_iff split: option.split sum.splits)

lemma unattended_write_result:
  assumes "fresh_temp io path fs"
  shows "run_steps (snd (unattended_writeFileAtomic io path data)) fs =
    (case fst (unattended_writeFileAtomic io path data) of
       None \<Rightarrow> fs(path \<mapsto> (data, True))
     | Some (RenamingTemp _ _ _) \<Rightarrow> fs(path := None)
     | Some _ \<Rightarrow> fs)"
  using assms by (auto simp: write_defs fresh_temp_def fun_eq_iff split: option.split sum.splits)

section \<open>Properties\<close>

text \<open>What replacing a file can leave behind. With the projector's write a crash at any moment, power lost
  included, leaves the target as it was or with the whole new content, and when an error is returned nothing of
  the file system changed. The control layer's write removes the target first: a crash may find it missing, and when
  the rename fails the old content is gone and the new one with it. Neither ever leaves part of a content, and when
  no error is returned the whole new content is there and synced.\<close>

theorem atomic_writes_compared:
  assumes "fresh_temp io path fs" "fs path = None \<or> (\<exists>old. fs path = Some (old, True))"
  shows "(\<forall>fs'. crash_leaves (snd (projector_writeFileAtomic io path data)) fs fs' \<longrightarrow>
            content fs' path = content fs path \<or> content fs' path = Some data) \<and>
    (\<forall>fs'. crash_leaves (snd (unattended_writeFileAtomic io path data)) fs fs' \<longrightarrow>
            content fs' path = content fs path \<or> content fs' path = None \<or> content fs' path = Some data) \<and>
    run_steps (snd (projector_writeFileAtomic io path data)) fs =
      (if fst (projector_writeFileAtomic io path data) = None then fs(path \<mapsto> (data, True)) else fs) \<and>
    run_steps (snd (unattended_writeFileAtomic io path data)) fs =
      (case fst (unattended_writeFileAtomic io path data) of
         None \<Rightarrow> fs(path \<mapsto> (data, True))
       | Some (RenamingTemp _ _ _) \<Rightarrow> fs(path := None)
       | Some _ \<Rightarrow> fs)"
proof (intro conjI allI impI)
  fix fs'
  assume c: "crash_leaves (snd (projector_writeFileAtomic io path data)) fs fs'"
  have "fs' path \<in> seen (snd (projector_writeFileAtomic io path data)) fs path"
    using assms(2) by (intro crash_leaves_seen [OF c writes_spare_target(1) [OF assms(1)]])
      (auto simp: projector_write_seen [OF assms(1)])
  then show "content fs' path = content fs path \<or> content fs' path = Some data"
    by (auto simp: projector_write_seen [OF assms(1)] content_def split: if_splits)
next
  fix fs'
  assume c: "crash_leaves (snd (unattended_writeFileAtomic io path data)) fs fs'"
  have "fs' path \<in> seen (snd (unattended_writeFileAtomic io path data)) fs path"
    using assms(2) by (intro crash_leaves_seen [OF c writes_spare_target(2) [OF assms(1)]])
      (auto simp: unattended_write_seen [OF assms(1)] split: option.splits write_error.splits)
  then show "content fs' path = content fs path \<or> content fs' path = None \<or> content fs' path = Some data"
    by (auto simp: unattended_write_seen [OF assms(1)] content_def split: option.splits write_error.splits)
qed (rule projector_write_result [OF assms(1)] unattended_write_result [OF assms(1)])+

definition sample_write_io :: write_io where
  "sample_write_io = \<lparr>wi_mkdir = None, wi_temp = Inr ''/s/.p.tmp1'', wi_write = None, wi_sync = None, wi_close = None,
     wi_remove = None, wi_rename = Some ''device busy''\<rparr>"

theorem atomic_writes_compared_witness:
  "fresh_temp sample_write_io ''/s/p'' [''/s/p'' \<mapsto> (''old'', True)] \<and>
   fst (unattended_writeFileAtomic sample_write_io ''/s/p'' ''new'') = Some (RenamingTemp ''/s/.p.tmp1'' ''/s/p'' ''device busy'') \<and>
   run_steps (snd (unattended_writeFileAtomic sample_write_io ''/s/p'' ''new'')) [''/s/p'' \<mapsto> (''old'', True)] = Map.empty"
proof -
  have f: "fresh_temp sample_write_io ''/s/p'' [''/s/p'' \<mapsto> (''old'', True)]"
    by (simp add: fresh_temp_def sample_write_io_def)
  moreover have e: "fst (unattended_writeFileAtomic sample_write_io ''/s/p'' ''new'') =
      Some (RenamingTemp ''/s/.p.tmp1'' ''/s/p'' ''device busy'')"
    by code_simp
  ultimately show ?thesis
    using atomic_writes_compared [OF f, of "''new''"] by simp
qed

end
