(* ===== verification/Projector.thy ===== *)
theory Projector
  imports Atomic_File "HOL-Library.AList"
begin

text \<open>
  The delivery projection (\<^verbatim>\<open>internal/projector\<close>): the consumer's vocabulary (\<^verbatim>\<open>schema.go\<close>), the
  projected state with its derived blockers and deliverables, the fold of events, the durable cursor and the document
  itself (\<^verbatim>\<open>projector.go\<close>), and the reading of a city's event log (\<^verbatim>\<open>gascity_source.go\<close>).

  A Go map that the code iterates over is an association list with distinct keys, in the order one iteration happens
  to take. A time is the number of nanoseconds since Go's zero time, so 0 is the time \<^verbatim>\<open>IsZero\<close> is true of. The
  codec of the cursor, the decoder of an event line and the parser of a timestamp are parameters.
\<close>

section \<open>Times\<close>

type_synonym Time = nat

definition IsZero :: "Time \<Rightarrow> bool" where
  "IsZero t = (t = 0)"

text \<open>The date of the \<open>d\<close>-th day after 1 January of the year 1, in the Gregorian calendar: years are counted from
  March, so that a leap day is the last of its year.\<close>

definition civil :: "nat \<Rightarrow> nat \<times> nat \<times> nat" where
  "civil d =
     (let z = d + 306; era = z div 146097; doe = z mod 146097;
          yoe = (doe - doe div 1460 + doe div 36524 - doe div 146096) div 365;
          doy = doe - (365 * yoe + yoe div 4 - yoe div 100);
          mp = (5 * doy + 2) div 153;
          month = (if mp < 10 then mp + 3 else mp - 9)
      in (yoe + 400 * era + (if month \<le> 2 then 1 else 0), month, doy - (153 * mp + 2) div 5 + 1))"

definition pad :: "nat \<Rightarrow> nat \<Rightarrow> string" where
  "pad width n = replicate (width - length (nat_dec n)) (CHR ''0'') @ nat_dec n"

definition Format_RFC3339 :: "Time \<Rightarrow> string" where
  "Format_RFC3339 t =
     (let s = t div 1000000000; (y, m, d) = civil (s div 86400); r = s mod 86400 in
      pad 4 y @ ''-'' @ pad 2 m @ ''-'' @ pad 2 d @ ''T'' @
      pad 2 (r div 3600) @ '':'' @ pad 2 (r mod 3600 div 60) @ '':'' @ pad 2 (r mod 60) @ ''Z'')"

section \<open>The consumer's vocabulary\<close>

datatype TaskStatus =
    StatusPlanned | StatusActive | StatusAwaitingHuman | StatusBlocked | StatusPROpen | StatusChecksPassing
  | StatusPackagePrepared | StatusTestsReviewPassed | StatusMerged | StatusDeployedUAT | StatusAppliedUAT
  | StatusVerified | StatusComplete
  | StatusOther string

fun TaskStatus_text :: "TaskStatus \<Rightarrow> string" where
  "TaskStatus_text StatusPlanned = ''planned''"
| "TaskStatus_text StatusActive = ''active''"
| "TaskStatus_text StatusAwaitingHuman = ''awaiting-human-action''"
| "TaskStatus_text StatusBlocked = ''blocked''"
| "TaskStatus_text StatusPROpen = ''pr-open''"
| "TaskStatus_text StatusChecksPassing = ''checks-passing''"
| "TaskStatus_text StatusPackagePrepared = ''package-prepared''"
| "TaskStatus_text StatusTestsReviewPassed = ''tests-review-passed''"
| "TaskStatus_text StatusMerged = ''merged''"
| "TaskStatus_text StatusDeployedUAT = ''deployed-uat''"
| "TaskStatus_text StatusAppliedUAT = ''applied-uat''"
| "TaskStatus_text StatusVerified = ''verified''"
| "TaskStatus_text StatusComplete = ''complete''"
| "TaskStatus_text (StatusOther s) = s"

definition knownTaskStatuses :: "TaskStatus list" where
  "knownTaskStatuses =
     [StatusPlanned, StatusActive, StatusAwaitingHuman, StatusBlocked, StatusPROpen, StatusChecksPassing,
      StatusPackagePrepared, StatusTestsReviewPassed, StatusMerged, StatusDeployedUAT, StatusAppliedUAT,
      StatusVerified, StatusComplete]"

text \<open>The conversion \<^verbatim>\<open>TaskStatus(s)\<close> of a string.\<close>

definition TaskStatus_of :: "string \<Rightarrow> TaskStatus" where
  "TaskStatus_of s =
     (case find (\<lambda>k. TaskStatus_text k = s) knownTaskStatuses of Some k \<Rightarrow> k | None \<Rightarrow> StatusOther s)"

datatype status_error = ErrUnknownStatus string

definition ValidateTaskStatus :: "TaskStatus \<Rightarrow> status_error option" where
  "ValidateTaskStatus s = (if s \<in> set knownTaskStatuses then None else Some (ErrUnknownStatus (TaskStatus_text s)))"

datatype CompletionGateStatus = GateMet | GatePartiallyMet | GateNotMet | GateStatusOther string

fun CompletionGateStatus_text :: "CompletionGateStatus \<Rightarrow> string" where
  "CompletionGateStatus_text GateMet = ''met''"
| "CompletionGateStatus_text GatePartiallyMet = ''partially-met''"
| "CompletionGateStatus_text GateNotMet = ''not-met''"
| "CompletionGateStatus_text (GateStatusOther s) = s"

record Attempt =
  at_date :: Time
  at_outcome :: string
  at_summary :: string
  at_evidence :: string

record Blocker =
  bl_blockerID :: string
  bl_summary :: string
  bl_humanBoundary :: bool
  bl_evidence :: string

record CompletedOutcome =
  co_date :: Time
  co_summary :: string
  co_evidence :: string

record ProjectMeta =
  pm_projectID :: string
  pm_strategy :: string
  pm_authoritativeRef :: string
  pm_currentPhase :: string
  pm_currentMilestone :: string
  pm_overallRag :: string
  pm_overallRagReason :: string
  pm_lastUpdateTimestamp :: Time
  pm_latestAcceptedMainSha :: string

section \<open>The projected state\<close>

record projector_Task =
  pt_taskID :: string
  pt_title :: string
  pt_phase :: string
  pt_taskType :: string
  pt_status :: TaskStatus
  pt_priority :: string
  pt_ownerType :: string
  pt_branch :: string
  pt_pullRequest :: int
  pt_dependencies :: "string list"
  pt_parallelGroup :: string
  pt_criticalPath :: bool
  pt_actualStart :: Time
  pt_actualFinish :: Time
  pt_implementationSha :: string
  pt_completionGate :: string
  pt_completionGateStatus :: CompletionGateStatus
  pt_evidence :: "string list"
  pt_blocker :: string
  pt_nextPhysicalAction :: string
  pt_attempts :: "Attempt list"
  pt_lastReviewed :: Time
  pt_lastStartSeq :: nat

record DeliverableInvalidation =
  di_seq :: int
  di_by :: string
  di_reason :: string
  di_evidence :: string
  di_at :: string
  di_previousState :: string

record Deliverable =
  dv_id :: string
  dv_statement :: string
  dv_satisfiedBy :: "string list"
  dv_met :: bool
  dv_acceptedBy :: string
  dv_acceptedAt :: string
  dv_invalidated :: "DeliverableInvalidation option"
  dv_remediatedBy :: "string list"

record projector_State =
  ps_project :: ProjectMeta
  ps_tasks :: "(string \<times> projector_Task) list"
  ps_deliverables :: "Deliverable list"
  ps_currentBlockers :: "Blocker list"
  ps_completedOutcomes :: "CompletedOutcome list"

definition NewState :: "string \<Rightarrow> projector_State" where
  "NewState projectID =
     \<lparr>ps_project = \<lparr>pm_projectID = projectID, pm_strategy = [], pm_authoritativeRef = [], pm_currentPhase = [],
        pm_currentMilestone = [], pm_overallRag = [], pm_overallRagReason = [], pm_lastUpdateTimestamp = 0,
        pm_latestAcceptedMainSha = []\<rparr>,
      ps_tasks = [], ps_deliverables = [], ps_currentBlockers = [], ps_completedOutcomes = []\<rparr>"

text \<open>A task with the zero value in every field.\<close>

definition zero_task :: projector_Task where
  "zero_task =
     \<lparr>pt_taskID = [], pt_title = [], pt_phase = [], pt_taskType = [], pt_status = StatusOther [], pt_priority = [],
      pt_ownerType = [], pt_branch = [], pt_pullRequest = 0, pt_dependencies = [], pt_parallelGroup = [],
      pt_criticalPath = False, pt_actualStart = 0, pt_actualFinish = 0, pt_implementationSha = [],
      pt_completionGate = [], pt_completionGateStatus = GateStatusOther [], pt_evidence = [], pt_blocker = [],
      pt_nextPhysicalAction = [], pt_attempts = [], pt_lastReviewed = 0, pt_lastStartSeq = 0\<rparr>"

definition isTerminalStatus :: "TaskStatus \<Rightarrow> bool" where
  "isTerminalStatus s = (s \<in> {StatusMerged, StatusDeployedUAT, StatusAppliedUAT, StatusVerified, StatusComplete})"

definition projected_task :: "projector_State \<Rightarrow> string \<Rightarrow> projector_Task option" where
  "projected_task st k = map_of (ps_tasks st) k"

definition package_met :: "projector_State \<Rightarrow> string \<Rightarrow> bool" where
  "package_met st pkg =
     (case projected_task st pkg of
        None \<Rightarrow> False
      | Some t \<Rightarrow> isTerminalStatus (pt_status t) \<and> pt_completionGateStatus t = GateMet)"

definition resolve_deliverable :: "projector_State \<Rightarrow> Deliverable \<Rightarrow> Deliverable" where
  "resolve_deliverable st d =
     (if dv_satisfiedBy d = [] \<and> dv_remediatedBy d = [] then d\<lparr>dv_met := (dv_acceptedBy d \<noteq> [])\<rparr>
      else
        let met = list_all (package_met st) (dv_satisfiedBy d @ dv_remediatedBy d);
            met = (if dv_invalidated d \<noteq> None \<and> dv_remediatedBy d = [] then False else met)
        in d\<lparr>dv_met := met\<rparr>)"

definition resolveDeliverables :: "projector_State \<Rightarrow> projector_State" where
  "resolveDeliverables st = st\<lparr>ps_deliverables := map (resolve_deliverable st) (ps_deliverables st)\<rparr>"

definition blockersOf :: "projector_State \<Rightarrow> projector_Task \<Rightarrow> string list" where
  "blockersOf st t =
     sort (filter (\<lambda>dep. case projected_task st dep of None \<Rightarrow> True | Some d \<Rightarrow> \<not> isTerminalStatus (pt_status d))
       (pt_dependencies t))"

definition refresh_task :: "projector_State \<Rightarrow> projector_Task \<Rightarrow> projector_Task" where
  "refresh_task st t =
     (let outstanding = blockersOf st t in
      if outstanding \<noteq> [] then
        let t = t\<lparr>pt_blocker := ''waiting on '' @ Join outstanding '', ''\<rparr>
        in if pt_status t = StatusPlanned then t\<lparr>pt_status := StatusBlocked\<rparr> else t
      else
        let t = (if HasPrefix (pt_blocker t) ''waiting on '' then t\<lparr>pt_blocker := []\<rparr> else t)
        in if pt_status t = StatusBlocked then t\<lparr>pt_status := StatusPlanned\<rparr> else t)"

text \<open>The loop over the tasks: each step reads the state the steps before it left.\<close>

fun recompute_loop :: "string list \<Rightarrow> projector_State \<Rightarrow> projector_State" where
  "recompute_loop [] st = st"
| "recompute_loop (k # ks) st =
     recompute_loop ks
       (case projected_task st k of
          None \<Rightarrow> st
        | Some t \<Rightarrow> st\<lparr>ps_tasks := AList.update k (refresh_task st t) (ps_tasks st)\<rparr>)"

definition RecomputeBlockers :: "projector_State \<Rightarrow> projector_State" where
  "RecomputeBlockers st = recompute_loop (map fst (ps_tasks st)) st"

section \<open>Events\<close>

record Event =
  ev_seq :: nat
  ev_type :: string
  ev_ts :: Time
  ev_subject :: string
  ev_actor :: string

definition markLastAttemptSucceeded :: "projector_Task \<Rightarrow> projector_Task" where
  "markLastAttemptSucceeded t =
     (if pt_attempts t = [] then t
      else t\<lparr>pt_attempts := butlast (pt_attempts t) @ [(last (pt_attempts t))\<lparr>at_outcome := ''succeeded''\<rparr>]\<rparr>)"

definition start_task :: "Event \<Rightarrow> projector_Task \<Rightarrow> projector_Task" where
  "start_task ev t =
     (let t = (if IsZero (pt_actualStart t) then t\<lparr>pt_actualStart := ev_ts ev\<rparr> else t);
          t = (if pt_status t = StatusPlanned \<or> pt_status t = StatusBlocked then t\<lparr>pt_status := StatusActive\<rparr> else t)
      in if ev_seq ev > pt_lastStartSeq t then
           t\<lparr>pt_attempts := pt_attempts t @
               [\<lparr>at_date = ev_ts ev, at_outcome = ''failed'',
                 at_summary = ''execution attempt observed on the event bus'', at_evidence = []\<rparr>],
             pt_lastStartSeq := ev_seq ev\<rparr>
         else t)"

definition finish_time :: "Event \<Rightarrow> projector_Task \<Rightarrow> projector_Task" where
  "finish_time ev t = (if IsZero (pt_actualFinish t) then t\<lparr>pt_actualFinish := ev_ts ev\<rparr> else t)"

definition apply_event :: "Event \<Rightarrow> projector_Task \<Rightarrow> projector_Task" where
  "apply_event ev t =
     (if ev_type ev = ''work.started'' then start_task ev t
      else if ev_type ev = ''work.finished'' then markLastAttemptSucceeded (finish_time ev t)
      else if ev_type ev = ''work.failed'' then finish_time ev t
      else t)"

definition Apply :: "projector_State \<Rightarrow> Event \<Rightarrow> projector_State" where
  "Apply st ev =
     (if ev_subject ev = [] then st
      else case projected_task st (ev_subject ev) of
             None \<Rightarrow> st
           | Some t \<Rightarrow> st\<lparr>ps_tasks := AList.update (ev_subject ev) (apply_event ev t) (ps_tasks st)\<rparr>)"

definition SetTerminalFinish :: "projector_State \<Rightarrow> string \<Rightarrow> Time \<Rightarrow> projector_State" where
  "SetTerminalFinish st taskID closedAt =
     (case projected_task st taskID of
        None \<Rightarrow> st
      | Some t \<Rightarrow>
          if IsZero closedAt then st
          else st\<lparr>ps_tasks := AList.update taskID (markLastAttemptSucceeded (t\<lparr>pt_actualFinish := closedAt\<rparr>)) (ps_tasks st)\<rparr>)"

section \<open>The document\<close>

definition dquote :: char where
  "dquote = CHR 0x22"

definition backslash :: char where
  "backslash = CHR 0x5C"

definition yamlScalar :: "string \<Rightarrow> string" where
  "yamlScalar v =
     (if v = [] then [dquote, dquote]
      else [dquote] @ concat (map (\<lambda>c. if c = dquote then [backslash, dquote] else [c]) v) @ [dquote])"

definition yamlOpt :: "string \<Rightarrow> string" where
  "yamlOpt v = (if blank v then ''null'' else yamlScalar v)"

definition yamlOptTime :: "Time \<Rightarrow> string" where
  "yamlOptTime t = (if IsZero t then ''null'' else [dquote] @ Format_RFC3339 t @ [dquote])"

definition yamlOptInt :: "int \<Rightarrow> string" where
  "yamlOptInt v = (if v = 0 then ''null'' else Itoa v)"

definition yaml_bool :: "bool \<Rightarrow> string" where
  "yaml_bool b = (if b then ''true'' else ''false'')"

definition field :: "string \<Rightarrow> string \<Rightarrow> string" where
  "field key v = key @ '': '' @ v @ newline"

definition writeList :: "string \<Rightarrow> string list \<Rightarrow> string" where
  "writeList key vals =
     (if vals = [] then ''    '' @ key @ '': []'' @ newline
      else ''    '' @ key @ '':'' @ newline @
           concat (map (\<lambda>v. ''      - '' @ yamlScalar v @ newline) (sort vals)))"

definition render_project :: "ProjectMeta \<Rightarrow> string" where
  "render_project p =
     ''project:'' @ newline @
     field ''  projectId'' (yamlScalar (pm_projectID p)) @
     field ''  strategy'' (yamlScalar (pm_strategy p)) @
     field ''  authoritativeRef'' (yamlOpt (pm_authoritativeRef p)) @
     field ''  currentPhase'' (yamlScalar (pm_currentPhase p)) @
     field ''  currentMilestone'' (yamlScalar (pm_currentMilestone p)) @
     field ''  overallRag'' (yamlScalar (pm_overallRag p)) @
     field ''  overallRagReason'' (yamlScalar (pm_overallRagReason p)) @
     field ''  lastUpdateTimestamp'' (yamlOptTime (pm_lastUpdateTimestamp p)) @
     field ''  latestAcceptedMainSha'' (yamlOpt (pm_latestAcceptedMainSha p))"

definition render_attempt :: "Attempt \<Rightarrow> string" where
  "render_attempt a =
     field ''      - date'' (yamlOptTime (at_date a)) @
     field ''        outcome'' (yamlScalar (at_outcome a)) @
     field ''        summary'' (yamlScalar (at_summary a)) @
     field ''        evidence'' (yamlOpt (at_evidence a))"

definition render_task :: "projector_Task \<Rightarrow> string" where
  "render_task t =
     field ''  - taskId'' (yamlScalar (pt_taskID t)) @
     field ''    title'' (yamlScalar (pt_title t)) @
     field ''    phase'' (yamlScalar (pt_phase t)) @
     field ''    taskType'' (yamlScalar (pt_taskType t)) @
     field ''    status'' (yamlScalar (TaskStatus_text (pt_status t))) @
     field ''    priority'' (yamlScalar (pt_priority t)) @
     field ''    ownerType'' (yamlScalar (pt_ownerType t)) @
     field ''    branch'' (yamlOpt (pt_branch t)) @
     field ''    pullRequest'' (yamlOptInt (pt_pullRequest t)) @
     writeList ''dependencies'' (pt_dependencies t) @
     field ''    parallelGroup'' (yamlOpt (pt_parallelGroup t)) @
     field ''    criticalPath'' (yaml_bool (pt_criticalPath t)) @
     field ''    actualStart'' (yamlOptTime (pt_actualStart t)) @
     field ''    actualFinish'' (yamlOptTime (pt_actualFinish t)) @
     field ''    implementationSha'' (yamlOpt (pt_implementationSha t)) @
     field ''    completionGate'' (yamlOpt (pt_completionGate t)) @
     field ''    completionGateStatus'' (yamlScalar (CompletionGateStatus_text (pt_completionGateStatus t))) @
     writeList ''evidence'' (pt_evidence t) @
     field ''    blocker'' (yamlOpt (pt_blocker t)) @
     field ''    nextPhysicalAction'' (yamlOpt (pt_nextPhysicalAction t)) @
     field ''    lastReviewed'' (yamlOptTime (pt_lastReviewed t)) @
     (if pt_attempts t = [] then ''    attempts: []'' @ newline
      else ''    attempts:'' @ newline @ concat (map render_attempt (pt_attempts t)))"

fun render_tasks :: "(string \<times> projector_Task) list \<Rightarrow> string list \<Rightarrow> status_error + string" where
  "render_tasks ts [] = Inr []"
| "render_tasks ts (k # ks) =
     (case map_of ts k of
        None \<Rightarrow> render_tasks ts ks
      | Some t \<Rightarrow>
          (case ValidateTaskStatus (pt_status t) of
             Some e \<Rightarrow> Inl e
           | None \<Rightarrow>
               (case render_tasks ts ks of Inl e \<Rightarrow> Inl e | Inr rest \<Rightarrow> Inr (render_task t @ rest))))"

definition render_invalidation :: "DeliverableInvalidation \<Rightarrow> string list \<Rightarrow> string" where
  "render_invalidation i remediatedBy =
     ''    invalidated:'' @ newline @
     field ''      seq'' (Itoa (di_seq i)) @
     field ''      by'' (yamlScalar (di_by i)) @
     field ''      reason'' (yamlScalar (di_reason i)) @
     field ''      evidence'' (yamlScalar (di_evidence i)) @
     field ''      at'' (yamlOpt (di_at i)) @
     field ''      previousState'' (yamlScalar (di_previousState i)) @
     writeList ''remediatedBy'' remediatedBy"

definition render_deliverable :: "Deliverable \<Rightarrow> string" where
  "render_deliverable d =
     field ''  - deliverableId'' (yamlScalar (dv_id d)) @
     field ''    statement'' (yamlScalar (dv_statement d)) @
     field ''    met'' (yaml_bool (dv_met d)) @
     (if dv_acceptedBy d \<noteq> [] then
        field ''    acceptedBy'' (yamlScalar (dv_acceptedBy d)) @
        (if dv_acceptedAt d \<noteq> [] then field ''    acceptedAt'' (yamlScalar (dv_acceptedAt d)) else [])
      else []) @
     writeList ''satisfiedBy'' (dv_satisfiedBy d) @
     (case dv_invalidated d of None \<Rightarrow> [] | Some i \<Rightarrow> render_invalidation i (dv_remediatedBy d))"

definition render_blocker :: "Blocker \<Rightarrow> string" where
  "render_blocker b =
     field ''  - blockerId'' (yamlScalar (bl_blockerID b)) @
     field ''    summary'' (yamlScalar (bl_summary b)) @
     field ''    humanBoundary'' (yaml_bool (bl_humanBoundary b)) @
     field ''    evidence'' (yamlOpt (bl_evidence b))"

definition render_outcome :: "CompletedOutcome \<Rightarrow> string" where
  "render_outcome o' =
     field ''  - date'' (yamlOptTime (co_date o')) @
     field ''    summary'' (yamlScalar (co_summary o')) @
     field ''    evidence'' (yamlOpt (co_evidence o'))"

text \<open>A section of the document: its key with an empty list, or its entries.\<close>

definition render_section :: "string \<Rightarrow> string list \<Rightarrow> string" where
  "render_section key entries =
     (if entries = [] then key @ '': []'' @ newline else key @ '':'' @ newline @ concat entries)"

definition document_head :: string where
  "document_head =
     ''# GENERATED BY THE DELIVERY ENGINE PROJECTOR - DO NOT EDIT.'' @ newline @
     ''# Execution facts: Gas City event bus (starts) and bead store (terminal records).'' @ newline @
     ''# Live PR/CI/merge state is read by the dashboard from GitHub, not from this file.'' @ newline @
     ''# Hand edits are overwritten and are not a source of truth.'' @ newline @
     ''schemaVersion: 1'' @ newline"

text \<open>\<^verbatim>\<open>Render\<close> returns the document, and leaves the deliverables of the state resolved.\<close>

definition Render :: "projector_State \<Rightarrow> (status_error + string) \<times> projector_State" where
  "Render st =
     (case render_tasks (ps_tasks st) (sort (map fst (ps_tasks st))) of
        Inl e \<Rightarrow> (Inl e, st)
      | Inr tasks \<Rightarrow>
          let st' = resolveDeliverables st in
          (Inr (document_head @ render_project (ps_project st) @ ''activeTasks:'' @ newline @ tasks @
             render_section ''deliverables'' (map render_deliverable (ps_deliverables st')) @
             render_section ''currentBlockers'' (map render_blocker (ps_currentBlockers st')) @
             ''deferredWork: []'' @ newline @
             render_section ''recentCompletedOutcomes'' (map render_outcome (ps_completedOutcomes st'))), st'))"

section \<open>The cursor and the projection\<close>

record Cursor =
  cu_seq :: nat
  cu_updatedAt :: Time

datatype project_error =
    CursorUnreadable string string
  | CursorUnparsed string
  | StateUnrenderable status_error
  | StateUnwritten write_error
  | CursorUnwritten write_error

record project_io =
  pi_readErr :: "string option"
  pi_state :: write_io
  pi_cursor :: write_io

definition LoadCursor ::
  "(string \<Rightarrow> Cursor option) \<Rightarrow> string option \<Rightarrow> string \<Rightarrow> files \<Rightarrow> project_error + Cursor" where
  "LoadCursor dec readErr path fs =
     (case readErr of
        Some e \<Rightarrow> Inl (CursorUnreadable path e)
      | None \<Rightarrow>
          (case content fs path of
             None \<Rightarrow> Inr \<lparr>cu_seq = 0, cu_updatedAt = 0\<rparr>
           | Some raw \<Rightarrow> (case dec raw of None \<Rightarrow> Inl (CursorUnparsed path) | Some c \<Rightarrow> Inr c)))"

definition SaveCursor :: "(Cursor \<Rightarrow> string) \<Rightarrow> write_io \<Rightarrow> string \<Rightarrow> Cursor \<Rightarrow> write_error option \<times> file_step list" where
  "SaveCursor enc io path c = projector_writeFileAtomic io path (enc c @ newline)"

fun fold_events :: "nat \<Rightarrow> Event list \<Rightarrow> nat \<Rightarrow> projector_State \<Rightarrow> nat \<times> projector_State" where
  "fold_events cur [] applied st = (applied, st)"
| "fold_events cur (ev # evs) applied st =
     (if ev_seq ev \<le> cur then fold_events cur evs applied st
      else fold_events cur evs (if ev_seq ev > applied then ev_seq ev else applied) (Apply st ev))"

text \<open>\<^verbatim>\<open>Project\<close>: the result, the steps it took on the file system, and the state it leaves. The
  hook that runs between the two writes does nothing outside of tests.\<close>

definition Project ::
  "(string \<Rightarrow> Cursor option) \<Rightarrow> (Cursor \<Rightarrow> string) \<Rightarrow> project_io \<Rightarrow> Event list \<Rightarrow> projector_State \<Rightarrow> string \<Rightarrow> string \<Rightarrow> files \<Rightarrow>
   (project_error + Cursor) \<times> file_step list \<times> projector_State" where
  "Project dec enc io events st statePath cursorPath fs =
     (case LoadCursor dec (pi_readErr io) cursorPath fs of
        Inl e \<Rightarrow> (Inl e, [], st)
      | Inr cur \<Rightarrow>
          let (applied, st) = fold_events (cu_seq cur) events (cu_seq cur) st;
              st = RecomputeBlockers st
          in (case Render st of
                (Inl e, st) \<Rightarrow> (Inl (StateUnrenderable e), [], st)
              | (Inr rendered, st) \<Rightarrow>
                  (case projector_writeFileAtomic (pi_state io) statePath rendered of
                     (Some e, steps) \<Rightarrow> (Inl (StateUnwritten e), steps, st)
                   | (None, steps) \<Rightarrow>
                       let next = \<lparr>cu_seq = applied, cu_updatedAt = pm_lastUpdateTimestamp (ps_project st)\<rparr> in
                       (case SaveCursor enc (pi_cursor io) cursorPath next of
                          (Some e, steps') \<Rightarrow> (Inl (CursorUnwritten e), steps @ steps', st)
                        | (None, steps') \<Rightarrow> (Inr next, steps @ steps', st)))))"

section \<open>The event log of a city\<close>

record city_event =
  ce_seq :: nat
  ce_type :: string
  ce_ts :: string
  ce_actor :: string
  ce_subject :: string
  ce_status :: string

definition mapCityEventType :: "string \<Rightarrow> string \<Rightarrow> string option" where
  "mapCityEventType eventType payloadStatus =
     (if eventType = ''bead.closed'' then Some ''work.finished''
      else if eventType = ''bead.updated'' then
        (if TrimSpace payloadStatus = ''in_progress'' then Some ''work.started'' else None)
      else None)"

definition parseEventTime :: "(string \<Rightarrow> Time option) \<Rightarrow> string \<Rightarrow> Time option" where
  "parseEventTime parse raw = parse (TrimSpace raw)"

text \<open>The event of one line, if it is one.\<close>

definition read_event :: "(string \<Rightarrow> city_event option) \<Rightarrow> (string \<Rightarrow> Time option) \<Rightarrow> string \<Rightarrow> Event option" where
  "read_event dec parse line =
     (if TrimSpace line = [] then None
      else case dec (TrimSpace line) of
        None \<Rightarrow> None
      | Some env \<Rightarrow>
          (case mapCityEventType (ce_type env) (ce_status env) of
             None \<Rightarrow> None
           | Some mapped \<Rightarrow>
               if ce_subject env = [] then None
               else (case parseEventTime parse (ce_ts env) of
                       None \<Rightarrow> None
                     | Some ts \<Rightarrow>
                         Some \<lparr>ev_seq = ce_seq env, ev_type = mapped, ev_ts = ts, ev_subject = ce_subject env,
                               ev_actor = ce_actor env\<rparr>)))"

datatype city_error = EventLogOpen string string | EventLogLineTooLong string

definition max_event_line :: nat where
  "max_event_line = 8 * 1024 * 1024"

definition ReadCityEvents ::
  "(string \<Rightarrow> city_event option) \<Rightarrow> (string \<Rightarrow> Time option) \<Rightarrow> string \<Rightarrow> string + string \<Rightarrow> city_error + Event list" where
  "ReadCityEvents dec parse path file =
     (case file of
        Inl e \<Rightarrow> Inl (EventLogOpen path e)
      | Inr s \<Rightarrow>
          if list_ex (\<lambda>l. length l \<ge> max_event_line) (raw_lines s) then Inl (EventLogLineTooLong path)
          else Inr (List.map_filter (read_event dec parse) (map drop_cr (raw_lines s))))"

section \<open>Lemmas on the state\<close>

definition distinct_tasks :: "projector_State \<Rightarrow> bool" where
  "distinct_tasks st = distinct (map fst (ps_tasks st))"

text \<open>Two states that differ at most in the order of their tasks.\<close>

definition same_state :: "projector_State \<Rightarrow> projector_State \<Rightarrow> bool" where
  "same_state st st' =
     (distinct_tasks st \<and> distinct_tasks st' \<and> set (ps_tasks st) = set (ps_tasks st') \<and>
      ps_project st' = ps_project st \<and> ps_deliverables st' = ps_deliverables st \<and>
      ps_currentBlockers st' = ps_currentBlockers st \<and> ps_completedOutcomes st' = ps_completedOutcomes st)"

definition put_row :: "string \<Rightarrow> projector_Task \<Rightarrow> projector_State \<Rightarrow> projector_State" where
  "put_row k t st = st\<lparr>ps_tasks := AList.update k t (ps_tasks st)\<rparr>"

text \<open>Whether a dependency is there and done.\<close>

definition dep_done :: "projector_State \<Rightarrow> string \<Rightarrow> bool" where
  "dep_done st dep = (case projected_task st dep of None \<Rightarrow> False | Some d \<Rightarrow> isTerminalStatus (pt_status d))"

lemma update_existing:
  assumes "distinct (map fst al)" "k \<in> fst ` set al"
  shows "AList.update k v al = map (\<lambda>p. if fst p = k then (k, v) else p) al"
  using assms
proof (induction al)
  case (Cons p al)
  obtain k' v' where p: "p = (k', v')"
    by fastforce
  show ?case
  proof (cases "k' = k")
    case True
    with Cons.prems(1) p have "map (\<lambda>p. if fst p = k then (k, v) else p) al = al"
      by (intro map_idI) auto
    with True p show ?thesis by simp
  next
    case False
    with Cons p show ?thesis by auto
  qed
qed simp

lemma set_update: "set (AList.update k v al) \<subseteq> insert (k, v) (set al)"
  by (induction al) auto

lemma keys_put: "projected_task st k \<noteq> None \<Longrightarrow> map fst (ps_tasks (put_row k t st)) = map fst (ps_tasks st)"
  by (simp add: put_row_def projected_task_def update_keys) (metis domI dom_map_of_conv_image_fst)

lemma projected_put [projection_simps]:
  "projected_task (put_row k t st) j = (if j = k then Some t else projected_task st j)"
  by (simp add: put_row_def projected_task_def update_conv')

lemma same_projected: "same_state st st' \<Longrightarrow> projected_task st' = projected_task st"
  unfolding same_state_def distinct_tasks_def projected_task_def fun_eq_iff
  by (metis map_of_inject_set)

lemma same_put:
  assumes "same_state st st'" "projected_task st k \<noteq> None"
  shows "same_state (put_row k t st) (put_row k t st')"
proof -
  have k: "k \<in> fst ` set (ps_tasks st)" "k \<in> fst ` set (ps_tasks st')"
    using assms by (auto simp: projected_task_def same_state_def map_of_eq_None_iff)
  have "ps_tasks (put_row k t st) = map (\<lambda>p. if fst p = k then (k, t) else p) (ps_tasks st)"
    "ps_tasks (put_row k t st') = map (\<lambda>p. if fst p = k then (k, t) else p) (ps_tasks st')"
    using assms(1) k by (simp_all add: put_row_def update_existing same_state_def distinct_tasks_def)
  moreover have "distinct_tasks (put_row k t st)" "distinct_tasks (put_row k t st')"
    using assms keys_put [of st k t] keys_put [of st' k t] same_projected [OF assms(1)]
    by (simp_all add: distinct_tasks_def same_state_def)
  ultimately show ?thesis
    using assms(1) unfolding same_state_def
    by (auto simp: put_row_def)
qed

lemma blockersOf_done: "blockersOf st t = sort (filter (\<lambda>dep. \<not> dep_done st dep) (pt_dependencies t))"
  unfolding blockersOf_def dep_done_def
  by (rule arg_cong [where f = sort], rule filter_cong) (auto split: option.split)

lemma refresh_cong: "dep_done st = dep_done st' \<Longrightarrow> refresh_task st t = refresh_task st' t"
  by (simp add: refresh_task_def blockersOf_done)

lemma refresh_terminal [projection_simps]:
  "isTerminalStatus (pt_status (refresh_task st t)) = isTerminalStatus (pt_status t)"
  by (auto simp: refresh_task_def Let_def isTerminalStatus_def)

lemma Apply_put:
  "Apply st ev = (if ev_subject ev = [] then st else case projected_task st (ev_subject ev) of
     None \<Rightarrow> st | Some t \<Rightarrow> put_row (ev_subject ev) (apply_event ev t) st)"
  by (simp add: Apply_def put_row_def split: option.split)

lemma recompute_loop_Cons:
  "recompute_loop (k # ks) st = recompute_loop ks
     (case projected_task st k of None \<Rightarrow> st | Some t \<Rightarrow> put_row k (refresh_task st t) st)"
  by (simp add: put_row_def split: option.split)

text \<open>The loop is one simultaneous refresh: refreshing a task changes nothing that refreshing another reads, so
  the order of the iteration does not matter.\<close>

lemma recompute_loop_exact:
  assumes "distinct_tasks st" "distinct ks" "set ks \<subseteq> fst ` set (ps_tasks st)"
  shows "recompute_loop ks st =
    st\<lparr>ps_tasks := map (\<lambda>(k, t). (k, if k \<in> set ks then refresh_task st t else t)) (ps_tasks st)\<rparr>"
  using assms
proof (induction ks arbitrary: st)
  case Nil
  have "map (\<lambda>(k, t). (k, t)) (ps_tasks st) = ps_tasks st"
    by simp
  then show ?case by simp
next
  case (Cons k ks)
  then obtain t where t: "projected_task st k = Some t"
    by (metis distinct_tasks_def list.set_intros(1) map_of_eq_None_iff option.exhaust projected_task_def subsetD)
  let ?st = "put_row k (refresh_task st t) st"
  have keys: "map fst (ps_tasks ?st) = map fst (ps_tasks st)"
    using t by (simp add: keys_put)
  have d: "dep_done ?st = dep_done st"
    using t by (auto simp: dep_done_def projection_simps fun_eq_iff)
  have r: "refresh_task ?st = refresh_task st"
    by (rule ext, rule refresh_cong [OF d])
  have tasks: "ps_tasks ?st = map (\<lambda>p. if fst p = k then (k, refresh_task st t) else p) (ps_tasks st)"
    using Cons.prems by (simp add: put_row_def update_existing distinct_tasks_def)
  have "recompute_loop ks ?st =
      ?st\<lparr>ps_tasks := map (\<lambda>(k, t). (k, if k \<in> set ks then refresh_task ?st t else t)) (ps_tasks ?st)\<rparr>"
    using Cons.prems keys by (intro Cons.IH) (simp_all add: distinct_tasks_def flip: set_map)
  also have "\<dots> = st\<lparr>ps_tasks := map (\<lambda>(k, t). (k, if k \<in> set ks then refresh_task st t else t))
      (map (\<lambda>p. if fst p = k then (k, refresh_task st t) else p) (ps_tasks st))\<rparr>"
    unfolding r tasks by (simp add: put_row_def)
  also have "map (\<lambda>(k, t). (k, if k \<in> set ks then refresh_task st t else t))
      (map (\<lambda>p. if fst p = k then (k, refresh_task st t) else p) (ps_tasks st)) =
      map (\<lambda>(j, t). (j, if j \<in> set (k # ks) then refresh_task st t else t)) (ps_tasks st)"
    unfolding map_map
  proof (rule map_cong [OF refl])
    fix p
    assume p: "p \<in> set (ps_tasks st)"
    show "((\<lambda>(k, t). (k, if k \<in> set ks then refresh_task st t else t)) \<circ>
        (\<lambda>p. if fst p = k then (k, refresh_task st t) else p)) p =
        (case p of (j, t) \<Rightarrow> (j, if j \<in> set (k # ks) then refresh_task st t else t))"
    proof (cases "fst p = k")
      case True
      with p t Cons.prems(1) have "snd p = t"
        unfolding projected_task_def distinct_tasks_def by (metis map_of_is_SomeI option.inject prod.collapse)
      with True Cons.prems(2) show ?thesis by (cases p) auto
    qed (cases p; auto)
  qed
  finally show ?case
    unfolding recompute_loop_Cons t by simp
qed

lemma RecomputeBlockers_exact:
  assumes "distinct_tasks st"
  shows "RecomputeBlockers st = st\<lparr>ps_tasks := map (\<lambda>(k, t). (k, refresh_task st t)) (ps_tasks st)\<rparr>"
proof -
  have "map (\<lambda>(k, t). (k, if k \<in> set (map fst (ps_tasks st)) then refresh_task st t else t)) (ps_tasks st) =
      map (\<lambda>(k, t). (k, refresh_task st t)) (ps_tasks st)"
    by (rule map_cong [OF refl]) force
  then show ?thesis
    using assms recompute_loop_exact [of st "map fst (ps_tasks st)"]
    by (simp add: RecomputeBlockers_def distinct_tasks_def)
qed

lemma fst_map_values [simp]: "fst \<circ> (\<lambda>(k, t). (k, f k t)) = fst"
  by (auto simp: fun_eq_iff)

lemma projected_map:
  "map_of (map (\<lambda>(k, t). (k, f k t)) al) k = map_option (f k) (map_of al k)"
  by (induction al) auto

lemma projected_map_value: "map_of (map (\<lambda>(k, t). (k, f t)) al) k = map_option f (map_of al k)"
  by (rule projected_map)

lemma projected_Recompute [projection_simps]:
  assumes "distinct_tasks st"
  shows "projected_task (RecomputeBlockers st) k = map_option (refresh_task st) (projected_task st k)"
  by (simp add: RecomputeBlockers_exact [OF assms] projected_task_def projected_map_value)

lemma same_Recompute:
  assumes "same_state st st'"
  shows "same_state (RecomputeBlockers st) (RecomputeBlockers st')"
proof -
  have d: "distinct_tasks st" "distinct_tasks st'"
    using assms by (simp_all add: same_state_def)
  have r: "refresh_task st' = refresh_task st"
    using refresh_cong same_projected [OF assms] by (auto simp: fun_eq_iff dep_done_def)
  show ?thesis
    using assms d unfolding same_state_def RecomputeBlockers_exact [OF d(1)] RecomputeBlockers_exact [OF d(2)] r
    by (auto simp: distinct_tasks_def)
qed

lemma same_Apply: "same_state st st' \<Longrightarrow> same_state (Apply st ev) (Apply st' ev)"
  by (auto simp: Apply_put same_projected intro: same_put split: option.split)

lemma same_fold_events:
  "same_state st st' \<Longrightarrow>
   fst (fold_events cur evs n st) = fst (fold_events cur evs n st') \<and>
   same_state (snd (fold_events cur evs n st)) (snd (fold_events cur evs n st'))"
proof (induction cur evs n st arbitrary: st' rule: fold_events.induct)
  case (2 cur ev evs applied st)
  then show ?case using same_Apply [OF 2(3), of ev] by simp
qed simp

lemma same_Render:
  assumes "same_state st st'"
  shows "fst (Render st) = fst (Render st') \<and> ps_project (snd (Render st)) = ps_project (snd (Render st'))"
proof -
  have p: "projected_task st' = projected_task st"
    by (rule same_projected [OF assms])
  then have m: "map_of (ps_tasks st') = map_of (ps_tasks st)"
    by (simp add: projected_task_def fun_eq_iff)
  have "sort (map fst (ps_tasks st)) = sort (map fst (ps_tasks st'))"
    using assms sorted_list_of_set_sort_remdups [of "map fst (ps_tasks st)"]
      sorted_list_of_set_sort_remdups [of "map fst (ps_tasks st')"]
    by (simp add: same_state_def distinct_tasks_def distinct_remdups_id)
  moreover have "render_tasks (ps_tasks st) ks = render_tasks (ps_tasks st') ks" for ks
    by (induction ks) (simp_all add: m split: option.split)
  moreover have "package_met st' = package_met st"
    by (simp add: package_met_def p fun_eq_iff)
  then have "resolve_deliverable st' = resolve_deliverable st"
    by (intro ext) (simp add: resolve_deliverable_def)
  ultimately show ?thesis
    using assms by (simp add: Render_def resolveDeliverables_def same_state_def Let_def split: sum.split)
qed

text \<open>Whether every task has a status the consumer knows: what \<^verbatim>\<open>Render\<close> asks of a state.\<close>

definition renderable :: "projector_State \<Rightarrow> bool" where
  "renderable st = list_all (\<lambda>(k, t). ValidateTaskStatus (pt_status t) = None) (ps_tasks st)"

lemma Render_succeeds:
  assumes "renderable st"
  shows "\<exists>doc. Render st = (Inr doc, resolveDeliverables st)"
proof -
  have "\<exists>doc. render_tasks (ps_tasks st) ks = Inr doc" for ks
  proof (induction ks)
    case (Cons k ks)
    have "map_of (ps_tasks st) k = Some t \<Longrightarrow> ValidateTaskStatus (pt_status t) = None" for t
      using assms by (auto simp: renderable_def list_all_iff dest!: map_of_SomeD)
    with Cons show ?case by (auto split: option.split)
  qed simp
  then show ?thesis
    by (metis (no_types, lifting) Render_def old.sum.simps(6))
qed

section \<open>Projecting\<close>

text \<open>What a projection computes before it touches the file system.\<close>

definition projection :: "nat \<Rightarrow> Event list \<Rightarrow> projector_State \<Rightarrow> nat \<times> (status_error + string) \<times> projector_State" where
  "projection cur events st =
     (let (applied, st) = fold_events cur events cur st in (applied, Render (RecomputeBlockers st)))"

definition next_cursor :: "nat \<Rightarrow> projector_State \<Rightarrow> Cursor" where
  "next_cursor applied st = \<lparr>cu_seq = applied, cu_updatedAt = pm_lastUpdateTimestamp (ps_project st)\<rparr>"

lemma Project_projection:
  "Project dec enc io events st statePath cursorPath fs =
     (case LoadCursor dec (pi_readErr io) cursorPath fs of
        Inl e \<Rightarrow> (Inl e, [], st)
      | Inr cur \<Rightarrow>
          (case projection (cu_seq cur) events st of
             (applied, Inl e, st) \<Rightarrow> (Inl (StateUnrenderable e), [], st)
           | (applied, Inr doc, st) \<Rightarrow>
               (case projector_writeFileAtomic (pi_state io) statePath doc of
                  (Some e, steps) \<Rightarrow> (Inl (StateUnwritten e), steps, st)
                | (None, steps) \<Rightarrow>
                    (case SaveCursor enc (pi_cursor io) cursorPath (next_cursor applied st) of
                       (Some e, steps') \<Rightarrow> (Inl (CursorUnwritten e), steps @ steps', st)
                     | (None, steps') \<Rightarrow> (Inr (next_cursor applied st), steps @ steps', st)))))"
  by (simp add: Project_def projection_def next_cursor_def Let_def split: sum.split prod.split option.split)

text \<open>A projection reads nothing of the file system but the cursor.\<close>

lemma Project_reads_cursor:
  "content fs' cursorPath = content fs cursorPath \<Longrightarrow>
   Project dec enc io events st statePath cursorPath fs' = Project dec enc io events st statePath cursorPath fs"
  unfolding Project_def LoadCursor_def by (erule ssubst) (rule refl)

lemma same_projection:
  assumes "same_state st st'"
  shows "fst (projection cur events st') = fst (projection cur events st) \<and>
    fst (snd (projection cur events st')) = fst (snd (projection cur events st)) \<and>
    ps_project (snd (snd (projection cur events st'))) = ps_project (snd (snd (projection cur events st)))"
  using same_fold_events [OF assms, of cur events cur] same_Render [OF same_Recompute]
  by (auto simp: projection_def split_beta Let_def)

lemma crash_leaves_append:
  assumes "crash_leaves (a @ b) fs fs'"
  shows "crash_leaves a fs fs' \<or> crash_leaves b (run_steps a fs) fs'"
proof -
  from assms obtain k n where s: "survives (run_steps (take k (a @ b) @ cut_step n (drop k (a @ b))) fs) fs'"
    by (auto simp: crash_leaves_def)
  show ?thesis
  proof (cases "k < length a")
    case True
    then have "cut_step n (drop k (a @ b)) = cut_step n (drop k a)"
      by (cases "drop k a") (auto simp: cut_step_def split: option.split)
    with s True show ?thesis
      unfolding crash_leaves_def by (intro disjI1 exI [of _ k] exI [of _ n]) simp
  next
    case False
    with s show ?thesis
      unfolding crash_leaves_def
      by (intro disjI2 exI [of _ "k - length a"] exI [of _ n]) (simp add: run_steps_append)
  qed
qed

definition synced_file :: "files \<Rightarrow> string \<Rightarrow> bool" where
  "synced_file fs p = (case fs p of None \<Rightarrow> True | Some (_, ok) \<Rightarrow> ok)"

definition temp_apart :: "write_io \<Rightarrow> string \<Rightarrow> bool" where
  "temp_apart io p = (case wi_temp io of Inl _ \<Rightarrow> True | Inr tmp \<Rightarrow> tmp \<noteq> p)"

lemma seen_other:
  assumes "p \<noteq> path" "temp_apart io p"
  shows "seen (snd (projector_writeFileAtomic io path data)) fs p = {fs p}"
    and "writes_elsewhere p (snd (projector_writeFileAtomic io path data))"
  using assms
  by (auto simp: write_defs temp_apart_def writes_elsewhere_def split: option.split sum.splits)

lemma crash_other:
  assumes "crash_leaves (snd (projector_writeFileAtomic io path data)) fs fs'" "p \<noteq> path" "temp_apart io p" "synced_file fs p"
  shows "fs' p = fs p"
  using crash_leaves_seen [OF assms(1) seen_other(2) [OF assms(2,3)]] assms(4)
  unfolding seen_other(1) [OF assms(2,3)] by (auto simp: synced_file_def split: option.splits)

lemma crash_target:
  assumes "crash_leaves (snd (projector_writeFileAtomic io path data)) fs fs'" "fresh_temp io path fs" "synced_file fs path"
  shows "fs' path = fs path \<or> fs' path = Some (data, True)"
proof -
  have "fs' path \<in> seen (snd (projector_writeFileAtomic io path data)) fs path"
    using assms(3) by (intro crash_leaves_seen [OF assms(1) writes_spare_target(1) [OF assms(2)]])
      (auto simp: projector_write_seen [OF assms(2)] synced_file_def split: option.splits)
  then show ?thesis
    by (auto simp: projector_write_seen [OF assms(2)] split: if_splits)
qed

text \<open>What is asked of the paths and temporary names of a projection.\<close>

definition paths_apart :: "project_io \<Rightarrow> string \<Rightarrow> string \<Rightarrow> files \<Rightarrow> bool" where
  "paths_apart io statePath cursorPath fs =
     (statePath \<noteq> cursorPath \<and>
      fresh_temp (pi_state io) statePath fs \<and> temp_apart (pi_state io) cursorPath \<and>
      fresh_temp (pi_cursor io) cursorPath fs \<and> temp_apart (pi_cursor io) statePath \<and>
      synced_file fs statePath \<and> synced_file fs cursorPath)"

lemma crash_of_Project:
  assumes "paths_apart io statePath cursorPath fs"
    and "Project dec enc io events st statePath cursorPath fs = (res, steps, st')" "crash_leaves steps fs fs'"
  shows "fs' cursorPath = fs cursorPath \<and> fs' statePath = fs statePath \<or>
    (\<exists>cur applied doc st'. LoadCursor dec (pi_readErr io) cursorPath fs = Inr cur \<and>
       projection (cu_seq cur) events st = (applied, Inr doc, st') \<and> fs' statePath = Some (doc, True) \<and>
       (fs' cursorPath = fs cursorPath \<or> fs' cursorPath = Some (enc (next_cursor applied st') @ newline, True)))"
proof -
  note p = assms(1) [unfolded paths_apart_def]
  have quiet: "crash_leaves [] fs fs' \<Longrightarrow> fs' q = fs q" if "synced_file fs q" for q
    using crash_leaves_seen [of "[]" fs fs' q] that by (auto simp: writes_elsewhere_def synced_file_def split: option.splits)
  consider "steps = []" | cur applied doc st'' where "LoadCursor dec (pi_readErr io) cursorPath fs = Inr cur"
      "projection (cu_seq cur) events st = (applied, Inr doc, st'')"
      "steps = snd (projector_writeFileAtomic (pi_state io) statePath doc) \<or>
       fst (projector_writeFileAtomic (pi_state io) statePath doc) = None \<and>
       steps = snd (projector_writeFileAtomic (pi_state io) statePath doc) @
         snd (projector_writeFileAtomic (pi_cursor io) cursorPath (enc (next_cursor applied st'') @ newline))"
    using assms(2) unfolding Project_projection SaveCursor_def
    by (force split: sum.splits prod.splits option.splits)
  then show ?thesis
  proof cases
    case 1
    with assms(3) quiet p show ?thesis by auto
  next
    case 2
    let ?a = "snd (projector_writeFileAtomic (pi_state io) statePath doc)"
    let ?b = "snd (projector_writeFileAtomic (pi_cursor io) cursorPath (enc (next_cursor applied st'') @ newline))"
    consider "crash_leaves ?a fs fs'"
      | "fst (projector_writeFileAtomic (pi_state io) statePath doc) = None" "crash_leaves ?b (run_steps ?a fs) fs'"
      using 2(3) assms(3) crash_leaves_append [of ?a ?b fs fs'] by auto
    then show ?thesis
    proof cases
      case 1
      with p have "fs' cursorPath = fs cursorPath" "fs' statePath = fs statePath \<or> fs' statePath = Some (doc, True)"
        using crash_other [OF 1] crash_target [OF 1] by auto
      with 2 show ?thesis by blast
    next
      case b: 2
      have r: "run_steps ?a fs = fs(statePath \<mapsto> (doc, True))"
        using b(1) p projector_write_result by simp
      have "fs' statePath = Some (doc, True)"
        using crash_other [OF b(2), of statePath] p by (simp add: r synced_file_def)
      moreover have "fresh_temp (pi_cursor io) cursorPath (run_steps ?a fs)"
        using p by (auto simp: r fresh_temp_def temp_apart_def split: sum.splits)
      then have "fs' cursorPath = fs cursorPath \<or>
          fs' cursorPath = Some (enc (next_cursor applied st'') @ newline, True)"
        using crash_target [OF b(2)] p by (auto simp: r synced_file_def)
      ultimately show ?thesis
        using 2 by blast
    qed
  qed
qed

section \<open>Properties\<close>

text \<open>C17. A projection survives a crash. Wherever the machine fails during a projection, the document on disk is
  the one that was there or the whole of the new one, the cursor is where it was or at the new position, and the
  cursor is at the new position only with the new document under it. While the cursor has not moved, projecting again
  does to the letter what an uninterrupted projection would have done.\<close>

theorem projection_crash_safe:
  assumes "paths_apart io statePath cursorPath fs"
    and "Project dec enc io events st statePath cursorPath fs = (res, steps, st')" "crash_leaves steps fs fs'"
  shows "(fs' cursorPath = fs cursorPath \<and> fs' statePath = fs statePath \<or>
     (\<exists>cur applied doc st'. LoadCursor dec (pi_readErr io) cursorPath fs = Inr cur \<and>
        projection (cu_seq cur) events st = (applied, Inr doc, st') \<and> fs' statePath = Some (doc, True) \<and>
        (fs' cursorPath = fs cursorPath \<or> fs' cursorPath = Some (enc (next_cursor applied st') @ newline, True)))) \<and>
    (fs' cursorPath = fs cursorPath \<longrightarrow>
      Project dec enc io' events st statePath cursorPath fs' = Project dec enc io' events st statePath cursorPath fs)"
  using crash_of_Project [OF assms] Project_reads_cursor [of fs' cursorPath fs] by (simp add: content_def)

text \<open>C28. The projection does not depend on the order in which Go happens to iterate over the tasks: from states
  that differ only in that order, the same result is returned and the same bytes are written.\<close>

theorem projection_order_independent:
  assumes "same_state st st'"
  shows "fst (Project dec enc io events st' statePath cursorPath fs) = fst (Project dec enc io events st statePath cursorPath fs) \<and>
    fst (snd (Project dec enc io events st' statePath cursorPath fs)) =
    fst (snd (Project dec enc io events st statePath cursorPath fs))"
proof -
  have "fst (projection c events st') = fst (projection c events st)"
    "fst (snd (projection c events st')) = fst (snd (projection c events st))"
    "next_cursor a (snd (snd (projection c events st'))) = next_cursor a (snd (snd (projection c events st)))" for a c
    using same_projection [OF assms] by (simp_all add: next_cursor_def)
  then show ?thesis
    unfolding Project_projection
    by (auto simp: split_beta split: sum.split prod.split option.split)
qed

section \<open>A project with two tasks\<close>

definition cursor_text :: "Cursor \<Rightarrow> string" where
  "cursor_text c = nat_dec (cu_seq c) @ '','' @ nat_dec (cu_updatedAt c)"

definition cursor_of_text :: "string \<Rightarrow> Cursor option" where
  "cursor_of_text s =
     (case Split (CHR '','') (butlast s) of [n, t] \<Rightarrow> Some \<lparr>cu_seq = dec_val n, cu_updatedAt = dec_val t\<rparr> | _ \<Rightarrow> None)"

definition sample_io :: project_io where
  "sample_io =
     (let w = \<lparr>wi_mkdir = None, wi_temp = Inr ''/s/.p'', wi_write = None, wi_sync = None, wi_close = None,
               wi_remove = None, wi_rename = None\<rparr>
      in \<lparr>pi_readErr = None, pi_state = w, pi_cursor = w\<lparr>wi_temp := Inr ''/s/.c''\<rparr>\<rparr>)"

definition sample_start :: Event where
  "sample_start = \<lparr>ev_seq = 1, ev_type = ''work.started'', ev_ts = 7, ev_subject = ''a'', ev_actor = ''w''\<rparr>"

definition sample_project :: projector_State where
  "sample_project = (NewState ''p'')\<lparr>ps_tasks :=
     [(''b'', zero_task\<lparr>pt_taskID := ''b'', pt_status := StatusPlanned, pt_dependencies := [''a'']\<rparr>),
      (''a'', zero_task\<lparr>pt_taskID := ''a'', pt_status := StatusPlanned\<rparr>)]\<rparr>"

lemma sample_projection: "\<exists>doc st. projection 0 [sample_start] sample_project = (1, Inr doc, st)"
proof -
  have "fst (fold_events 0 [sample_start] 0 sample_project) = 1"
    "renderable (RecomputeBlockers (snd (fold_events 0 [sample_start] 0 sample_project)))"
    by code_simp+
  then show ?thesis
    using Render_succeeds by (fastforce simp: projection_def split_beta Let_def)
qed

theorem projection_crash_safe_witness:
  "let fs' = run_steps (take 7 (fst (snd (Project cursor_of_text cursor_text sample_io [sample_start] sample_project
       ''/s/P'' ''/s/C'' Map.empty)))) Map.empty in
   fs' ''/s/C'' = None \<and> fs' ''/s/P'' \<noteq> None \<and>
   Project cursor_of_text cursor_text sample_io [sample_start] sample_project ''/s/P'' ''/s/C'' fs' =
   Project cursor_of_text cursor_text sample_io [sample_start] sample_project ''/s/P'' ''/s/C'' Map.empty"
proof -
  obtain res steps st where p: "Project cursor_of_text cursor_text sample_io [sample_start] sample_project ''/s/P'' ''/s/C'' Map.empty =
      (res, steps, st)"
    by (metis prod.collapse)
  moreover obtain doc st where "projection 0 [sample_start] sample_project = (1, Inr doc, st)"
    using sample_projection by blast
  ultimately have "run_steps (take 7 steps) Map.empty ''/s/C'' = None"
    "run_steps (take 7 steps) Map.empty ''/s/P'' = Some (doc, True)"
    by (auto simp: Project_projection LoadCursor_def content_def sample_io_def write_defs SaveCursor_def eval_nat_numeral)
  moreover have "paths_apart sample_io ''/s/P'' ''/s/C'' Map.empty"
    by (simp add: paths_apart_def sample_io_def fresh_temp_def temp_apart_def synced_file_def Let_def)
  ultimately show ?thesis
    using projection_crash_safe [OF _ p crash_between_steps [of steps _ 7]] by (simp add: p) (rule exI [of _ True], rule TrueI)
qed

theorem projection_order_independent_witness:
  "same_state sample_project (sample_project\<lparr>ps_tasks := rev (ps_tasks sample_project)\<rparr>) \<and>
   fst (snd (Project cursor_of_text cursor_text sample_io [sample_start]
     (sample_project\<lparr>ps_tasks := rev (ps_tasks sample_project)\<rparr>) ''/s/P'' ''/s/C'' Map.empty)) =
   fst (snd (Project cursor_of_text cursor_text sample_io [sample_start] sample_project ''/s/P'' ''/s/C'' Map.empty))"
proof -
  have s: "same_state sample_project (sample_project\<lparr>ps_tasks := rev (ps_tasks sample_project)\<rparr>)"
    by code_simp
  then show ?thesis
    using projection_order_independent [OF s] by simp
qed

end
