(* ===== verification/Publish.thy ===== *)
theory Publish
  imports Runner Projector
begin

text \<open>
  What a run publishes. \<^verbatim>\<open>internal/unattended/publish.go\<close> maps the queue of a run onto the projector's state,
  lowers what the progression decision does not license, and renders it; \<^verbatim>\<open>projectionpublish.go\<close> installs a rendered
  document into a repository.

  The queue's model has no times, so the times of an attempt are a parameter: when it started, its duration as
  the attempt holds it, and that duration as \<^verbatim>\<open>time.ParseDuration\<close> reads it.
\<close>

section \<open>The delivery projection of a run\<close>

record timing =
  tm_startedAt :: Time
  tm_duration :: string
  tm_parsed :: "Time option"

type_synonym clock = "string \<Rightarrow> TaskAttempt \<Rightarrow> timing"

definition project_attempt :: "clock \<Rightarrow> string \<Rightarrow> TaskAttempt \<Rightarrow> Attempt" where
  "project_attempt clock taskID a =
     (let outcome = (if a_succeeded a then ''succeeded'' else ''failed'');
          summary = (if a_reason a = []
                     then ''attempt '' @ Itoa (a_number a) @ '' '' @ outcome @ '' in '' @ tm_duration (clock taskID a)
                     else a_reason a)
      in \<lparr>at_date = tm_startedAt (clock taskID a), at_outcome = outcome, at_summary = summary, at_evidence = []\<rparr>)"

text \<open>The first start there is.\<close>

definition first_start :: "clock \<Rightarrow> string \<Rightarrow> TaskAttempt list \<Rightarrow> Time" where
  "first_start clock taskID as =
     (case find (\<lambda>a. \<not> IsZero (tm_startedAt (clock taskID a))) as of
        None \<Rightarrow> 0 | Some a \<Rightarrow> tm_startedAt (clock taskID a))"

definition state_claim :: "QueuedTask \<Rightarrow> TaskStatus \<Rightarrow> projector_Task \<Rightarrow> projector_Task" where
  "state_claim qt declared t =
     (case q_state qt of
        TaskSucceeded \<Rightarrow> t\<lparr>pt_status := declared, pt_completionGateStatus := GateMet\<rparr>
      | TaskHeld \<Rightarrow>
          t\<lparr>pt_status := StatusAwaitingHuman, pt_completionGateStatus := GateNotMet, pt_blocker := q_heldReason qt,
            pt_nextPhysicalAction := q_heldReason qt\<rparr>
      | TaskFailed \<Rightarrow>
          t\<lparr>pt_status := StatusBlocked, pt_completionGateStatus := GateNotMet,
            pt_blocker := (if q_attempts qt \<noteq> [] then a_reason (last (q_attempts qt)) else pt_blocker t)\<rparr>
      | TaskPending \<Rightarrow> t\<lparr>pt_status := StatusPlanned, pt_completionGateStatus := GateNotMet\<rparr>)"

definition projectTask :: "clock \<Rightarrow> QueuedTask \<Rightarrow> TaskStatus \<Rightarrow> Fence option \<Rightarrow> projector_Task" where
  "projectTask clock qt declared fence =
     (let task = q_task qt;
          t = zero_task\<lparr>pt_taskID := t_id task, pt_title := t_title task, pt_phase := t_phase task,
                pt_taskType := ''code'', pt_ownerType := ''agent'', pt_dependencies := t_needs task,
                pt_completionGate := t_completionGate task\<rparr>;
          t = (case fence of None \<Rightarrow> t | Some f \<Rightarrow> t\<lparr>pt_branch := f_branch f, pt_implementationSha := f_head f\<rparr>);
          t = state_claim qt declared t;
          t = (if t_completionGate task = [] then t\<lparr>pt_completionGateStatus := GateNotMet\<rparr> else t);
          t = t\<lparr>pt_attempts := map (project_attempt clock (t_id task)) (q_attempts qt),
                pt_actualStart := first_start clock (t_id task) (q_attempts qt)\<rparr>
      in if q_state qt = TaskSucceeded \<and> q_attempts qt \<noteq> [] then
           let tm = clock (t_id task) (last (q_attempts qt)) in
           case tm_parsed tm of
             Some d \<Rightarrow> if IsZero (tm_startedAt tm) then t else t\<lparr>pt_actualFinish := tm_startedAt tm + d\<rparr>
           | None \<Rightarrow> t
         else t)"

definition terminalDeliveryStatuses :: "TaskStatus list" where
  "terminalDeliveryStatuses = [StatusMerged, StatusDeployedUAT, StatusAppliedUAT, StatusVerified, StatusComplete]"

definition ceiling_task :: "string \<Rightarrow> projector_Task \<Rightarrow> projector_Task" where
  "ceiling_task reason t =
     (let t = (if pt_completionGateStatus t = GateMet then t\<lparr>pt_completionGateStatus := GateNotMet\<rparr> else t) in
      if pt_status t \<notin> set terminalDeliveryStatuses then t
      else
        let t = t\<lparr>pt_status := StatusBlocked, pt_blocker := reason\<rparr>
        in if pt_nextPhysicalAction t = [] then t\<lparr>pt_nextPhysicalAction := reason\<rparr> else t)"

definition applyProgressionCeiling :: "ProgressionDecision \<Rightarrow> projector_State \<Rightarrow> projector_State" where
  "applyProgressionCeiling qa st =
     (if pd_allowed qa then st
      else let reason = ''the packet may not progress: '' @ Decision_Reason qa in
           st\<lparr>ps_tasks := map (\<lambda>(k, t). (k, ceiling_task reason t)) (ps_tasks st)\<rparr>)"

datatype publish_error =
    TaskStatusRefused string status_error
  | RenderRefused status_error
  | PublishUnwritten write_error

text \<open>The rows: one for every task that declares a delivery status, which has to be one the consumer knows.\<close>

fun publish_rows ::
  "clock \<Rightarrow> Fence option \<Rightarrow> QueuedTask list \<Rightarrow> (string \<times> projector_Task) list \<Rightarrow> publish_error + (string \<times> projector_Task) list" where
  "publish_rows clock fence [] rows = Inr rows"
| "publish_rows clock fence (qt # qts) rows =
     (if t_deliveryStatus (q_task qt) = [] then publish_rows clock fence qts rows
      else
        let status = TaskStatus_of (t_deliveryStatus (q_task qt)) in
        case ValidateTaskStatus status of
          Some e \<Rightarrow> Inl (TaskStatusRefused (t_id (q_task qt)) e)
        | None \<Rightarrow>
            publish_rows clock fence qts (AList.update (t_id (q_task qt)) (projectTask clock qt status fence) rows))"

definition held_blockers :: "Spec \<Rightarrow> Queue \<Rightarrow> Blocker list" where
  "held_blockers spec q =
     map (\<lambda>qt. \<lparr>bl_blockerID = t_id (q_task qt), bl_summary = q_heldReason qt, bl_humanBoundary = True,
                bl_evidence = stateDirPath (sp_stateDir spec) ''run-journal.jsonl''\<rparr>)
       (filter (\<lambda>qt. q_state qt = TaskHeld \<and> q_heldReason qt \<noteq> []) (qu_tasks q))"

text \<open>The state \<^verbatim>\<open>PublishDelivery\<close> renders.\<close>

definition publish_state ::
  "clock \<Rightarrow> Spec \<Rightarrow> Queue \<Rightarrow> Fence option \<Rightarrow> ProgressionDecision \<Rightarrow> Time \<Rightarrow> publish_error + projector_State" where
  "publish_state clock spec q fence qa now =
     (case publish_rows clock fence (qu_tasks q) [] of
        Inl e \<Rightarrow> Inl e
      | Inr rows \<Rightarrow>
          let st = NewState (sp_projectID spec);
              project = (ps_project st)\<lparr>pm_lastUpdateTimestamp := now,
                pm_authoritativeRef := ow_expectedOrigin (sp_ownership spec),
                pm_latestAcceptedMainSha := (case fence of None \<Rightarrow> [] | Some f \<Rightarrow> f_head f)\<rparr>;
              st = st\<lparr>ps_project := project, ps_tasks := rows, ps_currentBlockers := held_blockers spec q\<rparr>
          in Inr (applyProgressionCeiling qa (RecomputeBlockers st)))"

definition PublishDelivery ::
  "clock \<Rightarrow> write_io \<Rightarrow> Spec \<Rightarrow> Queue \<Rightarrow> Fence option \<Rightarrow> ProgressionDecision \<Rightarrow> Time \<Rightarrow>
   (publish_error + string) \<times> file_step list" where
  "PublishDelivery clock io spec q fence qa now =
     (case publish_state clock spec q fence qa now of
        Inl e \<Rightarrow> (Inl e, [])
      | Inr st \<Rightarrow>
          (case fst (Render st) of
             Inl e \<Rightarrow> (Inl (RenderRefused e), [])
           | Inr data \<Rightarrow>
               if sp_publishPath spec \<noteq> [] then
                 (case unattended_writeFileAtomic io (sp_publishPath spec) data of
                    (Some e, steps) \<Rightarrow> (Inl (PublishUnwritten e), steps)
                  | (None, steps) \<Rightarrow> (Inr data, steps))
               else (Inr data, [])))"

section \<open>Installing a projection\<close>

definition GeneratedMarker :: string where
  "GeneratedMarker = ''# generated-by: gas-city-delivery-projector''"

datatype projection_problem =
    NoPublicationPath
  | AbsolutePublicationPath string
  | EscapingPublicationPath string
  | EmptyProjection
  | NotAProjectState

datatype install_error =
    ErrTargetNotOurs string string
  | ErrProjectionUnusable projection_problem
  | TargetUnreadable string string
  | TargetUnwritten write_error

record PublishResult =
  pr_target :: string
  pr_created :: bool
  pr_replacedMalformed :: bool
  pr_unchanged :: bool

definition looksLikeProjectState :: "string \<Rightarrow> bool" where
  "looksLikeProjectState s = (Contains s ''schemaVersion:'' \<and> Contains s ''project:'')"

definition firstLines :: "string \<Rightarrow> nat \<Rightarrow> string" where
  "firstLines s n = Join (take n (Split (CHR 0x0A) s)) newline"

definition indent :: "string \<Rightarrow> string" where
  "indent s = Join (map (\<lambda>l. ''    '' @ l) (Split (CHR 0x0A) s)) newline"

definition PublishProjection ::
  "string option \<Rightarrow> write_io \<Rightarrow> string \<Rightarrow> string \<Rightarrow> string \<Rightarrow> files \<Rightarrow> (install_error + PublishResult) \<times> file_step list" where
  "PublishProjection readErr io repoRoot relPath doc fs =
     (let clean = filepath_Clean relPath; body = TrimSpace doc in
      if blank relPath then (Inl (ErrProjectionUnusable NoPublicationPath), [])
      else if IsAbs relPath then (Inl (ErrProjectionUnusable (AbsolutePublicationPath relPath)), [])
      else if clean = ''..'' \<or> HasPrefix clean ''../'' then
        (Inl (ErrProjectionUnusable (EscapingPublicationPath relPath)), [])
      else if body = [] then (Inl (ErrProjectionUnusable EmptyProjection), [])
      else if \<not> looksLikeProjectState body then (Inl (ErrProjectionUnusable NotAProjectState), [])
      else
        let target = filepath_Join repoRoot clean;
            text = GeneratedMarker @ newline @ body @ newline;
            res = \<lparr>pr_target = [], pr_created = False, pr_replacedMalformed = False, pr_unchanged = False\<rparr>;
            install = (\<lambda>res. case unattended_writeFileAtomic io target text of
              (Some e, steps) \<Rightarrow> (Inl (TargetUnwritten e), steps)
            | (None, steps) \<Rightarrow> (Inr (res\<lparr>pr_target := target\<rparr>), steps))
        in case readErr of
             Some e \<Rightarrow> (Inl (TargetUnreadable target e), [])
           | None \<Rightarrow>
               (case content fs target of
                  None \<Rightarrow> install (res\<lparr>pr_created := True\<rparr>)
                | Some existing \<Rightarrow>
                    if \<not> Contains (firstLines existing 5) GeneratedMarker then
                      (Inl (ErrTargetNotOurs target (indent (firstLines existing 5))), [])
                    else
                      let res = res\<lparr>pr_replacedMalformed := (\<not> looksLikeProjectState existing)\<rparr>
                      in if existing = text then (Inr (res\<lparr>pr_target := target, pr_unchanged := True\<rparr>), [])
                         else install res))"

section \<open>Lemmas\<close>

lemma terminalDelivery_iff: "s \<in> set terminalDeliveryStatuses \<longleftrightarrow> isTerminalStatus s"
  by (auto simp: terminalDeliveryStatuses_def isTerminalStatus_def)

lemma ValidateTaskStatus_None: "ValidateTaskStatus s = None \<longleftrightarrow> s \<in> set knownTaskStatuses"
  by (simp add: ValidateTaskStatus_def)

text \<open>What a row says of a queued task.\<close>

definition row_of :: "clock \<Rightarrow> Fence option \<Rightarrow> QueuedTask \<Rightarrow> string \<times> projector_Task" where
  "row_of clock fence qt =
     (t_id (q_task qt), projectTask clock qt (TaskStatus_of (t_deliveryStatus (q_task qt))) fence)"

lemma fst_row_of: "fst (row_of clock fence qt) = t_id (q_task qt)"
  by (simp add: row_of_def)

definition declares :: "QueuedTask \<Rightarrow> bool" where
  "declares qt = (t_deliveryStatus (q_task qt) \<noteq> [])"

lemma publish_rows_set:
  assumes "publish_rows clock fence qts rows = Inr rows'"
  shows "set rows' \<subseteq> set rows \<union> row_of clock fence ` {qt \<in> set qts. declares qt}"
  using assms
proof (induction qts arbitrary: rows)
  case (Cons qt qts)
  let ?rows = "if declares qt then AList.update (t_id (q_task qt)) (snd (row_of clock fence qt)) rows else rows"
  have "publish_rows clock fence qts ?rows = Inr rows'"
    using Cons.prems by (auto simp: row_of_def declares_def Let_def split: if_splits option.splits)
  from Cons.IH [OF this] show ?case
    using set_update [of "t_id (q_task qt)" "snd (row_of clock fence qt)" rows]
    by (auto simp: row_of_def split: if_splits)
qed simp

lemma publish_rows_distinct:
  "publish_rows clock fence qts rows = Inr rows' \<Longrightarrow> distinct (map fst rows) \<Longrightarrow> distinct (map fst rows')"
  by (induction qts arbitrary: rows) (auto simp: Let_def distinct_update split: if_splits option.splits)

lemma publish_rows_map:
  assumes "publish_rows clock fence qts rows = Inr rows'" "distinct (map (t_id \<circ> q_task) qts)"
  shows "map_of rows' = map_of rows ++ map_of (map (row_of clock fence) (filter declares qts))"
  using assms
proof (induction qts arbitrary: rows)
  case (Cons qt qts)
  show ?case
  proof (cases "declares qt")
    case False
    with Cons show ?thesis by (simp add: declares_def)
  next
    case True
    then have "publish_rows clock fence qts (AList.update (t_id (q_task qt)) (snd (row_of clock fence qt)) rows) = Inr rows'"
      using Cons.prems by (auto simp: row_of_def declares_def Let_def split: if_splits option.splits)
    then have "map_of rows' = (map_of rows)(t_id (q_task qt) \<mapsto> snd (row_of clock fence qt)) ++
        map_of (map (row_of clock fence) (filter declares qts))"
      using Cons.IH Cons.prems(2) by (simp add: update_conv')
    moreover have "t_id (q_task qt) \<notin> dom (map_of (map (row_of clock fence) (filter declares qts)))"
      using Cons.prems(2) by (auto simp: dom_map_of_conv_image_fst fst_row_of)
    ultimately show ?thesis
      using True by (simp add: map_add_upd_left fst_row_of) (auto simp: map_add_def fun_eq_iff split: option.split)
  qed
qed simp

text \<open>The claims a row makes are those of a task that succeeded.\<close>

lemma projectTask_status:
  "pt_status (projectTask clock qt declared fence) =
     (case q_state qt of TaskSucceeded \<Rightarrow> declared | TaskHeld \<Rightarrow> StatusAwaitingHuman | TaskFailed \<Rightarrow> StatusBlocked
      | TaskPending \<Rightarrow> StatusPlanned)"
  by (simp add: projectTask_def state_claim_def Let_def split: TaskState.split option.split)

lemma projectTask_gate:
  "pt_completionGateStatus (projectTask clock qt declared fence) =
     (if q_state qt = TaskSucceeded \<and> t_completionGate (q_task qt) \<noteq> [] then GateMet else GateNotMet)"
  by (simp add: projectTask_def state_claim_def Let_def split: TaskState.split option.split)

lemma projectTask_dependencies [simp]:
  "pt_dependencies (projectTask clock qt declared fence) = t_needs (q_task qt)"
  by (simp add: projectTask_def state_claim_def Let_def split: TaskState.split option.split)

lemma ceiling_claims_nothing:
  "\<not> isTerminalStatus (pt_status (ceiling_task reason t)) \<and> pt_completionGateStatus (ceiling_task reason t) \<noteq> GateMet"
  by (auto simp: ceiling_task_def Let_def terminalDelivery_iff) (auto simp: isTerminalStatus_def)

lemma ceiling_keeps_open: "\<not> isTerminalStatus (pt_status t) \<Longrightarrow> pt_status (ceiling_task reason t) = pt_status t"
  by (simp add: ceiling_task_def Let_def terminalDelivery_iff)

lemma refresh_keeps:
  "pt_completionGateStatus (refresh_task st t) = pt_completionGateStatus t"
  "isTerminalStatus (pt_status t) \<Longrightarrow> pt_status (refresh_task st t) = pt_status t"
  by (auto simp: refresh_task_def Let_def isTerminalStatus_def)

text \<open>A published row is a queued task's row, refreshed, and lowered when the decision refuses.\<close>

lemma publish_state_rows:
  assumes "publish_state clock spec q fence qa now = Inr st"
  shows "\<exists>st0 lower. publish_rows clock fence (qu_tasks q) [] = Inr (ps_tasks st0) \<and> distinct_tasks st0 \<and>
    (pd_allowed qa \<and> lower = id \<or> \<not> pd_allowed qa \<and> (\<exists>reason. lower = ceiling_task reason)) \<and>
    (\<forall>k. projected_task st k = map_option (\<lambda>t. lower (refresh_task st0 t)) (projected_task st0 k))"
proof -
  obtain rows where rows: "publish_rows clock fence (qu_tasks q) [] = Inr rows"
    using assms by (auto simp: publish_state_def split: sum.splits)
  then obtain st0 where st0: "st = applyProgressionCeiling qa (RecomputeBlockers st0)" "ps_tasks st0 = rows"
    using assms by (force simp: publish_state_def Let_def)
  have d: "distinct_tasks st0"
    using publish_rows_distinct [OF rows] st0(2) by (simp add: distinct_tasks_def)
  define reason where "reason = ''the packet may not progress: '' @ Decision_Reason qa"
  define lower where "lower = (if pd_allowed qa then id else ceiling_task reason)"
  have "st = (if pd_allowed qa then RecomputeBlockers st0
      else (RecomputeBlockers st0)\<lparr>ps_tasks := map (\<lambda>(k, t). (k, ceiling_task reason t)) (ps_tasks (RecomputeBlockers st0))\<rparr>)"
    unfolding st0(1) applyProgressionCeiling_def Let_def reason_def ..
  then have "projected_task st k = map_option (\<lambda>t. lower (refresh_task st0 t)) (projected_task st0 k)" for k
    using projected_Recompute [OF d, of k]
    by (simp add: lower_def projected_task_def projected_map_value option.map_comp comp_def)
  with rows st0(2) d show ?thesis
    by (intro exI [of _ st0] exI [of _ lower]) (auto simp: lower_def)
qed

section \<open>Properties\<close>

text \<open>C24. What a run publishes is licensed. When a run publishes its delivery projection, a task that reads as done
  there, or whose completion gate reads as met, is a task of its queue that succeeded, with exactly the status it declared
  or with a gate it declared; and every gate the run's risk and policy require has passed against the revision the fence
  stands at.\<close>

theorem published_completion_is_licensed:
  assumes "publish_state clock (rc_spec cfg) (rn_queue r) (Some (rn_fence r)) (QADecision cfg r) now = Inr st"
    and "projected_task st k = Some t" "isTerminalStatus (pt_status t) \<or> pt_completionGateStatus t = GateMet"
  shows "(\<exists>qt\<in>set (qu_tasks (rn_queue r)). t_id (q_task qt) = k \<and> q_state qt = TaskSucceeded \<and>
       (isTerminalStatus (pt_status t) \<longrightarrow> pt_status t = TaskStatus_of (t_deliveryStatus (q_task qt))) \<and>
       (pt_completionGateStatus t = GateMet \<longrightarrow> t_completionGate (q_task qt) \<noteq> [])) \<and>
    (\<forall>g\<in>set (RequiredGates (sp_qa (rc_spec cfg)) (p_risk (rc_plan cfg))).
       \<exists>e. rn_evidence r g = Some e \<and> ge_result e = GatePass \<and> ge_targetSHA e = f_head (rn_fence r))"
proof -
  obtain st0 lower where rows: "publish_rows clock (Some (rn_fence r)) (qu_tasks (rn_queue r)) [] = Inr (ps_tasks st0)"
    and lower: "pd_allowed (QADecision cfg r) \<and> lower = id \<or> \<not> pd_allowed (QADecision cfg r) \<and> (\<exists>reason. lower = ceiling_task reason)"
    and st: "\<forall>k. projected_task st k = map_option (\<lambda>t. lower (refresh_task st0 t)) (projected_task st0 k)"
    using publish_state_rows [OF assms(1)] by blast
  obtain t0 where t0: "projected_task st0 k = Some t0" "t = lower (refresh_task st0 t0)"
    using st assms(2) by auto
  have ok: "pd_allowed (QADecision cfg r)"
    using ceiling_claims_nothing assms(3) lower unfolding t0(2) by blast
  then have t: "t = refresh_task st0 t0"
    using t0(2) lower by simp
  have "(k, t0) \<in> set (ps_tasks st0)"
    using t0(1) by (auto simp: projected_task_def dest: map_of_SomeD)
  then obtain qt where qt: "qt \<in> set (qu_tasks (rn_queue r))" "(k, t0) = row_of clock (Some (rn_fence r)) qt"
    using publish_rows_set [OF rows] by auto
  have "(isTerminalStatus (pt_status t0) \<or> pt_completionGateStatus t0 = GateMet) \<and>
      (isTerminalStatus (pt_status t) \<longrightarrow> pt_status t = pt_status t0)"
    using assms(3) refresh_keeps(1) [of st0 t0] refresh_keeps(2) [of t0 st0] refresh_terminal [of st0 t0] unfolding t by metis
  moreover have "t0 = projectTask clock qt (TaskStatus_of (t_deliveryStatus (q_task qt))) (Some (rn_fence r))" "t_id (q_task qt) = k"
    using qt(2) by (simp_all add: row_of_def)
  moreover have "pt_completionGateStatus t = pt_completionGateStatus t0"
    by (simp add: t refresh_keeps)
  ultimately have "t_id (q_task qt) = k \<and> q_state qt = TaskSucceeded \<and>
      (isTerminalStatus (pt_status t) \<longrightarrow> pt_status t = TaskStatus_of (t_deliveryStatus (q_task qt))) \<and>
      (pt_completionGateStatus t = GateMet \<longrightarrow> t_completionGate (q_task qt) \<noteq> [])"
    by (auto simp: projectTask_status projectTask_gate isTerminalStatus_def split: TaskState.splits if_splits)
  then show ?thesis
    using qt(1) ok unfolding QADecision_def EvaluateProgression_allowed Certifies_iff by blast
qed

text \<open>A task that failed is published as planned. Its row starts as blocked, and recomputing the blockers takes
  a blocked task whose dependencies are all done for one whose wait is over: whatever the progression decision, the
  document says of a task that used up its attempts that it has not been tried.\<close>

theorem failed_task_published_as_planned:
  assumes "publish_state clock spec q fence qa now = Inr st" "distinct (map (t_id \<circ> q_task) (qu_tasks q))"
    and "qt \<in> set (qu_tasks q)" "q_state qt = TaskFailed" "t_deliveryStatus (q_task qt) \<noteq> []"
    and "\<forall>n\<in>set (t_needs (q_task qt)). \<exists>need\<in>set (qu_tasks q). t_id (q_task need) = n \<and> q_state need = TaskSucceeded \<and>
      isTerminalStatus (TaskStatus_of (t_deliveryStatus (q_task need)))"
  shows "\<exists>t. projected_task st (t_id (q_task qt)) = Some t \<and> pt_status t = StatusPlanned"
proof -
  obtain st0 lower where rows: "publish_rows clock fence (qu_tasks q) [] = Inr (ps_tasks st0)"
    and lower: "pd_allowed qa \<and> lower = id \<or> \<not> pd_allowed qa \<and> (\<exists>reason. lower = ceiling_task reason)"
    and st: "\<forall>k. projected_task st k = map_option (\<lambda>t. lower (refresh_task st0 t)) (projected_task st0 k)"
    using publish_state_rows [OF assms(1)] by blast
  have row: "projected_task st0 (t_id (q_task x)) = Some (snd (row_of clock fence x))"
    if "x \<in> set (qu_tasks q)" "declares x" for x
  proof -
    have "map fst (map (row_of clock fence) (filter declares (qu_tasks q))) = map (t_id \<circ> q_task) (filter declares (qu_tasks q))"
      by (simp add: fst_row_of)
    then have "distinct (map fst (map (row_of clock fence) (filter declares (qu_tasks q))))"
      using assms(2) by (metis distinct_map_filter)
    moreover have "(t_id (q_task x), snd (row_of clock fence x)) \<in> set (map (row_of clock fence) (filter declares (qu_tasks q)))"
      using that by (force simp: row_of_def)
    ultimately have "map_of (map (row_of clock fence) (filter declares (qu_tasks q))) (t_id (q_task x)) = Some (snd (row_of clock fence x))"
      by (rule map_of_is_SomeI)
    then show ?thesis
      using publish_rows_map [OF rows assms(2)] by (simp add: projected_task_def)
  qed
  have terminal: "declares x" if "isTerminalStatus (TaskStatus_of (t_deliveryStatus (q_task x)))" for x
    using that by (auto simp: declares_def isTerminalStatus_def TaskStatus_of_def knownTaskStatuses_def)
  define t0 where "t0 = snd (row_of clock fence qt)"
  have t0: "projected_task st0 (t_id (q_task qt)) = Some t0" "pt_status t0 = StatusBlocked" "pt_dependencies t0 = t_needs (q_task qt)"
    using row [of qt] assms(3-5) by (simp_all add: t0_def row_of_def declares_def projectTask_status)
  have "dep_done st0 n" if n: "n \<in> set (pt_dependencies t0)" for n
  proof -
    obtain need where "need \<in> set (qu_tasks q)" "t_id (q_task need) = n" "q_state need = TaskSucceeded"
      "isTerminalStatus (TaskStatus_of (t_deliveryStatus (q_task need)))"
      using assms(6) n t0(3) by auto
    then show ?thesis
      using row [of need] terminal [of need] by (auto simp: dep_done_def row_of_def projectTask_status)
  qed
  then have "blockersOf st0 t0 = []"
    by (simp add: blockersOf_done)
  then have "pt_status (refresh_task st0 t0) = StatusPlanned"
    using t0(2) by (simp add: refresh_task_def)
  then have "pt_status (lower (refresh_task st0 t0)) = StatusPlanned"
    using lower ceiling_keeps_open [of "refresh_task st0 t0"] by (auto simp: isTerminalStatus_def)
  with st t0(1) show ?thesis
    by simp
qed

section \<open>Installing a document\<close>

text \<open>Either nothing is done, or the path stays in the repository, the target is not there or its own, and the document is
  there already or written.\<close>

lemma PublishProjection_cases:
  assumes "PublishProjection readErr io root rel doc fs = (res, steps)" "target = filepath_Join root (filepath_Clean rel)"
    and "body = GeneratedMarker @ newline @ TrimSpace doc @ newline"
  obtains e where "res = Inl e" "steps = []"
  | r where "\<not> blank rel" "\<not> IsAbs rel" "filepath_Clean rel \<noteq> ''..''" "\<not> HasPrefix (filepath_Clean rel) ''../''"
      "TrimSpace doc \<noteq> []" "looksLikeProjectState (TrimSpace doc)"
      "res = Inr r" "steps = []" "content fs target = Some body"
  | "\<not> blank rel" "\<not> IsAbs rel" "filepath_Clean rel \<noteq> ''..''" "\<not> HasPrefix (filepath_Clean rel) ''../''"
      "TrimSpace doc \<noteq> []" "looksLikeProjectState (TrimSpace doc)"
      "\<And>old. content fs target = Some old \<Longrightarrow> Contains (firstLines old 5) GeneratedMarker"
      "steps = snd (unattended_writeFileAtomic io target body)"
      "\<And>r. res = Inr r \<Longrightarrow> fst (unattended_writeFileAtomic io target body) = None"
  using assms unfolding PublishProjection_def Let_def
  by (auto split: if_splits option.splits prod.splits)

lemma marker_in_own_document:
  "Contains (firstLines (GeneratedMarker @ newline @ rest) 5) GeneratedMarker"
proof -
  have "CHR 0x0A \<notin> set GeneratedMarker"
    by code_simp
  then have "Split (CHR 0x0A) (GeneratedMarker @ newline @ rest) = GeneratedMarker # Split (CHR 0x0A) rest"
    using Split_sep [of "CHR 0x0A" GeneratedMarker rest] by (simp add: newline_def Split_no_sep)
  then have "firstLines (GeneratedMarker @ newline @ rest) 5 = Join (GeneratedMarker # take 4 (Split (CHR 0x0A) rest)) newline"
    by (simp add: firstLines_def)
  moreover have "prefix w (Join (w # ws) sep)" for w ws sep
    by (cases ws) simp_all
  ultimately show ?thesis
    by (simp add: Contains_sublist prefix_imp_sublist)
qed

text \<open>C27. Installing a document takes nothing that is not its own. Whatever the file at the target is, unless its
  first lines carry the generated marker nothing is written; whatever path is given, nothing is written outside the
  repository or anywhere but at the target; and a document once installed is installed again without a write.\<close>

theorem installation_takes_nothing:
  assumes "PublishProjection readErr io root rel doc fs = (res, steps)" "root \<noteq> []"
    and "target = filepath_Join root (filepath_Clean rel)" "fresh_temp io target fs"
  shows "(content fs target = Some old \<and> \<not> Contains (firstLines old 5) GeneratedMarker \<longrightarrow> steps = []) \<and>
    (steps \<noteq> [] \<longrightarrow> (\<exists>segs. path_segs target = path_segs root @ segs \<and> list_all proper_seg segs)) \<and>
    (\<forall>p. p \<noteq> target \<longrightarrow> run_steps steps fs p = fs p) \<and>
    (\<forall>r. res = Inr r \<longrightarrow>
       content (run_steps steps fs) target = Some (GeneratedMarker @ newline @ TrimSpace doc @ newline) \<and>
       (\<exists>r'. PublishProjection None io' root rel doc (run_steps steps fs) = (Inr r', []) \<and> pr_unchanged r'))"
proof -
  define body where "body = GeneratedMarker @ newline @ TrimSpace doc @ newline"
  have again: "\<exists>r'. PublishProjection None io' root rel doc fs' = (Inr r', []) \<and> pr_unchanged r'"
    if "content fs' target = Some body" "\<not> blank rel" "\<not> IsAbs rel" "filepath_Clean rel \<noteq> ''..''"
      "\<not> HasPrefix (filepath_Clean rel) ''../''" "TrimSpace doc \<noteq> []" "looksLikeProjectState (TrimSpace doc)" for fs'
    using that marker_in_own_document unfolding PublishProjection_def Let_def body_def assms(3) by simp
  have kept: "run_steps (snd (unattended_writeFileAtomic io target body)) fs p = fs p" if "p \<noteq> target" for p
    using that unattended_write_result [OF assms(4), of body] by (auto split: option.splits write_error.splits)
  from assms(1,3) body_def show ?thesis
  proof (cases rule: PublishProjection_cases)
    case 1
    then show ?thesis by simp
  next
    case (2 r)
    then show ?thesis
      using again [of fs] marker_in_own_document [of "TrimSpace doc @ newline"] by (auto simp: body_def)
  next
    case 3
    have "path_segs rel = [] \<or> hd (path_segs rel) \<noteq> ''..''"
      using climbs_out [OF 3(2)] 3(3,4) by auto
    then have "path_segs target = path_segs root @ path_segs rel" "path_segs rel = [] \<or> list_all proper_seg (path_segs rel)"
      using Join_under_root [OF assms(2) 3(2)] assms(2) proper_segs [of rel]
      by (auto simp: assms(3) filepath_Join_def path_segs_Clean)
    then have "\<exists>segs. path_segs target = path_segs root @ segs \<and> list_all proper_seg segs"
      by auto
    moreover have "content (run_steps steps fs) target = Some body" if "res = Inr r" for r
      using unattended_write_result [OF assms(4), of body] 3(9) [OF that] by (simp add: 3(8) content_def)
    ultimately show ?thesis
      using 3 again kept by (auto simp: body_def)
  qed
qed

section \<open>Samples\<close>

definition sample_clock :: clock where
  "sample_clock taskID a = \<lparr>tm_startedAt = 7, tm_duration = ''2s'', tm_parsed = Some 2\<rparr>"

definition sample_delivery :: "TaskState \<Rightarrow> Queue" where
  "sample_delivery s =
     (let q = NewQueue (brief_plan\<lparr>p_tasks := [sample_task\<lparr>t_deliveryStatus := ''merged'', t_completionGate := ''CI green''\<rparr>]\<rparr>) Map.empty
      in q\<lparr>qu_tasks := map (\<lambda>qt. qt\<lparr>q_state := s\<rparr>) (qu_tasks q)\<rparr>)"

theorem published_completion_is_licensed_witness:
  "\<exists>st t. publish_state sample_clock sample_spec (sample_delivery TaskSucceeded) (Some (rn_fence sample_runner))
       (QADecision sample_config (sample_runner\<lparr>rn_queue := sample_delivery TaskSucceeded\<rparr>)) 9 = Inr st \<and>
     projected_task st ''build'' = Some t \<and> pt_status t = StatusMerged \<and> pt_completionGateStatus t = GateMet \<and>
     list_ex (\<lambda>qt. t_id (q_task qt) = ''build'' \<and> q_state qt = TaskSucceeded) (qu_tasks (sample_delivery TaskSucceeded))"
proof -
  let ?r = "sample_runner\<lparr>rn_queue := sample_delivery TaskSucceeded\<rparr>"
  have "case publish_state sample_clock sample_spec (sample_delivery TaskSucceeded) (Some (rn_fence sample_runner))
      (QADecision sample_config ?r) 9 of
        Inl _ \<Rightarrow> False
      | Inr st \<Rightarrow> map_option (\<lambda>t. (pt_status t, pt_completionGateStatus t)) (projected_task st ''build'') = Some (StatusMerged, GateMet)"
    by code_simp
  then obtain st t where st: "publish_state sample_clock sample_spec (sample_delivery TaskSucceeded) (Some (rn_fence sample_runner))
      (QADecision sample_config ?r) 9 = Inr st"
    and t: "projected_task st ''build'' = Some t" "pt_status t = StatusMerged" "pt_completionGateStatus t = GateMet"
    by (auto split: sum.splits)
  have "publish_state sample_clock (rc_spec sample_config) (rn_queue ?r) (Some (rn_fence ?r)) (QADecision sample_config ?r) 9 = Inr st"
    using st by (simp add: sample_config_def)
  from published_completion_is_licensed [OF this t(1)] t(3)
  have "list_ex (\<lambda>qt. t_id (q_task qt) = ''build'' \<and> q_state qt = TaskSucceeded) (qu_tasks (sample_delivery TaskSucceeded))"
    by (auto simp: list_ex_iff)
  with st t show ?thesis
    by blast
qed

theorem failed_task_published_as_planned_witness:
  "\<exists>st t. publish_state sample_clock sample_spec (sample_delivery TaskFailed) None (QADecision sample_config sample_runner) 9 = Inr st \<and>
     projected_task st ''build'' = Some t \<and> pt_status t = StatusPlanned"
proof -
  have "case publish_state sample_clock sample_spec (sample_delivery TaskFailed) None (QADecision sample_config sample_runner) 9 of
      Inl _ \<Rightarrow> False | Inr st \<Rightarrow> True"
    by code_simp
  then obtain st where st: "publish_state sample_clock sample_spec (sample_delivery TaskFailed) None
      (QADecision sample_config sample_runner) 9 = Inr st"
    by (auto split: sum.splits)
  have "map (\<lambda>qt. (q_state qt, t_id (q_task qt), t_needs (q_task qt), t_deliveryStatus (q_task qt))) (qu_tasks (sample_delivery TaskFailed)) =
      [(TaskFailed, ''build'', [], ''merged'')]"
    by code_simp
  then obtain qt where qt: "qu_tasks (sample_delivery TaskFailed) = [qt]" "q_state qt = TaskFailed" "t_id (q_task qt) = ''build''"
    "t_needs (q_task qt) = []" "t_deliveryStatus (q_task qt) = ''merged''"
    by (auto simp: map_eq_Cons_conv)
  show ?thesis
    using failed_task_published_as_planned [OF st, of qt] qt st by auto
qed

theorem installation_takes_nothing_witness:
  "\<exists>r r' steps. PublishProjection None (sample_write_io\<lparr>wi_rename := None\<rparr>) ''/r'' ''d/P'' ''schemaVersion: 1 project: p'' Map.empty = (Inr r, steps) \<and>
     pr_created r \<and> PublishProjection None sample_write_io ''/r'' ''d/P'' ''schemaVersion: 1 project: p'' (run_steps steps Map.empty) = (Inr r', []) \<and>
     pr_unchanged r'"
proof -
  let ?io = "sample_write_io\<lparr>wi_rename := None\<rparr>" and ?doc = "''schemaVersion: 1 project: p''"
  have "fst (PublishProjection None ?io ''/r'' ''d/P'' ?doc Map.empty) =
      Inr \<lparr>pr_target = ''/r/d/P'', pr_created = True, pr_replacedMalformed = False, pr_unchanged = False\<rparr>"
    by code_simp
  then obtain r steps where p: "PublishProjection None ?io ''/r'' ''d/P'' ?doc Map.empty = (Inr r, steps)" "pr_created r"
    by (cases "PublishProjection None ?io ''/r'' ''d/P'' ?doc Map.empty") auto
  have "fresh_temp ?io (filepath_Join ''/r'' (filepath_Clean ''d/P'')) Map.empty"
    by code_simp
  then obtain r' where "PublishProjection None sample_write_io ''/r'' ''d/P'' ?doc (run_steps steps Map.empty) = (Inr r', [])" "pr_unchanged r'"
    using installation_takes_nothing [OF p(1) _ refl, of "[]" sample_write_io] by auto
  with p show ?thesis
    by blast
qed

end
