(* ===== verification/Projector_Gen.thy ===== *)
theory Projector_Gen
  imports Projector
begin

text \<open>
  The producer of the delivery document (\<^verbatim>\<open>corsolv/projector-gen/main.go\<close>): it builds a state from the facts file
  and the run's control ledger, folds the city's event log into it through \<^verbatim>\<open>projector.Project\<close>, joins the
  terminal records of the beads and writes the document once more. The flags, the decoder of the facts file and the
  lines printed at the end are left out; the decoders of events and bead records and the parser of a timestamp are
  parameters, and the files it reads are fields of \<open>gen_env\<close>.
\<close>

section \<open>Facts\<close>

record facts_task =
  ft_taskID :: string
  ft_beadID :: string
  ft_title :: string
  ft_phase :: string
  ft_taskType :: string
  ft_status :: string
  ft_priority :: string
  ft_ownerType :: string
  ft_branch :: string
  ft_pullRequest :: int
  ft_dependencies :: "string list"
  ft_parallelGroup :: string
  ft_criticalPath :: bool
  ft_implementationSha :: string
  ft_agentSession :: string
  ft_worktreePath :: string
  ft_gateLabel :: string
  ft_gateKind :: string

record facts_deliverable =
  fd_id :: string
  fd_statement :: string
  fd_satisfiedBy :: "string list"
  fd_acceptedBy :: string
  fd_acceptedAt :: string
  fd_invalidated :: "DeliverableInvalidation option"
  fd_remediatedBy :: "string list"

text \<open>The project object of the facts is the document's, without a time.\<close>

record factsFile =
  ff_project :: ProjectMeta
  ff_runID :: string
  ff_tasks :: "facts_task list"
  ff_deliverables :: "facts_deliverable list"

record beadRecord =
  bd_id :: string
  bd_status :: string
  bd_closedAt :: string

section \<open>The completion gate\<close>

definition completionGateControls :: "string list" where
  "completionGateControls =
     [''required CI passed'', ''independent assurance passed'', ''merged through repository governance'']"

definition verificationGateControls :: "string list" where
  "verificationGateControls =
     [''verified commit is on the authoritative branch'', ''required evidence present at the verified commit'',
      ''declared verification gates passed at the verified commit'']"

definition tab :: char where
  "tab = CHR 0x09"

text \<open>Whether a line of the ledger says that the control \<open>want\<close> passed for the workstream \<open>label\<close>.\<close>

definition ledger_pass :: "string \<Rightarrow> string \<Rightarrow> string \<Rightarrow> bool" where
  "ledger_pass label want line =
     (case Split tab line of
        name # status # _ \<Rightarrow> HasPrefix name (label @ '' '') \<and> Contains name want \<and> status = ''PASS''
      | _ \<Rightarrow> False)"

definition deriveCompletionGate :: "string \<Rightarrow> string \<Rightarrow> string \<Rightarrow> string \<times> CompletionGateStatus" where
  "deriveCompletionGate ledger label kind =
     (if blank label then ([], GateNotMet)
      else
        let controls = (if kind = ''verification'' then verificationGateControls else completionGateControls);
            passed = length (filter (\<lambda>want. list_ex (ledger_pass label want) (Split (CHR 0x0A) ledger)) controls);
            gate = Join controls '' + ''
        in if passed = length controls then (gate, GateMet)
           else if passed > 0 then (gate, GatePartiallyMet)
           else (gate, GateNotMet))"

section \<open>The state of the facts\<close>

definition facts_evidence :: "string \<Rightarrow> facts_task \<Rightarrow> string list" where
  "facts_evidence runID ft =
     (if ft_agentSession ft \<noteq> [] then [''session='' @ ft_agentSession ft] else []) @
     (if ft_worktreePath ft \<noteq> [] then [''worktree='' @ ft_worktreePath ft] else []) @
     (if runID \<noteq> [] then [''run='' @ runID] else []) @
     (if ft_beadID ft \<noteq> [] then [''bead='' @ ft_beadID ft] else [])"

definition facts_row :: "string \<Rightarrow> string \<Rightarrow> facts_task \<Rightarrow> projector_Task" where
  "facts_row controls runID ft =
     (let (gate, gateStatus) = deriveCompletionGate controls (ft_gateLabel ft) (ft_gateKind ft) in
      zero_task\<lparr>pt_taskID := ft_taskID ft, pt_title := ft_title ft, pt_phase := ft_phase ft,
        pt_taskType := ft_taskType ft, pt_status := TaskStatus_of (ft_status ft), pt_priority := ft_priority ft,
        pt_ownerType := ft_ownerType ft, pt_branch := ft_branch ft, pt_pullRequest := ft_pullRequest ft,
        pt_dependencies := ft_dependencies ft, pt_parallelGroup := ft_parallelGroup ft,
        pt_criticalPath := ft_criticalPath ft, pt_implementationSha := ft_implementationSha ft,
        pt_completionGate := gate, pt_completionGateStatus := gateStatus, pt_evidence := facts_evidence runID ft\<rparr>)"

definition facts_deliverable_row :: "facts_deliverable \<Rightarrow> Deliverable" where
  "facts_deliverable_row fd =
     \<lparr>dv_id = fd_id fd, dv_statement = fd_statement fd, dv_satisfiedBy = fd_satisfiedBy fd, dv_met = False,
      dv_acceptedBy = fd_acceptedBy fd, dv_acceptedAt = fd_acceptedAt fd, dv_invalidated = fd_invalidated fd,
      dv_remediatedBy = fd_remediatedBy fd\<rparr>"

definition readTerminalRecord ::
  "(string \<Rightarrow> beadRecord list option) \<Rightarrow> (string \<Rightarrow> Time option) \<Rightarrow> string option \<Rightarrow> Time option" where
  "readTerminalRecord dec parse file =
     (case file of
        None \<Rightarrow> None
      | Some raw \<Rightarrow>
          (case dec raw of
             Some (r # _) \<Rightarrow>
               if bd_status r \<noteq> ''closed'' \<or> blank (bd_closedAt r) then None else parse (bd_closedAt r)
           | _ \<Rightarrow> None))"

section \<open>The program\<close>

record gen_env =
  ge_controls :: "string + string"
  ge_events :: "string + string"
  ge_bead :: "string \<Rightarrow> string option"
  ge_decEvent :: "string \<Rightarrow> city_event option"
  ge_decBead :: "string \<Rightarrow> beadRecord list option"
  ge_parseTime :: "string \<Rightarrow> Time option"
  ge_decCursor :: "string \<Rightarrow> Cursor option"
  ge_encCursor :: "Cursor \<Rightarrow> string"
  ge_io :: project_io
  ge_writeErr :: "(nat option \<times> string) option"
  ge_city :: string
  ge_out :: string
  ge_cursor :: string

datatype gen_error =
    LedgerUnreadable string
  | TaskStatusUnknown string status_error
  | EventsUnreadable city_error
  | Projecting project_error
  | Rendering status_error
  | WritingState string

text \<open>What the loop over the tasks builds: the rows, the task of each bead, and the recorded finishes.\<close>

record gen_tables =
  gt_rows :: "(string \<times> projector_Task) list"
  gt_byBead :: "string \<rightharpoonup> string"
  gt_terminal :: "(string \<times> Time) list"

definition add_task :: "gen_env \<Rightarrow> string \<Rightarrow> string \<Rightarrow> facts_task \<Rightarrow> gen_tables \<Rightarrow> gen_tables" where
  "add_task env controls runID ft gt =
     (let gt = gt\<lparr>gt_rows := AList.update (ft_taskID ft) (facts_row controls runID ft) (gt_rows gt)\<rparr> in
      if ft_beadID ft = [] then gt
      else
        let gt = gt\<lparr>gt_byBead := (gt_byBead gt)(ft_beadID ft \<mapsto> ft_taskID ft)\<rparr> in
        case readTerminalRecord (ge_decBead env) (ge_parseTime env) (ge_bead env (ft_beadID ft)) of
          None \<Rightarrow> gt
        | Some closed \<Rightarrow> gt\<lparr>gt_terminal := AList.update (ft_taskID ft) closed (gt_terminal gt)\<rparr>)"

fun add_tasks :: "gen_env \<Rightarrow> string \<Rightarrow> string \<Rightarrow> facts_task list \<Rightarrow> gen_tables \<Rightarrow> gen_error + gen_tables" where
  "add_tasks env controls runID [] gt = Inr gt"
| "add_tasks env controls runID (ft # fts) gt =
     (case ValidateTaskStatus (TaskStatus_of (ft_status ft)) of
        Some e \<Rightarrow> Inl (TaskStatusUnknown (ft_taskID ft) e)
      | None \<Rightarrow> add_tasks env controls runID fts (add_task env controls runID ft gt))"

definition map_event :: "(string \<rightharpoonup> string) \<Rightarrow> Event \<Rightarrow> Event option" where
  "map_event byBead e = map_option (\<lambda>taskID. e\<lparr>ev_subject := taskID\<rparr>) (byBead (ev_subject e))"

definition newest :: "Event list \<Rightarrow> Time" where
  "newest evs = foldl (\<lambda>t e. if ev_ts e > t then ev_ts e else t) 0 evs"

definition facts_state :: "factsFile \<Rightarrow> gen_tables \<Rightarrow> Time \<Rightarrow> projector_State" where
  "facts_state facts gt t =
     (NewState (pm_projectID (ff_project facts)))
       \<lparr>ps_project := (ff_project facts)\<lparr>pm_lastUpdateTimestamp := t\<rparr>, ps_tasks := gt_rows gt,
        ps_deliverables := map facts_deliverable_row (ff_deliverables facts)\<rparr>"

text \<open>The end of the program, after the projection: the recorded finishes, in the order the iteration takes, the
  blockers again, and the document over the one the projection wrote, by truncating and writing the file in place.\<close>

definition finish_document :: "gen_env \<Rightarrow> (string \<times> Time) list \<Rightarrow> projector_State \<Rightarrow> (gen_error + projector_State) \<times> file_step list" where
  "finish_document env terminal st =
     (let st = RecomputeBlockers (foldl (\<lambda>st (taskID, closedAt). SetTerminalFinish st taskID closedAt) st terminal) in
      case Render st of
        (Inl e, _) \<Rightarrow> (Inl (Rendering e), [])
      | (Inr rendered, st) \<Rightarrow>
          (case ge_writeErr env of
             Some (None, e) \<Rightarrow> (Inl (WritingState e), [])
           | Some (Some n, e) \<Rightarrow>
               (Inl (WritingState e), [CreateFile (ge_out env), WriteFile (ge_out env) (take n rendered), CloseFile (ge_out env)])
           | None \<Rightarrow>
               (Inr st, [CreateFile (ge_out env), WriteFile (ge_out env) rendered, CloseFile (ge_out env)])))"

definition generate ::
  "gen_env \<Rightarrow> factsFile \<Rightarrow> files \<Rightarrow> (gen_error + (projector_State \<times> Cursor)) \<times> file_step list" where
  "generate env facts fs =
     (case ge_controls env of
        Inl e \<Rightarrow> (Inl (LedgerUnreadable e), [])
      | Inr controls \<Rightarrow>
          (case add_tasks env controls (ff_runID facts) (ff_tasks facts)
                  \<lparr>gt_rows = [], gt_byBead = Map.empty, gt_terminal = []\<rparr> of
             Inl e \<Rightarrow> (Inl e, [])
           | Inr gt \<Rightarrow>
               (case ReadCityEvents (ge_decEvent env) (ge_parseTime env) (ge_city env @ ''/.gc/events.jsonl'') (ge_events env) of
                  Inl e \<Rightarrow> (Inl (EventsUnreadable e), [])
                | Inr events \<Rightarrow>
                    let mapped = List.map_filter (map_event (gt_byBead gt)) events;
                        st = facts_state facts gt (newest mapped)
                    in (case Project (ge_decCursor env) (ge_encCursor env) (ge_io env) mapped st (ge_out env)
                               (ge_cursor env) fs of
                          (Inl e, steps, _) \<Rightarrow> (Inl (Projecting e), steps)
                        | (Inr cur, steps, st) \<Rightarrow>
                            (case finish_document env (gt_terminal gt) st of
                               (Inl e, steps') \<Rightarrow> (Inl e, steps @ steps')
                             | (Inr st, steps') \<Rightarrow> (Inr (st, cur), steps @ steps'))))))"

section \<open>Lemmas\<close>

lemma Project_success:
  assumes "Project dec enc io events st statePath cursorPath fs = (Inr c, steps, st')"
  shows "\<exists>cur doc a b. LoadCursor dec (pi_readErr io) cursorPath fs = Inr cur \<and>
    projection (cu_seq cur) events st = (cu_seq c, Inr doc, st') \<and>
    projector_writeFileAtomic (pi_state io) statePath doc = (None, a) \<and>
    projector_writeFileAtomic (pi_cursor io) cursorPath (enc c @ newline) = (None, b) \<and> steps = a @ b"
  using assms unfolding Project_projection SaveCursor_def
  by (fastforce simp: next_cursor_def split: sum.splits prod.splits option.splits)

text \<open>A projection that succeeds leaves the document and the cursor it returns on disk.\<close>

lemma Project_leaves:
  assumes "paths_apart io statePath cursorPath fs"
    and "Project dec enc io events st statePath cursorPath fs = (Inr c, steps, st')"
  shows "\<exists>cur doc. LoadCursor dec (pi_readErr io) cursorPath fs = Inr cur \<and>
    projection (cu_seq cur) events st = (cu_seq c, Inr doc, st') \<and>
    run_steps steps fs = fs(statePath \<mapsto> (doc, True), cursorPath \<mapsto> (enc c @ newline, True))"
proof -
  note p = assms(1) [unfolded paths_apart_def]
  obtain cur doc a b where c: "LoadCursor dec (pi_readErr io) cursorPath fs = Inr cur"
    "projection (cu_seq cur) events st = (cu_seq c, Inr doc, st')"
    and a: "projector_writeFileAtomic (pi_state io) statePath doc = (None, a)"
    and b: "projector_writeFileAtomic (pi_cursor io) cursorPath (enc c @ newline) = (None, b)" "steps = a @ b"
    using Project_success [OF assms(2)] by blast
  have ra: "run_steps a fs = fs(statePath \<mapsto> (doc, True))"
    using projector_write_result [of "pi_state io" statePath fs doc] p a by simp
  then have "fresh_temp (pi_cursor io) cursorPath (run_steps a fs)"
    using p by (auto simp: fresh_temp_def temp_apart_def split: sum.splits)
  then have "run_steps b (run_steps a fs) = (run_steps a fs)(cursorPath \<mapsto> (enc c @ newline, True))"
    using projector_write_result [of "pi_cursor io" cursorPath "run_steps a fs" "enc c @ newline"] b(1) by simp
  with c ra b(2) show ?thesis
    by (auto simp: run_steps_append)
qed

lemma fold_events_applied:
  assumes "fold_events cur evs n st = (m, st')" "cur \<le> n"
  shows "n \<le> m \<and> (\<forall>e\<in>set evs. ev_seq e \<le> m)"
  using assms by (induction cur evs n st rule: fold_events.induct) (auto split: if_splits)

lemma fold_events_none: "\<forall>e\<in>set evs. ev_seq e \<le> cur \<Longrightarrow> fold_events cur evs n st = (n, st)"
  by (induction evs) auto

text \<open>No task has a start or an attempt.\<close>

definition unstarted_task :: "projector_Task \<Rightarrow> bool" where
  "unstarted_task t = (pt_actualStart t = 0 \<and> pt_attempts t = [])"

definition unstarted :: "projector_State \<Rightarrow> bool" where
  "unstarted st = (\<forall>(k, t)\<in>set (ps_tasks st). unstarted_task t)"

lemma unstarted_put: "unstarted st \<Longrightarrow> unstarted_task t \<Longrightarrow> unstarted (put_row k t st)"
  using set_update [of k t "ps_tasks st"] by (fastforce simp: unstarted_def put_row_def)

lemma unstarted_projected: "unstarted st \<Longrightarrow> projected_task st k = Some t \<Longrightarrow> unstarted_task t"
  by (auto simp: unstarted_def projected_task_def dest: map_of_SomeD)

lemma unstarted_recompute_loop: "unstarted st \<Longrightarrow> unstarted (recompute_loop ks st)"
proof (induction ks arbitrary: st)
  case (Cons k ks)
  have "unstarted_task (refresh_task st t)" if "projected_task st k = Some t" for t
    using unstarted_projected [OF Cons.prems that] by (auto simp: unstarted_task_def refresh_task_def Let_def)
  then show ?case
    unfolding recompute_loop_Cons using Cons by (auto intro!: Cons.IH unstarted_put split: option.split)
qed simp

lemma unstarted_Render: "unstarted st \<Longrightarrow> unstarted (snd (Render st))"
  by (auto simp: Render_def resolveDeliverables_def unstarted_def Let_def split: sum.split)

lemma unstarted_finish:
  assumes "unstarted st" "finish_document env terminal st = (Inr st', steps)"
  shows "unstarted st'"
proof -
  have "unstarted (foldl (\<lambda>st (taskID, closedAt). SetTerminalFinish st taskID closedAt) st terminal)"
    using assms(1)
  proof (induction terminal arbitrary: st)
    case (Cons x xs)
    have "unstarted (SetTerminalFinish st k c)" for k c
      using Cons.prems unstarted_projected [OF Cons.prems, of k]
      by (auto simp: SetTerminalFinish_def markLastAttemptSucceeded_def unstarted_task_def simp flip: put_row_def
          intro!: unstarted_put split: option.split)
    with Cons.IH show ?case by (simp add: split_beta)
  qed simp
  then have "unstarted (snd (Render (RecomputeBlockers (foldl (\<lambda>st (taskID, closedAt). SetTerminalFinish st taskID closedAt) st terminal))))"
    by (simp add: unstarted_Render unstarted_recompute_loop RecomputeBlockers_def)
  then show ?thesis
    using assms(2) by (auto simp: finish_document_def Let_def split: prod.splits sum.splits option.splits)
qed

lemma unstarted_add_tasks:
  assumes "add_tasks env controls runID fts gt = Inr gt'" "\<forall>(k, t)\<in>set (gt_rows gt). unstarted_task t"
  shows "\<forall>(k, t)\<in>set (gt_rows gt'). unstarted_task t"
  using assms
proof (induction fts arbitrary: gt)
  case (Cons ft fts)
  have "unstarted_task (facts_row controls runID ft)"
    by (simp add: facts_row_def zero_task_def unstarted_task_def split_beta Let_def)
  moreover have "gt_rows (add_task env controls runID ft gt) = AList.update (ft_taskID ft) (facts_row controls runID ft) (gt_rows gt)"
    by (simp add: add_task_def Let_def split: option.split)
  ultimately have "\<forall>(k, t)\<in>set (gt_rows (add_task env controls runID ft gt)). unstarted_task t"
    using set_update [of "ft_taskID ft" "facts_row controls runID ft" "gt_rows gt"] Cons.prems(2) by fastforce
  with Cons show ?case by (auto split: option.splits)
qed simp

lemma unstarted_projection:
  assumes "unstarted st" "\<forall>e\<in>set evs. ev_seq e \<le> cur" "projection cur evs st = (n, res, st')"
  shows "n = cur \<and> unstarted st'"
  using assms unstarted_Render [OF unstarted_recompute_loop [OF assms(1)], of "map fst (ps_tasks st)"]
  by (auto simp: projection_def fold_events_none RecomputeBlockers_def)

lemma generate_success:
  assumes "generate env facts fs = (Inr (st, cur), steps)"
  shows "\<exists>controls gt events pst psteps fsteps. ge_controls env = Inr controls \<and>
    add_tasks env controls (ff_runID facts) (ff_tasks facts) \<lparr>gt_rows = [], gt_byBead = Map.empty, gt_terminal = []\<rparr> = Inr gt \<and>
    ReadCityEvents (ge_decEvent env) (ge_parseTime env) (ge_city env @ ''/.gc/events.jsonl'') (ge_events env) = Inr events \<and>
    Project (ge_decCursor env) (ge_encCursor env) (ge_io env) (List.map_filter (map_event (gt_byBead gt)) events)
      (facts_state facts gt (newest (List.map_filter (map_event (gt_byBead gt)) events))) (ge_out env) (ge_cursor env) fs =
      (Inr cur, psteps, pst) \<and>
    finish_document env (gt_terminal gt) pst = (Inr st, fsteps) \<and> steps = psteps @ fsteps"
  using assms unfolding generate_def Let_def
  by (auto split: sum.splits prod.splits)

lemma add_tasks_io [simp]: "add_tasks (env\<lparr>ge_io := io\<rparr>) controls runID fts gt = add_tasks env controls runID fts gt"
  by (induction fts arbitrary: gt) (simp_all add: add_task_def Let_def split: option.split)

lemma finish_keeps_cursor:
  assumes "finish_document env terminal st = (Inr st', steps)" "p \<noteq> ge_out env"
  shows "run_steps steps fs p = fs p"
  using assms by (auto simp: finish_document_def Let_def split: prod.splits sum.splits option.splits)

section \<open>Properties\<close>

text \<open>C33. Generating the document a second time forgets when the work started. The producer starts from a fresh
  state every time and the cursor it keeps makes the second run skip every event the first one folded in: from the
  same inputs, the document it then writes over the first has no start and no attempt for any task.\<close>

theorem regeneration_forgets_starts:
  assumes "generate env facts fs = (Inr (st, cur), steps)" "paths_apart (ge_io env) (ge_out env) (ge_cursor env) fs"
    and "ge_decCursor env (ge_encCursor env cur @ newline) = Some cur"
    and "generate (env\<lparr>ge_io := io'\<rparr>) facts (run_steps steps fs) = (Inr (st', cur'), steps')"
  shows "cu_seq cur' = cu_seq cur \<and> (\<forall>(k, t)\<in>set (ps_tasks st'). pt_actualStart t = 0 \<and> pt_attempts t = [])"
proof -
  obtain controls gt events pst psteps fsteps where g: "ge_controls env = Inr controls"
    "add_tasks env controls (ff_runID facts) (ff_tasks facts) \<lparr>gt_rows = [], gt_byBead = Map.empty, gt_terminal = []\<rparr> = Inr gt"
    "ReadCityEvents (ge_decEvent env) (ge_parseTime env) (ge_city env @ ''/.gc/events.jsonl'') (ge_events env) = Inr events"
    and p: "Project (ge_decCursor env) (ge_encCursor env) (ge_io env) (List.map_filter (map_event (gt_byBead gt)) events)
      (facts_state facts gt (newest (List.map_filter (map_event (gt_byBead gt)) events))) (ge_out env) (ge_cursor env) fs =
      (Inr cur, psteps, pst)"
    and f: "finish_document env (gt_terminal gt) pst = (Inr st, fsteps)" "steps = psteps @ fsteps"
    using generate_success [OF assms(1)] by blast
  define evs where "evs = List.map_filter (map_event (gt_byBead gt)) events"
  define st0 where "st0 = facts_state facts gt (newest evs)"
  obtain pst' psteps' fsteps' where p': "Project (ge_decCursor env) (ge_encCursor env) io' evs st0 (ge_out env) (ge_cursor env)
      (run_steps steps fs) = (Inr cur', psteps', pst')"
    and f': "finish_document (env\<lparr>ge_io := io'\<rparr>) (gt_terminal gt) pst' = (Inr st', fsteps')"
    using generate_success [OF assms(4)] g by (auto simp: evs_def st0_def)
  obtain c :: Cursor and doc where c: "projection (cu_seq c) evs st0 = (cu_seq cur, Inr doc, pst)"
    "run_steps psteps fs = fs(ge_out env \<mapsto> (doc, True), ge_cursor env \<mapsto> (ge_encCursor env cur @ newline, True))"
    using Project_leaves [OF assms(2) p [folded evs_def, folded st0_def]] by blast
  have seqs: "\<forall>e\<in>set evs. ev_seq e \<le> cu_seq cur"
    using c(1) fold_events_applied [of "cu_seq c" evs "cu_seq c" st0] by (auto simp: projection_def split: prod.splits)
  have "content (run_steps steps fs) (ge_cursor env) = Some (ge_encCursor env cur @ newline)"
    using finish_keeps_cursor [OF f(1), of "ge_cursor env"] assms(2)
    by (auto simp: f(2) run_steps_append c(2) content_def paths_apart_def)
  then obtain doc' where c': "projection (cu_seq cur) evs st0 = (cu_seq cur', Inr doc', pst')"
    using Project_success [OF p'] assms(3) by (auto simp: LoadCursor_def split: option.splits)
  have "unstarted st0"
    using unstarted_add_tasks [OF g(2)] by (simp add: st0_def facts_state_def unstarted_def)
  from unstarted_projection [OF this seqs c'] unstarted_finish [OF _ f'] show ?thesis
    by (simp add: unstarted_def unstarted_task_def)
qed

section \<open>A project with one task\<close>

definition sample_gen :: gen_env where
  "sample_gen =
     \<lparr>ge_controls = Inr [], ge_events = Inr ''e'', ge_bead = (\<lambda>_. None),
      ge_decEvent = (\<lambda>_. Some \<lparr>ce_seq = 1, ce_type = ''bead.updated'', ce_ts = ''t'', ce_actor = [], ce_subject = ''b'',
        ce_status = ''in_progress''\<rparr>),
      ge_decBead = (\<lambda>_. None), ge_parseTime = (\<lambda>_. Some 7), ge_decCursor = cursor_of_text, ge_encCursor = cursor_text,
      ge_io = sample_io, ge_writeErr = None, ge_city = ''/c'', ge_out = ''/s/P'', ge_cursor = ''/s/C''\<rparr>"

definition sample_facts :: factsFile where
  "sample_facts =
     \<lparr>ff_project = ps_project (NewState ''p''), ff_runID = ''r'',
      ff_tasks = [\<lparr>ft_taskID = ''a'', ft_beadID = ''b'', ft_title = [], ft_phase = [], ft_taskType = [], ft_status = ''planned'',
        ft_priority = [], ft_ownerType = [], ft_branch = [], ft_pullRequest = 0, ft_dependencies = [], ft_parallelGroup = [],
        ft_criticalPath = False, ft_implementationSha = [], ft_agentSession = [], ft_worktreePath = [], ft_gateLabel = [],
        ft_gateKind = []\<rparr>],
      ff_deliverables = []\<rparr>"

lemma gen_read:
  "ReadCityEvents (ge_decEvent sample_gen) (ge_parseTime sample_gen) (ge_city sample_gen @ ''/.gc/events.jsonl'') (ge_events sample_gen) =
   Inr [\<lparr>ev_seq = 1, ev_type = ''work.started'', ev_ts = 7, ev_subject = ''b'', ev_actor = []\<rparr>]"
proof -
  have "TrimSpace ''e'' = ''e''" "TrimSpace ''in_progress'' = ''in_progress''" "TrimSpace ''t'' = ''t''"
    by code_simp+
  then show ?thesis
    by (simp add: ReadCityEvents_def sample_gen_def raw_lines_def drop_cr_def read_event_def mapCityEventType_def
        parseEventTime_def max_event_line_def map_filter_def)
qed

definition sample_tables :: gen_tables where
  "sample_tables = \<lparr>gt_rows = [(''a'', facts_row [] ''r'' (hd (ff_tasks sample_facts)))], gt_byBead = [''b'' \<mapsto> ''a''], gt_terminal = []\<rparr>"

lemma gen_add:
  "add_tasks sample_gen [] (ff_runID sample_facts) (ff_tasks sample_facts) \<lparr>gt_rows = [], gt_byBead = Map.empty, gt_terminal = []\<rparr> =
   Inr sample_tables"
proof -
  have "ValidateTaskStatus (TaskStatus_of ''planned'') = None"
    by code_simp
  then show ?thesis
    by (simp add: sample_tables_def sample_facts_def sample_gen_def add_task_def readTerminalRecord_def)
qed

definition sample_event :: Event where
  "sample_event = \<lparr>ev_seq = 1, ev_type = ''work.started'', ev_ts = 7, ev_subject = ''a'', ev_actor = []\<rparr>"

text \<open>What the program does from any file system is what its projection and its last write do.\<close>

lemma gen_generate:
  "generate sample_gen sample_facts fs =
     (case Project cursor_of_text cursor_text sample_io [sample_event] (facts_state sample_facts sample_tables 7) ''/s/P'' ''/s/C'' fs of
        (Inl e, steps, _) \<Rightarrow> (Inl (Projecting e), steps)
      | (Inr cur, steps, st) \<Rightarrow>
          (case finish_document sample_gen [] st of
             (Inl e, steps') \<Rightarrow> (Inl e, steps @ steps')
           | (Inr st, steps') \<Rightarrow> (Inr (st, cur), steps @ steps')))"
proof -
  have c: "ge_controls sample_gen = Inr []"
    by (simp add: sample_gen_def)
  have e: "List.map_filter (map_event (gt_byBead sample_tables))
      [\<lparr>ev_seq = 1, ev_type = ''work.started'', ev_ts = 7, ev_subject = ''b'', ev_actor = []\<rparr>] = [sample_event]"
    by (simp add: map_filter_def map_event_def sample_tables_def sample_event_def)
  have n: "newest [sample_event] = 7"
    by (simp add: newest_def sample_event_def)
  have t: "gt_terminal sample_tables = []"
    by (simp add: sample_tables_def)
  show ?thesis
    unfolding generate_def c gen_add gen_read sum.case Let_def e n t by (simp add: sample_gen_def)
qed

text \<open>The two runs, from a cursor at 0 and from a cursor at 1.\<close>

lemma gen_run:
  assumes "cur = 0 \<or> cur = (1::nat)"
  shows "\<exists>doc st st' steps. projection cur [sample_event] (facts_state sample_facts sample_tables 7) = (1, Inr doc, st) \<and>
    next_cursor 1 st = \<lparr>cu_seq = 1, cu_updatedAt = 7\<rparr> \<and> finish_document sample_gen [] st = (Inr st', steps) \<and>
    (\<forall>fs. run_steps steps fs ''/s/C'' = fs ''/s/C'') \<and>
    map (pt_actualStart \<circ> snd) (ps_tasks st') = [if cur = 0 then 7 else 0]"
proof -
  define st where "st = RecomputeBlockers (snd (fold_events cur [sample_event] cur (facts_state sample_facts sample_tables 7)))"
  have st: "fst (fold_events cur [sample_event] cur (facts_state sample_facts sample_tables 7)) = 1" "renderable st"
    "pm_lastUpdateTimestamp (ps_project (resolveDeliverables st)) = 7"
    "renderable (RecomputeBlockers (resolveDeliverables st))"
    "map (pt_actualStart \<circ> snd) (ps_tasks (resolveDeliverables (RecomputeBlockers (resolveDeliverables st)))) = [if cur = 0 then 7 else 0]"
    unfolding st_def using assms by (elim disjE; clarsimp; code_simp)+
  obtain doc doc' where d: "Render st = (Inr doc, resolveDeliverables st)"
    "Render (RecomputeBlockers (resolveDeliverables st)) = (Inr doc', resolveDeliverables (RecomputeBlockers (resolveDeliverables st)))"
    using Render_succeeds [OF st(2)] Render_succeeds [OF st(4)] by blast
  have "projection cur [sample_event] (facts_state sample_facts sample_tables 7) = (1, Inr doc, resolveDeliverables st)"
    using st(1) d(1) by (simp add: projection_def split_beta Let_def del: fold_events.simps flip: st_def)
  moreover have "finish_document sample_gen [] (resolveDeliverables st) =
      (Inr (resolveDeliverables (RecomputeBlockers (resolveDeliverables st))),
       [CreateFile ''/s/P'', WriteFile ''/s/P'' doc', CloseFile ''/s/P''])"
    by (simp add: finish_document_def d(2)) (simp add: sample_gen_def)
  ultimately show ?thesis
    using st(3,5) by (simp add: next_cursor_def)
qed

theorem regeneration_forgets_starts_witness:
  "\<exists>st cur steps st' cur' steps'. generate sample_gen sample_facts Map.empty = (Inr (st, cur), steps) \<and>
     map (pt_actualStart \<circ> snd) (ps_tasks st) = [7] \<and>
     generate sample_gen sample_facts (run_steps steps Map.empty) = (Inr (st', cur'), steps') \<and>
     cu_seq cur' = cu_seq cur \<and> list_all (\<lambda>(k, t). pt_actualStart t = 0 \<and> pt_attempts t = []) (ps_tasks st')"
proof -
  obtain doc st0 st fin where a: "projection 0 [sample_event] (facts_state sample_facts sample_tables 7) = (1, Inr doc, st0)"
    "next_cursor 1 st0 = \<lparr>cu_seq = 1, cu_updatedAt = 7\<rparr>" "finish_document sample_gen [] st0 = (Inr st, fin)"
    "\<forall>fs. run_steps fin fs ''/s/C'' = fs ''/s/C''" "map (pt_actualStart \<circ> snd) (ps_tasks st) = [7]"
    using gen_run [of 0] by auto
  obtain doc' st0' st' fin' where b: "projection 1 [sample_event] (facts_state sample_facts sample_tables 7) = (1, Inr doc', st0')"
    "next_cursor 1 st0' = \<lparr>cu_seq = 1, cu_updatedAt = 7\<rparr>" "finish_document sample_gen [] st0' = (Inr st', fin')"
    using gen_run [of 1] by auto
  define cur :: Cursor where "cur = \<lparr>cu_seq = 1, cu_updatedAt = 7\<rparr>"
  obtain steps where p: "Project cursor_of_text cursor_text sample_io [sample_event] (facts_state sample_facts sample_tables 7)
      ''/s/P'' ''/s/C'' Map.empty = (Inr cur, steps, st0)"
    "run_steps steps Map.empty ''/s/C'' = Some (cursor_text cur @ newline, True)"
    using a(1,2) by (simp add: Project_projection LoadCursor_def content_def sample_io_def write_defs SaveCursor_def cur_def)
  have same: "sample_gen\<lparr>ge_io := sample_io\<rparr> = sample_gen"
    by (simp add: sample_gen_def)
  have g: "generate sample_gen sample_facts Map.empty = (Inr (st, cur), steps @ fin)"
    by (simp add: gen_generate p(1) a(3))
  have codec: "cursor_of_text (cursor_text cur @ newline) = Some cur"
    unfolding cur_def by code_simp
  have "content (run_steps (steps @ fin) Map.empty) ''/s/C'' = Some (cursor_text cur @ newline)"
    using a(4) p(2) by (simp add: run_steps_append content_def)
  then obtain steps' where "Project cursor_of_text cursor_text sample_io [sample_event] (facts_state sample_facts sample_tables 7)
      ''/s/P'' ''/s/C'' (run_steps (steps @ fin) Map.empty) = (Inr cur, steps', st0')"
    using b(1,2) codec by (simp add: Project_projection LoadCursor_def sample_io_def write_defs SaveCursor_def cur_def)
  then have g': "generate (sample_gen\<lparr>ge_io := sample_io\<rparr>) sample_facts (run_steps (steps @ fin) Map.empty) =
      (Inr (st', cur), steps' @ fin')"
    by (simp add: same gen_generate b(3))
  have "paths_apart (ge_io sample_gen) (ge_out sample_gen) (ge_cursor sample_gen) Map.empty"
    by (simp add: sample_gen_def paths_apart_def sample_io_def fresh_temp_def temp_apart_def synced_file_def Let_def)
  with regeneration_forgets_starts [OF g _ _ g'] codec
  have "list_all (\<lambda>(k, t). pt_actualStart t = 0 \<and> pt_attempts t = []) (ps_tasks st')"
    by (simp add: sample_gen_def list_all_iff)
  then show ?thesis
    using g g' a(5) unfolding same by (intro exI conjI) simp_all
qed

end
