(* ===== verification/Handoff_Intent.thy ===== *)
theory Handoff_Intent
  imports Go_Path
begin

text \<open>
  The intent of a managed delivery (\<^verbatim>\<open>internal/handoff/intent.go\<close>): what a portal sends, and its validation.

  A validator returns the list of the problems it found, each a constructor with the values its message quotes, in the
  order the code appends them. Two things are parameters: the parser of URLs, \<open>url\<close>, which answers the host and the path
  of a URL or nothing when it does not parse, and the JSON decoder, which answers an error or the decoded value. A time
  is a number of seconds, and \<open>None\<close> is the zero time.
\<close>

section \<open>The contract\<close>

definition SchemaVersion :: int where
  "SchemaVersion = 1"

definition lower_alnum :: "char \<Rightarrow> bool" where
  "lower_alnum c = (let n = of_char c :: nat in 97 \<le> n \<and> n \<le> 122 \<or> 48 \<le> n \<and> n \<le> 57)"

text \<open>The expression \<^verbatim>\<open>^[a-z0-9][a-z0-9-]{1,63}$\<close>.\<close>

definition IDPattern :: "string \<Rightarrow> bool" where
  "IDPattern s =
     (2 \<le> length s \<and> length s \<le> 64 \<and> lower_alnum (hd s) \<and>
      list_all (\<lambda>c. lower_alnum c \<or> c = CHR ''-'') (tl s))"

record Repository =
  repo_slug :: string
  repo_origin :: string
  repo_defaultBranch :: string

record Criterion =
  cn_id :: string
  cn_statement :: string
  cn_acceptedBy :: string
  cn_mustCover :: "string list"

definition AcceptedByDelivery :: string where
  "AcceptedByDelivery = ''delivery''"

definition AcceptedByHuman :: string where
  "AcceptedByHuman = ''human''"

definition IsHuman :: "Criterion \<Rightarrow> bool" where
  "IsHuman c = (cn_acceptedBy c = AcceptedByHuman)"

record DeliveryPolicy =
  pol_needPush :: bool
  pol_needPR :: bool
  pol_needChecks :: bool
  pol_needMerge :: bool
  pol_mergeHumanAction :: string
  pol_maxWorkers :: int
  pol_workDeadlineSeconds :: int

record Intent =
  in_schemaVersion :: int
  in_projectID :: string
  in_repository :: Repository
  in_checkout :: string
  in_objective :: string
  in_lifecycle :: "string list"
  in_acceptance :: "Criterion list"
  in_policy :: DeliveryPolicy
  in_requestedBy :: string
  in_requestedAt :: "int option"

section \<open>The repository's names\<close>

definition splitSlug :: "string \<Rightarrow> (string \<times> string) option" where
  "splitSlug slug =
     (case Split slash (TrimSpace slug) of
        [owner, name] \<Rightarrow>
          if owner = [] \<or> name = [] \<or> owner = ''.'' \<or> owner = ''..'' \<or> name = ''.'' \<or> name = ''..'' then None
          else Some (owner, name)
      | _ \<Rightarrow> None)"

datatype origin_error = OriginNoPath | OriginNotURL | OriginNoHost | OriginNotOwnerName string

type_synonym url_parser = "string \<Rightarrow> (string \<times> string) option"

definition slugFromOrigin :: "url_parser \<Rightarrow> string \<Rightarrow> origin_error + string" where
  "slugFromOrigin url raw =
     (let origin = TrimSuffix (TrimSpace raw) ''.git'' in
      case (if Contains origin ''://'' then None else after_first CHR ''@'' origin) of
        Some rest \<Rightarrow>
          (case after_first CHR '':'' rest of
             None \<Rightarrow> Inl OriginNoPath
           | Some p \<Rightarrow> Inr (Trim_byte slash p))
      | None \<Rightarrow>
          (case url origin of
             None \<Rightarrow> Inl OriginNotURL
           | Some (host, p) \<Rightarrow>
               if host = [] then Inl OriginNoHost
               else case splitSlug (Trim_byte slash (filepath_Clean (''/'' @ p))) of
                 Some (owner, name) \<Rightarrow> Inr (owner @ ''/'' @ name)
               | None \<Rightarrow> Inl (OriginNotOwnerName p)))"

definition ascii_letter :: "char \<Rightarrow> bool" where
  "ascii_letter c = (let n = of_char c :: nat in 97 \<le> n \<and> n \<le> 122 \<or> 65 \<le> n \<and> n \<le> 90)"

definition backslash :: char where
  "backslash = CHR 0x5C"

definition isWindowsAbs :: "string \<Rightarrow> bool" where
  "isWindowsAbs p =
     (case p of
        c # d # e # _ \<Rightarrow>
          if d = CHR '':'' \<and> (e = backslash \<or> e = slash) then ascii_letter c
          else c = backslash \<and> d = backslash
      | _ \<Rightarrow> prefix [backslash, backslash] p)"

section \<open>Validation\<close>

datatype intent_problem =
    IntentProjectID string
  | IntentSlug string
  | IntentNoBranch
  | IntentNoOrigin
  | IntentOriginUnreadable string origin_error
  | IntentOriginMismatch string string string
  | IntentNoCheckout
  | IntentCheckoutRelative string
  | IntentNoObjective
  | IntentNoLifecycle
  | IntentPhaseEmpty nat
  | IntentNoAcceptance
  | CriterionBadID nat string
  | CriterionDuplicated nat string
  | CriterionNoStatement nat string
  | CriterionAcceptedBy nat string string
  | IntentAllHuman
  | PolicyPRNeedsPush
  | PolicyMergeNeedsPR
  | PolicyMergeNeedsChecks
  | PolicyNoMergeAction
  | PolicyWorkersNegative
  | PolicyDeadlineNegative

datatype intent_error =
    ErrSchemaUnsupported int
  | ErrIntentInvalid "intent_problem list"
  | IntentDecode string

definition anyDelivered :: "Criterion list \<Rightarrow> bool" where
  "anyDelivered cs = list_ex (\<lambda>c. \<not> IsHuman c) cs"

definition Policy_problems :: "DeliveryPolicy \<Rightarrow> intent_problem list" where
  "Policy_problems p =
     problem_if (pol_needPR p \<and> \<not> pol_needPush p) PolicyPRNeedsPush @
     problem_if (pol_needMerge p \<and> \<not> pol_needPR p) PolicyMergeNeedsPR @
     problem_if (pol_needMerge p \<and> \<not> pol_needChecks p) PolicyMergeNeedsChecks @
     problem_if (\<not> pol_needMerge p \<and> blank (pol_mergeHumanAction p)) PolicyNoMergeAction @
     problem_if (pol_maxWorkers p < 0) PolicyWorkersNegative @
     problem_if (pol_workDeadlineSeconds p < 0) PolicyDeadlineNegative"

definition origin_problems :: "url_parser \<Rightarrow> Repository \<Rightarrow> intent_problem list" where
  "origin_problems url r =
     (if blank (repo_origin r) then [IntentNoOrigin]
      else case splitSlug (repo_slug r) of
        None \<Rightarrow> []
      | Some (owner, name) \<Rightarrow>
          (case slugFromOrigin url (repo_origin r) of
             Inl e \<Rightarrow> [IntentOriginUnreadable (repo_origin r) e]
           | Inr s \<Rightarrow>
               problem_if (\<not> EqualFold s (owner @ ''/'' @ name))
                 (IntentOriginMismatch (repo_origin r) s (owner @ ''/'' @ name))))"

fun criterion_problems :: "string set \<Rightarrow> nat \<Rightarrow> Criterion list \<Rightarrow> intent_problem list" where
  "criterion_problems seen i [] = []"
| "criterion_problems seen i (c # cs) =
     (let (ps, seen') =
        (if \<not> IDPattern (cn_id c) then ([CriterionBadID i (cn_id c)], seen)
         else if cn_id c \<in> seen then ([CriterionDuplicated i (cn_id c)], seen)
         else ([], insert (cn_id c) seen))
      in ps @
         problem_if (blank (cn_statement c)) (CriterionNoStatement i (cn_id c)) @
         problem_if (cn_acceptedBy c \<notin> {[], AcceptedByDelivery, AcceptedByHuman})
           (CriterionAcceptedBy i (cn_id c) (cn_acceptedBy c)) @
         criterion_problems seen' (Suc i) cs)"

definition intent_problems :: "url_parser \<Rightarrow> Intent \<Rightarrow> intent_problem list" where
  "intent_problems url i =
     problem_if (\<not> IDPattern (in_projectID i)) (IntentProjectID (in_projectID i)) @
     problem_if (splitSlug (repo_slug (in_repository i)) = None) (IntentSlug (repo_slug (in_repository i))) @
     problem_if (blank (repo_defaultBranch (in_repository i))) IntentNoBranch @
     origin_problems url (in_repository i) @
     (if blank (in_checkout i) then [IntentNoCheckout]
      else problem_if (\<not> IsAbs (in_checkout i) \<and> \<not> isWindowsAbs (in_checkout i))
             (IntentCheckoutRelative (in_checkout i))) @
     problem_if (blank (in_objective i)) IntentNoObjective @
     problem_if (in_lifecycle i = []) IntentNoLifecycle @
     each_from 0 (\<lambda>n ph. problem_if (blank ph) (IntentPhaseEmpty n)) (in_lifecycle i) @
     problem_if (in_acceptance i = []) IntentNoAcceptance @
     criterion_problems {} 0 (in_acceptance i) @
     problem_if (in_acceptance i \<noteq> [] \<and> \<not> anyDelivered (in_acceptance i)) IntentAllHuman @
     Policy_problems (in_policy i)"

definition Intent_Validate :: "url_parser \<Rightarrow> Intent \<Rightarrow> intent_error option" where
  "Intent_Validate url i =
     (if in_schemaVersion i \<noteq> SchemaVersion then Some (ErrSchemaUnsupported (in_schemaVersion i))
      else if intent_problems url i \<noteq> [] then Some (ErrIntentInvalid (intent_problems url i))
      else None)"

definition DecodeIntent :: "url_parser \<Rightarrow> (string \<Rightarrow> string + Intent) \<Rightarrow> string \<Rightarrow> intent_error + Intent" where
  "DecodeIntent url decode data =
     (case decode data of
        Inl e \<Rightarrow> Inl (IntentDecode e)
      | Inr i \<Rightarrow> (case Intent_Validate url i of Some e \<Rightarrow> Inl e | None \<Rightarrow> Inr i))"

section \<open>Lemmas\<close>

lemma criterion_problems_Nil:
  "criterion_problems seen i cs = [] \<longleftrightarrow>
     distinct (map cn_id cs) \<and> seen \<inter> cn_id ` set cs = {} \<and>
     (\<forall>c\<in>set cs. IDPattern (cn_id c) \<and> \<not> blank (cn_statement c) \<and>
        cn_acceptedBy c \<in> {[], AcceptedByDelivery, AcceptedByHuman})"
proof (induction cs arbitrary: seen i)
  case (Cons c cs)
  show ?case by (simp add: Let_def Cons.IH) auto
qed simp

lemma Policy_problems_Nil:
  "Policy_problems p = [] \<longleftrightarrow>
     (pol_needPR p \<longrightarrow> pol_needPush p) \<and> (pol_needMerge p \<longrightarrow> pol_needPR p \<and> pol_needChecks p) \<and>
     (pol_needMerge p \<or> \<not> blank (pol_mergeHumanAction p)) \<and> 0 \<le> pol_maxWorkers p \<and> 0 \<le> pol_workDeadlineSeconds p"
  by (auto simp: Policy_problems_def)

lemma anyDelivered_iff: "anyDelivered cs \<longleftrightarrow> (\<exists>c\<in>set cs. \<not> IsHuman c)"
  by (auto simp: anyDelivered_def list_ex_iff)

text \<open>What an accepted intent is.\<close>

definition intent_wf :: "Intent \<Rightarrow> bool" where
  "intent_wf i =
     (in_schemaVersion i = SchemaVersion \<and> IDPattern (in_projectID i) \<and>
      splitSlug (repo_slug (in_repository i)) \<noteq> None \<and> \<not> blank (repo_defaultBranch (in_repository i)) \<and>
      \<not> blank (repo_origin (in_repository i)) \<and> \<not> blank (in_checkout i) \<and>
      (IsAbs (in_checkout i) \<or> isWindowsAbs (in_checkout i)) \<and> \<not> blank (in_objective i) \<and>
      in_lifecycle i \<noteq> [] \<and> list_all (\<lambda>ph. \<not> blank ph) (in_lifecycle i) \<and>
      distinct (map cn_id (in_acceptance i)) \<and>
      list_all (\<lambda>c. IDPattern (cn_id c) \<and> \<not> blank (cn_statement c) \<and>
        cn_acceptedBy c \<in> {[], AcceptedByDelivery, AcceptedByHuman}) (in_acceptance i) \<and>
      list_ex (\<lambda>c. \<not> IsHuman c) (in_acceptance i) \<and> Policy_problems (in_policy i) = [])"

lemma lifecycle_Nil:
  "each_from n (\<lambda>n ph. problem_if (blank ph) (IntentPhaseEmpty n)) phs = [] \<longleftrightarrow> (\<forall>ph\<in>set phs. \<not> blank ph)"
  by (rule each_from_Nil) simp

lemma Intent_Validate_None:
  "Intent_Validate url i = None \<longleftrightarrow> intent_wf i \<and> origin_problems url (in_repository i) = []"
  unfolding Intent_Validate_def intent_problems_def intent_wf_def
  by (auto simp: lifecycle_Nil criterion_problems_Nil anyDelivered_def list_all_iff list_ex_iff origin_problems_def
        simp del: in_set_conv_nth)

lemma DecodeIntent_valid: "DecodeIntent url decode data = Inr i \<Longrightarrow> Intent_Validate url i = None"
  by (auto simp: DecodeIntent_def split: sum.splits option.splits)

lemma lower_alnum_graph: "lower_alnum c \<Longrightarrow> c \<noteq> CHR ''/'' \<and> c \<noteq> CHR 0x5C \<and> c \<noteq> CHR ''.''"
  by (auto simp: lower_alnum_def)

lemma IDPattern_chars: "IDPattern s \<Longrightarrow> c \<in> set s \<Longrightarrow> lower_alnum c \<or> c = CHR ''-''"
  by (cases s) (auto simp: IDPattern_def list_all_iff)

lemma IDPattern_noslash: "IDPattern s \<Longrightarrow> slash \<notin> set s"
  using IDPattern_chars [of s slash] lower_alnum_graph [of slash] by (auto simp: slash_def)

lemma IDPattern_proper: "IDPattern s \<Longrightarrow> proper_seg s"
  using IDPattern_chars [of s "CHR ''.''"] IDPattern_noslash [of s] lower_alnum_graph [of "CHR ''.''"]
  by (auto simp: proper_seg_def IDPattern_def)

end
