(* ===== verification/Handoff_Plan.thy ===== *)
theory Handoff_Plan
  imports Handoff_Intent Dep_Graph
begin

text \<open>
  The delivery plan (\<^verbatim>\<open>internal/handoff/plan.go\<close>) and the remediations added to it (\<^verbatim>\<open>reconcile.go\<close>): work packages, gates,
  the paths a package may touch, the fidelity of a plan to what the criteria require, and the validation of all
  generations of a plan at once.

  Go's maps from names to \<^verbatim>\<open>bool\<close> are sets. The map of the packages of one generation is looked up in the slice it was
  filled from, a later package of the same name winning, and the stack of the search for a dependency has its top first.
  \<open>reaches\<close> and \<open>claim_alt\<close> are the two loops whose recursion is not structural: each step of the first takes a name from
  the stack or adds a package to those seen, each step of the second starts later in the text. A validator returns its
  problems as in the intent. Decoding JSON is a parameter.
\<close>

section \<open>Packages, plans and remediations\<close>

definition PlanSchemaVersion :: int where
  "PlanSchemaVersion = 1"

record Verification =
  vf_mergedSha :: string

record WorkPackage =
  wp_id :: string
  wp_title :: string
  wp_phase :: string
  wp_objective :: string
  wp_artifact :: string
  wp_authorizedPaths :: "string list"
  wp_gates :: "string list"
  wp_dependsOn :: "string list"
  wp_satisfies :: "string list"
  wp_verifies :: "Verification option"

definition IsVerification :: "WorkPackage \<Rightarrow> bool" where
  "IsVerification wp = (wp_verifies wp \<noteq> None)"

definition lower_hex :: "char \<Rightarrow> bool" where
  "lower_hex c = (let n = of_char c :: nat in 48 \<le> n \<and> n \<le> 57 \<or> 97 \<le> n \<and> n \<le> 102)"

text \<open>The expression \<^verbatim>\<open>^[0-9a-f]{40}$\<close>.\<close>

definition ShaPattern :: "string \<Rightarrow> bool" where
  "ShaPattern s = (length s = 40 \<and> list_all lower_hex s)"

record Repair =
  rep_criterionID :: string
  rep_invalidation :: int

definition RemediationSchemaVersion :: int where
  "RemediationSchemaVersion = 1"

record Remediation =
  rm_schemaVersion :: int
  rm_projectID :: string
  rm_seq :: int
  rm_repairs :: "Repair list"
  rm_authorizedBy :: string
  rm_authorizedAt :: "int option"
  rm_packages :: "WorkPackage list"
  rm_supersedes :: "string list"

record DeliveryPlan =
  dp_schemaVersion :: int
  dp_projectID :: string
  dp_plannedBy :: string
  dp_plannedAt :: "int option"
  dp_packages :: "WorkPackage list"
  dp_remediations :: "Remediation list"
  dp_provisional :: bool

definition Superseded :: "DeliveryPlan \<Rightarrow> string set" where
  "Superseded p = set (concat (map rm_supersedes (dp_remediations p)))"

definition live_packages :: "string set \<Rightarrow> Remediation \<Rightarrow> WorkPackage list" where
  "live_packages gone rm = filter (\<lambda>wp. wp_id wp \<notin> gone) (rm_packages rm)"

definition AllPackages :: "DeliveryPlan \<Rightarrow> WorkPackage list" where
  "AllPackages p = dp_packages p @ concat (map (live_packages (Superseded p)) (dp_remediations p))"

definition generations :: "DeliveryPlan \<Rightarrow> WorkPackage list list" where
  "generations p = dp_packages p # map (live_packages (Superseded p)) (dp_remediations p)"

definition RepairsInvalidation :: "Remediation \<Rightarrow> string \<Rightarrow> int \<Rightarrow> bool" where
  "RepairsInvalidation rm c seq = list_ex (\<lambda>r. rep_criterionID r = c \<and> rep_invalidation r = seq) (rm_repairs rm)"

definition containsPath :: "string list \<Rightarrow> string \<Rightarrow> bool" where
  "containsPath paths want = list_ex (\<lambda>p. p = want) paths"

definition coveringPackages :: "WorkPackage list \<Rightarrow> string \<Rightarrow> WorkPackage list" where
  "coveringPackages pkgs c = filter (\<lambda>wp. containsPath (wp_satisfies wp) c) pkgs"

definition PackagesFor :: "Remediation \<Rightarrow> string \<Rightarrow> string list" where
  "PackagesFor rm c = map wp_id (filter (\<lambda>wp. containsPath (wp_satisfies wp) c) (rm_packages rm))"

definition Plan_Package :: "DeliveryPlan \<Rightarrow> string \<Rightarrow> WorkPackage option" where
  "Plan_Package p i = find (\<lambda>wp. wp_id wp = i) (dp_packages p)"

section \<open>Gates\<close>

definition MaxGatesPerPackage :: nat where
  "MaxGatesPerPackage = 8"

definition gateRunners :: "string list" where
  "gateRunners =
     [''npm'', ''pnpm'', ''yarn'', ''node'', ''go'', ''make'', ''cargo'', ''mvn'', ''gradle'',
      ''python'', ''python3'', ''pytest'', ''ruff'', ''tsc'', ''eslint'', ''vitest'', ''jest'', ''dotnet'']"

definition gateForbidden :: "char list" where
  "gateForbidden =
     '';|&$'' @ [CHR 0x60] @ ''<>(){}[]'' @ [CHR 0x5C, CHR 0x22, CHR 0x27, CHR 0x0A, CHR 0x0D, CHR 0x09] @ ''*?!#~''"

datatype gate_error =
    GateEmpty
  | GateSurrounded string
  | GateShellSyntax string
  | GateTraverses string
  | GateNamesPath string
  | GateNotRunner string

definition token_traverses :: "string \<Rightarrow> bool" where
  "token_traverses t = (t = ''..'' \<or> HasPrefix t ''../'' \<or> Contains t ''/../'' \<or> HasSuffix t ''/..'')"

definition ValidateGate :: "string \<Rightarrow> gate_error option" where
  "ValidateGate gate =
     (if blank gate then Some GateEmpty
      else if TrimSpace gate \<noteq> gate then Some (GateSurrounded gate)
      else if list_ex (\<lambda>c. c \<in> set gateForbidden) gate then Some (GateShellSyntax gate)
      else if list_ex token_traverses (Fields gate) then Some (GateTraverses gate)
      else if Contains (hd (Fields gate)) ''/'' then Some (GateNamesPath gate)
      else if hd (Fields gate) \<notin> set gateRunners then Some (GateNotRunner gate)
      else None)"

section \<open>Paths\<close>

definition protectedPrefixes :: "string list" where
  "protectedPrefixes = [''.git'', ''.github/workflows'', ''delivery/gascity'']"

datatype rel_error = RelEmpty | RelNUL | RelAbsolute | RelDrive | RelEscapes

definition repoRelative :: "string \<Rightarrow> rel_error + string" where
  "repoRelative raw =
     (let s0 = TrimSpace raw; s = ReplaceByte backslash slash s0 in
      if s0 = [] then Inl RelEmpty
      else if CHR 0x00 \<in> set s0 then Inl RelNUL
      else if HasPrefix s ''/'' then Inl RelAbsolute
      else if length s \<ge> 2 \<and> s ! 1 = CHR '':'' then Inl RelDrive
      else let cleaned = filepath_Clean s in
        if cleaned = ''.'' \<or> cleaned = ''..'' \<or> HasPrefix cleaned ''../'' then Inl RelEscapes
        else Inr cleaned)"

definition isProtected :: "string \<Rightarrow> string option" where
  "isProtected cleaned = find (\<lambda>p. cleaned = p \<or> HasPrefix cleaned (p @ ''/'')) protectedPrefixes"

text \<open>The dependencies of a package of one generation, none for a name it does not have.\<close>

definition package_deps :: "WorkPackage list \<Rightarrow> string \<Rightarrow> string list" where
  "package_deps pkgs i =
     (case find (\<lambda>wp. wp_id wp = i) (rev pkgs) of None \<Rightarrow> [] | Some wp \<Rightarrow> wp_dependsOn wp)"

lemma package_deps_unknown: "i \<notin> wp_id ` set pkgs \<Longrightarrow> package_deps pkgs i = []"
  by (auto simp: package_deps_def find_Some_iff split: option.splits)
     (metis in_set_conv_nth imageI length_rev nth_mem set_rev)

function reaches :: "WorkPackage list \<Rightarrow> string \<Rightarrow> string set \<Rightarrow> string list \<Rightarrow> bool" where
  "reaches pkgs to seen [] = False"
| "reaches pkgs to seen (cur # stack) =
     (if cur = to then True
      else if cur \<in> seen then reaches pkgs to seen stack
      else reaches pkgs to (insert cur seen) (rev (package_deps pkgs cur) @ stack))"
  by pat_completeness auto

termination reaches
proof (relation "inv_image (less_than <*lex*> less_than)
    (\<lambda>(pkgs, to, seen, stack). (card (wp_id ` set pkgs - seen), length stack))")
  fix pkgs :: "WorkPackage list" and to cur :: string and seen stack
  assume new: "cur \<notin> seen"
  show "((pkgs, to, insert cur seen, rev (package_deps pkgs cur) @ stack), (pkgs, to, seen, cur # stack))
    \<in> inv_image (less_than <*lex*> less_than)
        (\<lambda>(pkgs, to, seen, stack). (card (wp_id ` set pkgs - seen), length stack))"
  proof (cases "cur \<in> wp_id ` set pkgs")
    case True
    with new have "card (wp_id ` set pkgs - insert cur seen) < card (wp_id ` set pkgs - seen)"
      by (intro psubset_card_mono) auto
    then show ?thesis by simp
  next
    case False
    then have "wp_id ` set pkgs - insert cur seen = wp_id ` set pkgs - seen" by auto
    with package_deps_unknown [OF False] show ?thesis by simp
  qed
qed auto

definition dependencyOrdered :: "WorkPackage list \<Rightarrow> string \<Rightarrow> string \<Rightarrow> bool" where
  "dependencyOrdered pkgs a b = (reaches pkgs b {} [a] \<or> reaches pkgs a {} [b])"

section \<open>Fidelity\<close>

definition coveringText :: "WorkPackage list \<Rightarrow> string" where
  "coveringText pkgs =
     ToLower (concat (map (\<lambda>wp. wp_title wp @ newline @ wp_objective wp @ newline @ wp_artifact wp @ newline @
                                Join (wp_gates wp) newline @ newline) pkgs))"

definition word_byte :: "char \<Rightarrow> bool" where
  "word_byte c = (c = CHR ''_'' \<or> lower_alnum c)"

definition isWordByte :: "string \<Rightarrow> int \<Rightarrow> bool" where
  "isWordByte said at = (if at < 0 \<or> at \<ge> int (length said) then False else word_byte (said ! nat at))"

definition wholeWord :: "string \<Rightarrow> nat \<Rightarrow> nat \<Rightarrow> bool" where
  "wholeWord said start end' = (\<not> isWordByte said (int start - 1) \<and> \<not> isWordByte said (int end'))"

definition spanIsSpent :: "bool list \<Rightarrow> nat \<Rightarrow> nat \<Rightarrow> bool" where
  "spanIsSpent spent start end' = list_ex (\<lambda>i. spent ! i) [start..<end']"

definition spend :: "bool list \<Rightarrow> nat \<Rightarrow> nat \<Rightarrow> bool list" where
  "spend spent start n = take start spent @ replicate n True @ drop (start + n) spent"

definition spellings :: "string \<Rightarrow> string list" where
  "spellings required = Split CHR ''|'' required"

definition longestAlternative :: "string \<Rightarrow> nat" where
  "longestAlternative required = foldl (\<lambda>l alt. max l (length (TrimSpace alt))) 0 (spellings required)"

lemma strings_Index_Some:
  "strings_Index s p = Some i \<Longrightarrow> i + length p \<le> length s \<and> take (length p) (drop i s) = p"
proof (induction s arbitrary: i)
  case (Cons c cs)
  then show ?case
    by (auto split: if_splits dest: prefix_length_le) (auto simp: prefix_def)
qed (auto split: if_splits)

text \<open>Where the first unspent whole-word occurrence of one spelling starts, looking from a position on.\<close>

function claim_alt :: "string \<Rightarrow> bool list \<Rightarrow> string \<Rightarrow> nat \<Rightarrow> nat option" where
  "claim_alt said spent alt at =
     (if alt = [] then None
      else case strings_Index (drop at said) alt of
        None \<Rightarrow> None
      | Some found \<Rightarrow>
          let start = at + found; end' = start + length alt in
          if \<not> wholeWord said start end' \<or> spanIsSpent spent start end' then claim_alt said spent alt (start + 1)
          else Some start)"
  by pat_completeness auto

termination claim_alt
proof (relation "measure (\<lambda>(said, spent, alt, at). length said - at)")
  fix said alt :: string and spent at found x xa
  assume "alt \<noteq> []" and "strings_Index (drop at said) alt = Some found" and x: "x = at + found"
  then have "found + length alt \<le> length said - at" "0 < length alt"
    using strings_Index_Some [of "drop at said" alt found] by auto
  then have "length said - Suc (at + found) < length said - at"
    by linarith
  with x show "((said, spent, alt, x + 1), (said, spent, alt, at)) \<in> measure (\<lambda>(said, spent, alt, at). length said - at)"
    by simp
qed simp

declare claim_alt.simps [simp del]

fun claim_spellings :: "string \<Rightarrow> bool list \<Rightarrow> string list \<Rightarrow> (bool \<times> bool list)" where
  "claim_spellings said spent [] = (False, spent)"
| "claim_spellings said spent (raw # alts) =
     (let alt = ToLower (TrimSpace raw) in
      case claim_alt said spent alt 0 of
        None \<Rightarrow> claim_spellings said spent alts
      | Some start \<Rightarrow> (True, spend spent start (length alt)))"

definition claimOccurrence :: "string \<Rightarrow> bool list \<Rightarrow> string \<Rightarrow> (bool \<times> bool list)" where
  "claimOccurrence said spent required = claim_spellings said spent (spellings required)"

text \<open>The loop over the requirements, longest first, which records the ones that found nothing.\<close>

fun claim_all :: "string \<Rightarrow> string list \<Rightarrow> bool list \<Rightarrow> nat list \<Rightarrow> nat set" where
  "claim_all said required spent [] = {}"
| "claim_all said required spent (i # is') =
     (let (found, spent') = claimOccurrence said spent (required ! i) in
      (if found then {} else {i}) \<union> claim_all said required spent' is')"

definition missingBehaviours :: "string \<Rightarrow> string list \<Rightarrow> string list" where
  "missingBehaviours said required =
     (let order = sort_key (\<lambda>i. - int (longestAlternative (required ! i))) [0..<length required];
          unmet = claim_all said required (replicate (length said) False) order
      in map (\<lambda>i. required ! i) (filter (\<lambda>i. i \<in> unmet) [0..<length required]))"

section \<open>Validation of a remediation\<close>

datatype remediation_problem =
    RemProject string string
  | RemSeq int
  | RemNoAuthor
  | RemRepairsNothing
  | RemNoPackages
  | RepairUnknown nat string
  | RepairHuman nat string
  | RepairNoFinding nat string int
  | RepairTwice nat string
  | RemWidens string string
  | RemUncovered string
  | RemNoGate string
  | RemMissing string "string list"

datatype remediation_error =
    RemSchema int
  | RemInvalid "remediation_problem list"

text \<open>The criterion declared under a name: the last one of it.\<close>

definition declared_criterion :: "Intent \<Rightarrow> string \<Rightarrow> Criterion option" where
  "declared_criterion i c = find (\<lambda>x. cn_id x = c) (rev (in_acceptance i))"

fun repair_problems :: "Intent \<Rightarrow> string set \<Rightarrow> nat \<Rightarrow> Repair list \<Rightarrow> remediation_problem list \<times> string set" where
  "repair_problems i repaired n [] = ([], repaired)"
| "repair_problems i repaired n (r # rs) =
     (let (ps, repaired') =
        (case declared_criterion i (rep_criterionID r) of
           None \<Rightarrow> ([RepairUnknown n (rep_criterionID r)], repaired)
         | Some c \<Rightarrow>
             if IsHuman c then ([RepairHuman n (rep_criterionID r)], repaired)
             else if rep_invalidation r < 1
             then ([RepairNoFinding n (rep_criterionID r) (rep_invalidation r)], repaired)
             else if rep_criterionID r \<in> repaired then ([RepairTwice n (rep_criterionID r)], repaired)
             else ([], insert (rep_criterionID r) repaired));
          (rest, repaired'') = repair_problems i repaired' (Suc n) rs
      in (ps @ rest, repaired''))"

definition scope_problems :: "string set \<Rightarrow> WorkPackage list \<Rightarrow> remediation_problem list" where
  "scope_problems repaired pkgs =
     concat (map (\<lambda>wp. concat (map (\<lambda>s. problem_if (s \<notin> repaired) (RemWidens (wp_id wp) s)) (wp_satisfies wp))) pkgs)"

definition repair_fidelity :: "Intent \<Rightarrow> WorkPackage list \<Rightarrow> Repair \<Rightarrow> remediation_problem list" where
  "repair_fidelity i pkgs r =
     (case declared_criterion i (rep_criterionID r) of
        None \<Rightarrow> []
      | Some c \<Rightarrow>
          if IsHuman c \<or> cn_mustCover c = [] then []
          else let covering = coveringPackages pkgs (cn_id c) in
            if covering = [] then [RemUncovered (cn_id c)]
            else
              let missing = missingBehaviours (coveringText covering) (cn_mustCover c) in
              problem_if (\<not> list_ex (\<lambda>wp. wp_gates wp \<noteq> []) covering) (RemNoGate (cn_id c)) @
              problem_if (missing \<noteq> []) (RemMissing (cn_id c) missing))"

definition Remediation_Validate :: "Intent \<Rightarrow> Remediation \<Rightarrow> remediation_error option" where
  "Remediation_Validate i rm =
     (if rm_schemaVersion rm \<noteq> RemediationSchemaVersion then Some (RemSchema (rm_schemaVersion rm))
      else
        let (ps, repaired) = repair_problems i {} 0 (rm_repairs rm);
            problems =
              problem_if (rm_projectID rm \<noteq> in_projectID i) (RemProject (rm_projectID rm) (in_projectID i)) @
              problem_if (rm_seq rm < 1) (RemSeq (rm_seq rm)) @
              problem_if (blank (rm_authorizedBy rm)) RemNoAuthor @
              problem_if (rm_repairs rm = []) RemRepairsNothing @
              problem_if (rm_packages rm = []) RemNoPackages @
              ps @ scope_problems repaired (rm_packages rm) @
              concat (map (repair_fidelity i (rm_packages rm)) (rm_repairs rm))
        in if problems \<noteq> [] then Some (RemInvalid problems) else None)"

section \<open>Validation of a plan\<close>

datatype delivery_problem =
    PlanProject string string
  | PlanEmpty
  | PackageBadID string string
  | PackageDuplicated string string
  | PackageNoTitle string
  | PackageNoObjective string
  | PackagePhase string string
  | PackageTooManyGates string nat
  | PackageGate string gate_error
  | PackageGateTwice string string
  | VerifierWrites string nat
  | VerifierSha string string
  | VerifierNoGates string
  | VerifierDepends string
  | VerifierInFirstPlan string
  | PackageNoPaths string
  | PackagePath string string rel_error
  | PackageProtected string string string
  | PathCollision string string string
  | PackageNoArtifact string
  | PackageArtifact string string rel_error
  | ArtifactUnauthorized string string
  | SatisfiesNothing string
  | SatisfiesUnknown string string
  | SatisfiesHuman string string
  | SupersedesTwice nat string
  | SupersedesOriginal nat string
  | SupersedesUnknown nat string
  | DependsOnItself string
  | DependsOnUnknown string string
  | DependsOnVerifier string string
  | DependencyCycle string
  | CriteriaUncovered "string list"
  | CriterionNoGate string
  | CriterionMissing string "string list"
  | RemediationRefused int remediation_error

datatype delivery_plan_error =
    PlanSchema int
  | ErrPlanInvalid "delivery_problem list"
  | PlanDecode string

record pathClaim =
  pc_label :: string
  pc_id :: string
  pc_gen :: nat

definition planPackageLabel :: "nat \<Rightarrow> nat \<Rightarrow> string" where
  "planPackageLabel gen i =
     (if gen = 0 then ''packages['' @ nat_dec i @ '']''
      else ''remediation '' @ nat_dec gen @ '' packages['' @ nat_dec i @ '']'')"

definition gate_problem :: "string \<Rightarrow> string set \<Rightarrow> string \<Rightarrow> delivery_problem list" where
  "gate_problem label seen gate =
     (case ValidateGate gate of
        Some e \<Rightarrow> [PackageGate label e]
      | None \<Rightarrow> problem_if (gate \<in> seen) (PackageGateTwice label gate))"

fun gate_problems :: "string \<Rightarrow> string set \<Rightarrow> string list \<Rightarrow> delivery_problem list" where
  "gate_problems label seen [] = []"
| "gate_problems label seen (g # gs) =
     gate_problem label seen g @ gate_problems label (if ValidateGate g = None then insert g seen else seen) gs"

definition verification_problems :: "string \<Rightarrow> nat \<Rightarrow> WorkPackage \<Rightarrow> delivery_problem list" where
  "verification_problems label gen wp =
     (case wp_verifies wp of
        Some v \<Rightarrow>
          problem_if (wp_authorizedPaths wp \<noteq> []) (VerifierWrites label (length (wp_authorizedPaths wp))) @
          problem_if (\<not> ShaPattern (vf_mergedSha v)) (VerifierSha label (vf_mergedSha v)) @
          problem_if (wp_gates wp = []) (VerifierNoGates label) @
          problem_if (wp_dependsOn wp \<noteq> []) (VerifierDepends label) @
          problem_if (gen = 0) (VerifierInFirstPlan label)
      | None \<Rightarrow> problem_if (wp_authorizedPaths wp = []) (PackageNoPaths label))"

text \<open>The loop over the authorized paths: the problems, the claims and the clean paths.\<close>

fun claim_paths ::
  "nat \<Rightarrow> WorkPackage list \<Rightarrow> string \<Rightarrow> string \<Rightarrow> (string \<rightharpoonup> pathClaim) \<Rightarrow> string list \<Rightarrow>
   delivery_problem list \<times> (string \<rightharpoonup> pathClaim) \<times> string list" where
  "claim_paths gen pkgs label i owner [] = ([], owner, [])"
| "claim_paths gen pkgs label i owner (raw # raws) =
     (let refuse = (\<lambda>p. case claim_paths gen pkgs label i owner raws of (ps, owner', clean) \<Rightarrow> (p # ps, owner', clean)) in
      case repoRelative raw of
        Inl e \<Rightarrow> refuse (PackagePath label raw e)
      | Inr c \<Rightarrow>
          (case isProtected c of
             Some root \<Rightarrow> refuse (PackageProtected label c root)
           | None \<Rightarrow>
               (case owner c of
                  Some claim \<Rightarrow>
                    if pc_gen claim = gen \<and> \<not> dependencyOrdered pkgs (pc_id claim) i
                    then refuse (PathCollision label (pc_label claim) c)
                    else
                      (case claim_paths gen pkgs label i (owner(c \<mapsto> \<lparr>pc_label = label, pc_id = i, pc_gen = gen\<rparr>)) raws of
                         (ps, owner', clean) \<Rightarrow> (ps, owner', c # clean))
                | None \<Rightarrow>
                    (case claim_paths gen pkgs label i (owner(c \<mapsto> \<lparr>pc_label = label, pc_id = i, pc_gen = gen\<rparr>)) raws of
                       (ps, owner', clean) \<Rightarrow> (ps, owner', c # clean)))))"

definition artifact_problems :: "string \<Rightarrow> WorkPackage \<Rightarrow> string list \<Rightarrow> delivery_problem list" where
  "artifact_problems label wp clean =
     (if blank (wp_artifact wp) then [PackageNoArtifact label]
      else case repoRelative (wp_artifact wp) of
        Inl e \<Rightarrow> [PackageArtifact label (wp_artifact wp) e]
      | Inr artifact \<Rightarrow>
          if IsVerification wp then []
          else problem_if (\<not> containsPath clean artifact) (ArtifactUnauthorized label artifact))"

definition criteria_ids :: "Intent \<Rightarrow> string set" where
  "criteria_ids i = set (map cn_id (in_acceptance i))"

definition human_ids :: "Intent \<Rightarrow> string set" where
  "human_ids i = set (map cn_id (filter IsHuman (in_acceptance i)))"

definition satisfies_problem :: "Intent \<Rightarrow> string \<Rightarrow> string \<Rightarrow> delivery_problem list" where
  "satisfies_problem i label c =
     (if c \<notin> criteria_ids i then [SatisfiesUnknown label c]
      else if c \<in> human_ids i then [SatisfiesHuman label c] else [])"

definition satisfies_problems :: "Intent \<Rightarrow> string \<Rightarrow> WorkPackage \<Rightarrow> delivery_problem list" where
  "satisfies_problems i label wp =
     problem_if (wp_satisfies wp = []) (SatisfiesNothing label) @
     concat (map (satisfies_problem i label) (wp_satisfies wp))"

text \<open>What the loop over the packages carries along.\<close>

record plan_scan =
  sc_problems :: "delivery_problem list"
  sc_ids :: "string set"
  sc_owner :: "string \<rightharpoonup> pathClaim"
  sc_satisfied :: "string set"

definition scan_package :: "Intent \<Rightarrow> nat \<Rightarrow> WorkPackage list \<Rightarrow> nat \<Rightarrow> WorkPackage \<Rightarrow> plan_scan \<Rightarrow> plan_scan" where
  "scan_package i gen pkgs n wp s =
     (let fresh = IDPattern (wp_id wp) \<and> wp_id wp \<notin> sc_ids s;
          label = (if fresh then wp_id wp else planPackageLabel gen n);
          (path_ps, owner, clean) = claim_paths gen pkgs label (wp_id wp) (sc_owner s) (wp_authorizedPaths wp)
      in \<lparr>sc_problems = sc_problems s @
            (if \<not> IDPattern (wp_id wp) then [PackageBadID label (wp_id wp)]
             else problem_if (wp_id wp \<in> sc_ids s) (PackageDuplicated label (wp_id wp))) @
            problem_if (blank (wp_title wp)) (PackageNoTitle label) @
            problem_if (blank (wp_objective wp)) (PackageNoObjective label) @
            problem_if (wp_phase wp \<notin> set (in_lifecycle i)) (PackagePhase label (wp_phase wp)) @
            problem_if (length (wp_gates wp) > MaxGatesPerPackage) (PackageTooManyGates label (length (wp_gates wp))) @
            gate_problems label {} (wp_gates wp) @
            verification_problems label gen wp @
            path_ps @
            artifact_problems label wp clean @
            satisfies_problems i label wp,
          sc_ids = (if fresh then insert (wp_id wp) (sc_ids s) else sc_ids s),
          sc_owner = owner,
          sc_satisfied = sc_satisfied s \<union> {c \<in> set (wp_satisfies wp). c \<in> criteria_ids i \<and> c \<notin> human_ids i}\<rparr>)"

fun scan_packages :: "Intent \<Rightarrow> nat \<Rightarrow> WorkPackage list \<Rightarrow> nat \<Rightarrow> WorkPackage list \<Rightarrow> plan_scan \<Rightarrow> plan_scan" where
  "scan_packages i gen pkgs n [] s = s"
| "scan_packages i gen pkgs n (wp # wps) s = scan_packages i gen pkgs (Suc n) wps (scan_package i gen pkgs n wp s)"

fun scan_generations :: "Intent \<Rightarrow> nat \<Rightarrow> WorkPackage list list \<Rightarrow> plan_scan \<Rightarrow> plan_scan" where
  "scan_generations i gen [] s = s"
| "scan_generations i gen (pkgs # gens) s = scan_generations i (Suc gen) gens (scan_packages i gen pkgs 0 pkgs s)"

definition scan_start :: "delivery_problem list \<Rightarrow> plan_scan" where
  "scan_start ps = \<lparr>sc_problems = ps, sc_ids = {}, sc_owner = Map.empty, sc_satisfied = {}\<rparr>"

fun supersedes_list :: "string set \<Rightarrow> string set \<Rightarrow> nat \<Rightarrow> string set \<Rightarrow> string list \<Rightarrow> delivery_problem list" where
  "supersedes_list base earlier n seenHere [] = []"
| "supersedes_list base earlier n seenHere (x # xs) =
     (if x \<in> seenHere then [SupersedesTwice n x]
      else if x \<in> base then [SupersedesOriginal n x]
      else if x \<notin> earlier then [SupersedesUnknown n x] else []) @
     supersedes_list base earlier n (insert x seenHere) xs"

fun supersedes_problems :: "string set \<Rightarrow> string set \<Rightarrow> nat \<Rightarrow> Remediation list \<Rightarrow> delivery_problem list" where
  "supersedes_problems base earlier n [] = []"
| "supersedes_problems base earlier n (rm # rms) =
     supersedes_list base earlier n {} (rm_supersedes rm) @
     supersedes_problems base (earlier \<union> wp_id ` set (rm_packages rm)) (Suc n) rms"

definition depends_problems :: "string set \<Rightarrow> WorkPackage list \<Rightarrow> delivery_problem list" where
  "depends_problems ids all =
     (let verifier = wp_id ` set (filter IsVerification all) in
      concat (map (\<lambda>wp. concat (map (\<lambda>dep.
        if dep = wp_id wp then [DependsOnItself (wp_id wp)]
        else if dep \<notin> ids then [DependsOnUnknown (wp_id wp) dep]
        else problem_if (dep \<in> verifier) (DependsOnVerifier (wp_id wp) dep)) (wp_dependsOn wp))) all))"

text \<open>The search has enough fuel for every list of packages (\<open>find_cycle_total\<close>).\<close>

definition findCycle :: "WorkPackage list \<Rightarrow> string" where
  "findCycle pkgs = the (find_cycle (map (\<lambda>wp. (wp_id wp, wp_dependsOn wp)) pkgs))"

definition uncovered_criteria :: "Intent \<Rightarrow> string set \<Rightarrow> string list" where
  "uncovered_criteria i satisfied =
     sort (map cn_id (filter (\<lambda>c. \<not> IsHuman c \<and> cn_id c \<notin> satisfied) (in_acceptance i)))"

definition fidelity_problems :: "DeliveryPlan \<Rightarrow> Criterion \<Rightarrow> delivery_problem list" where
  "fidelity_problems p c =
     (if dp_provisional p \<or> IsHuman c \<or> cn_mustCover c = [] then []
      else let covering = coveringPackages (AllPackages p) (cn_id c) in
        if covering = [] then []
        else let missing = missingBehaviours (coveringText covering) (cn_mustCover c) in
          problem_if (\<not> list_ex (\<lambda>wp. wp_gates wp \<noteq> []) covering) (CriterionNoGate (cn_id c)) @
          problem_if (missing \<noteq> []) (CriterionMissing (cn_id c) missing))"

definition plan_problems :: "Intent \<Rightarrow> DeliveryPlan \<Rightarrow> delivery_problem list" where
  "plan_problems i p =
     (let scan = scan_generations i 0 (generations p)
            (scan_start (problem_if (dp_projectID p \<noteq> in_projectID i) (PlanProject (dp_projectID p) (in_projectID i)) @
                         problem_if (dp_packages p = []) PlanEmpty));
          cycle = findCycle (AllPackages p);
          uncovered = uncovered_criteria i (sc_satisfied scan)
      in sc_problems scan @
         supersedes_problems (wp_id ` set (dp_packages p)) {} 1 (dp_remediations p) @
         depends_problems (sc_ids scan) (AllPackages p) @
         problem_if (cycle \<noteq> []) (DependencyCycle cycle) @
         problem_if (uncovered \<noteq> []) (CriteriaUncovered uncovered) @
         concat (map (fidelity_problems p) (in_acceptance i)) @
         concat (map (\<lambda>rm. case Remediation_Validate i rm of None \<Rightarrow> [] | Some e \<Rightarrow> [RemediationRefused (rm_seq rm) e])
                   (dp_remediations p)))"

definition DeliveryPlan_Validate :: "Intent \<Rightarrow> DeliveryPlan \<Rightarrow> delivery_plan_error option" where
  "DeliveryPlan_Validate i p =
     (if dp_schemaVersion p \<noteq> PlanSchemaVersion then Some (PlanSchema (dp_schemaVersion p))
      else if plan_problems i p \<noteq> [] then Some (ErrPlanInvalid (plan_problems i p))
      else None)"

text \<open>A document neither carries remediations nor is it provisional.\<close>

definition DecodePlanWithRemediations ::
  "(string \<Rightarrow> string + DeliveryPlan) \<Rightarrow> string \<Rightarrow> Intent \<Rightarrow> Remediation list \<Rightarrow> delivery_plan_error + DeliveryPlan" where
  "DecodePlanWithRemediations decode data i rms =
     (case decode data of
        Inl e \<Rightarrow> Inl (PlanDecode e)
      | Inr raw \<Rightarrow>
          let p = raw\<lparr>dp_remediations := rms, dp_provisional := False\<rparr> in
          (case DeliveryPlan_Validate i p of Some e \<Rightarrow> Inl e | None \<Rightarrow> Inr p))"

definition DecodePlan :: "(string \<Rightarrow> string + DeliveryPlan) \<Rightarrow> string \<Rightarrow> Intent \<Rightarrow> delivery_plan_error + DeliveryPlan" where
  "DecodePlan decode data i = DecodePlanWithRemediations decode data i []"

section \<open>Gates and paths: lemmas\<close>

lemma fields_from_Nil: "fields_from cur s = [] \<Longrightarrow> cur = [] \<and> trim_lead space_runes s = []"
proof (induction cur s rule: fields_from.induct)
  case (1 cur s)
  show ?case
  proof (cases s)
    case Nil
    with 1(3) show ?thesis
      by (simp add: fields_from.simps split: if_splits)
  next
    case (Cons c cs)
    show ?thesis
    proof (cases "lead_len space_runes s = 0")
      case True
      with 1(3) Cons have "fields_from (c # cur) cs = []"
        by (subst (asm) fields_from.simps) simp
      with 1(1) [OF Cons True] show ?thesis by simp
    next
      case False
      with 1(3) Cons have "cur = []" "fields_from [] (drop (lead_len space_runes s) s) = []"
        by (subst (asm) fields_from.simps, simp split: if_splits)+
      with 1(2) [OF Cons False] False show ?thesis
        by (subst trim_lead.simps) simp
    qed
  qed
qed

lemma Fields_nonblank: "\<not> blank s \<Longrightarrow> Fields s \<noteq> []"
  using fields_from_Nil [of "[]" s] trim_lead_Nil
  by (auto simp: Fields_def blank_def TrimSpace_def)

lemma ValidateGate_None:
  "ValidateGate g = None \<longleftrightarrow>
     \<not> blank g \<and> TrimSpace g = g \<and> set g \<inter> set gateForbidden = {} \<and>
     (\<forall>t\<in>set (Fields g). \<not> token_traverses t) \<and> \<not> Contains (hd (Fields g)) ''/'' \<and> hd (Fields g) \<in> set gateRunners"
  by (auto simp: ValidateGate_def list_ex_iff)

lemma Join_append_segs: "xs \<noteq> [] \<Longrightarrow> ys \<noteq> [] \<Longrightarrow> Join (xs @ ys) sep = Join xs sep @ sep @ Join ys sep"
  by (induction xs sep rule: Join.induct) (auto simp: neq_Nil_conv)

text \<open>A usable path is relative and made of proper segments: it stays in the repository.\<close>

lemma repoRelative_Inr:
  assumes "repoRelative raw = Inr c"
  shows "\<not> IsAbs c" "path_segs c \<noteq> []" "list_all proper_seg (path_segs c)" "c = Join (path_segs c) ''/''"
proof -
  let ?s = "ReplaceByte backslash slash (TrimSpace raw)"
  have c: "c = filepath_Clean ?s" and abs: "\<not> IsAbs ?s" and ok: "c \<noteq> ''.''" "c \<noteq> ''..''" "\<not> HasPrefix c ''../''"
    using assms by (auto simp: repoRelative_def Let_def IsAbs_def split: if_splits)
  have seg: "path_segs c = path_segs ?s"
    using c by (simp add: path_segs_Clean)
  have ne: "path_segs ?s \<noteq> []"
    using c ok(1) abs by (auto simp: filepath_Clean_def path_of_def)
  then have "hd (path_segs ?s) \<noteq> ''..''"
    using climbs_out [OF abs ne] c ok by blast
  with ne have pr: "list_all proper_seg (path_segs ?s)"
    by (rule proper_segs)
  have j: "c = Join (path_segs ?s) ''/''"
    using c ne abs by (simp add: filepath_Clean_def path_of_def)
  show "path_segs c \<noteq> []" "list_all proper_seg (path_segs c)" "c = Join (path_segs c) ''/''"
    using seg ne pr j by simp_all
  obtain x xs where xs: "path_segs ?s = x # xs" using ne by (cases "path_segs ?s") auto
  then have "proper_seg x" using pr by simp
  then show "\<not> IsAbs c"
    unfolding j xs by (cases xs; cases x) (auto simp: IsAbs_def HasPrefix_def proper_seg_def slash_def)
qed

lemma isProtected_None:
  assumes "repoRelative raw = Inr c" "isProtected c = None" "p \<in> set protectedPrefixes"
  shows "\<not> prefix (Split slash p) (path_segs c)"
proof
  assume "prefix (Split slash p) (path_segs c)"
  then obtain zs where zs: "path_segs c = Split slash p @ zs" by (auto simp: prefix_def)
  have j: "Join (Split slash p) ''/'' = p"
    using Split_join [of slash p] by (simp add: slash_def)
  have "c = p \<or> HasPrefix c (p @ ''/'')"
  proof (cases "zs = []")
    case True
    with zs j repoRelative_Inr(4) [OF assms(1)] show ?thesis by simp
  next
    case False
    then have "c = p @ ''/'' @ Join zs ''/''"
      using zs j repoRelative_Inr(4) [OF assms(1)] by (simp add: Join_append_segs)
    then show ?thesis by (simp add: HasPrefix_def)
  qed
  with assms(2,3) show False by (auto simp: isProtected_def find_None_iff)
qed

section \<open>Orderings: lemmas\<close>

definition dep_rel :: "WorkPackage list \<Rightarrow> (string \<times> string) set" where
  "dep_rel pkgs = {(a, b). b \<in> set (package_deps pkgs a)}"

lemma reaches_correct:
  "to \<notin> seen \<Longrightarrow> dep_rel pkgs `` seen \<subseteq> seen \<union> set stack \<Longrightarrow>
   reaches pkgs to seen stack \<longleftrightarrow> (\<exists>x\<in>seen \<union> set stack. (x, to) \<in> (dep_rel pkgs)\<^sup>*)"
proof (induction pkgs to seen stack rule: reaches.induct)
  case (1 pkgs to seen)
  have "x \<in> seen \<Longrightarrow> (x, y) \<in> (dep_rel pkgs)\<^sup>* \<Longrightarrow> y \<in> seen" for x y
    using 1(2) by (metis Image_closed_trancl Image_singleton_iff ImageI set_empty sup_bot.right_neutral)
  with 1 show ?case by auto
next
  case (2 pkgs to seen cur stack)
  consider "cur = to" | "cur \<noteq> to" "cur \<in> seen" | "cur \<noteq> to" "cur \<notin> seen" by blast
  then show ?case
  proof cases
    case 2
    then have "dep_rel pkgs `` seen \<subseteq> seen \<union> set stack" "seen \<union> set (cur # stack) = seen \<union> set stack"
      using \<open>dep_rel pkgs `` seen \<subseteq> seen \<union> set (cur # stack)\<close> by auto
    with 2 \<open>to \<notin> seen\<close> show ?thesis using "2.IH"(1) [OF 2] by simp
  next
    case 3
    let ?new = "rev (package_deps pkgs cur) @ stack"
    have "dep_rel pkgs `` insert cur seen \<subseteq> insert cur seen \<union> set ?new"
      using \<open>dep_rel pkgs `` seen \<subseteq> seen \<union> set (cur # stack)\<close> by (auto simp: dep_rel_def)
    then have "reaches pkgs to (insert cur seen) ?new \<longleftrightarrow>
        (\<exists>x\<in>insert cur seen \<union> set ?new. (x, to) \<in> (dep_rel pkgs)\<^sup>*)"
      using 3 \<open>to \<notin> seen\<close> "2.IH"(2) by simp
    also have "\<dots> \<longleftrightarrow> (\<exists>x\<in>seen \<union> set (cur # stack). (x, to) \<in> (dep_rel pkgs)\<^sup>*)"
      by (auto simp: dep_rel_def intro: converse_rtrancl_into_rtrancl)
    finally show ?thesis using 3 by simp
  qed auto
qed

lemma dependencyOrdered_iff:
  "dependencyOrdered pkgs a b \<longleftrightarrow> (a, b) \<in> (dep_rel pkgs)\<^sup>* \<or> (b, a) \<in> (dep_rel pkgs)\<^sup>*"
  using reaches_correct [of b "{}" pkgs "[a]"] reaches_correct [of a "{}" pkgs "[b]"]
  by (simp add: dependencyOrdered_def del: reaches.simps)

end
