(* ===== verification/Plan_Validity.thy ===== *)
theory Plan_Validity
  imports Handoff_Plan
begin

text \<open>
  What the validation of \<^verbatim>\<open>internal/handoff/plan.go\<close> accepts: the exact condition on a plan and its remediations, the
  containment of what packages may touch, and the fidelity of a plan to the behaviours its criteria require.
\<close>

section \<open>The paths of one package\<close>

definition usable_path :: "string \<Rightarrow> bool" where
  "usable_path raw = (case repoRelative raw of Inl _ \<Rightarrow> False | Inr c \<Rightarrow> isProtected c = None)"

definition clean_path :: "string \<Rightarrow> string" where
  "clean_path raw = (case repoRelative raw of Inl _ \<Rightarrow> [] | Inr c \<Rightarrow> c)"

definition clean_paths :: "WorkPackage \<Rightarrow> string list" where
  "clean_paths wp = map clean_path (wp_authorizedPaths wp)"

lemma dependencyOrdered_refl [simp]: "dependencyOrdered pkgs i i"
  by (simp add: dependencyOrdered_iff)

lemma claim_paths_clean:
  "fst (claim_paths gen pkgs label i owner raws) = [] \<longleftrightarrow>
     list_all usable_path raws \<and>
     (\<forall>raw\<in>set raws. \<forall>claim. owner (clean_path raw) = Some claim \<longrightarrow> pc_gen claim = gen \<longrightarrow>
        dependencyOrdered pkgs (pc_id claim) i)"
proof (induction raws arbitrary: owner)
  case (Cons raw raws)
  show ?case
  proof (cases "repoRelative raw")
    case (Inl e)
    then show ?thesis by (simp add: Let_def usable_path_def split: prod.splits)
  next
    case (Inr c)
    show ?thesis
    proof (cases "isProtected c")
      case (Some root)
      with Inr show ?thesis by (simp add: Let_def usable_path_def split: prod.splits)
    next
      case None
      let ?owner = "owner(c \<mapsto> \<lparr>pc_label = label, pc_id = i, pc_gen = gen\<rparr>)"
      have c: "clean_path raw = c" and u: "usable_path raw"
        using Inr None by (simp_all add: clean_path_def usable_path_def)
      have step: "fst (claim_paths gen pkgs label i owner (raw # raws)) = [] \<longleftrightarrow>
          (\<forall>claim. owner c = Some claim \<longrightarrow> pc_gen claim = gen \<longrightarrow> dependencyOrdered pkgs (pc_id claim) i) \<and>
          fst (claim_paths gen pkgs label i ?owner raws) = []"
        using Inr None by (auto simp: Let_def split: prod.splits option.splits)
      show ?thesis
        unfolding step Cons.IH using c u by auto
    qed
  qed
qed simp

lemma claim_paths_result:
  assumes "fst (claim_paths gen pkgs label i owner raws) = []"
  shows "snd (claim_paths gen pkgs label i owner raws) =
    ((\<lambda>c. if c \<in> clean_path ` set raws then Some \<lparr>pc_label = label, pc_id = i, pc_gen = gen\<rparr> else owner c),
     map clean_path raws)"
  using assms
proof (induction raws arbitrary: owner)
  case (Cons raw raws)
  from Cons.prems obtain c where c: "repoRelative raw = Inr c" "isProtected c = None"
    unfolding claim_paths_clean by (auto simp: usable_path_def split: sum.splits)
  let ?owner = "owner(c \<mapsto> \<lparr>pc_label = label, pc_id = i, pc_gen = gen\<rparr>)"
  have cp: "clean_path raw = c"
    using c by (simp add: clean_path_def)
  have eq: "claim_paths gen pkgs label i owner (raw # raws) =
      (case claim_paths gen pkgs label i ?owner raws of (ps, owner', clean) \<Rightarrow> (ps, owner', c # clean))"
    using Cons.prems c by (auto simp: Let_def split: option.splits if_splits prod.splits)
  then have "fst (claim_paths gen pkgs label i ?owner raws) = []"
    using Cons.prems by (auto split: prod.splits)
  from Cons.IH [OF this] obtain ps where r: "claim_paths gen pkgs label i ?owner raws =
      (ps, (\<lambda>d. if d \<in> clean_path ` set raws then Some \<lparr>pc_label = label, pc_id = i, pc_gen = gen\<rparr> else ?owner d),
       map clean_path raws)"
    by (metis prod.collapse)
  show ?case
    unfolding eq r using cp by (auto simp: fun_eq_iff)
qed (simp add: fun_eq_iff)

section \<open>One package\<close>

text \<open>What is asked of a package on its own, \<open>first\<close> telling whether it belongs to the original plan.\<close>

definition package_wf :: "Intent \<Rightarrow> bool \<Rightarrow> WorkPackage \<Rightarrow> bool" where
  "package_wf i first wp =
     (IDPattern (wp_id wp) \<and> \<not> blank (wp_title wp) \<and> \<not> blank (wp_objective wp) \<and> wp_phase wp \<in> set (in_lifecycle i) \<and>
      length (wp_gates wp) \<le> MaxGatesPerPackage \<and> distinct (wp_gates wp) \<and> list_all (\<lambda>g. ValidateGate g = None) (wp_gates wp) \<and>
      (case wp_verifies wp of
         Some v \<Rightarrow> wp_authorizedPaths wp = [] \<and> ShaPattern (vf_mergedSha v) \<and> wp_gates wp \<noteq> [] \<and> wp_dependsOn wp = [] \<and> \<not> first
       | None \<Rightarrow> wp_authorizedPaths wp \<noteq> []) \<and>
      list_all usable_path (wp_authorizedPaths wp) \<and>
      (case repoRelative (wp_artifact wp) of
         Inl _ \<Rightarrow> False
       | Inr a \<Rightarrow> IsVerification wp \<or> a \<in> set (clean_paths wp)) \<and>
      wp_satisfies wp \<noteq> [] \<and> set (wp_satisfies wp) \<subseteq> criteria_ids i - human_ids i)"

lemma gate_problems_Nil:
  "gate_problems label seen gs = [] \<longleftrightarrow>
     list_all (\<lambda>g. ValidateGate g = None) gs \<and> distinct gs \<and> seen \<inter> set gs = {}"
proof (induction gs arbitrary: seen)
  case (Cons g gs)
  then show ?case
    by (cases "ValidateGate g") (auto simp: gate_problem_def)
qed simp

lemma repoRelative_blank: "blank s \<Longrightarrow> repoRelative s = Inl RelEmpty"
  by (simp add: repoRelative_def blank_def)

lemma satisfies_problems_Nil:
  "satisfies_problems i label wp = [] \<longleftrightarrow>
     wp_satisfies wp \<noteq> [] \<and> set (wp_satisfies wp) \<subseteq> criteria_ids i - human_ids i"
proof -
  have "concat (map (satisfies_problem i label) xs) = [] \<longleftrightarrow> set xs \<subseteq> criteria_ids i - human_ids i" for xs
    unfolding concat_map_Nil by (auto simp: satisfies_problem_def)
  then show ?thesis by (auto simp: satisfies_problems_def)
qed

text \<open>The claims a package makes must not meet a claim of its generation it is not ordered with.\<close>

definition claims_ordered :: "nat \<Rightarrow> WorkPackage list \<Rightarrow> (string \<rightharpoonup> pathClaim) \<Rightarrow> WorkPackage \<Rightarrow> bool" where
  "claims_ordered gen pkgs owner wp =
     (\<forall>c\<in>set (clean_paths wp). \<forall>claim. owner c = Some claim \<longrightarrow> pc_gen claim = gen \<longrightarrow>
        dependencyOrdered pkgs (pc_id claim) (wp_id wp))"

definition add_claims :: "nat \<Rightarrow> WorkPackage \<Rightarrow> (string \<rightharpoonup> pathClaim) \<Rightarrow> (string \<rightharpoonup> pathClaim)" where
  "add_claims gen wp owner =
     (\<lambda>c. if c \<in> set (clean_paths wp) then Some \<lparr>pc_label = wp_id wp, pc_id = wp_id wp, pc_gen = gen\<rparr> else owner c)"

lemma verification_problems_Nil:
  "verification_problems label gen wp = [] \<longleftrightarrow>
     (case wp_verifies wp of
         Some v \<Rightarrow> wp_authorizedPaths wp = [] \<and> ShaPattern (vf_mergedSha v) \<and> wp_gates wp \<noteq> [] \<and> wp_dependsOn wp = [] \<and> gen \<noteq> 0
       | None \<Rightarrow> wp_authorizedPaths wp \<noteq> [])"
  by (auto simp: verification_problems_def split: option.splits)

lemma artifact_problems_Nil:
  "artifact_problems label wp clean = [] \<longleftrightarrow>
     (case repoRelative (wp_artifact wp) of Inl _ \<Rightarrow> False | Inr a \<Rightarrow> IsVerification wp \<or> a \<in> set clean)"
  using repoRelative_blank [of "wp_artifact wp"]
  by (auto simp: artifact_problems_def containsPath_def list_ex_iff split: sum.splits)

lemma scan_package_clean:
  assumes fresh: "IDPattern (wp_id wp) \<and> wp_id wp \<notin> sc_ids s"
  shows "sc_problems (scan_package i gen pkgs n wp s) = [] \<longleftrightarrow>
     sc_problems s = [] \<and> package_wf i (gen = 0) wp \<and> claims_ordered gen pkgs (sc_owner s) wp"
proof -
  let ?r = "claim_paths gen pkgs (wp_id wp) (wp_id wp) (sc_owner s) (wp_authorizedPaths wp)"
  have "sc_problems (scan_package i gen pkgs n wp s) = [] \<longleftrightarrow>
      sc_problems s = [] \<and> \<not> blank (wp_title wp) \<and> \<not> blank (wp_objective wp) \<and> wp_phase wp \<in> set (in_lifecycle i) \<and>
      length (wp_gates wp) \<le> MaxGatesPerPackage \<and> gate_problems (wp_id wp) {} (wp_gates wp) = [] \<and>
      verification_problems (wp_id wp) gen wp = [] \<and> fst ?r = [] \<and>
      artifact_problems (wp_id wp) wp (snd (snd ?r)) = [] \<and> satisfies_problems i (wp_id wp) wp = []"
    using fresh by (auto simp: scan_package_def Let_def not_less split: prod.splits)
  also have "\<dots> \<longleftrightarrow>
      sc_problems s = [] \<and> \<not> blank (wp_title wp) \<and> \<not> blank (wp_objective wp) \<and> wp_phase wp \<in> set (in_lifecycle i) \<and>
      length (wp_gates wp) \<le> MaxGatesPerPackage \<and> gate_problems (wp_id wp) {} (wp_gates wp) = [] \<and>
      verification_problems (wp_id wp) gen wp = [] \<and> fst ?r = [] \<and>
      artifact_problems (wp_id wp) wp (clean_paths wp) = [] \<and> satisfies_problems i (wp_id wp) wp = []"
    using claim_paths_result [of gen pkgs "wp_id wp" "wp_id wp" "sc_owner s" "wp_authorizedPaths wp"]
    by (auto simp: clean_paths_def)
  also have "\<dots> \<longleftrightarrow> sc_problems s = [] \<and> package_wf i (gen = 0) wp \<and> claims_ordered gen pkgs (sc_owner s) wp"
    unfolding claim_paths_clean gate_problems_Nil verification_problems_Nil artifact_problems_Nil satisfies_problems_Nil
      package_wf_def claims_ordered_def clean_paths_def
    using fresh by (auto split: option.splits)
  finally show ?thesis .
qed

lemma scan_package_dirty:
  assumes "\<not> (IDPattern (wp_id wp) \<and> wp_id wp \<notin> sc_ids s)"
  shows "sc_problems (scan_package i gen pkgs n wp s) \<noteq> []"
  using assms by (auto simp: scan_package_def Let_def split: prod.splits)

lemma scan_package_state:
  assumes "sc_problems (scan_package i gen pkgs n wp s) = []"
  shows "sc_ids (scan_package i gen pkgs n wp s) = insert (wp_id wp) (sc_ids s)"
    and "sc_owner (scan_package i gen pkgs n wp s) = add_claims gen wp (sc_owner s)"
    and "sc_satisfied (scan_package i gen pkgs n wp s) = sc_satisfied s \<union> set (wp_satisfies wp)"
proof -
  have fresh: "IDPattern (wp_id wp) \<and> wp_id wp \<notin> sc_ids s"
    using assms scan_package_dirty by blast
  from assms have wf: "package_wf i (gen = 0) wp" "claims_ordered gen pkgs (sc_owner s) wp"
    unfolding scan_package_clean [OF fresh] by auto
  have c: "fst (claim_paths gen pkgs (wp_id wp) (wp_id wp) (sc_owner s) (wp_authorizedPaths wp)) = []"
    unfolding claim_paths_clean using wf by (auto simp: package_wf_def claims_ordered_def clean_paths_def)
  show "sc_ids (scan_package i gen pkgs n wp s) = insert (wp_id wp) (sc_ids s)"
    using fresh by (simp add: scan_package_def Let_def split: prod.splits)
  show "sc_owner (scan_package i gen pkgs n wp s) = add_claims gen wp (sc_owner s)"
    using fresh claim_paths_result [OF c]
    by (auto simp: scan_package_def Let_def add_claims_def clean_paths_def fun_eq_iff split: prod.splits)
  show "sc_satisfied (scan_package i gen pkgs n wp s) = sc_satisfied s \<union> set (wp_satisfies wp)"
    using wf(1) by (auto simp: scan_package_def Let_def package_wf_def split: prod.splits)
qed

section \<open>The generations\<close>

text \<open>Writer isolation as the loop enforces it: a package is ordered with the last one before it that claimed one of
  its paths.\<close>

definition last_claimant :: "WorkPackage list \<Rightarrow> string \<Rightarrow> WorkPackage option" where
  "last_claimant pre c = find (\<lambda>w. c \<in> set (clean_paths w)) (rev pre)"

definition ordered_after :: "WorkPackage list \<Rightarrow> WorkPackage list \<Rightarrow> WorkPackage \<Rightarrow> bool" where
  "ordered_after pkgs pre wp =
     list_all (\<lambda>c. case last_claimant pre c of None \<Rightarrow> True | Some w \<Rightarrow> dependencyOrdered pkgs (wp_id w) (wp_id wp))
       (clean_paths wp)"

fun isolated_from :: "WorkPackage list \<Rightarrow> WorkPackage list \<Rightarrow> WorkPackage list \<Rightarrow> bool" where
  "isolated_from pkgs pre [] = True"
| "isolated_from pkgs pre (wp # wps) = (ordered_after pkgs pre wp \<and> isolated_from pkgs (pre @ [wp]) wps)"

definition isolated :: "WorkPackage list \<Rightarrow> bool" where
  "isolated pkgs = isolated_from pkgs [] pkgs"

definition owner_at :: "nat \<Rightarrow> (string \<rightharpoonup> pathClaim) \<Rightarrow> WorkPackage list \<Rightarrow> (string \<rightharpoonup> pathClaim)" where
  "owner_at gen owner pre =
     (\<lambda>c. case last_claimant pre c of
        Some w \<Rightarrow> Some \<lparr>pc_label = wp_id w, pc_id = wp_id w, pc_gen = gen\<rparr> | None \<Rightarrow> owner c)"

lemma owner_at_Nil [simp]: "owner_at gen owner [] = owner"
  by (simp add: owner_at_def last_claimant_def)

lemma owner_at_snoc: "add_claims gen wp (owner_at gen owner pre) = owner_at gen owner (pre @ [wp])"
  by (auto simp: add_claims_def owner_at_def last_claimant_def)

lemma claims_ordered_at:
  assumes "\<forall>claim\<in>ran owner. pc_gen claim < gen"
  shows "claims_ordered gen pkgs (owner_at gen owner pre) wp \<longleftrightarrow> ordered_after pkgs pre wp"
  using assms by (fastforce simp: claims_ordered_def ordered_after_def owner_at_def list_all_iff ran_def split: option.splits)

lemma scan_packages_grow: "sc_problems s \<noteq> [] \<Longrightarrow> sc_problems (scan_packages i gen pkgs n wps s) \<noteq> []"
proof (induction wps arbitrary: n s)
  case (Cons wp wps)
  then show ?case
    by (simp add: scan_package_def Let_def split: prod.splits)
qed simp

lemma scan_packages_clean:
  assumes "\<forall>claim\<in>ran owner. pc_gen claim < gen"
  shows "sc_owner s = owner_at gen owner pre \<Longrightarrow>
    (sc_problems (scan_packages i gen pkgs n wps s) = [] \<longleftrightarrow>
      sc_problems s = [] \<and> list_all (package_wf i (gen = 0)) wps \<and> distinct (map wp_id wps) \<and>
      sc_ids s \<inter> wp_id ` set wps = {} \<and> isolated_from pkgs pre wps) \<and>
    (sc_problems (scan_packages i gen pkgs n wps s) = [] \<longrightarrow>
      sc_ids (scan_packages i gen pkgs n wps s) = sc_ids s \<union> wp_id ` set wps \<and>
      sc_owner (scan_packages i gen pkgs n wps s) = owner_at gen owner (pre @ wps) \<and>
      sc_satisfied (scan_packages i gen pkgs n wps s) = sc_satisfied s \<union> (\<Union>wp\<in>set wps. set (wp_satisfies wp)))"
proof (induction wps arbitrary: n s pre)
  case (Cons wp wps)
  let ?s = "scan_package i gen pkgs n wp s"
  show ?case
  proof (cases "sc_problems ?s = []")
    case False
    then have d: "sc_problems (scan_packages i gen pkgs n (wp # wps) s) \<noteq> []"
      using scan_packages_grow by simp
    have "\<not> (sc_problems s = [] \<and> package_wf i (gen = 0) wp \<and> wp_id wp \<notin> sc_ids s \<and> ordered_after pkgs pre wp)"
    proof (rule notI)
      assume a: "sc_problems s = [] \<and> package_wf i (gen = 0) wp \<and> wp_id wp \<notin> sc_ids s \<and> ordered_after pkgs pre wp"
      then have "IDPattern (wp_id wp) \<and> wp_id wp \<notin> sc_ids s"
        by (simp add: package_wf_def)
      from scan_package_clean [OF this, of i gen pkgs n] a False show False
        using claims_ordered_at [OF assms] Cons.prems by simp
    qed
    with d show ?thesis by auto
  next
    case True
    have fresh: "IDPattern (wp_id wp) \<and> wp_id wp \<notin> sc_ids s"
      using True scan_package_dirty by blast
    have wf: "sc_problems s = []" "package_wf i (gen = 0) wp" "ordered_after pkgs pre wp"
      using True claims_ordered_at [OF assms] Cons.prems unfolding scan_package_clean [OF fresh] by auto
    note st = scan_package_state [OF True]
    have "sc_owner ?s = owner_at gen owner (pre @ [wp])"
      using st(2) Cons.prems owner_at_snoc by simp
    from Cons.IH [OF this, of "Suc n"] show ?thesis
      using wf fresh True st by auto
  qed
qed simp

fun isolated_generations :: "WorkPackage list list \<Rightarrow> bool" where
  "isolated_generations [] = True"
| "isolated_generations (pkgs # gens) = (isolated pkgs \<and> isolated_generations gens)"

lemma isolated_generations_iff: "isolated_generations gens \<longleftrightarrow> list_all isolated gens"
  by (induction gens) auto

lemma scan_generations_grow: "sc_problems s \<noteq> [] \<Longrightarrow> sc_problems (scan_generations i gen gens s) \<noteq> []"
  by (induction gens arbitrary: gen s) (auto dest: scan_packages_grow)

lemma scan_generations_clean:
  "\<forall>claim\<in>ran (sc_owner s). pc_gen claim < gen \<Longrightarrow> gen \<noteq> 0 \<Longrightarrow>
   (sc_problems (scan_generations i gen gens s) = [] \<longleftrightarrow>
      sc_problems s = [] \<and> list_all (package_wf i False) (concat gens) \<and> distinct (map wp_id (concat gens)) \<and>
      sc_ids s \<inter> wp_id ` set (concat gens) = {} \<and> list_all isolated gens) \<and>
   (sc_problems (scan_generations i gen gens s) = [] \<longrightarrow>
      sc_ids (scan_generations i gen gens s) = sc_ids s \<union> wp_id ` set (concat gens) \<and>
      sc_satisfied (scan_generations i gen gens s) =
        sc_satisfied s \<union> (\<Union>wp\<in>set (concat gens). set (wp_satisfies wp)))"
proof (induction gens arbitrary: gen s)
  case (Cons pkgs gens)
  let ?s = "scan_packages i gen pkgs 0 pkgs s"
  note here = scan_packages_clean [OF Cons.prems(1), of s "[]" i pkgs 0 pkgs, simplified]
  show ?case
  proof (cases "sc_problems ?s = []")
    case False
    with here scan_generations_grow show ?thesis
      using Cons.prems(2) by (auto simp: isolated_def)
  next
    case True
    with here have wf: "sc_problems s = []" "list_all (package_wf i False) pkgs" "distinct (map wp_id pkgs)"
      "sc_ids s \<inter> wp_id ` set pkgs = {}" "isolated pkgs" "sc_ids ?s = sc_ids s \<union> wp_id ` set pkgs"
      "sc_owner ?s = owner_at gen (sc_owner s) pkgs"
      "sc_satisfied ?s = sc_satisfied s \<union> (\<Union>wp\<in>set pkgs. set (wp_satisfies wp))"
      using Cons.prems(2) by (auto simp: isolated_def)
    have "\<forall>claim\<in>ran (sc_owner ?s). pc_gen claim < Suc gen"
      using Cons.prems(1) unfolding wf(7) by (fastforce simp: owner_at_def ran_def split: option.splits)
    note IH = Cons.IH [OF this Suc_not_Zero]
    let ?r = "scan_generations i (Suc gen) gens ?s"
    have r: "scan_generations i gen (pkgs # gens) s = ?r" by simp
    have ids: "sc_ids ?s \<inter> X = {} \<longleftrightarrow> sc_ids s \<inter> X = {} \<and> wp_id ` set pkgs \<inter> X = {}" for X
      unfolding wf(6) by blast
    have clean: "sc_problems ?r = [] \<longleftrightarrow>
        sc_problems s = [] \<and> list_all (package_wf i False) (concat (pkgs # gens)) \<and>
        distinct (map wp_id (concat (pkgs # gens))) \<and>
        sc_ids s \<inter> wp_id ` set (concat (pkgs # gens)) = {} \<and> list_all isolated (pkgs # gens)"
      using IH [THEN conjunct1] True wf(1-5)
      by (simp add: ids Int_Un_distrib image_Un del: set_concat) blast
    have state: "sc_ids ?r = sc_ids s \<union> wp_id ` set (concat (pkgs # gens)) \<and>
        sc_satisfied ?r = sc_satisfied s \<union> (\<Union>wp\<in>set (concat (pkgs # gens)). set (wp_satisfies wp))"
      if "sc_problems ?r = []"
      using IH [THEN conjunct2, THEN mp, OF that] wf(6,8)
      by (simp add: image_Un Un_assoc del: set_concat)
    show ?thesis unfolding r using clean state by blast
  qed
qed simp

lemma scan_plan:
  assumes "scan = scan_generations i 0 (g0 # gens) (scan_start ps)"
  shows "(sc_problems scan = [] \<longleftrightarrow>
      ps = [] \<and> list_all (package_wf i True) g0 \<and> list_all (package_wf i False) (concat gens) \<and>
      distinct (map wp_id (g0 @ concat gens)) \<and> list_all isolated (g0 # gens))"
    and "sc_problems scan = [] \<Longrightarrow>
      sc_ids scan = wp_id ` set (g0 @ concat gens) \<and>
      sc_satisfied scan = (\<Union>wp\<in>set (g0 @ concat gens). set (wp_satisfies wp))"
proof -
  let ?s = "scan_packages i 0 g0 0 g0 (scan_start ps)"
  have none: "\<forall>claim\<in>ran (sc_owner (scan_start ps)). pc_gen claim < 0"
    by (simp add: scan_start_def)
  note here = scan_packages_clean [OF none, of "scan_start ps" "[]" i g0 0 g0, simplified]
  have scan: "scan = scan_generations i 1 gens ?s" using assms by simp
  have "(sc_problems scan = [] \<longleftrightarrow>
      ps = [] \<and> list_all (package_wf i True) g0 \<and> list_all (package_wf i False) (concat gens) \<and>
      distinct (map wp_id (g0 @ concat gens)) \<and> list_all isolated (g0 # gens)) \<and>
    (sc_problems scan = [] \<longrightarrow>
      sc_ids scan = wp_id ` set (g0 @ concat gens) \<and>
      sc_satisfied scan = (\<Union>wp\<in>set (g0 @ concat gens). set (wp_satisfies wp)))"
  proof (cases "sc_problems ?s = []")
    case False
    with here scan_generations_grow show ?thesis unfolding scan by (auto simp: isolated_def scan_start_def)
  next
    case True
    with here have wf: "ps = []" "list_all (package_wf i True) g0" "distinct (map wp_id g0)" "isolated g0"
      "sc_ids ?s = wp_id ` set g0" "sc_owner ?s = owner_at 0 Map.empty g0"
      "sc_satisfied ?s = (\<Union>wp\<in>set g0. set (wp_satisfies wp))"
      by (auto simp: isolated_def scan_start_def)
    have "\<forall>claim\<in>ran (sc_owner ?s). pc_gen claim < 1"
      unfolding wf(6) by (auto simp: owner_at_def ran_def split: option.splits)
    note rest = scan_generations_clean [OF this one_neq_zero, of i gens]
    have clean: "sc_problems scan = [] \<longleftrightarrow>
        ps = [] \<and> list_all (package_wf i True) g0 \<and> list_all (package_wf i False) (concat gens) \<and>
        distinct (map wp_id (g0 @ concat gens)) \<and> list_all isolated (g0 # gens)"
      using rest [THEN conjunct1] True wf(1-4) unfolding scan wf(5) by (simp del: set_concat)
    have state: "sc_ids scan = wp_id ` set (g0 @ concat gens) \<and>
        sc_satisfied scan = (\<Union>wp\<in>set (g0 @ concat gens). set (wp_satisfies wp))" if "sc_problems scan = []"
      using rest [THEN conjunct2, THEN mp, OF that [unfolded scan]] wf(5,7)
      unfolding scan by (simp add: image_Un del: set_concat)
    show ?thesis using clean state by blast
  qed
  then show "(sc_problems scan = [] \<longleftrightarrow>
      ps = [] \<and> list_all (package_wf i True) g0 \<and> list_all (package_wf i False) (concat gens) \<and>
      distinct (map wp_id (g0 @ concat gens)) \<and> list_all isolated (g0 # gens))"
    and "sc_problems scan = [] \<Longrightarrow>
      sc_ids scan = wp_id ` set (g0 @ concat gens) \<and>
      sc_satisfied scan = (\<Union>wp\<in>set (g0 @ concat gens). set (wp_satisfies wp))" by auto
qed

section \<open>The whole plan\<close>

lemma supersedes_list_Nil:
  "supersedes_list base earlier n seenHere xs = [] \<longleftrightarrow>
     distinct xs \<and> seenHere \<inter> set xs = {} \<and> set xs \<inter> base = {} \<and> set xs \<subseteq> earlier"
  by (induction xs arbitrary: seenHere) auto

definition supersedes_wf :: "string set \<Rightarrow> Remediation list \<Rightarrow> bool" where
  "supersedes_wf base rms =
     (\<forall>k<length rms. distinct (rm_supersedes (rms ! k)) \<and> set (rm_supersedes (rms ! k)) \<inter> base = {} \<and>
        set (rm_supersedes (rms ! k)) \<subseteq> (\<Union>j<k. wp_id ` set (rm_packages (rms ! j))))"

lemma supersedes_problems_Nil:
  "supersedes_problems base earlier n rms = [] \<longleftrightarrow>
     (\<forall>k<length rms. distinct (rm_supersedes (rms ! k)) \<and> set (rm_supersedes (rms ! k)) \<inter> base = {} \<and>
        set (rm_supersedes (rms ! k)) \<subseteq> earlier \<union> (\<Union>j<k. wp_id ` set (rm_packages (rms ! j))))"
proof (induction rms arbitrary: earlier n)
  case (Cons rm rms)
  have "(\<Union>j<Suc k. wp_id ` set (rm_packages ((rm # rms) ! j))) =
      wp_id ` set (rm_packages rm) \<union> (\<Union>j<k. wp_id ` set (rm_packages (rms ! j)))" for k
    by (simp add: lessThan_Suc_eq_insert_0)
  then show ?case
    by (simp add: Cons.IH supersedes_list_Nil All_less_Suc2 Un_assoc)
qed simp

lemma depends_problems_Nil:
  "depends_problems ids all = [] \<longleftrightarrow>
     (\<forall>wp\<in>set all. \<forall>d\<in>set (wp_dependsOn wp). d \<noteq> wp_id wp \<and> d \<in> ids \<and> d \<notin> wp_id ` set (filter IsVerification all))"
  unfolding depends_problems_def Let_def concat_map_Nil by (intro ball_cong refl) auto

lemma edges_build_deps_closed:
  assumes "distinct (map fst nodes)" and "\<And>i ns. (i, ns) \<in> set nodes \<Longrightarrow> set ns \<subseteq> fst ` set nodes"
  shows "edges (build_deps nodes) = {(i, n). \<exists>ns. (i, ns) \<in> set nodes \<and> n \<in> set ns}"
proof -
  have get: "build_deps nodes i = Some ns" if "(i, ns) \<in> set nodes" for i ns
    using build_deps_distinct [OF assms(1) that] .
  have node: "(i, ns) \<in> set nodes" if "build_deps nodes i = Some ns" for i ns
  proof -
    have "i \<in> fst ` set nodes" using that dom_build_deps [of nodes] by blast
    then obtain ns' where "(i, ns') \<in> set nodes" by auto
    with get that show ?thesis by auto
  qed
  have dom: "build_deps nodes n \<noteq> None \<longleftrightarrow> n \<in> fst ` set nodes" for n
    using dom_build_deps [of nodes] by blast
  show ?thesis
  proof (intro set_eqI iffI; clarify)
    fix u v assume "(u, v) \<in> edges (build_deps nodes)"
    then obtain ns where "build_deps nodes u = Some ns" "v \<in> set ns"
      by (cases "build_deps nodes u") (auto simp: edges_def deps_of_def)
    with node show "\<exists>ns. (u, ns) \<in> set nodes \<and> v \<in> set ns" by blast
  next
    fix u v ns assume uv: "(u, ns) \<in> set nodes" "v \<in> set ns"
    then have "v \<in> fst ` set nodes" using assms(2) by blast
    with dom have "build_deps nodes v \<noteq> None" by blast
    with get [OF uv(1)] uv(2) show "(u, v) \<in> edges (build_deps nodes)" by (simp add: edges_def deps_of_def)
  qed
qed

definition package_rel :: "WorkPackage list \<Rightarrow> (string \<times> string) set" where
  "package_rel pkgs = {(wp_id wp, d) |wp d. wp \<in> set pkgs \<and> d \<in> set (wp_dependsOn wp)}"

lemma findCycle_Nil:
  assumes "distinct (map wp_id pkgs)" "\<forall>wp\<in>set pkgs. set (wp_dependsOn wp) \<subseteq> wp_id ` set pkgs"
  shows "findCycle pkgs = [] \<longleftrightarrow> acyclic (package_rel pkgs)"
proof -
  let ?nodes = "map (\<lambda>wp. (wp_id wp, wp_dependsOn wp)) pkgs"
  have "edges (build_deps ?nodes) = {(i, n). \<exists>ns. (i, ns) \<in> set ?nodes \<and> n \<in> set ns}"
    using assms by (intro edges_build_deps_closed) (auto simp: comp_def image_image)
  also have "\<dots> = package_rel pkgs"
    by (auto simp: package_rel_def)
  finally show ?thesis
    using find_cycle_correct [of ?nodes] by (auto simp: findCycle_def)
qed

lemma uncovered_Nil:
  "uncovered_criteria i satisfied = [] \<longleftrightarrow> (\<forall>c\<in>set (in_acceptance i). IsHuman c \<or> cn_id c \<in> satisfied)"
proof -
  have "sort xs = [] \<longleftrightarrow> xs = []" for xs :: "string list"
    by (metis length_0_conv length_sort)
  then show ?thesis
    by (auto simp: uncovered_criteria_def filter_empty_conv)
qed

lemma generations_AllPackages: "generations p = dp_packages p # gens \<Longrightarrow> AllPackages p = dp_packages p @ concat gens"
  by (auto simp: generations_def AllPackages_def)

lemma DeliveryPlan_Validate_iff:
  "DeliveryPlan_Validate i p = None \<longleftrightarrow>
     dp_schemaVersion p = PlanSchemaVersion \<and> dp_projectID p = in_projectID i \<and> dp_packages p \<noteq> [] \<and>
     list_all (package_wf i True) (dp_packages p) \<and>
     list_all (package_wf i False) (concat (map (live_packages (Superseded p)) (dp_remediations p))) \<and>
     distinct (map wp_id (AllPackages p)) \<and> list_all isolated (generations p) \<and>
     supersedes_wf (wp_id ` set (dp_packages p)) (dp_remediations p) \<and>
     (\<forall>wp\<in>set (AllPackages p). \<forall>d\<in>set (wp_dependsOn wp). \<exists>u\<in>set (AllPackages p). d = wp_id u \<and> \<not> IsVerification u) \<and>
     acyclic (package_rel (AllPackages p)) \<and>
     (\<forall>c\<in>set (in_acceptance i). IsHuman c \<or> (\<exists>wp\<in>set (AllPackages p). cn_id c \<in> set (wp_satisfies wp))) \<and>
     (\<forall>c\<in>set (in_acceptance i). fidelity_problems p c = []) \<and>
     (\<forall>rm\<in>set (dp_remediations p). Remediation_Validate i rm = None)"
proof -
  let ?all = "AllPackages p" and ?gens = "map (live_packages (Superseded p)) (dp_remediations p)"
  let ?ps = "problem_if (dp_projectID p \<noteq> in_projectID i) (PlanProject (dp_projectID p) (in_projectID i)) @
             problem_if (dp_packages p = []) PlanEmpty"
  define scan where "scan = scan_generations i 0 (dp_packages p # ?gens) (scan_start ?ps)"
  have all: "dp_packages p @ concat ?gens = ?all" by (simp add: AllPackages_def)
  note clean = scan_plan(1) [OF scan_def, unfolded all] and state = scan_plan(2) [OF scan_def, unfolded all]
  have rem: "concat (map (\<lambda>rm. case Remediation_Validate i rm of None \<Rightarrow> [] | Some e \<Rightarrow> [RemediationRefused (rm_seq rm) e])
      (dp_remediations p)) = [] \<longleftrightarrow> (\<forall>rm\<in>set (dp_remediations p). Remediation_Validate i rm = None)"
    unfolding concat_map_Nil by (intro ball_cong refl) (auto split: option.splits)
  have "plan_problems i p = [] \<longleftrightarrow>
      sc_problems scan = [] \<and> supersedes_wf (wp_id ` set (dp_packages p)) (dp_remediations p) \<and>
      depends_problems (sc_ids scan) ?all = [] \<and> findCycle ?all = [] \<and> uncovered_criteria i (sc_satisfied scan) = [] \<and>
      (\<forall>c\<in>set (in_acceptance i). fidelity_problems p c = []) \<and>
      (\<forall>rm\<in>set (dp_remediations p). Remediation_Validate i rm = None)"
    unfolding plan_problems_def Let_def generations_def scan_def [symmetric]
    by (simp only: append_is_Nil_conv problem_if_Nil not_not rem concat_map_Nil [of "fidelity_problems p"]
        supersedes_problems_Nil supersedes_wf_def Un_empty_left)
  also have "\<dots> \<longleftrightarrow>
      sc_problems scan = [] \<and> supersedes_wf (wp_id ` set (dp_packages p)) (dp_remediations p) \<and>
      (\<forall>wp\<in>set ?all. \<forall>d\<in>set (wp_dependsOn wp). d \<noteq> wp_id wp \<and> d \<in> wp_id ` set ?all \<and>
        d \<notin> wp_id ` set (filter IsVerification ?all)) \<and>
      findCycle ?all = [] \<and>
      (\<forall>c\<in>set (in_acceptance i). IsHuman c \<or> (\<exists>wp\<in>set ?all. cn_id c \<in> set (wp_satisfies wp))) \<and>
      (\<forall>c\<in>set (in_acceptance i). fidelity_problems p c = []) \<and>
      (\<forall>rm\<in>set (dp_remediations p). Remediation_Validate i rm = None)"
  proof (cases "sc_problems scan = []")
    case True
    from state [OF True] show ?thesis
      unfolding depends_problems_Nil uncovered_Nil by (simp only: UN_iff)
  qed simp
  finally have main: "plan_problems i p = [] \<longleftrightarrow> \<dots>" .
  have dep: "(\<forall>wp\<in>set ?all. \<forall>d\<in>set (wp_dependsOn wp). d \<noteq> wp_id wp \<and> d \<in> wp_id ` set ?all \<and>
        d \<notin> wp_id ` set (filter IsVerification ?all)) \<and> findCycle ?all = [] \<longleftrightarrow>
      (\<forall>wp\<in>set ?all. \<forall>d\<in>set (wp_dependsOn wp). \<exists>u\<in>set ?all. d = wp_id u \<and> \<not> IsVerification u) \<and>
      acyclic (package_rel ?all)" (is "?A \<and> _ \<longleftrightarrow> ?B \<and> _") if d: "distinct (map wp_id ?all)"
  proof -
    have uniq: "u = v" if "u \<in> set ?all" "v \<in> set ?all" "wp_id u = wp_id v" for u v
      using d that by (auto simp: distinct_map inj_on_def)
    have "?A \<longrightarrow> ?B" by fastforce
    moreover have "?B \<longrightarrow> acyclic (package_rel ?all) \<longrightarrow> ?A"
    proof (intro impI ballI)
      fix wp x assume B: ?B and ac: "acyclic (package_rel ?all)" and wp: "wp \<in> set ?all" "x \<in> set (wp_dependsOn wp)"
      then obtain u where u: "u \<in> set ?all" "x = wp_id u" "\<not> IsVerification u" by blast
      have "x \<noteq> wp_id wp"
        using wp ac by (auto simp: package_rel_def acyclic_def intro: r_into_trancl)
      with u uniq show "x \<noteq> wp_id wp \<and> x \<in> wp_id ` set ?all \<and> x \<notin> wp_id ` set (filter IsVerification ?all)"
        by auto
    qed
    moreover have "?B \<longrightarrow> (\<forall>wp\<in>set ?all. set (wp_dependsOn wp) \<subseteq> wp_id ` set ?all)" by fastforce
    ultimately show ?thesis using findCycle_Nil [OF d] by blast
  qed
  have "DeliveryPlan_Validate i p = None \<longleftrightarrow> dp_schemaVersion p = PlanSchemaVersion \<and> plan_problems i p = []"
    by (simp add: DeliveryPlan_Validate_def)
  also have "\<dots> \<longleftrightarrow> dp_schemaVersion p = PlanSchemaVersion \<and> ?ps = [] \<and> list_all (package_wf i True) (dp_packages p) \<and>
      list_all (package_wf i False) (concat ?gens) \<and> distinct (map wp_id ?all) \<and> list_all isolated (generations p) \<and>
      supersedes_wf (wp_id ` set (dp_packages p)) (dp_remediations p) \<and>
      (\<forall>wp\<in>set ?all. \<forall>d\<in>set (wp_dependsOn wp). \<exists>u\<in>set ?all. d = wp_id u \<and> \<not> IsVerification u) \<and>
      acyclic (package_rel ?all) \<and>
      (\<forall>c\<in>set (in_acceptance i). IsHuman c \<or> (\<exists>wp\<in>set ?all. cn_id c \<in> set (wp_satisfies wp))) \<and>
      (\<forall>c\<in>set (in_acceptance i). fidelity_problems p c = []) \<and>
      (\<forall>rm\<in>set (dp_remediations p). Remediation_Validate i rm = None)"
  proof (cases "distinct (map wp_id ?all)")
    case True
    show ?thesis
      unfolding main clean generations_def using dep [OF True] by blast
  qed (simp add: main clean)
  finally show ?thesis by (simp only: append_is_Nil_conv problem_if_Nil not_not conj_assoc)
qed

section \<open>Fidelity\<close>

text \<open>A whole-word occurrence of one spelling of a required behaviour: where it starts and how long it is.\<close>

definition occurrence :: "string \<Rightarrow> string \<Rightarrow> nat \<times> nat \<Rightarrow> bool" where
  "occurrence said required sp =
     (\<exists>raw\<in>set (spellings required). ToLower (TrimSpace raw) \<noteq> [] \<and> snd sp = length (ToLower (TrimSpace raw)) \<and>
        take (snd sp) (drop (fst sp) said) = ToLower (TrimSpace raw) \<and> wholeWord said (fst sp) (fst sp + snd sp))"

definition span :: "nat \<times> nat \<Rightarrow> nat set" where
  "span sp = {fst sp..<fst sp + snd sp}"

lemma claim_alt_Some:
  "claim_alt said spent alt at = Some st \<Longrightarrow>
     alt \<noteq> [] \<and> st + length alt \<le> length said \<and> take (length alt) (drop st said) = alt \<and>
     wholeWord said st (st + length alt) \<and> \<not> spanIsSpent spent st (st + length alt)"
proof (induction said spent alt at rule: claim_alt.induct)
  case (1 said spent alt at)
  then obtain n where n: "alt \<noteq> []" "strings_Index (drop at said) alt = Some n"
    by (subst (asm) claim_alt.simps) (auto split: if_splits option.splits)
  show ?case
  proof (cases "\<not> wholeWord said (at + n) (at + n + length alt) \<or> spanIsSpent spent (at + n) (at + n + length alt)")
    case True
    with 1(2) n have "claim_alt said spent alt (at + n + 1) = Some st"
      by (subst (asm) claim_alt.simps) (simp add: Let_def)
    with 1(1) [OF n refl refl True] show ?thesis by simp
  next
    case False
    with 1(2) n have "st = at + n"
      by (subst (asm) claim_alt.simps) (simp add: Let_def)
    moreover have "at + n + length alt \<le> length said"
      using strings_Index_Some [OF n(2)] n(1) by (cases alt) auto
    ultimately show ?thesis
      using False n strings_Index_Some [OF n(2)] by (simp add: add.commute)
  qed
qed

lemma claimOccurrence_True:
  assumes "claimOccurrence said spent required = (True, spent')"
  shows "\<exists>sp. occurrence said required sp \<and> fst sp + snd sp \<le> length said \<and>
    (\<forall>k\<in>span sp. \<not> spent ! k) \<and> spent' = spend spent (fst sp) (snd sp)"
proof -
  have "\<exists>sp. (\<exists>raw\<in>set alts. ToLower (TrimSpace raw) \<noteq> [] \<and> snd sp = length (ToLower (TrimSpace raw)) \<and>
      take (snd sp) (drop (fst sp) said) = ToLower (TrimSpace raw) \<and> wholeWord said (fst sp) (fst sp + snd sp)) \<and>
      fst sp + snd sp \<le> length said \<and> (\<forall>k\<in>span sp. \<not> spent ! k) \<and> spent' = spend spent (fst sp) (snd sp)"
    if "claim_spellings said spent alts = (True, spent')" for alts
    using that
  proof (induction alts)
    case (Cons raw alts)
    show ?case
    proof (cases "claim_alt said spent (ToLower (TrimSpace raw)) 0")
      case None
      with Cons.prems have "claim_spellings said spent alts = (True, spent')" by simp
      from Cons.IH [OF this] show ?thesis by auto
    next
      case (Some st)
      with Cons.prems have "spent' = spend spent st (length (ToLower (TrimSpace raw)))" by simp
      with claim_alt_Some [OF Some] show ?thesis
        by (intro exI [of _ "(st, length (ToLower (TrimSpace raw)))"])
           (auto simp: span_def spanIsSpent_def list_ex_iff)
    qed
  qed simp
  from this [of "spellings required"] assms show ?thesis
    by (simp add: claimOccurrence_def occurrence_def)
qed

lemma spend_nth:
  "st + n \<le> length spent \<Longrightarrow> k < length spent \<Longrightarrow> spend spent st n ! k \<longleftrightarrow> spent ! k \<or> st \<le> k \<and> k < st + n"
  by (auto simp: spend_def nth_append min_def)

lemma length_spend: "st + n \<le> length spent \<Longrightarrow> length (spend spent st n) = length spent"
  by (simp add: spend_def)

lemma claim_all_spans:
  "claim_all said required spent order = {} \<Longrightarrow> distinct order \<Longrightarrow> length spent = length said \<Longrightarrow>
   \<exists>f. (\<forall>i\<in>set order. occurrence said (required ! i) (f i) \<and> fst (f i) + snd (f i) \<le> length said \<and>
          (\<forall>k\<in>span (f i). \<not> spent ! k)) \<and>
       (\<forall>i\<in>set order. \<forall>j\<in>set order. i \<noteq> j \<longrightarrow> span (f i) \<inter> span (f j) = {})"
proof (induction order arbitrary: spent)
  case (Cons i order)
  from Cons.prems(1) obtain spent' where c: "claimOccurrence said spent (required ! i) = (True, spent')"
    and rest: "claim_all said required spent' order = {}"
    by (auto simp: Let_def split: prod.splits if_splits)
  obtain sp where sp: "occurrence said (required ! i) sp" "fst sp + snd sp \<le> length said"
    "\<forall>k\<in>span sp. \<not> spent ! k" "spent' = spend spent (fst sp) (snd sp)"
    using claimOccurrence_True [OF c] by blast
  have len: "length spent' = length said"
    using sp(2,4) Cons.prems(3) by (simp add: length_spend)
  obtain f where f: "\<forall>i\<in>set order. occurrence said (required ! i) (f i) \<and> fst (f i) + snd (f i) \<le> length said \<and>
      (\<forall>k\<in>span (f i). \<not> spent' ! k)"
    "\<forall>i\<in>set order. \<forall>j\<in>set order. i \<noteq> j \<longrightarrow> span (f i) \<inter> span (f j) = {}"
    using Cons.IH [OF rest _ len] Cons.prems(2) by auto
  have free: "\<not> spent ! k \<and> k \<notin> span sp" if "j \<in> set order" "k \<in> span (f j)" for j k
  proof -
    have "k < length spent" using f(1) that Cons.prems(3) by (fastforce simp: span_def)
    moreover have "\<not> spent' ! k" using f(1) that by blast
    ultimately show ?thesis
      using spend_nth [of "fst sp" "snd sp" spent k] sp(2,4) Cons.prems(3) by (auto simp: span_def)
  qed
  have "i \<notin> set order" using Cons.prems(2) by simp
  then show ?case
    using f sp free by (intro exI [of _ "f(i := sp)"]) (auto simp: disjoint_iff)
qed simp

text \<open>No requirement is missing only when each has an occurrence of its own.\<close>

lemma missingBehaviours_spans:
  assumes "missingBehaviours said required = []"
  shows "\<exists>f. (\<forall>k<length required. occurrence said (required ! k) (f k)) \<and>
    (\<forall>k<length required. \<forall>l<length required. k \<noteq> l \<longrightarrow> span (f k) \<inter> span (f l) = {})"
proof -
  let ?order = "sort_key (\<lambda>i. - int (longestAlternative (required ! i))) [0..<length required]"
  let ?unmet = "claim_all said required (replicate (length said) False) ?order"
  have "?unmet \<subseteq> set order" if "?unmet = claim_all said required spent order" for spent order
    unfolding that by (induction order arbitrary: spent) (auto simp: Let_def split: prod.splits)
  from this [OF refl] have "?unmet \<subseteq> {0..<length required}" by simp
  moreover have "\<forall>k\<in>{0..<length required}. k \<notin> ?unmet"
    using assms by (simp add: missingBehaviours_def Let_def filter_empty_conv)
  ultimately have "?unmet = {}" by blast
  from claim_all_spans [OF this] obtain f where
    "\<forall>i\<in>{0..<length required}. occurrence said (required ! i) (f i)"
    "\<forall>i\<in>{0..<length required}. \<forall>j\<in>{0..<length required}. i \<noteq> j \<longrightarrow> span (f i) \<inter> span (f j) = {}"
    by (auto simp: distinct_sort)
  then show ?thesis by (intro exI [of _ f]) simp
qed

section \<open>Sample documents\<close>

text \<open>An intent with a criterion of delivery's, which requires two behaviours, and one of a person's, and plans for it:
  the instances the witnesses evaluate.\<close>

definition sample_criterion :: Criterion where
  "sample_criterion =
     \<lparr>cn_id = ''ac-1'', cn_statement = ''types'', cn_acceptedBy = [], cn_mustCover = [''mixed'', ''mixed types'']\<rparr>"

definition sample_intent :: Intent where
  "sample_intent =
     \<lparr>in_schemaVersion = 1, in_projectID = ''demo'',
      in_repository = \<lparr>repo_slug = ''acme/demo'', repo_origin = ''git@github.com:acme/demo.git'', repo_defaultBranch = ''main''\<rparr>,
      in_checkout = ''/srv/demo'', in_objective = ''deliver'', in_lifecycle = [''build''],
      in_acceptance =
        [sample_criterion,
         \<lparr>cn_id = ''ac-2'', cn_statement = ''sign-off'', cn_acceptedBy = AcceptedByHuman, cn_mustCover = []\<rparr>],
      in_policy =
        \<lparr>pol_needPush = True, pol_needPR = True, pol_needChecks = True, pol_needMerge = True, pol_mergeHumanAction = [],
         pol_maxWorkers = 0, pol_workDeadlineSeconds = 60\<rparr>,
      in_requestedBy = ''po'', in_requestedAt = Some 1\<rparr>"

definition sample_package :: WorkPackage where
  "sample_package =
     \<lparr>wp_id = ''wp-a'', wp_title = ''types'', wp_phase = ''build'',
      wp_objective = ''infer the type mixed, and report mixed types'', wp_artifact = ''src/a.go'',
      wp_authorizedPaths = [''src/a.go''], wp_gates = [''go test ./...''], wp_dependsOn = [], wp_satisfies = [''ac-1''],
      wp_verifies = None\<rparr>"

definition sample_delivery :: DeliveryPlan where
  "sample_delivery =
     \<lparr>dp_schemaVersion = 1, dp_projectID = ''demo'', dp_plannedBy = ''planner'', dp_plannedAt = Some 2,
      dp_packages = [sample_package], dp_remediations = [], dp_provisional = False\<rparr>"

lemma sample_delivery_valid: "DeliveryPlan_Validate sample_intent sample_delivery = None"
  by code_simp

section \<open>Isolation\<close>

lemma isolated_from_at: "isolated_from pkgs pre (xs @ wp # ys) \<Longrightarrow> ordered_after pkgs (pre @ xs) wp"
proof (induction xs arbitrary: pre)
  case (Cons x xs)
  then show ?case using Cons.IH [of "pre @ [x]"] by simp
qed simp

lemma find_append_None: "find P xs = None \<Longrightarrow> find P (xs @ ys) = find P ys"
  by (induction xs) (auto split: if_splits)

text \<open>Two packages of one generation that claim a path, with no claim of it between them, are ordered.\<close>

lemma neighbours_ordered:
  assumes "isolated pkgs" "pkgs = pre @ a # mid @ b # post" "c \<in> set (clean_paths a)" "c \<in> set (clean_paths b)"
    and "\<forall>m\<in>set mid. c \<notin> set (clean_paths m)"
  shows "dependencyOrdered pkgs (wp_id a) (wp_id b)"
proof -
  have "isolated_from pkgs [] ((pre @ a # mid) @ b # post)"
    using assms(1,2) by (simp add: isolated_def)
  from isolated_from_at [OF this] have o: "ordered_after pkgs (pre @ a # mid) b" by simp
  have "find (\<lambda>w. c \<in> set (clean_paths w)) (rev mid) = None"
    using assms(5) by (simp add: find_None_iff)
  then have "find (\<lambda>w. c \<in> set (clean_paths w)) (rev mid @ a # rev pre) = Some a"
    using assms(3) by (simp add: find_append_None)
  then have "last_claimant (pre @ a # mid) c = Some a" by (simp add: last_claimant_def)
  with o assms(4) show ?thesis by (auto simp: ordered_after_def list_all_iff)
qed

text \<open>Three packages over one file: the second follows the first and the third, which nothing orders.\<close>

definition unordered_writers :: DeliveryPlan where
  "unordered_writers = sample_delivery
     \<lparr>dp_packages :=
        [sample_package, sample_package\<lparr>wp_id := ''wp-b'', wp_dependsOn := [''wp-a'', ''wp-c'']\<rparr>,
         sample_package\<lparr>wp_id := ''wp-c''\<rparr>]\<rparr>"

text \<open>The requirement that is met depends on the order of two of the same length.\<close>

lemma missing_depends_on_order:
  "missingBehaviours ''date time'' [''date|time'', ''date''] = [''date''] \<and>
   missingBehaviours ''date time'' [''date'', ''date|time''] = []"
  by code_simp

section \<open>Properties\<close>

text \<open>C3. A delivery plan and its remediations are accepted exactly when the schema and the project are the intent's;
  there is a package; every package is well formed on its own; identifiers are unique over all generations; a package is
  ordered with the last package of its generation before it that claimed one of its paths; supersession reaches back into
  corrective work only; every dependency is a package that merges and the dependencies have no cycle; every criterion
  that is not a person's is claimed, and none of a person's is; the required behaviours are carried; and every
  remediation is valid by itself.\<close>

theorem delivery_plan_exact:
  "DeliveryPlan_Validate i p = None \<longleftrightarrow>
     dp_schemaVersion p = PlanSchemaVersion \<and> dp_projectID p = in_projectID i \<and> dp_packages p \<noteq> [] \<and>
     (\<forall>wp\<in>set (dp_packages p). package_wf i True wp) \<and>
     (\<forall>rm\<in>set (dp_remediations p). \<forall>wp\<in>set (rm_packages rm). wp_id wp \<notin> Superseded p \<longrightarrow> package_wf i False wp) \<and>
     distinct (map wp_id (AllPackages p)) \<and> (\<forall>pkgs\<in>set (generations p). isolated pkgs) \<and>
     (\<forall>k<length (dp_remediations p).
        distinct (rm_supersedes (dp_remediations p ! k)) \<and>
        set (rm_supersedes (dp_remediations p ! k)) \<inter> wp_id ` set (dp_packages p) = {} \<and>
        set (rm_supersedes (dp_remediations p ! k)) \<subseteq> (\<Union>j<k. wp_id ` set (rm_packages (dp_remediations p ! j)))) \<and>
     (\<forall>wp\<in>set (AllPackages p). \<forall>d\<in>set (wp_dependsOn wp). \<exists>u\<in>set (AllPackages p). d = wp_id u \<and> \<not> IsVerification u) \<and>
     acyclic {(wp_id wp, d) |wp d. wp \<in> set (AllPackages p) \<and> d \<in> set (wp_dependsOn wp)} \<and>
     (\<forall>c\<in>set (in_acceptance i). IsHuman c \<or> (\<exists>wp\<in>set (AllPackages p). cn_id c \<in> set (wp_satisfies wp))) \<and>
     (\<forall>c\<in>set (in_acceptance i). fidelity_problems p c = []) \<and>
     (\<forall>rm\<in>set (dp_remediations p). Remediation_Validate i rm = None)"
proof -
  have "list_all (package_wf i False) (concat (map (live_packages (Superseded p)) (dp_remediations p))) \<longleftrightarrow>
      (\<forall>rm\<in>set (dp_remediations p). \<forall>wp\<in>set (rm_packages rm). wp_id wp \<notin> Superseded p \<longrightarrow> package_wf i False wp)"
    by (auto simp: list_all_iff live_packages_def)
  then show ?thesis
    unfolding DeliveryPlan_Validate_iff supersedes_wf_def package_rel_def by (simp add: list_all_iff)
qed

theorem delivery_plan_exact_witness:
  "DeliveryPlan_Validate sample_intent sample_delivery = None \<and> distinct (map wp_id (AllPackages sample_delivery)) \<and>
   acyclic {(wp_id wp, d) |wp d. wp \<in> set (AllPackages sample_delivery) \<and> d \<in> set (wp_dependsOn wp)}"
proof (intro conjI)
  show v: "DeliveryPlan_Validate sample_intent sample_delivery = None"
    by (rule sample_delivery_valid)
  show "distinct (map wp_id (AllPackages sample_delivery))"
    using v unfolding delivery_plan_exact by (elim conjE)
  show "acyclic {(wp_id wp, d) |wp d. wp \<in> set (AllPackages sample_delivery) \<and> d \<in> set (wp_dependsOn wp)}"
    using v unfolding delivery_plan_exact by (elim conjE)
qed



text \<open>C25. Where a criterion of delivery's names the behaviours it requires, an accepted plan that is not provisional
  carries them: some package that claims the criterion has a gate, and in what those packages say together every required
  behaviour has an occurrence of one of its spellings that stands as whole words, no two behaviours sharing a letter.\<close>

theorem accepted_plan_faithful:
  assumes valid: "DeliveryPlan_Validate i p = None" and "\<not> dp_provisional p"
    and c: "c \<in> set (in_acceptance i)" "\<not> IsHuman c" "cn_mustCover c \<noteq> []"
    and pkgs: "pkgs = filter (\<lambda>wp. cn_id c \<in> set (wp_satisfies wp)) (AllPackages p)"
  shows "(\<exists>wp\<in>set pkgs. \<exists>g\<in>set (wp_gates wp). ValidateGate g = None) \<and>
    (\<exists>f. (\<forall>k<length (cn_mustCover c). occurrence (coveringText pkgs) (cn_mustCover c ! k) (f k)) \<and>
         (\<forall>k<length (cn_mustCover c). \<forall>l<length (cn_mustCover c). k \<noteq> l \<longrightarrow> span (f k) \<inter> span (f l) = {}))"
proof -
  have cov: "coveringPackages (AllPackages p) (cn_id c) = pkgs"
    by (simp add: coveringPackages_def pkgs containsPath_def list_ex_iff Bex_def)
  have "\<exists>wp\<in>set (AllPackages p). cn_id c \<in> set (wp_satisfies wp)" and fid: "fidelity_problems p c = []"
    using valid c unfolding DeliveryPlan_Validate_iff by blast+
  then have "pkgs \<noteq> []" by (auto simp: pkgs filter_empty_conv)
  with fid c assms(2) have gated: "list_ex (\<lambda>wp. wp_gates wp \<noteq> []) pkgs"
    and missing: "missingBehaviours (coveringText pkgs) (cn_mustCover c) = []"
    by (auto simp: fidelity_problems_def cov Let_def)
  then obtain wp where "wp \<in> set pkgs" "wp_gates wp \<noteq> []"
    by (auto simp: list_ex_iff)
  then obtain g where wp: "wp \<in> set pkgs" "g \<in> set (wp_gates wp)"
    by (cases "wp_gates wp") auto
  then have "wp \<in> set (AllPackages p)" by (simp add: pkgs)
  then have "package_wf i True wp \<or> package_wf i False wp"
    using valid unfolding DeliveryPlan_Validate_iff list_all_iff by (auto simp: AllPackages_def)
  with wp have "ValidateGate g = None" by (auto simp: package_wf_def list_all_iff)
  with wp missingBehaviours_spans [OF missing] show ?thesis by blast
qed

theorem accepted_plan_faithful_witness:
  "\<exists>f. occurrence (coveringText [sample_package]) ''mixed'' (f 0) \<and>
       occurrence (coveringText [sample_package]) ''mixed types'' (f (Suc 0)) \<and> span (f 0) \<inter> span (f (Suc 0)) = {}"
proof -
  have c: "sample_criterion \<in> set (in_acceptance sample_intent)" "\<not> IsHuman sample_criterion"
    "cn_mustCover sample_criterion = [''mixed'', ''mixed types'']"
    by (simp_all add: sample_intent_def sample_criterion_def IsHuman_def AcceptedByHuman_def)
  have p: "[sample_package] = filter (\<lambda>wp. cn_id sample_criterion \<in> set (wp_satisfies wp)) (AllPackages sample_delivery)"
    by (simp add: AllPackages_def sample_delivery_def sample_package_def sample_criterion_def)
  have "\<not> dp_provisional sample_delivery" by (simp add: sample_delivery_def)
  from accepted_plan_faithful [OF sample_delivery_valid this c(1,2) _ p] c(3) obtain f where
    f: "\<forall>k<2. occurrence (coveringText [sample_package]) ([''mixed'', ''mixed types''] ! k) (f k)"
    "\<forall>k<2. \<forall>l<2. k \<noteq> l \<longrightarrow> span (f k) \<inter> span (f l) = {}"
    by (auto simp: numeral_2_eq_2)
  have "occurrence (coveringText [sample_package]) ''mixed'' (f 0)"
    "occurrence (coveringText [sample_package]) ''mixed types'' (f (Suc 0))"
    using f(1) [rule_format, of 0] f(1) [rule_format, of "Suc 0"] by simp_all
  with f(2) [rule_format, of 0 "Suc 0"] show ?thesis by (intro exI [of _ f]) simp
qed

text \<open>C37. The owner of a path is the last package that claimed it, so isolation is checked against that one only. There
  is an intent with an accepted plan in which two packages of one generation may change the same file and no chain of
  dependencies orders them.\<close>

theorem accepted_writers_unordered:
  "\<exists>i p a b. DeliveryPlan_Validate i p = None \<and> a \<in> set (dp_packages p) \<and> b \<in> set (dp_packages p) \<and>
     wp_id a \<noteq> wp_id b \<and> set (clean_paths a) \<inter> set (clean_paths b) \<noteq> {} \<and>
     (wp_id a, wp_id b) \<notin> (dep_rel (dp_packages p))\<^sup>* \<and> (wp_id b, wp_id a) \<notin> (dep_rel (dp_packages p))\<^sup>*"
proof -
  let ?b = "sample_package\<lparr>wp_id := ''wp-c''\<rparr>"
  have "DeliveryPlan_Validate sample_intent unordered_writers = None" by code_simp
  moreover have "\<not> dependencyOrdered (dp_packages unordered_writers) ''wp-a'' ''wp-c''" by code_simp
  moreover have "''src/a.go'' \<in> set (clean_paths sample_package)" by code_simp
  moreover have "clean_paths ?b = clean_paths sample_package" by (simp add: clean_paths_def)
  moreover have "sample_package \<in> set (dp_packages unordered_writers)" "?b \<in> set (dp_packages unordered_writers)"
    by (simp_all add: unordered_writers_def)
  moreover have "wp_id sample_package = ''wp-a''" "wp_id ?b = ''wp-c''"
    by (simp_all add: sample_package_def)
  ultimately show ?thesis
    unfolding dependencyOrdered_iff
    by (intro exI [of _ sample_intent] exI [of _ unordered_writers] exI [of _ sample_package] exI [of _ ?b]) auto
qed

end
