(* ===== verification/Handoff_State.thy ===== *)
theory Handoff_State
  imports Plan_Validity
begin

text \<open>
  The delivery record as a value (\<^verbatim>\<open>internal/handoff/record.go\<close>, \<^verbatim>\<open>reconcile.go\<close>): acceptances, findings and runs, which are
  only ever appended; the completion evidence \<^verbatim>\<open>Assess\<close> computes from a plan, a projection and the record, and the state
  \<^verbatim>\<open>Derive\<close> reduces it to (\<^verbatim>\<open>state.go\<close>).

  A reason of the evidence and a detail of the status are constructors with the values their sentences quote. The projection
  is a file, and the YAML parser, which is a third-party package, is the parameter \<open>yaml\<close>. A time is a number of seconds.
\<close>

section \<open>The record\<close>

definition RecordSchemaVersion :: int where
  "RecordSchemaVersion = 1"

record Acceptance =
  acc_criterionID :: string
  acc_by :: string
  acc_note :: string
  acc_at :: int

record Invalidation =
  inv_seq :: int
  inv_criterionID :: string
  inv_by :: string
  inv_reason :: string
  inv_evidence :: string
  inv_previousState :: string
  inv_at :: int

record RunRef =
  rr_runID :: string
  rr_startedAt :: int
  rr_reason :: string

record RemediationRef =
  rf_seq :: int
  rf_digest :: string
  rf_authorizedBy :: string
  rf_authorizedAt :: "int option"

record DeliveryRecord =
  dr_schemaVersion :: int
  dr_projectID :: string
  dr_intent :: Intent
  dr_intentDigest :: string
  dr_stateDir :: string
  dr_worktree :: string
  dr_createdAt :: int
  dr_updatedAt :: int
  dr_runs :: "RunRef list"
  dr_acceptances :: "Acceptance list"
  dr_invalidations :: "Invalidation list"
  dr_remediations :: "RemediationRef list"

definition CriterionMet :: string where
  "CriterionMet = ''met''"

definition ReasonInitial :: string where
  "ReasonInitial = ''initial''"

definition ReasonResumed :: string where
  "ReasonResumed = ''resumed''"

definition AppendRun :: "DeliveryRecord \<Rightarrow> string \<Rightarrow> string \<Rightarrow> int \<Rightarrow> DeliveryRecord" where
  "AppendRun r runID reason now =
     r\<lparr>dr_runs := dr_runs r @ [\<lparr>rr_runID = runID, rr_startedAt = now, rr_reason = reason\<rparr>], dr_updatedAt := now\<rparr>"

definition LatestRun :: "DeliveryRecord \<Rightarrow> RunRef option" where
  "LatestRun r = (if dr_runs r = [] then None else Some (last (dr_runs r)))"

datatype record_conflict =
    NoSuchCriterion string string
  | AcceptDelivered string
  | AcceptUnattributed string
  | InvalidateHuman string
  | InvalidateUnattributed string
  | InvalidateNoReason string
  | InvalidateNoEvidence string
  | AlreadyInvalidated string Invalidation
  | NotCurrentlyMet string

definition record_criterion :: "DeliveryRecord \<Rightarrow> string \<Rightarrow> Criterion option" where
  "record_criterion r c = find (\<lambda>x. cn_id x = c) (in_acceptance (dr_intent r))"

definition Accept :: "DeliveryRecord \<Rightarrow> string \<Rightarrow> string \<Rightarrow> string \<Rightarrow> int \<Rightarrow> record_conflict + DeliveryRecord" where
  "Accept r c by' note' now =
     (case record_criterion r c of
        None \<Rightarrow> Inl (NoSuchCriterion (dr_projectID r) c)
      | Some cn \<Rightarrow>
          if \<not> IsHuman cn then Inl (AcceptDelivered c)
          else if blank by' then Inl (AcceptUnattributed c)
          else if list_ex (\<lambda>a. acc_criterionID a = c) (dr_acceptances r) then Inr r
          else Inr (r\<lparr>dr_acceptances := dr_acceptances r @
                  [\<lparr>acc_criterionID = c, acc_by = TrimSpace by', acc_note = TrimSpace note', acc_at = now\<rparr>],
                dr_updatedAt := now\<rparr>))"

definition LatestInvalidation :: "DeliveryRecord \<Rightarrow> string \<Rightarrow> Invalidation option" where
  "LatestInvalidation r c = find (\<lambda>inv. inv_criterionID inv = c) (rev (dr_invalidations r))"

section \<open>The evidence\<close>

record InvalidatedCriterion =
  ic_criterionID :: string
  ic_invalidation :: int
  ic_by :: string
  ic_reason :: string
  ic_evidence :: string
  ic_at :: int
  ic_previousState :: string
  ic_remedialPackages :: "string list"

datatype evidence_reason =
    NoProjectionYet
  | PackagesIncomplete nat nat "string list"
  | GatesNotMet nat "string list"
  | CriteriaNotMet "string list"
  | CriterionWithdrawn InvalidatedCriterion
  | AwaitingAcceptance "string list"
  | BlockingWork "string list"
  | NoAcceptedCommit

record Evidence =
  evd_met :: bool
  evd_required :: "string list"
  evd_complete :: "string list"
  evd_outstanding :: "string list"
  evd_gateNotMet :: "string list"
  evd_acceptanceMet :: "string list"
  evd_acceptanceOutstanding :: "string list"
  evd_awaitingHuman :: "string list"
  evd_invalidated :: "InvalidatedCriterion list"
  evd_blocking :: "string list"
  evd_mergedMainSha :: string
  evd_reasons :: "evidence_reason list"

definition empty_evidence :: Evidence where
  "empty_evidence =
     \<lparr>evd_met = False, evd_required = [], evd_complete = [], evd_outstanding = [], evd_gateNotMet = [],
      evd_acceptanceMet = [], evd_acceptanceOutstanding = [], evd_awaitingHuman = [], evd_invalidated = [],
      evd_blocking = [], evd_mergedMainSha = [], evd_reasons = []\<rparr>"

record projection_row =
  pr_taskID :: string
  pr_status :: string
  pr_gate :: string

record delivery_projection =
  pj_schemaVersion :: int
  pj_projectID :: string
  pj_mainSha :: string
  pj_tasks :: "projection_row list"

datatype projection_file = NoProjectionFile | ProjectionUnread string | ProjectionText string

datatype assess_error =
    ReadingProjection string
  | ProjectionNotYAML string
  | ProjectionSchema int
  | ProjectionOfAnother string string

type_synonym yaml_parser = "string \<Rightarrow> string + delivery_projection"

definition readProjection :: "yaml_parser \<Rightarrow> projection_file \<Rightarrow> assess_error + delivery_projection option" where
  "readProjection yaml f =
     (case f of
        NoProjectionFile \<Rightarrow> Inr None
      | ProjectionUnread e \<Rightarrow> Inl (ReadingProjection e)
      | ProjectionText t \<Rightarrow>
          (case yaml t of
             Inl e \<Rightarrow> Inl (ProjectionNotYAML e)
           | Inr p \<Rightarrow> if pj_schemaVersion p \<noteq> 1 then Inl (ProjectionSchema (pj_schemaVersion p)) else Inr (Some p)))"

definition acceptedStatuses :: "string list" where
  "acceptedStatuses = [''merged'', ''verified'', ''complete'']"

text \<open>The row of a package: the last one of its name.\<close>

definition row_of :: "delivery_projection \<Rightarrow> string \<Rightarrow> projection_row option" where
  "row_of pj t = find (\<lambda>r. pr_taskID r = t) (rev (pj_tasks pj))"

datatype standing = StandsUnseen | StandsBlocked | StandsUnaccepted | StandsUnearned | StandsComplete

definition package_standing :: "delivery_projection \<Rightarrow> string \<Rightarrow> standing" where
  "package_standing pj t =
     (case row_of pj t of
        None \<Rightarrow> StandsUnseen
      | Some r \<Rightarrow>
          if pr_status r = ''blocked'' then StandsBlocked
          else if pr_status r \<notin> set acceptedStatuses then StandsUnaccepted
          else if pr_gate r \<noteq> ''met'' then StandsUnearned
          else StandsComplete)"

definition packages_standing :: "delivery_projection \<Rightarrow> WorkPackage list \<Rightarrow> standing set \<Rightarrow> string list" where
  "packages_standing pj all S = sort (map wp_id (filter (\<lambda>wp. package_standing pj (wp_id wp) \<in> S) all))"

definition repairedBy :: "DeliveryPlan \<Rightarrow> string \<Rightarrow> int \<Rightarrow> string list" where
  "repairedBy p c seq =
     sort (concat (map (\<lambda>rm. if RepairsInvalidation rm c seq
                             then filter (\<lambda>i. i \<notin> Superseded p) (PackagesFor rm c) else []) (dp_remediations p)))"

text \<open>How often the packages claim a criterion, and how often the complete ones do.\<close>

definition claims :: "string \<Rightarrow> WorkPackage list \<Rightarrow> nat" where
  "claims c pkgs = sum_list (map (\<lambda>wp. length (filter (\<lambda>s. s = c) (wp_satisfies wp))) pkgs)"

definition delivered :: "delivery_projection \<Rightarrow> WorkPackage list \<Rightarrow> string \<Rightarrow> bool" where
  "delivered pj all c =
     (let done = claims c (filter (\<lambda>wp. package_standing pj (wp_id wp) = StandsComplete) all) in
      claims c all > 0 \<and> claims c all = done)"

definition latest_finding :: "Invalidation list \<Rightarrow> string \<Rightarrow> Invalidation option" where
  "latest_finding invs c = find (\<lambda>inv. inv_criterionID inv = c) (rev invs)"

text \<open>The entry of the evidence a finding leaves standing.\<close>

definition withdrawn :: "delivery_projection \<Rightarrow> DeliveryPlan \<Rightarrow> Invalidation list \<Rightarrow> string \<Rightarrow> InvalidatedCriterion option" where
  "withdrawn pj p invs c =
     (case latest_finding invs c of
        None \<Rightarrow> None
      | Some fnd \<Rightarrow>
          let repaired = repairedBy p c (inv_seq fnd) in
          if repaired = [] \<or> \<not> delivered pj (AllPackages p) c then
            Some \<lparr>ic_criterionID = c, ic_invalidation = inv_seq fnd, ic_by = inv_by fnd, ic_reason = inv_reason fnd,
                  ic_evidence = inv_evidence fnd, ic_at = inv_at fnd, ic_previousState = inv_previousState fnd,
                  ic_remedialPackages = repaired\<rparr>
          else None)"

definition criterion_met :: "delivery_projection \<Rightarrow> DeliveryPlan \<Rightarrow> Invalidation list \<Rightarrow> string \<Rightarrow> bool" where
  "criterion_met pj p invs c = (delivered pj (AllPackages p) c \<and> withdrawn pj p invs c = None)"

definition answered :: "Acceptance list \<Rightarrow> string \<Rightarrow> bool" where
  "answered accepted c = list_ex (\<lambda>a. acc_criterionID a = c) accepted"

text \<open>What is still missing, in the order it is reported.\<close>

definition evidence_reasons :: "Intent \<Rightarrow> Evidence \<Rightarrow> evidence_reason list" where
  "evidence_reasons i ev =
     problem_if (evd_outstanding ev \<noteq> [])
       (PackagesIncomplete (length (evd_outstanding ev)) (length (evd_required ev)) (evd_outstanding ev)) @
     problem_if (evd_gateNotMet ev \<noteq> []) (GatesNotMet (length (evd_gateNotMet ev)) (evd_gateNotMet ev)) @
     problem_if (evd_acceptanceOutstanding ev \<noteq> []) (CriteriaNotMet (evd_acceptanceOutstanding ev)) @
     map CriterionWithdrawn (evd_invalidated ev) @
     problem_if (evd_awaitingHuman ev \<noteq> []) (AwaitingAcceptance (evd_awaitingHuman ev)) @
     problem_if (evd_blocking ev \<noteq> []) (BlockingWork (evd_blocking ev)) @
     problem_if (pol_needMerge (in_policy i) \<and> blank (evd_mergedMainSha ev)) NoAcceptedCommit"

text \<open>The assessment before anything has been published, and over a projection.\<close>

definition assess_unpublished :: "DeliveryPlan \<Rightarrow> Intent \<Rightarrow> Acceptance list \<Rightarrow> Evidence" where
  "assess_unpublished p i accepted =
     (let required = sort (map wp_id (AllPackages p)) in
      empty_evidence
        \<lparr>evd_required := required, evd_outstanding := required,
         evd_acceptanceMet := sort (map cn_id (filter (\<lambda>c. IsHuman c \<and> answered accepted (cn_id c)) (in_acceptance i))),
         evd_awaitingHuman := sort (map cn_id (filter (\<lambda>c. IsHuman c \<and> \<not> answered accepted (cn_id c)) (in_acceptance i))),
         evd_acceptanceOutstanding := sort (map cn_id (filter (\<lambda>c. \<not> IsHuman c) (in_acceptance i))),
         evd_reasons := [NoProjectionYet]\<rparr>)"

definition assess_published ::
  "DeliveryPlan \<Rightarrow> Intent \<Rightarrow> delivery_projection \<Rightarrow> Acceptance list \<Rightarrow> Invalidation list \<Rightarrow> Evidence" where
  "assess_published p i pj accepted invs =
     (let all = AllPackages p;
          met = (\<lambda>c. if IsHuman c then answered accepted (cn_id c) else criterion_met pj p invs (cn_id c));
          ev = empty_evidence
            \<lparr>evd_required := sort (map wp_id all),
             evd_complete := packages_standing pj all {StandsComplete},
             evd_outstanding := packages_standing pj all {StandsUnseen, StandsBlocked, StandsUnaccepted, StandsUnearned},
             evd_gateNotMet := packages_standing pj all {StandsUnearned},
             evd_blocking := packages_standing pj all {StandsBlocked},
             evd_acceptanceMet := sort (map cn_id (filter met (in_acceptance i))),
             evd_acceptanceOutstanding := sort (map cn_id (filter (\<lambda>c. \<not> IsHuman c \<and> \<not> met c) (in_acceptance i))),
             evd_awaitingHuman := sort (map cn_id (filter (\<lambda>c. IsHuman c \<and> \<not> met c) (in_acceptance i))),
             evd_invalidated := sort_key ic_criterionID
               (List.map_filter (\<lambda>c. if IsHuman c then None else withdrawn pj p invs (cn_id c)) (in_acceptance i)),
             evd_mergedMainSha := pj_mainSha pj\<rparr>;
          reasons = evidence_reasons i ev
      in ev\<lparr>evd_reasons := reasons, evd_met := (reasons = [])\<rparr>)"

definition Assess ::
  "yaml_parser \<Rightarrow> DeliveryPlan \<Rightarrow> Intent \<Rightarrow> projection_file \<Rightarrow> Acceptance list \<Rightarrow> Invalidation list \<Rightarrow> assess_error + Evidence" where
  "Assess yaml p i f accepted invs =
     (case readProjection yaml f of
        Inl e \<Rightarrow> Inl e
      | Inr None \<Rightarrow> Inr (assess_unpublished p i accepted)
      | Inr (Some pj) \<Rightarrow>
          if pj_projectID pj \<noteq> [] \<and> pj_projectID pj \<noteq> in_projectID i
          then Inl (ProjectionOfAnother (pj_projectID pj) (in_projectID i))
          else Inr (assess_published p i pj accepted invs))"

section \<open>Withdrawing a criterion\<close>

definition Invalidate ::
  "DeliveryRecord \<Rightarrow> string \<Rightarrow> Evidence \<Rightarrow> string \<Rightarrow> string \<Rightarrow> string \<Rightarrow> int \<Rightarrow> record_conflict + DeliveryRecord" where
  "Invalidate r c prior by' reason evidence now =
     (case record_criterion r c of
        None \<Rightarrow> Inl (NoSuchCriterion (dr_projectID r) c)
      | Some cn \<Rightarrow>
          if IsHuman cn then Inl (InvalidateHuman c)
          else if blank by' then Inl (InvalidateUnattributed c)
          else if blank reason then Inl (InvalidateNoReason c)
          else if blank evidence then Inl (InvalidateNoEvidence c)
          else
            let met = containsPath (evd_acceptanceMet prior) c in
            case (LatestInvalidation r c, met) of
              (Some fnd, False) \<Rightarrow> Inl (AlreadyInvalidated c fnd)
            | (None, False) \<Rightarrow> Inl (NotCurrentlyMet c)
            | (_, True) \<Rightarrow>
                Inr (r\<lparr>dr_invalidations := dr_invalidations r @
                    [\<lparr>inv_seq = int (length (dr_invalidations r)) + 1, inv_criterionID = c, inv_by = TrimSpace by',
                      inv_reason = TrimSpace reason, inv_evidence = TrimSpace evidence, inv_previousState = CriterionMet,
                      inv_at = now\<rparr>],
                  dr_updatedAt := now\<rparr>))"

definition StandingInvalidations :: "DeliveryRecord \<Rightarrow> Evidence \<Rightarrow> string \<Rightarrow> Invalidation option" where
  "StandingInvalidations r prior c =
     (if list_ex (\<lambda>x. cn_id x = c) (in_acceptance (dr_intent r)) \<and> \<not> containsPath (evd_acceptanceMet prior) c
      then LatestInvalidation r c else None)"

section \<open>The state of a delivery\<close>

datatype DeliveryState =
    StateNotStarted | StatePlanning | StateQueued | StateRunning | StateBlocked | StateCompleted | StateFailed

record RunObservation =
  ob_live :: bool
  ob_runID :: string
  ob_stage :: string
  ob_boundaries :: "string list"
  ob_finished :: bool
  ob_outcome :: string

datatype status_detail =
    DetailNotStarted
  | DetailComplete
  | DetailRunningWaiting "string list"
  | DetailRunning string "(nat \<times> nat) option"
  | DetailRunFailed
  | DetailNeedsPerson "string list"
  | DetailNotAccepted "evidence_reason list"
  | DetailPlanning
  | DetailPlanReady nat

record Status =
  st_projectID :: string
  st_state :: DeliveryState
  st_detail :: status_detail
  st_runID :: string
  st_live :: bool
  st_packagesTotal :: nat
  st_packagesComplete :: nat
  st_criteriaTotal :: nat
  st_criteriaMet :: nat
  st_boundaries :: "string list"
  st_evidence :: Evidence
  st_observedAt :: int

definition describeRunning :: "RunObservation \<Rightarrow> nat \<Rightarrow> nat \<Rightarrow> status_detail" where
  "describeRunning obs all_n done_n =
     DetailRunning (if blank (ob_stage obs) then ''working'' else ob_stage obs)
       (if all_n > 0 then Some (done_n, all_n) else None)"

definition derive_state ::
  "bool \<Rightarrow> DeliveryPlan \<Rightarrow> bool \<Rightarrow> RunObservation \<Rightarrow> Evidence \<Rightarrow> nat \<Rightarrow> nat \<Rightarrow> DeliveryState \<times> status_detail" where
  "derive_state admitted plan planFound obs ev all_n done_n =
     (let fallthrough =
        (if \<not> planFound then (StatePlanning, DetailPlanning)
         else (StateQueued, DetailPlanReady (length (dp_packages plan))))
      in if \<not> admitted then (StateNotStarted, DetailNotStarted)
         else if evd_met ev then (StateCompleted, DetailComplete)
         else if ob_live obs \<and> ob_boundaries obs \<noteq> [] then (StateBlocked, DetailRunningWaiting (ob_boundaries obs))
         else if ob_live obs then (StateRunning, describeRunning obs all_n done_n)
         else if ob_finished obs then
           if ob_outcome obs = ''failed'' then (StateFailed, DetailRunFailed)
           else if ob_outcome obs \<in> {''blocked-human'', ''awaiting-auth''} then (StateBlocked, DetailNeedsPerson (ob_boundaries obs))
           else if ob_outcome obs = ''completed'' then (StateBlocked, DetailNotAccepted (evd_reasons ev))
           else fallthrough
         else fallthrough)"

definition Derive ::
  "string \<Rightarrow> bool \<Rightarrow> DeliveryPlan \<Rightarrow> bool \<Rightarrow> RunObservation \<Rightarrow> Evidence \<Rightarrow> int \<Rightarrow> Status" where
  "Derive projectID admitted plan planFound obs ev now =
     (let all_n = (if planFound then length (AllPackages plan) else 0);
          done_n = (if planFound then length (evd_complete ev) else 0);
          (state, detail) = derive_state admitted plan planFound obs ev all_n done_n
      in \<lparr>st_projectID = projectID, st_state = state, st_detail = detail, st_runID = ob_runID obs, st_live = ob_live obs,
          st_packagesTotal = all_n, st_packagesComplete = done_n,
          st_criteriaTotal = length (evd_acceptanceMet ev) + length (evd_acceptanceOutstanding ev) + length (evd_awaitingHuman ev),
          st_criteriaMet = length (evd_acceptanceMet ev), st_boundaries = ob_boundaries obs, st_evidence = ev,
          st_observedAt = now\<rparr>)"

section \<open>Lemmas\<close>

lemma claims_0: "claims c pkgs = 0 \<longleftrightarrow> (\<forall>wp\<in>set pkgs. c \<notin> set (wp_satisfies wp))"
  by (auto simp: claims_def sum_list_eq_0_iff filter_empty_conv)

lemma claims_split: "claims c pkgs = claims c (filter P pkgs) + claims c (filter (\<lambda>wp. \<not> P wp) pkgs)"
  by (induction pkgs) (auto simp: claims_def)

lemma delivered_iff:
  "delivered pj all c \<longleftrightarrow>
     (\<exists>wp\<in>set all. c \<in> set (wp_satisfies wp)) \<and>
     (\<forall>wp\<in>set all. c \<in> set (wp_satisfies wp) \<longrightarrow> package_standing pj (wp_id wp) = StandsComplete)"
proof -
  let ?P = "\<lambda>wp. package_standing pj (wp_id wp) = StandsComplete"
  have "delivered pj all c \<longleftrightarrow> claims c all \<noteq> 0 \<and> claims c (filter (\<lambda>wp. \<not> ?P wp) all) = 0"
    using claims_split [of c all ?P] by (auto simp: delivered_def Let_def)
  then show ?thesis unfolding claims_0 by auto
qed

lemma sort_Nil [simp]: "sort (xs :: string list) = [] \<longleftrightarrow> xs = []"
  by (metis length_0_conv length_sort)

lemma sort_key_Nil [simp]: "sort_key f xs = [] \<longleftrightarrow> xs = []"
  by (metis length_0_conv length_sort)

lemma StandsComplete_iff:
  "package_standing pj t = StandsComplete \<longleftrightarrow>
     (\<exists>r. row_of pj t = Some r \<and> pr_status r \<in> {''merged'', ''verified'', ''complete''} \<and> pr_gate r = ''met'')"
  by (auto simp: package_standing_def acceptedStatuses_def split: option.splits)

lemma repairedBy_Nil:
  "repairedBy p c seq = [] \<longleftrightarrow>
     \<not> (\<exists>rm\<in>set (dp_remediations p). RepairsInvalidation rm c seq \<and>
          (\<exists>wp\<in>set (rm_packages rm). c \<in> set (wp_satisfies wp) \<and> wp_id wp \<notin> Superseded p))"
proof -
  have "(if RepairsInvalidation rm c seq then filter (\<lambda>i. i \<notin> Superseded p) (PackagesFor rm c) else []) = [] \<longleftrightarrow>
      \<not> (RepairsInvalidation rm c seq \<and> (\<exists>wp\<in>set (rm_packages rm). c \<in> set (wp_satisfies wp) \<and> wp_id wp \<notin> Superseded p))" for rm
    by (auto simp: PackagesFor_def containsPath_def list_ex_iff filter_empty_conv)
  then show ?thesis
    unfolding repairedBy_def sort_Nil concat_map_Nil by blast
qed

lemma packages_standing_Nil:
  "packages_standing pj all S = [] \<longleftrightarrow> (\<forall>wp\<in>set all. package_standing pj (wp_id wp) \<notin> S)"
  by (auto simp: packages_standing_def filter_empty_conv)

lemma criterion_met_iff:
  "criterion_met pj p invs c \<longleftrightarrow>
     delivered pj (AllPackages p) c \<and>
     (\<forall>fnd. latest_finding invs c = Some fnd \<longrightarrow> repairedBy p c (inv_seq fnd) \<noteq> [])"
  by (auto simp: criterion_met_def withdrawn_def Let_def split: option.splits)

lemma withdrawn_not_met: "withdrawn pj p invs c \<noteq> None \<Longrightarrow> \<not> criterion_met pj p invs c"
  by (simp add: criterion_met_def)

lemma answered_iff: "answered accepted c \<longleftrightarrow> c \<in> acc_criterionID ` set accepted"
  by (auto simp: answered_def list_ex_iff)

lemma assess_published_met:
  "evd_met (assess_published p i pj accepted invs) \<longleftrightarrow>
     (\<forall>wp\<in>set (AllPackages p). package_standing pj (wp_id wp) = StandsComplete) \<and>
     (\<forall>c\<in>set (in_acceptance i).
        if IsHuman c then answered accepted (cn_id c) else criterion_met pj p invs (cn_id c)) \<and>
     (pol_needMerge (in_policy i) \<longrightarrow> \<not> blank (pj_mainSha pj))"
proof -
  have st: "package_standing pj t \<notin> {StandsUnseen, StandsBlocked, StandsUnaccepted, StandsUnearned} \<longleftrightarrow>
      package_standing pj t = StandsComplete" for t
    by (cases "package_standing pj t") auto
  show ?thesis
    unfolding assess_published_def Let_def evidence_reasons_def
    by (simp add: packages_standing_Nil st map_filter_Nil filter_empty_conv del: insert_iff)
       (use withdrawn_not_met in \<open>fastforce split: if_splits\<close>)
qed

lemma acceptanceMet_published:
  "c \<in> set (evd_acceptanceMet (assess_published p i pj acc invs)) \<longleftrightarrow>
     (\<exists>x\<in>set (in_acceptance i). cn_id x = c \<and> (if IsHuman x then answered acc c else criterion_met pj p invs c))"
proof -
  have "evd_acceptanceMet (assess_published p i pj acc invs) =
      sort (map cn_id (filter (\<lambda>c. if IsHuman c then answered acc (cn_id c) else criterion_met pj p invs (cn_id c)) (in_acceptance i)))"
    by (simp add: assess_published_def Let_def)
  then show ?thesis by auto
qed

lemma Assess_Inr:
  assumes "Assess yaml p i f accepted invs = Inr ev"
  shows "(readProjection yaml f = Inr None \<and> ev = assess_unpublished p i accepted) \<or>
    (\<exists>pj. readProjection yaml f = Inr (Some pj) \<and> ev = assess_published p i pj accepted invs)"
  using assms by (auto simp: Assess_def split: sum.splits option.splits if_splits)

lemma Derive_completed:
  "st_state (Derive pid admitted p found obs ev now) = StateCompleted \<longleftrightarrow> admitted \<and> evd_met ev"
  by (auto simp: Derive_def derive_state_def Let_def split: prod.splits if_splits)

lemma unpublished_unmet [simp]: "\<not> evd_met (assess_unpublished p i accepted)"
  by (simp add: assess_unpublished_def empty_evidence_def Let_def)

section \<open>Histories\<close>

text \<open>What every append-only list of a state promises its readers: an entry, once there, stays where it is.\<close>

locale append_only =
  fixes step :: "'s \<Rightarrow> 's \<Rightarrow> bool" and log :: "'s \<Rightarrow> 'e list"
  assumes step_extends: "step s t \<Longrightarrow> prefix (log s) (log t)"
begin

lemma extends: "step\<^sup>*\<^sup>* s t \<Longrightarrow> prefix (log s) (log t)"
  by (induction rule: rtranclp_induct) (auto dest: step_extends intro: prefix_order.trans)

lemma entry_stays: "step\<^sup>*\<^sup>* s t \<Longrightarrow> k < length (log s) \<Longrightarrow> log t ! k = log s ! k \<and> k < length (log t)"
  using extends [of s t] by (auto simp: prefix_def nth_append)

end

text \<open>The journal of authorizations grows when a remediation is authorized, by that one and, the first time, by those
  that were there before.\<close>

definition JournalRemediations :: "DeliveryRecord \<Rightarrow> RemediationRef list \<Rightarrow> int \<Rightarrow> DeliveryRecord" where
  "JournalRemediations r refs at = r\<lparr>dr_remediations := dr_remediations r @ refs, dr_updatedAt := at\<rparr>"

text \<open>All operations that change a record.\<close>

inductive record_step :: "DeliveryRecord \<Rightarrow> DeliveryRecord \<Rightarrow> bool" where
  accept: "Accept r c by' note' now = Inr r' \<Longrightarrow> record_step r r'"
| invalidate: "Invalidate r c prior by' reason evidence now = Inr r' \<Longrightarrow> record_step r r'"
| append_run: "record_step r (AppendRun r runID reason now)"
| locate: "record_step r (r\<lparr>dr_stateDir := d, dr_worktree := w\<rparr>)"
| journal: "record_step r (JournalRemediations r refs at)"

inductive_cases record_stepE: "record_step r r'"

lemma Accept_Inr:
  assumes "Accept r c by' note' now = Inr r'"
  shows "\<exists>cn. record_criterion r c = Some cn \<and> IsHuman cn \<and> \<not> blank by' \<and>
    (if c \<in> acc_criterionID ` set (dr_acceptances r) then r' = r
     else r' = r\<lparr>dr_acceptances := dr_acceptances r @
            [\<lparr>acc_criterionID = c, acc_by = TrimSpace by', acc_note = TrimSpace note', acc_at = now\<rparr>], dr_updatedAt := now\<rparr>)"
  using assms by (auto simp: Accept_def list_ex_iff split: option.splits if_splits)

lemma Invalidate_Inr:
  assumes "Invalidate r c prior by' reason evidence now = Inr r'"
  shows "\<exists>cn. record_criterion r c = Some cn \<and> \<not> IsHuman cn \<and> \<not> blank by' \<and> \<not> blank reason \<and> \<not> blank evidence \<and>
    c \<in> set (evd_acceptanceMet prior) \<and>
    r' = r\<lparr>dr_invalidations := dr_invalidations r @
            [\<lparr>inv_seq = int (length (dr_invalidations r)) + 1, inv_criterionID = c, inv_by = TrimSpace by',
              inv_reason = TrimSpace reason, inv_evidence = TrimSpace evidence, inv_previousState = CriterionMet,
              inv_at = now\<rparr>], dr_updatedAt := now\<rparr>"
  using assms
  by (auto simp: Invalidate_def Let_def containsPath_def list_ex_iff split: option.splits if_splits bool.splits)

lemma record_step_extends:
  assumes "record_step r r'"
  shows "dr_intent r' = dr_intent r" "dr_intentDigest r' = dr_intentDigest r" "dr_projectID r' = dr_projectID r"
    "prefix (dr_runs r) (dr_runs r')" "prefix (dr_acceptances r) (dr_acceptances r')"
    "prefix (dr_invalidations r) (dr_invalidations r')" "prefix (dr_remediations r) (dr_remediations r')"
  using assms
  by (auto elim!: record_stepE dest!: Accept_Inr Invalidate_Inr simp: AppendRun_def JournalRemediations_def split: if_splits)

interpretation acceptances: append_only record_step dr_acceptances
  by unfold_locales (rule record_step_extends)

interpretation invalidations: append_only record_step dr_invalidations
  by unfold_locales (rule record_step_extends)

interpretation runs: append_only record_step dr_runs
  by unfold_locales (rule record_step_extends)

interpretation remediations: append_only record_step dr_remediations
  by unfold_locales (rule record_step_extends)

lemma record_steps_keep:
  "record_step\<^sup>*\<^sup>* r r' \<Longrightarrow> dr_intent r' = dr_intent r \<and> dr_intentDigest r' = dr_intentDigest r \<and> dr_projectID r' = dr_projectID r"
  by (induction rule: rtranclp_induct) (auto dest: record_step_extends)

lemma record_steps_schema: "record_step\<^sup>*\<^sup>* r r' \<Longrightarrow> dr_schemaVersion r' = dr_schemaVersion r"
proof (induction rule: rtranclp_induct)
  case (step r1 r2)
  from step(2) have "dr_schemaVersion r2 = dr_schemaVersion r1"
    by (auto elim!: record_stepE dest!: Accept_Inr Invalidate_Inr simp: AppendRun_def JournalRemediations_def split: if_splits)
  with step show ?case by simp
qed simp

text \<open>A record whose findings are numbered by their position and attributed, and whose acceptances are each the one
  attributed answer to a criterion of a person's.\<close>

definition record_wf :: "DeliveryRecord \<Rightarrow> bool" where
  "record_wf r \<longleftrightarrow>
     (\<forall>k<length (dr_invalidations r).
        let fnd = dr_invalidations r ! k in
        inv_seq fnd = int k + 1 \<and> inv_by fnd \<noteq> [] \<and> inv_reason fnd \<noteq> [] \<and> inv_evidence fnd \<noteq> [] \<and>
        (\<exists>cn\<in>set (in_acceptance (dr_intent r)). cn_id cn = inv_criterionID fnd \<and> \<not> IsHuman cn)) \<and>
     distinct (map acc_criterionID (dr_acceptances r)) \<and>
     (\<forall>a\<in>set (dr_acceptances r). acc_by a \<noteq> [] \<and>
        (\<exists>cn\<in>set (in_acceptance (dr_intent r)). cn_id cn = acc_criterionID a \<and> IsHuman cn))"

lemma record_criterion_Some: "record_criterion r c = Some cn \<Longrightarrow> cn \<in> set (in_acceptance (dr_intent r)) \<and> cn_id cn = c"
  by (auto simp: record_criterion_def find_Some_iff)

lemma record_step_wf:
  assumes "record_step r r'" "record_wf r"
  shows "record_wf r'"
  using assms
proof (cases rule: record_step.cases)
  case (accept c by' note' now)
  from Accept_Inr [OF this] obtain cn where "record_criterion r c = Some cn" "IsHuman cn" "\<not> blank by'"
    "if c \<in> acc_criterionID ` set (dr_acceptances r) then r' = r
     else r' = r\<lparr>dr_acceptances := dr_acceptances r @
            [\<lparr>acc_criterionID = c, acc_by = TrimSpace by', acc_note = TrimSpace note', acc_at = now\<rparr>], dr_updatedAt := now\<rparr>"
    by blast
  with assms(2) record_criterion_Some [of r c cn] show ?thesis
    by (auto simp: record_wf_def blank_def split: if_splits)
next
  case (invalidate c prior by' reason evidence now)
  from Invalidate_Inr [OF this] obtain cn where cn: "record_criterion r c = Some cn" "\<not> IsHuman cn"
    and b: "\<not> blank by'" "\<not> blank reason" "\<not> blank evidence"
    and r': "r' = r\<lparr>dr_invalidations := dr_invalidations r @
            [\<lparr>inv_seq = int (length (dr_invalidations r)) + 1, inv_criterionID = c, inv_by = TrimSpace by',
              inv_reason = TrimSpace reason, inv_evidence = TrimSpace evidence, inv_previousState = CriterionMet,
              inv_at = now\<rparr>], dr_updatedAt := now\<rparr>"
    by blast
  have "cn \<in> set (in_acceptance (dr_intent r))" "cn_id cn = c" using record_criterion_Some [OF cn(1)] by auto
  with assms(2) cn(2) b show ?thesis
    unfolding record_wf_def r' by (auto simp: blank_def nth_append less_Suc_eq Let_def)
qed (simp_all add: record_wf_def AppendRun_def JournalRemediations_def)

lemma record_steps_wf: "record_step\<^sup>*\<^sup>* r r' \<Longrightarrow> record_wf r \<Longrightarrow> record_wf r'"
  by (induction rule: rtranclp_induct) (auto dest: record_step_wf)

section \<open>Sample records\<close>

definition sample_row :: projection_row where
  "sample_row = \<lparr>pr_taskID = ''wp-a'', pr_status = ''merged'', pr_gate = ''met''\<rparr>"

definition sample_projection :: delivery_projection where
  "sample_projection = \<lparr>pj_schemaVersion = 1, pj_projectID = ''demo'', pj_mainSha = ''abc'', pj_tasks = [sample_row]\<rparr>"

definition sample_yaml :: yaml_parser where
  "sample_yaml t = (if t = ''doc'' then Inr sample_projection else Inl ''not a projection'')"

definition sample_record :: DeliveryRecord where
  "sample_record =
     \<lparr>dr_schemaVersion = 1, dr_projectID = ''demo'', dr_intent = sample_intent, dr_intentDigest = ''d'', dr_stateDir = [],
      dr_worktree = [], dr_createdAt = 1, dr_updatedAt = 1, dr_runs = [],
      dr_acceptances = [\<lparr>acc_criterionID = ''ac-2'', acc_by = ''po'', acc_note = [], acc_at = 2\<rparr>],
      dr_invalidations = [], dr_remediations = []\<rparr>"

definition sample_evidence :: Evidence where
  "sample_evidence = assess_published sample_delivery sample_intent sample_projection (dr_acceptances sample_record) []"

lemma sample_assess:
  "Assess sample_yaml sample_delivery sample_intent (ProjectionText ''doc'') (dr_acceptances sample_record) [] = Inr sample_evidence"
  by (simp add: Assess_def readProjection_def sample_yaml_def sample_projection_def sample_evidence_def sample_intent_def)

definition sample_disproved :: DeliveryRecord where
  "sample_disproved = projr (Invalidate sample_record ''ac-1'' sample_evidence ''qa'' ''wrong'' ''issue 7'' 3)"

definition sample_observation :: RunObservation where
  "sample_observation =
     \<lparr>ob_live = False, ob_runID = ''r'', ob_stage = [], ob_boundaries = [], ob_finished = True, ob_outcome = ''completed''\<rparr>"

text \<open>A remediation, and a second one that replaces its package by one of the same name.\<close>

definition sample_remediation :: Remediation where
  "sample_remediation =
     \<lparr>rm_schemaVersion = 1, rm_projectID = ''demo'', rm_seq = 1, rm_repairs = [\<lparr>rep_criterionID = ''ac-1'', rep_invalidation = 1\<rparr>],
      rm_authorizedBy = ''po'', rm_authorizedAt = Some 4, rm_packages = [sample_package\<lparr>wp_id := ''wp-fix''\<rparr>], rm_supersedes = []\<rparr>"

definition replaced_by_namesake :: DeliveryPlan where
  "replaced_by_namesake = sample_delivery
     \<lparr>dp_remediations := [sample_remediation, sample_remediation\<lparr>rm_seq := 2, rm_supersedes := [''wp-fix'']\<rparr>]\<rparr>"

section \<open>Properties\<close>



text \<open>C21. Once a finding withdrew a criterion, nothing that is later appended to the record makes the criterion count as met
  while that finding is the latest one against it, but this: every package that claims it is complete, and a remediation
  of the plan answers that very finding with a package that is still standing. Until then the delivery is not completed,
  whatever its runs report.\<close>

theorem finding_reopens_delivery:
  assumes valid: "Intent_Validate url (dr_intent r) = None"
    and inv: "Invalidate r c prior by' reason evidence now = Inr r1"
    and later: "record_step\<^sup>*\<^sup>* r1 r2" "LatestInvalidation r2 c = LatestInvalidation r1 c"
    and ev: "Assess yaml p (dr_intent r2) f (dr_acceptances r2) (dr_invalidations r2) = Inr ev"
  shows "(c \<in> set (evd_acceptanceMet ev) \<longleftrightarrow>
      (\<exists>pj. readProjection yaml f = Inr (Some pj) \<and> (\<exists>wp\<in>set (AllPackages p). c \<in> set (wp_satisfies wp)) \<and>
         (\<forall>wp\<in>set (AllPackages p). c \<in> set (wp_satisfies wp) \<longrightarrow> package_standing pj (wp_id wp) = StandsComplete) \<and>
         (\<exists>rm\<in>set (dp_remediations p). RepairsInvalidation rm c (int (length (dr_invalidations r)) + 1) \<and>
            (\<exists>wp\<in>set (rm_packages rm). c \<in> set (wp_satisfies wp) \<and> wp_id wp \<notin> Superseded p)))) \<and>
    (c \<notin> set (evd_acceptanceMet ev) \<longrightarrow>
       st_state (Derive pid admitted p found obs ev t) \<noteq> StateCompleted)"
proof -
  from Invalidate_Inr [OF inv] obtain cn where cn: "record_criterion r c = Some cn" "\<not> IsHuman cn"
    and r1: "r1 = r\<lparr>dr_invalidations := dr_invalidations r @
            [\<lparr>inv_seq = int (length (dr_invalidations r)) + 1, inv_criterionID = c, inv_by = TrimSpace by',
              inv_reason = TrimSpace reason, inv_evidence = TrimSpace evidence, inv_previousState = CriterionMet,
              inv_at = now\<rparr>], dr_updatedAt := now\<rparr>" by blast
  have i2: "dr_intent r2 = dr_intent r" using record_steps_keep [OF later(1)] r1 by simp
  have in_i: "cn \<in> set (in_acceptance (dr_intent r))" "cn_id cn = c" using record_criterion_Some [OF cn(1)] by auto
  have only: "x = cn" if "x \<in> set (in_acceptance (dr_intent r))" "cn_id x = c" for x
    using valid that in_i unfolding Intent_Validate_None intent_wf_def by (auto simp: distinct_map inj_on_def)
  have fnd: "\<exists>fnd. latest_finding (dr_invalidations r2) c = Some fnd \<and> inv_seq fnd = int (length (dr_invalidations r)) + 1"
    using later(2) unfolding LatestInvalidation_def latest_finding_def r1 by simp
  then have crit: "criterion_met pj p (dr_invalidations r2) c \<longleftrightarrow>
      delivered pj (AllPackages p) c \<and> repairedBy p c (int (length (dr_invalidations r)) + 1) \<noteq> []" for pj
    unfolding criterion_met_iff by auto
  have pub: "c \<in> set (evd_acceptanceMet (assess_published p (dr_intent r2) pj acc (dr_invalidations r2))) \<longleftrightarrow>
      criterion_met pj p (dr_invalidations r2) c" for pj acc
    unfolding acceptanceMet_published i2 using in_i only cn(2) by metis
  have unp: "c \<notin> set (evd_acceptanceMet (assess_unpublished p (dr_intent r2) acc))" for acc
    using only cn(2) unfolding i2 by (auto simp: assess_unpublished_def Let_def)
  have "evd_met (assess_published p (dr_intent r2) pj acc (dr_invalidations r2)) \<Longrightarrow>
      criterion_met pj p (dr_invalidations r2) c" for pj acc
    using in_i cn(2) unfolding assess_published_met i2 by (auto split: if_splits)
  note met = this
  from Assess_Inr [OF ev] consider
      (none) "readProjection yaml f = Inr None" "ev = assess_unpublished p (dr_intent r2) (dr_acceptances r2)"
    | (some) pj where "readProjection yaml f = Inr (Some pj)"
        "ev = assess_published p (dr_intent r2) pj (dr_acceptances r2) (dr_invalidations r2)"
    by blast
  then show ?thesis
  proof cases
    case none
    with unp show ?thesis by (simp add: Derive_completed)
  next
    case some
    have "c \<in> set (evd_acceptanceMet ev) \<longleftrightarrow>
        delivered pj (AllPackages p) c \<and> repairedBy p c (int (length (dr_invalidations r)) + 1) \<noteq> []"
      using pub crit some(2) by simp
    moreover have "c \<notin> set (evd_acceptanceMet ev) \<longrightarrow> \<not> evd_met ev"
      using pub met some(2) by blast
    ultimately show ?thesis
      using some(1) by (simp add: Derive_completed delivered_iff repairedBy_Nil)
  qed
qed

theorem finding_reopens_delivery_witness:
  "\<exists>ev. Assess sample_yaml sample_delivery (dr_intent sample_disproved) (ProjectionText ''doc'')
          (dr_acceptances sample_disproved) (dr_invalidations sample_disproved) = Inr ev \<and>
        ''ac-1'' \<notin> set (evd_acceptanceMet ev) \<and>
        st_state (Derive ''demo'' True sample_delivery True sample_observation ev 9) \<noteq> StateCompleted"
proof -
  have valid: "Intent_Validate (\<lambda>_. None) (dr_intent sample_record) = None" by code_simp
  have inv: "Invalidate sample_record ''ac-1'' sample_evidence ''qa'' ''wrong'' ''issue 7'' 3 = Inr sample_disproved"
    unfolding sample_disproved_def by code_simp
  have "record_step sample_record sample_disproved"
    by (rule record_step.invalidate) (rule inv)
  then have "dr_intent sample_disproved = sample_intent"
    by (simp add: record_step_extends(1) sample_record_def)
  then obtain ev where ev: "Assess sample_yaml sample_delivery (dr_intent sample_disproved) (ProjectionText ''doc'')
      (dr_acceptances sample_disproved) (dr_invalidations sample_disproved) = Inr ev"
    by (simp add: Assess_def readProjection_def sample_yaml_def sample_projection_def sample_intent_def)
  have "dp_remediations sample_delivery = []" by (simp add: sample_delivery_def)
  with finding_reopens_delivery [OF valid inv rtranclp.rtrancl_refl refl ev, of "''demo''" True True sample_observation 9] ev
  show ?thesis by auto
qed

text \<open>Whatever operations are applied to a well-formed record, its intent and digest stay, its runs, acceptances, findings
  and authorizations stay as a prefix of what it then holds, every finding is numbered by its position and names an actor, a
  reason, evidence and a criterion of delivery's, and every acceptance is the only one of its criterion, names a person and
  answers a criterion of a person's.\<close>

theorem record_only_grows:
  assumes "record_step\<^sup>*\<^sup>* r r'" "record_wf r"
  shows "record_wf r' \<and> dr_intent r' = dr_intent r \<and> dr_intentDigest r' = dr_intentDigest r \<and>
    prefix (dr_runs r) (dr_runs r') \<and> prefix (dr_acceptances r) (dr_acceptances r') \<and>
    prefix (dr_invalidations r) (dr_invalidations r') \<and> prefix (dr_remediations r) (dr_remediations r')"
  using assms record_steps_wf record_steps_keep runs.extends acceptances.extends invalidations.extends remediations.extends
  by blast

theorem record_only_grows_witness:
  "record_wf sample_disproved \<and> prefix (dr_acceptances sample_record) (dr_acceptances sample_disproved)"
proof -
  have inv: "Invalidate sample_record ''ac-1'' sample_evidence ''qa'' ''wrong'' ''issue 7'' 3 = Inr sample_disproved"
    unfolding sample_disproved_def by code_simp
  have "record_wf sample_record"
    by (auto simp: record_wf_def sample_record_def sample_intent_def IsHuman_def)
  moreover have "record_step\<^sup>*\<^sup>* sample_record sample_disproved"
    by (rule r_into_rtranclp, rule record_step.invalidate) (rule inv)
  ultimately show ?thesis using record_only_grows by blast
qed


end
