(* ===== verification/Handoff_Compile.thy ===== *)
theory Handoff_Compile
  imports Plan_Validity Run_Spec "HOL-Library.Multiset"
begin

text \<open>
  The compilation of a delivery into a run (\<^verbatim>\<open>internal/handoff/compile.go\<close>): the host profile, the order of the packages,
  and the spec and the plan the control layer executes, which are the \<open>Spec\<close> and the \<open>Plan\<close> of its own theories.

  The loop of \<^verbatim>\<open>orderPackages\<close> runs as often as there are packages at most when their names differ, so that number is its
  fuel (\<open>orderPackages_total\<close>); for a plan with two packages of one name, which the validation refuses, the Go loop does not
  end and the model has no result. Go's \<^verbatim>\<open>int\<close> has 64 bits, so the sums of seconds wrap. Encoding a compiled run as TOML is
  input and output.
\<close>

section \<open>The host\<close>

record HostProfile =
  hp_deliveryRoot :: string
  hp_driver :: string
  hp_gitHubCommand :: string
  hp_gasCityCommand :: string
  hp_beadsCommand :: string
  hp_provider :: string
  hp_providerCommand :: string
  hp_projectToolPath :: "string list"
  hp_windowsMountPrefix :: string

definition HostProfile_Validate :: "HostProfile \<Rightarrow> string list" where
  "HostProfile_Validate h =
     problem_if (blank (hp_deliveryRoot h)) ''deliveryRoot'' @
     problem_if (blank (hp_driver h)) ''driver'' @
     problem_if (blank (hp_provider h)) ''provider''"

text \<open>The drive letter and the rest of a path that matches \<^verbatim>\<open>^([A-Za-z]):[\\/]\<close>.\<close>

fun windowsDrive :: "string \<Rightarrow> (char \<times> string) option" where
  "windowsDrive (c # d # e # rest) =
     (if ascii_letter c \<and> d = CHR '':'' \<and> (e = backslash \<or> e = slash) then Some (c, rest) else None)"
| "windowsDrive p = None"

definition path_Join :: "string list \<Rightarrow> string" where
  "path_Join parts = ''/'' @ Join (map (Trim_byte slash) parts) ''/''"

definition ResolveCheckout :: "HostProfile \<Rightarrow> string \<Rightarrow> string" where
  "ResolveCheckout h p =
     (case windowsDrive p of
        None \<Rightarrow> p
      | Some (c, rest) \<Rightarrow>
          if hp_windowsMountPrefix h = [] then p
          else path_Join [hp_windowsMountPrefix h, ToLower [c], ReplaceByte backslash slash rest])"

definition ProjectDir :: "HostProfile \<Rightarrow> string \<Rightarrow> string" where
  "ProjectDir h pid = filepath_Join (hp_deliveryRoot h) pid"

definition StateDir :: "HostProfile \<Rightarrow> string \<Rightarrow> string" where
  "StateDir h pid = filepath_Join (ProjectDir h pid) ''run''"

definition ProjectionPath :: "HostProfile \<Rightarrow> string \<Rightarrow> string" where
  "ProjectionPath h pid = filepath_Join (StateDir h pid) ''PROJECT-STATE.yml''"

definition DeliveryProjectionPath :: "HostProfile \<Rightarrow> string \<Rightarrow> string" where
  "DeliveryProjectionPath h pid = filepath_Join (ProjectDir h pid) ''PROJECT-STATE.yml''"

definition forgeCLI :: "HostProfile \<Rightarrow> string" where
  "forgeCLI h = (if blank (hp_gitHubCommand h) then ''gh'' else hp_gitHubCommand h)"

definition gasCityCLI :: "HostProfile \<Rightarrow> string" where
  "gasCityCLI h = (if blank (hp_gasCityCommand h) then ''gc'' else hp_gasCityCommand h)"

definition beadsCLI :: "HostProfile \<Rightarrow> string" where
  "beadsCLI h = (if blank (hp_beadsCommand h) then ''bd'' else hp_beadsCommand h)"

definition providerCLI :: "HostProfile \<Rightarrow> string" where
  "providerCLI h = (if blank (hp_providerCommand h) then hp_provider h else hp_providerCommand h)"

definition tool_dirs :: "HostProfile \<Rightarrow> string list" where
  "tool_dirs h = filter (\<lambda>d. d \<noteq> []) (map TrimSpace (hp_projectToolPath h))"

definition projectToolPath :: "HostProfile \<Rightarrow> string" where
  "projectToolPath h = Join (tool_dirs h) '':''"

section \<open>The order of the packages\<close>

text \<open>The insertion sort: an element sinks into the sorted part before it, which is kept backwards.\<close>

fun sink :: "string \<Rightarrow> string list \<Rightarrow> string list" where
  "sink x [] = [x]"
| "sink x (y # ys) = (if x < y then y # sink x ys else x # y # ys)"

definition sortStrings :: "string list \<Rightarrow> string list" where
  "sortStrings s = rev (fold sink s [])"

definition package_named :: "WorkPackage list \<Rightarrow> string \<Rightarrow> WorkPackage option" where
  "package_named all i = find (\<lambda>wp. wp_id wp = i) (rev all)"

definition package_ready :: "WorkPackage list \<Rightarrow> string set \<Rightarrow> WorkPackage \<Rightarrow> bool" where
  "package_ready all done wp = list_all (\<lambda>dep. package_named all dep = None \<or> dep \<in> done) (wp_dependsOn wp)"

fun order_pass :: "WorkPackage list \<Rightarrow> string list \<Rightarrow> string set \<times> WorkPackage list \<Rightarrow> string set \<times> WorkPackage list" where
  "order_pass all [] s = s"
| "order_pass all (i # is') (done, out) =
     (case package_named all i of
        None \<Rightarrow> order_pass all is' (done, out)
      | Some wp \<Rightarrow>
          if i \<in> done \<or> \<not> package_ready all done wp then order_pass all is' (done, out)
          else order_pass all is' (insert i done, out @ [wp]))"

fun order_rest :: "WorkPackage list \<Rightarrow> string list \<Rightarrow> string set \<times> WorkPackage list \<Rightarrow> string set \<times> WorkPackage list" where
  "order_rest all [] s = s"
| "order_rest all (i # is') (done, out) =
     (case package_named all i of
        None \<Rightarrow> order_rest all is' (done, out)
      | Some wp \<Rightarrow>
          if i \<in> done then order_rest all is' (done, out)
          else order_rest all is' (insert i done, out @ [wp]))"

fun order_loop ::
  "nat \<Rightarrow> WorkPackage list \<Rightarrow> string list \<Rightarrow> string set \<times> WorkPackage list \<Rightarrow> WorkPackage list option" where
  "order_loop n all ids (done, out) =
     (if length out \<ge> length all then Some out
      else case n of
        0 \<Rightarrow> None
      | Suc m \<Rightarrow>
          let s = order_pass all ids (done, out) in
          if snd s = out then order_loop m all ids (order_rest all ids s) else order_loop m all ids s)"

declare order_loop.simps [simp del]

definition orderPackages :: "DeliveryPlan \<Rightarrow> WorkPackage list" where
  "orderPackages p =
     (let all = AllPackages p in
      the (order_loop (length all) all (sortStrings (map wp_id all)) ({}, [])))"

section \<open>The compiled run\<close>

definition StageCityUp :: string where "StageCityUp = ''city-up''"
definition StageDispatch :: string where "StageDispatch = ''dispatch''"
definition StageAwait :: string where "StageAwait = ''await''"
definition StagePublish :: string where "StagePublish = ''publish''"
definition StageVerify :: string where "StageVerify = ''verify''"
definition StageProject :: string where "StageProject = ''project''"
definition StagePublishProjection :: string where "StagePublishProjection = ''publish-projection''"

definition acceptanceBoundaryPrefix :: string where
  "acceptanceBoundaryPrefix = ''acceptance.''"

definition acceptanceBoundaries :: "Intent \<Rightarrow> KnownBoundary list" where
  "acceptanceBoundaries i =
     map (\<lambda>c. \<lparr>kb_id = acceptanceBoundaryPrefix @ cn_id c,
               kb_title = ''acceptance criterion '' @ cn_id c @ '' is a person's to answer'',
               kb_detail = cn_statement c,
               kb_action = ''a person accepts '' @ cn_id c @ '' '' @ em_dash @
                 '' delivery may prepare what they read and may never claim their answer''\<rparr>)
       (filter IsHuman (in_acceptance i))"

definition driverResultMargin :: int where "driverResultMargin = 300"
definition publishCIBudget :: int where "publishCIBudget = 2700"
definition driverMaxResumes :: int where "driverMaxResumes = 1"

definition driverResultPath :: "string \<Rightarrow> string" where
  "driverResultPath taskID = ''results/'' @ taskID @ ''.json''"

definition publishedStatus :: "DeliveryPolicy \<Rightarrow> string" where
  "publishedStatus p = (if pol_needMerge p then ''merged'' else ''pr-open'')"

text \<open>A 64-bit \<^verbatim>\<open>int\<close>.\<close>

definition go_int :: "int \<Rightarrow> int" where
  "go_int n = (n + 2 ^ 63) mod 2 ^ 64 - 2 ^ 63"

definition tool :: "string \<Rightarrow> string \<Rightarrow> string list \<Rightarrow> string \<Rightarrow> ToolRequirement" where
  "tool name version args purpose =
     \<lparr>tl_name = name, tl_minVersion = version, tl_versionArgs = args, tl_purpose = purpose, tl_humanAction = []\<rparr>"

definition dir_path :: "string \<Rightarrow> bool \<Rightarrow> string \<Rightarrow> PathRequirement" where
  "dir_path p create purpose =
     \<lparr>pt_path = p, pt_kind = PathDir, pt_purpose = purpose, pt_writable = create, pt_create = create\<rparr>"

definition compiled_spec :: "Intent \<Rightarrow> HostProfile \<Rightarrow> Spec" where
  "compiled_spec i h =
     (let pid = in_projectID i; worktree = ResolveCheckout h (in_checkout i); stateDir = StateDir h pid in
      \<lparr>sp_projectID = pid,
       sp_ownership =
         \<lparr>ow_projectID = pid, ow_worktree = worktree, ow_expectedOrigin = repo_origin (in_repository i),
          ow_expectedBranch = repo_defaultBranch (in_repository i), ow_role = RoleController,
          ow_session = ''managed-delivery-'' @ pid, ow_allowDirtyWorktree = True\<rparr>,
       sp_tools =
         [tool ''git'' ''2.30'' [''--version''] ''every repository operation delivery performs'',
          tool ''tmux'' ''3.0'' [''-V''] ''the runtime provider worker sessions run under'',
          tool (forgeCLI h) ''2.40'' [''--version''] ''pull requests, checks and merges'',
          tool (gasCityCLI h) [] [] ''building the city, cloning the rig and every bead operation delivery performs'',
          tool (beadsCLI h) [] [] ''the bead store Gas City creates in the rig; Gas City resolves it by PATH lookup'',
          tool (providerCLI h) [] [] ''the agent runtime the city's provider readiness and every worker session resolve by name''],
       sp_paths =
         [dir_path worktree False ''the registered checkout this delivery is for'',
          dir_path (ProjectDir h pid) True ''durable delivery state: record, plan, journal, projection'',
          dir_path stateDir True ''the run's journal, heartbeat and completion record''] @
         map (\<lambda>d. dir_path d False
           ''the project's own toolchain, which the controller runs a package's declared gates with'') (tool_dirs h),
       sp_env =
         [\<lparr>ev_name = ''HOME'', ev_purpose = ''resolves the agent runtime's configuration'', ev_secret = False\<rparr>,
          \<lparr>ev_name = ''PATH'', ev_purpose = ''resolves every declared tool'', ev_secret = False\<rparr>],
       sp_ports = [], sp_commands = [], sp_credentials = [],
       sp_github =
         Some \<lparr>gh_repo = repo_slug (in_repository i), gh_command = hp_gitHubCommand h, gh_account = [],
               gh_branch = repo_defaultBranch (in_repository i), gh_needPush = pol_needPush (in_policy i),
               gh_needPR = pol_needPR (in_policy i), gh_needChecks = pol_needChecks (in_policy i),
               gh_needMerge = pol_needMerge (in_policy i), gh_mergeHumanAction = pol_mergeHumanAction (in_policy i)\<rparr>,
       sp_classification =
         [\<lparr>cr_pattern = ''supervisor cannot be asked to reconcile'', cr_class = FailureHumanDecision,
           cr_reason = ''the machine-wide supervisor is not answering, and restarting a shared process is its owner's decision''\<rparr>],
       sp_qa = \<lparr>qa_requireGates = []\<rparr>,
       sp_stateDir = stateDir,
       sp_publishPath = ProjectionPath h pid,
       sp_boundaries = acceptanceBoundaries i\<rparr>)"

definition option_args :: "string \<Rightarrow> string \<Rightarrow> string list" where
  "option_args flag v = (if TrimSpace v \<noteq> [] then [flag, TrimSpace v] else [])"

text \<open>What the driver is told of the project and the machine.\<close>

definition project_args :: "Intent \<Rightarrow> HostProfile \<Rightarrow> string list" where
  "project_args i h =
     [''-project'', in_projectID i, ''-state'', ProjectDir h (in_projectID i)] @
     option_args ''-gh'' (hp_gitHubCommand h) @ option_args ''-gc'' (hp_gasCityCommand h) @
     option_args ''-bd'' (hp_beadsCommand h) @ [''-provider'', hp_provider h] @
     option_args ''-provider-bin'' (hp_providerCommand h) @
     (if projectToolPath h \<noteq> [] then [''-project-path'', projectToolPath h] else [])"

definition stage_task ::
  "HostProfile \<Rightarrow> string \<Rightarrow> string \<Rightarrow> Band \<Rightarrow> string list \<Rightarrow> bool \<Rightarrow> int \<Rightarrow> string list \<Rightarrow> Task" where
  "stage_task h i title band needs mutates timeout args =
     \<lparr>t_id = i, t_title = title, t_band = band, t_argv = hp_driver h # args, t_dir = [], t_needs = needs,
      t_requiresChecks = [], t_mutates = mutates, t_timeoutSeconds = timeout, t_maxAttempts = 0,
      t_resultPath = driverResultPath i, t_maxResumes = 0, t_deliveryStatus = [], t_completionGate = [], t_phase = [],
      t_qaGate = []\<rparr>"

definition await_timeout :: "Intent \<Rightarrow> int" where
  "await_timeout i =
     (if pol_workDeadlineSeconds (in_policy i) \<le> 0 then 5400 else pol_workDeadlineSeconds (in_policy i))"

definition package_args :: "string \<Rightarrow> Intent \<Rightarrow> HostProfile \<Rightarrow> WorkPackage \<Rightarrow> string list" where
  "package_args stage i h wp =
     [stage, ''-package'', wp_id wp, ''-deadline'', Itoa (await_timeout i)] @ project_args i h"

definition await_id :: "string \<Rightarrow> string" where "await_id i = StageAwait @ ''-'' @ i"
definition publish_id :: "string \<Rightarrow> string" where "publish_id i = StagePublish @ ''-'' @ i"
definition verify_id :: "string \<Rightarrow> string" where "verify_id i = StageVerify @ ''-'' @ i"

definition package_tasks :: "Intent \<Rightarrow> HostProfile \<Rightarrow> WorkPackage \<Rightarrow> Task list" where
  "package_tasks i h wp =
     (if IsVerification wp then
        [(stage_task h (verify_id (wp_id wp)) (''verify '' @ wp_id wp @ '': '' @ wp_title wp) BandPrimary [StageDispatch] False
            (go_int (await_timeout i + driverResultMargin)) (package_args StageVerify i h wp))
          \<lparr>t_maxResumes := driverMaxResumes, t_deliveryStatus := ''verified'',
           t_completionGate :=
             ''declared verification gates passed against the authoritative merged commit + required evidence present at that commit'',
           t_phase := wp_phase wp\<rparr>]
      else
        let upstream = map publish_id (wp_dependsOn wp) in
        [(stage_task h (await_id (wp_id wp)) (''wait for '' @ wp_id wp @ '': '' @ wp_title wp) BandPrimary
            (StageDispatch # upstream) False (go_int (await_timeout i + driverResultMargin))
            (package_args StageAwait i h wp))
          \<lparr>t_maxResumes := driverMaxResumes\<rparr>,
         (stage_task h (publish_id (wp_id wp)) (''publish '' @ wp_id wp @ '': '' @ wp_title wp) BandPrimary
            (await_id (wp_id wp) # upstream) True (go_int (await_timeout i + publishCIBudget + driverResultMargin))
            (package_args StagePublish i h wp))
          \<lparr>t_maxResumes := driverMaxResumes, t_deliveryStatus := publishedStatus (in_policy i),
           t_completionGate :=
             ''required CI passed + independent assurance passed + merged through repository governance'',
           t_phase := wp_phase wp\<rparr>])"

definition finishing_id :: "WorkPackage \<Rightarrow> string" where
  "finishing_id wp = (if IsVerification wp then verify_id (wp_id wp) else publish_id (wp_id wp))"

definition compiled_work :: "Intent \<Rightarrow> DeliveryPlan \<Rightarrow> HostProfile \<Rightarrow> string \<Rightarrow> Plan" where
  "compiled_work i p h runID =
     \<lparr>p_runID = runID, p_risk = RiskQ0,
      p_tasks =
        [stage_task h StageCityUp ''build the city, clone the working rig and declare the workers'' BandPrimary [] False 1800
           (StageCityUp # project_args i h),
         stage_task h StageDispatch ''create the work beads, wire their dependencies and route them'' BandPrimary
           [StageCityUp] False 900 (StageDispatch # project_args i h)] @
        concat (map (package_tasks i h) (orderPackages p)) @
        [stage_task h StageProject ''render the delivery projection from the run's evidence'' BandEvidence
           (map finishing_id (AllPackages p)) False 600 (StageProject # project_args i h),
         stage_task h StagePublishProjection ''publish the projection into the project's repository'' BandEvidence
           [StageProject] True 900 (StagePublishProjection # project_args i h)]\<rparr>"

datatype compile_error =
    CompileIntent intent_error
  | CompilePlan delivery_plan_error
  | CompileHost "string list"
  | CompileNoRunID
  | CompileWork "plan_problem list"
  | CompileSpec "spec_problem list"

definition Compile :: "url_parser \<Rightarrow> Intent \<Rightarrow> DeliveryPlan \<Rightarrow> HostProfile \<Rightarrow> string \<Rightarrow> compile_error + Spec \<times> Plan" where
  "Compile url i p h runID =
     (case Intent_Validate url i of
        Some e \<Rightarrow> Inl (CompileIntent e)
      | None \<Rightarrow>
          (case DeliveryPlan_Validate i p of
             Some e \<Rightarrow> Inl (CompilePlan e)
           | None \<Rightarrow>
               if HostProfile_Validate h \<noteq> [] then Inl (CompileHost (HostProfile_Validate h))
               else if blank runID then Inl CompileNoRunID
               else
                 let spec = compiled_spec i h; work = compiled_work i p h runID in
                 if Plan_Validate work \<noteq> [] then Inl (CompileWork (Plan_Validate work))
                 else if Spec_Validate spec \<noteq> [] then Inl (CompileSpec (Spec_Validate spec))
                 else Inr (spec, work)))"

section \<open>White space\<close>

lemma trim_lead_keeps:
  "\<forall>w\<in>set ws. \<forall>b\<in>set w. \<not> graphic b \<Longrightarrow> graphic c \<Longrightarrow> c \<in> set s \<Longrightarrow> c \<in> set (trim_lead ws s)"
proof (induction ws s rule: trim_lead.induct)
  case (1 ws s)
  show ?case
  proof (cases "lead_len ws s = 0")
    case True
    with 1(4) show ?thesis by (subst trim_lead.simps) simp
  next
    case False
    then have "\<exists>w\<in>set ws. prefix w s \<and> lead_len ws s = length w"
      by (induction ws) (auto split: if_splits)
    then obtain w t where w: "w \<in> set ws" "lead_len ws s = length w" "s = w @ t" by (auto simp: prefix_def)
    with 1(2-4) have "c \<in> set (drop (lead_len ws s) s)" by auto
    with 1(1) [OF False 1(2,3)] show ?thesis using False by (subst trim_lead.simps) simp
  qed
qed

lemma space_runes_plain: "list_all (list_all (\<lambda>b. \<not> graphic b)) (space_runes @ map rev space_runes)"
  by code_simp

lemma not_blank: "graphic c \<Longrightarrow> c \<in> set s \<Longrightarrow> \<not> blank s"
proof -
  assume g: "graphic c" "c \<in> set s"
  have ws: "\<forall>w\<in>set space_runes. \<forall>b\<in>set w. \<not> graphic b" "\<forall>w\<in>set (map rev space_runes). \<forall>b\<in>set w. \<not> graphic b"
    using space_runes_plain by (auto simp: list_all_iff)
  have "c \<in> set (trim_lead space_runes s)" by (rule trim_lead_keeps [OF ws(1) g])
  then have "c \<in> set (trim_lead (map rev space_runes) (rev (trim_lead space_runes s)))"
    by (intro trim_lead_keeps [OF ws(2) g(1)]) simp
  then show ?thesis by (auto simp: blank_def TrimSpace_def)
qed

lemma lead_len_pos: "0 < lead_len ws s \<longleftrightarrow> (\<exists>w\<in>set ws. w \<noteq> [] \<and> prefix w s)"
  by (induction ws) auto

lemma trim_lead_stops: "lead_len ws (trim_lead ws s) = 0"
  by (induction ws s rule: trim_lead.induct) (subst trim_lead.simps, simp)

lemma trim_lead_suffix: "suffix (trim_lead ws s) s"
proof (induction ws s rule: trim_lead.induct)
  case (1 ws s)
  then show ?case
    by (subst trim_lead.simps) (auto intro: suffix_order.trans suffix_drop)
qed

lemma TrimSpace_idem: "TrimSpace (TrimSpace s) = TrimSpace s"
proof -
  let ?v = "trim_lead space_runes s" and ?u = "TrimSpace s"
  have "prefix ?u ?v"
    using trim_lead_suffix [of "map rev space_runes" "rev ?v"] by (simp add: TrimSpace_def suffix_to_prefix)
  then have "lead_len space_runes ?u = 0"
    using trim_lead_stops [of space_runes s] lead_len_pos [of space_runes] by (metis neq0_conv prefix_order.trans)
  then have "trim_lead space_runes ?u = ?u" by (subst trim_lead.simps) simp
  moreover have "trim_lead (map rev space_runes) (rev ?u) = rev ?u"
    using trim_lead_stops [of "map rev space_runes" "rev ?v"]
    by (subst trim_lead.simps) (simp add: TrimSpace_def)
  ultimately show ?thesis by (simp add: TrimSpace_def)
qed

lemma TrimSpace_set: "set (TrimSpace s) \<subseteq> set s"
  using trim_lead_suffix [THEN set_mono_suffix] unfolding TrimSpace_def by (metis set_rev subset_trans)

section \<open>The order of the packages: lemmas\<close>

lemma sink_mset: "mset (sink x ys) = add_mset x (mset ys)"
  by (induction ys) auto

lemma sink_sorted: "sorted (rev ys) \<Longrightarrow> sorted (rev (sink x ys))"
proof (induction ys)
  case (Cons y ys)
  have "set (sink x ys) = insert x (set ys)"
    by (metis sink_mset set_mset_add_mset_insert set_mset_mset)
  with Cons show ?case by (auto simp: sorted_append not_less)
qed simp

lemma sortStrings_sort: "sortStrings s = sort s"
proof -
  have "mset (fold sink s ys) = mset s + mset ys \<and> (sorted (rev ys) \<longrightarrow> sorted (rev (fold sink s ys)))" for ys
    by (induction s arbitrary: ys) (auto simp: sink_mset sink_sorted)
  from this [of "[]"] show ?thesis
    by (intro properties_for_sort [symmetric]) (auto simp: sortStrings_def)
qed

definition deps_before :: "WorkPackage list \<Rightarrow> WorkPackage list \<Rightarrow> bool" where
  "deps_before all out \<longleftrightarrow>
     (\<forall>pre wp post. out = pre @ wp # post \<longrightarrow>
        (\<forall>dep\<in>set (wp_dependsOn wp). dep \<in> wp_id ` set all \<longrightarrow> dep \<in> wp_id ` set pre))"

lemma deps_beforeD:
  "deps_before all (pre @ wp # post) \<Longrightarrow> dep \<in> set (wp_dependsOn wp) \<Longrightarrow> dep \<in> wp_id ` set all \<Longrightarrow>
    dep \<in> wp_id ` set pre"
  by (simp add: deps_before_def)

lemma deps_before_snoc:
  assumes "deps_before all out" "\<forall>dep\<in>set (wp_dependsOn wp). dep \<in> wp_id ` set all \<longrightarrow> dep \<in> wp_id ` set out"
  shows "deps_before all (out @ [wp])"
  unfolding deps_before_def
proof (intro allI impI)
  fix pre u post
  assume "out @ [wp] = pre @ u # post"
  then show "\<forall>dep\<in>set (wp_dependsOn u). dep \<in> wp_id ` set all \<longrightarrow> dep \<in> wp_id ` set pre"
  proof (cases post rule: rev_cases)
    case (snoc post' v)
    with \<open>out @ [wp] = pre @ u # post\<close> have "out = pre @ u # post'" by simp
    with assms(1) show ?thesis unfolding deps_before_def by blast
  qed (use assms(2) in auto)
qed

lemma package_named_Some:
  assumes "distinct (map wp_id all)"
  shows "package_named all i = Some wp \<longleftrightarrow> wp \<in> set all \<and> wp_id wp = i"
proof
  assume "package_named all i = Some wp"
  then show "wp \<in> set all \<and> wp_id wp = i"
    unfolding package_named_def find_Some_iff by (metis length_rev nth_mem set_rev)
next
  assume wp: "wp \<in> set all \<and> wp_id wp = i"
  then have "package_named all i \<noteq> None" by (auto simp: package_named_def find_None_iff)
  then obtain u where u: "package_named all i = Some u" by auto
  then have "u \<in> set all" "wp_id u = i"
    unfolding package_named_def find_Some_iff by (metis length_rev nth_mem set_rev)+
  with wp assms u show "package_named all i = Some wp" by (auto simp: distinct_map inj_on_def)
qed

lemma package_named_None: "package_named all i = None \<longleftrightarrow> i \<notin> wp_id ` set all"
  by (auto simp: package_named_def find_None_iff)

text \<open>What the loop keeps: the packages out are different ones of the plan, done is their names, and each comes after its
  dependencies.\<close>

definition order_inv :: "WorkPackage list \<Rightarrow> string set \<times> WorkPackage list \<Rightarrow> bool" where
  "order_inv all s \<longleftrightarrow>
     distinct (map wp_id (snd s)) \<and> set (snd s) \<subseteq> set all \<and> fst s = wp_id ` set (snd s) \<and> deps_before all (snd s)"

lemma order_pass_inv:
  "distinct (map wp_id all) \<Longrightarrow> order_inv all s \<Longrightarrow>
     order_inv all (order_pass all ids s) \<and> prefix (snd s) (snd (order_pass all ids s))"
proof (induction all ids s rule: order_pass.induct)
  case (2 all i is' don out)
  show ?case
  proof (cases "package_named all i")
    case None
    with 2 show ?thesis by simp
  next
    case (Some wp)
    show ?thesis
    proof (cases "i \<in> don \<or> \<not> package_ready all don wp")
      case True
      with Some 2 show ?thesis by simp
    next
      case False
      have wp: "wp \<in> set all" "wp_id wp = i" using Some package_named_Some [OF 2(4)] by auto
      have "order_inv all (insert i don, out @ [wp])"
        using 2(5) False wp
        by (auto simp: order_inv_def deps_before_snoc package_ready_def package_named_None list_all_iff)
      from 2(3) [OF Some False 2(4) this] show ?thesis
        using Some False by (auto dest: append_prefixD)
    qed
  qed
qed simp

text \<open>While packages are missing, a pass makes progress: the dependencies have no cycle.\<close>

lemma order_pass_progress:
  assumes d: "distinct (map wp_id all)" and wp: "wp \<in> set all"
  shows "order_inv all s \<Longrightarrow> wp_id wp \<in> set ids \<Longrightarrow> wp_id wp \<notin> fst s \<Longrightarrow> package_ready all (fst s) wp \<Longrightarrow>
    length (snd s) < length (snd (order_pass all ids s))"
proof (induction ids arbitrary: s)
  case (Cons i is')
  obtain don out where s: "s = (don, out)" by (cases s)
  have here: "u = wp" if "package_named all i = Some u" "wp_id wp = i" for u
    using that wp package_named_Some [OF d] by (metis option.inject)
  show ?case
  proof (cases "package_named all i")
    case None
    then have "wp_id wp \<noteq> i" using wp by (auto simp: package_named_None)
    then show ?thesis using Cons.IH [of s] Cons.prems None by (simp add: s)
  next
    case (Some u)
    show ?thesis
    proof (cases "i \<in> don \<or> \<not> package_ready all don u")
      case True
      then have "wp_id wp \<noteq> i" using here [OF Some] Cons.prems(3,4) s by auto
      then show ?thesis using Cons.IH [of s] Cons.prems Some True by (simp add: s)
    next
      case False
      have u: "u \<in> set all" "wp_id u = i" using Some package_named_Some [OF d] by auto
      have "order_inv all (insert i don, out @ [u])"
        using Cons.prems(1) s False u
        by (auto simp: order_inv_def package_ready_def package_named_None list_all_iff intro!: deps_before_snoc)
      from order_pass_inv [OF d this, of is'] have "length (out @ [u]) \<le> length (snd (order_pass all is' (insert i don, out @ [u])))"
        by (auto dest: prefix_length_le)
      with Some False s show ?thesis by simp
    qed
  qed
qed simp

lemma finite_package_rel: "finite (package_rel pkgs)"
proof -
  have "package_rel pkgs = (\<Union>wp\<in>set pkgs. (\<lambda>d. (wp_id wp, d)) ` set (wp_dependsOn wp))"
    by (auto simp: package_rel_def)
  then show ?thesis by simp
qed

lemma ready_exists:
  assumes ac: "acyclic (package_rel all)" and inv: "order_inv all s" and less: "length (snd s) < length all"
    and d: "distinct (map wp_id all)"
  shows "\<exists>wp\<in>set all. wp_id wp \<notin> fst s \<and> package_ready all (fst s) wp"
proof -
  have "card (set (snd s)) < card (set all)"
    using inv less d by (simp add: order_inv_def distinct_card distinct_map)
  then have "\<not> set all \<subseteq> set (snd s)"
    using card_mono [of "set (snd s)" "set all"] by auto
  then obtain x where x: "x \<in> set all" "x \<notin> set (snd s)" by blast
  have inj: "inj_on wp_id (set all)" using d by (simp add: distinct_map)
  have out: "set (snd s) \<subseteq> set all" "fst s = wp_id ` set (snd s)" using inv by (auto simp: order_inv_def)
  let ?S = "wp_id ` set all - fst s"
  have "wp_id x \<in> ?S" using x inj out by (auto simp: inj_on_def)
  moreover have "wf ((package_rel all)\<inverse>)"
    using ac finite_package_rel by (simp add: finite_acyclic_wf_converse)
  ultimately obtain m where m: "m \<in> ?S" "\<And>y. (m, y) \<in> package_rel all \<Longrightarrow> y \<notin> ?S"
    by (metis converseI wfE_min)
  then obtain wp where wp: "wp \<in> set all" "m = wp_id wp" "wp_id wp \<notin> fst s" by auto
  have "package_ready all (fst s) wp"
    using m(2) wp by (auto simp: package_ready_def list_all_iff package_named_None package_rel_def)
  with wp show ?thesis by blast
qed

lemma order_loop_total:
  assumes "acyclic (package_rel all)" "distinct (map wp_id all)" "set ids = wp_id ` set all"
  shows "order_inv all s \<Longrightarrow> length all \<le> n + length (snd s) \<Longrightarrow>
    \<exists>out. order_loop n all ids s = Some out \<and> order_inv all (wp_id ` set out, out) \<and> length all \<le> length out"
proof (induction n arbitrary: s)
  case 0
  obtain don out where s: "s = (don, out)" by (cases s)
  with 0 show ?case by (subst s, subst order_loop.simps) (auto simp: order_inv_def)
next
  case (Suc n)
  obtain don out where s: "s = (don, out)" by (cases s)
  show ?case
  proof (cases "length all \<le> length out")
    case True
    with Suc.prems(1) s show ?thesis by (subst s, subst order_loop.simps) (auto simp: order_inv_def)
  next
    case False
    let ?s = "order_pass all ids s"
    from ready_exists [OF assms(1) Suc.prems(1) _ assms(2)] False s
    obtain wp where "wp \<in> set all" "wp_id wp \<notin> fst s" "package_ready all (fst s) wp" by auto
    with order_pass_progress [OF assms(2) _ Suc.prems(1), of wp ids] assms(3)
    have grow: "length (snd s) < length (snd ?s)" by auto
    have inv: "order_inv all ?s" using order_pass_inv [OF assms(2) Suc.prems(1)] by blast
    have "order_loop (Suc n) all ids s = order_loop n all ids ?s"
      using False grow by (subst s, subst order_loop.simps) (auto simp: s Let_def)
    with Suc.IH [OF inv] Suc.prems(2) grow show ?thesis by simp
  qed
qed

lemma depends_on_merging:
  assumes "DeliveryPlan_Validate i p = None" "wp \<in> set (AllPackages p)" "u \<in> set (AllPackages p)" "wp_id u \<in> set (wp_dependsOn wp)"
  shows "\<not> IsVerification u"
proof -
  have "distinct (map wp_id (AllPackages p))"
    and "\<exists>v\<in>set (AllPackages p). wp_id u = wp_id v \<and> \<not> IsVerification v"
    using assms unfolding DeliveryPlan_Validate_iff by blast+
  then show ?thesis using assms(3) by (auto simp: distinct_map inj_on_def)
qed

lemma orderPackages_total:
  assumes "DeliveryPlan_Validate i p = None"
  shows "distinct (map wp_id (orderPackages p))" "set (orderPackages p) = set (AllPackages p)"
    "\<And>pre wp post. orderPackages p = pre @ wp # post \<Longrightarrow> set (wp_dependsOn wp) \<subseteq> wp_id ` set pre"
proof -
  let ?all = "AllPackages p"
  have v: "acyclic (package_rel ?all)" "distinct (map wp_id ?all)"
    and deps: "\<forall>wp\<in>set ?all. \<forall>d\<in>set (wp_dependsOn wp). \<exists>u\<in>set ?all. d = wp_id u \<and> \<not> IsVerification u"
    using assms unfolding DeliveryPlan_Validate_iff by blast+
  have "set (sortStrings (map wp_id ?all)) = wp_id ` set ?all" by (simp add: sortStrings_sort)
  from order_loop_total [OF v this, of "({}, [])" "length ?all"]
  obtain out where "order_loop (length ?all) ?all (sortStrings (map wp_id ?all)) ({}, []) = Some out"
    and inv: "order_inv ?all (wp_id ` set out, out)" and len: "length ?all \<le> length out"
    by (auto simp: order_inv_def deps_before_def)
  then have o: "orderPackages p = out" by (simp add: orderPackages_def Let_def)
  show "distinct (map wp_id (orderPackages p))" using inv by (simp add: o order_inv_def)
  have "set out \<subseteq> set ?all" "distinct out" using inv by (auto simp: order_inv_def distinct_map)
  moreover have "card (set ?all) \<le> card (set out)"
    using len v(2) \<open>distinct out\<close> by (simp add: distinct_card distinct_map)
  ultimately have eq: "set out = set ?all" by (simp add: card_seteq)
  then show "set (orderPackages p) = set ?all" by (simp add: o)
  show "set (wp_dependsOn wp) \<subseteq> wp_id ` set pre" if "orderPackages p = pre @ wp # post" for pre wp post
  proof
    fix dep assume dep: "dep \<in> set (wp_dependsOn wp)"
    have "wp \<in> set (orderPackages p)" unfolding that by simp
    then have "wp \<in> set ?all" by (simp only: o eq)
    with deps dep have "dep \<in> wp_id ` set ?all" by blast
    moreover have "deps_before ?all (pre @ wp # post)" using inv by (simp add: order_inv_def o [symmetric] that)
    ultimately show "dep \<in> wp_id ` set pre" using dep deps_beforeD by blast
  qed
qed

section \<open>The compiled spec\<close>

lemma lower_alnum_graphic: "lower_alnum c \<Longrightarrow> graphic c"
  by (auto simp: lower_alnum_def graphic_def Let_def)

lemma IDPattern_graphic: "IDPattern s \<Longrightarrow> \<exists>c\<in>set s. graphic c"
  by (cases s) (auto simp: IDPattern_def dest: lower_alnum_graphic)

lemma IDPattern_not_blank: "IDPattern s \<Longrightarrow> \<not> blank s"
  using IDPattern_graphic not_blank by blast

lemma Join_part: "x \<in> set xs \<Longrightarrow> set x \<subseteq> set (Join xs sep)"
  by (induction xs sep rule: Join.induct) auto

text \<open>A path ends in its last element when that is a proper segment.\<close>

lemma filepath_Join_part:
  assumes "proper_seg b"
  shows "set b \<subseteq> set (filepath_Join a b)"
proof -
  have part: "set b \<subseteq> set (filepath_Clean p)" if "Split slash p = ss @ [b]" for p ss
  proof -
    have "path_segs p = clean_segs (IsAbs p) [] ss @ [b]"
      using clean_segs_proper [of "[b]"] assms that by (simp add: path_segs_def clean_segs_append del: clean_segs.simps)
    then show ?thesis using Join_part [of b "path_segs p" "''/''"] by (auto simp: filepath_Clean_def path_of_def)
  qed
  have b: "Split slash b = [b]" "b \<noteq> []" using assms by (auto simp: proper_seg_def Split_no_sep)
  have "Split slash (a @ ''/'' @ b) = Split slash a @ [b]"
    using b Split_sep [of slash a b] by (simp add: slash_def)
  with b show ?thesis using part [of b "[]"] part [of "a @ ''/'' @ b" "Split slash a"] by (simp add: filepath_Join_def)
qed

lemma ProjectDir_not_blank: "IDPattern pid \<Longrightarrow> \<not> blank (ProjectDir h pid)"
  using filepath_Join_part [OF IDPattern_proper] IDPattern_graphic not_blank unfolding ProjectDir_def by blast

lemma StateDir_not_blank: "\<not> blank (StateDir h pid)"
proof -
  have "proper_seg ''run''" by (simp add: proper_seg_def slash_def)
  from filepath_Join_part [OF this] have "CHR ''r'' \<in> set (StateDir h pid)" by (auto simp: StateDir_def)
  moreover have "graphic (CHR ''r'')" by (simp add: graphic_def)
  ultimately show ?thesis using not_blank by blast
qed

lemma not_blank_Cons: "graphic c \<Longrightarrow> \<not> blank (c # s)"
  by (rule not_blank [of c]) simp_all

lemma ResolveCheckout_not_blank: "\<not> blank p \<Longrightarrow> \<not> blank (ResolveCheckout h p)"
  by (auto simp: ResolveCheckout_def path_Join_def graphic_def not_blank_Cons split: option.splits)

lemma tool_dirs_not_blank: "d \<in> set (tool_dirs h) \<Longrightarrow> \<not> blank d"
  by (auto simp: tool_dirs_def blank_def TrimSpace_idem)

lemma slug_Contains: "splitSlug slug \<noteq> None \<Longrightarrow> Contains slug ''/''"
proof -
  assume "splitSlug slug \<noteq> None"
  then have "slash \<in> set (TrimSpace slug)"
    using Split_no_sep [of slash "TrimSpace slug"] by (auto simp: splitSlug_def split: list.splits)
  then have "slash \<in> set slug" using TrimSpace_set by blast
  then show ?thesis by (auto simp: Contains_sublist sublist_def slash_def dest: split_list)
qed

lemma command_not_blank:
  assumes "HostProfile_Validate h = []"
  shows "\<not> blank (forgeCLI h)" "\<not> blank (gasCityCLI h)" "\<not> blank (beadsCLI h)" "\<not> blank (providerCLI h)"
proof -
  have word: "\<not> blank ''gh''" "\<not> blank ''gc''" "\<not> blank ''bd''" by code_simp+
  show "\<not> blank (forgeCLI h)" "\<not> blank (gasCityCLI h)" "\<not> blank (beadsCLI h)" "\<not> blank (providerCLI h)"
    using assms word by (simp_all add: HostProfile_Validate_def forgeCLI_def gasCityCLI_def beadsCLI_def providerCLI_def)
qed

lemma acceptanceBoundaries_clean:
  assumes "distinct (map cn_id (in_acceptance i))"
  shows "boundary_problems {} 0 (acceptanceBoundaries i) = []"
proof -
  have "distinct (map cn_id (filter IsHuman (in_acceptance i)))"
    using assms by (simp add: distinct_map_filter)
  then have "distinct (map (\<lambda>c. acceptanceBoundaryPrefix @ cn_id c) (filter IsHuman (in_acceptance i)))"
    by (simp add: distinct_map inj_on_def)
  moreover have "\<not> blank (acceptanceBoundaryPrefix @ x)" "\<not> blank (''a person accepts '' @ x)" for x
    by (simp_all add: acceptanceBoundaryPrefix_def graphic_def not_blank_Cons)
  ultimately show ?thesis
    by (auto simp: boundary_problems_Nil acceptanceBoundaries_def comp_def)
qed

lemma compiled_spec_valid:
  assumes "intent_wf i" "HostProfile_Validate h = []"
  shows "Spec_Validate (compiled_spec i h) = []"
proof -
  have pid: "IDPattern (in_projectID i)" using assms(1) by (simp add: intent_wf_def)
  have lit: "\<not> blank ''git''" "\<not> blank ''tmux''" "\<not> blank ''HOME''" "\<not> blank ''PATH''"
    "\<not> blank ''supervisor cannot be asked to reconcile''" by code_simp+
  have session: "\<not> blank (''managed-delivery-'' @ x)" for x
    by (simp add: graphic_def not_blank_Cons)
  have own: "Ownership_Validate (sp_ownership (compiled_spec i h)) = None"
    using assms(1) pid session IDPattern_not_blank ResolveCheckout_not_blank
    by (simp add: Ownership_Validate_None compiled_spec_def Let_def intent_wf_def Role_Valid_def)
  have bounds: "boundary_problems {} 0 (acceptanceBoundaries i) = []"
    using assms(1) by (intro acceptanceBoundaries_clean) (simp add: intent_wf_def)
  show ?thesis
    using assms pid lit own bounds IDPattern_not_blank [OF pid] ProjectDir_not_blank [OF pid] command_not_blank [OF assms(2)]
    by (auto simp: Spec_Validate_def compiled_spec_def Let_def intent_wf_def StateDir_not_blank ResolveCheckout_not_blank
        tool_def dir_path_def spec_problems_Nil path_problems_Nil classify_problems_Nil slug_Contains
        dest: tool_dirs_not_blank)
qed

section \<open>The compiled plan\<close>

text \<open>Every need of a task is among \<open>seen\<close> or is a task before it.\<close>

fun needs_earlier :: "string set \<Rightarrow> Task list \<Rightarrow> bool" where
  "needs_earlier seen [] = True"
| "needs_earlier seen (t # ts) = (set (t_needs t) \<subseteq> seen \<and> needs_earlier (insert (t_id t) seen) ts)"

lemma needs_earlier_append:
  "needs_earlier seen (xs @ ys) \<longleftrightarrow> needs_earlier seen xs \<and> needs_earlier (seen \<union> t_id ` set xs) ys"
  by (induction xs arbitrary: seen) auto

lemma needs_earlier_iff:
  "needs_earlier seen ts \<longleftrightarrow> (\<forall>pre t post. ts = pre @ t # post \<longrightarrow> set (t_needs t) \<subseteq> seen \<union> t_id ` set pre)"
proof
  show "\<forall>pre t post. ts = pre @ t # post \<longrightarrow> set (t_needs t) \<subseteq> seen \<union> t_id ` set pre" if "needs_earlier seen ts"
    using that by (auto simp: needs_earlier_append)
  show "needs_earlier seen ts" if "\<forall>pre t post. ts = pre @ t # post \<longrightarrow> set (t_needs t) \<subseteq> seen \<union> t_id ` set pre"
    using that
  proof (induction ts arbitrary: seen)
    case (Cons u us)
    have "set (t_needs t) \<subseteq> insert (t_id u) seen \<union> t_id ` set pre" if "us = pre @ t # post" for pre t post
      using Cons.prems [rule_format, of "u # pre" t post] that by auto
    with Cons.IH have "needs_earlier (insert (t_id u) seen) us" by blast
    moreover have "set (t_needs u) \<subseteq> seen" using Cons.prems [rule_format, of "[]" u us] by simp
    ultimately show ?case by simp
  qed simp
qed

lemma needs_earlier_wf:
  assumes "distinct (task_ids ts)" "needs_earlier {} ts"
  shows "plan_wf ts"
proof -
  let ?pos = "\<lambda>x. length (takeWhile (\<lambda>t. t_id t \<noteq> x) ts)"
  have here: "set (t_needs t) \<subseteq> t_id ` set pre" if "ts = pre @ t # post" for pre t post
    using assms(2) that by (simp add: needs_earlier_append)
  have "need_rel ts \<subseteq> (measure ?pos)\<inverse>"
  proof clarify
    fix u v assume "(u, v) \<in> need_rel ts"
    then obtain t where t: "t \<in> set ts" "u = t_id t" "v \<in> set (t_needs t)" by (auto simp: need_rel_def)
    then obtain pre post where ts: "ts = pre @ t # post" by (meson split_list)
    with here t obtain w where w: "w \<in> set pre" "v = t_id w" by blast
    have "?pos u = length pre"
      using assms(1) t(2) ts by (subst ts, subst takeWhile_append2) (auto simp: task_ids_def image_iff)
    moreover have "?pos v < length pre"
    proof -
      have "takeWhile (\<lambda>t. t_id t \<noteq> v) ts = takeWhile (\<lambda>t. t_id t \<noteq> v) pre"
        unfolding ts by (rule takeWhile_append1 [OF w(1)]) (simp add: w)
      moreover have "takeWhile (\<lambda>t. t_id t \<noteq> v) pre \<noteq> pre" using w by (metis set_takeWhileD)
      ultimately show ?thesis
        by (metis length_takeWhile_le order_le_less takeWhile_eq_take take_all_iff order_refl)
    qed
    ultimately show "(v, u) \<in> measure ?pos" by simp
  qed
  moreover have "acyclic ((measure ?pos)\<inverse>)" by (simp add: wf_acyclic)
  ultimately have "acyclic (need_rel ts)" by (rule acyclic_subset [rotated])
  moreover have "set (t_needs t) \<subseteq> set (task_ids ts)" if "t \<in> set ts" for t
    using here that by (fastforce simp: task_ids_def dest: split_list)
  ultimately show ?thesis using assms(1) by (simp add: plan_wf_def)
qed

lemmas task_names = await_id_def publish_id_def verify_id_def StageCityUp_def StageDispatch_def StageAwait_def
  StagePublish_def StageVerify_def StageProject_def StagePublishProjection_def

lemma package_task_ids:
  "t_id ` set (package_tasks i h wp) =
     (if IsVerification wp then {verify_id (wp_id wp)} else {await_id (wp_id wp), publish_id (wp_id wp)})"
  by (auto simp: package_tasks_def Let_def stage_task_def)

lemma distinct_package_tasks:
  "distinct (map wp_id wps) \<Longrightarrow> distinct (map t_id (concat (map (package_tasks i h) wps)))"
proof (induction wps)
  case (Cons wp wps)
  have "distinct (map t_id (package_tasks i h wp))"
    by (auto simp: package_tasks_def Let_def stage_task_def task_names)
  moreover have "t_id ` set (package_tasks i h wp) \<inter> t_id ` set (package_tasks i h u) = {}" if "u \<in> set wps" for u
    using Cons.prems that by (auto simp: package_task_ids task_names image_iff)
  ultimately show ?case using Cons by (simp add: image_Union) blast
qed simp

lemma needs_package_tasks:
  assumes v: "DeliveryPlan_Validate i p = None" and "orderPackages p = pre @ wps"
    and "{StageCityUp, StageDispatch} \<union> t_id ` set (concat (map (package_tasks i h) pre)) \<subseteq> seen"
  shows "needs_earlier seen (concat (map (package_tasks i h) wps))"
  using assms(2,3)
proof (induction wps arbitrary: pre seen)
  case (Cons wp wps)
  have dep: "publish_id d \<in> seen" if d: "d \<in> set (wp_dependsOn wp)" for d
  proof -
    obtain u where u: "u \<in> set pre" "d = wp_id u"
      using orderPackages_total(3) [OF v Cons.prems(1)] d by blast
    have "wp \<in> set (orderPackages p)" "u \<in> set (orderPackages p)" using Cons.prems(1) u by auto
    then have "wp \<in> set (AllPackages p)" "u \<in> set (AllPackages p)" using orderPackages_total(2) [OF v] by auto
    with u d have "\<not> IsVerification u" using depends_on_merging [OF v] by blast
    then have "publish_id d \<in> t_id ` set (package_tasks i h u)" using u by (simp add: package_task_ids)
    with u Cons.prems(2) show ?thesis by auto
  qed
  have "needs_earlier seen (package_tasks i h wp)"
    using dep Cons.prems(2) by (auto simp: package_tasks_def Let_def stage_task_def)
  moreover have "needs_earlier (seen \<union> t_id ` set (package_tasks i h wp)) (concat (map (package_tasks i h) wps))"
    using Cons.prems by (intro Cons.IH [of "pre @ [wp]"]) auto
  ultimately show ?case by (simp add: needs_earlier_append)
qed simp

lemma compiled_needs:
  assumes v: "DeliveryPlan_Validate i p = None"
  shows "needs_earlier {} (p_tasks (compiled_work i p h runID))"
proof -
  let ?mid = "concat (map (package_tasks i h) (orderPackages p))"
  have "needs_earlier {StageDispatch, StageCityUp} ?mid"
    by (rule needs_package_tasks [OF v, of "[]"]) auto
  moreover have "finishing_id wp \<in> t_id ` set ?mid" if "wp \<in> set (AllPackages p)" for wp
  proof -
    have "finishing_id wp \<in> t_id ` set (package_tasks i h wp)" by (simp add: package_task_ids finishing_id_def)
    moreover have "wp \<in> set (orderPackages p)" using that orderPackages_total(2) [OF v] by simp
    ultimately show ?thesis by auto
  qed
  ultimately show ?thesis
    by (auto simp: compiled_work_def needs_earlier_append stage_task_def)
qed

lemma compiled_distinct:
  assumes v: "DeliveryPlan_Validate i p = None"
  shows "distinct (task_ids (p_tasks (compiled_work i p h runID))) \<longleftrightarrow>
    (\<forall>wp\<in>set (AllPackages p). wp_id wp = ''projection'' \<longrightarrow> IsVerification wp)"
proof -
  let ?mid = "concat (map (package_tasks i h) (orderPackages p))"
  have d: "distinct (map t_id ?mid)" by (rule distinct_package_tasks [OF orderPackages_total(1) [OF v]])
  have mid: "t_id ` set ?mid = (\<Union>wp\<in>set (AllPackages p). t_id ` set (package_tasks i h wp))"
    using orderPackages_total(2) [OF v] by auto
  have other: "StageCityUp \<notin> t_id ` set ?mid" "StageDispatch \<notin> t_id ` set ?mid" "StageProject \<notin> t_id ` set ?mid"
    unfolding mid package_task_ids by (auto simp: task_names split: if_splits)
  have "StagePublishProjection \<in> t_id ` set ?mid \<longleftrightarrow>
      (\<exists>wp\<in>set (AllPackages p). wp_id wp = ''projection'' \<and> \<not> IsVerification wp)"
    unfolding mid package_task_ids by (auto simp: task_names split: if_splits) force
  moreover have "distinct (task_ids (p_tasks (compiled_work i p h runID))) \<longleftrightarrow> StagePublishProjection \<notin> t_id ` set ?mid"
    using d other by (simp add: compiled_work_def task_ids_def stage_task_def task_names del: set_concat)
  ultimately show ?thesis by blast
qed

lemma compiled_tasks_usable:
  "t \<in> set (p_tasks (compiled_work i p h runID)) \<Longrightarrow> \<not> blank (t_id t) \<and> t_argv t \<noteq> [] \<and> Band_Valid (t_band t)"
  by (auto simp: compiled_work_def package_tasks_def Let_def stage_task_def task_names graphic_def not_blank_Cons
      split: if_splits)

lemma compiled_work_valid:
  assumes "DeliveryPlan_Validate i p = None"
  shows "Plan_Validate (compiled_work i p h runID) = [] \<longleftrightarrow>
    (\<forall>wp\<in>set (AllPackages p). wp_id wp = ''projection'' \<longrightarrow> IsVerification wp)"
proof -
  have "RiskClass_Valid (p_risk (compiled_work i p h runID))" by (simp add: compiled_work_def)
  moreover have "plan_wf (p_tasks (compiled_work i p h runID)) \<longleftrightarrow> distinct (task_ids (p_tasks (compiled_work i p h runID)))"
    using needs_earlier_wf compiled_needs [OF assms] by (auto simp: plan_wf_def)
  ultimately show ?thesis
    using compiled_distinct [OF assms] compiled_tasks_usable unfolding Plan_Validate_iff by blast
qed

section \<open>Command lines\<close>

definition flag_words :: "string set" where
  "flag_words = {''-project'', ''-state'', ''-gh'', ''-gc'', ''-bd'', ''-provider'', ''-provider-bin'', ''-project-path'',
     ''-package'', ''-deadline''}"

definition host_words :: "HostProfile \<Rightarrow> string \<Rightarrow> string set" where
  "host_words h pid = {ProjectDir h pid, TrimSpace (hp_gitHubCommand h), TrimSpace (hp_gasCityCommand h),
     TrimSpace (hp_beadsCommand h), hp_provider h, TrimSpace (hp_providerCommand h), projectToolPath h}"

lemma project_args_words:
  "IDPattern (in_projectID i) \<Longrightarrow> set (project_args i h) \<subseteq> {w. IDPattern w} \<union> flag_words \<union> host_words h (in_projectID i)"
  by (auto simp: project_args_def option_args_def flag_words_def host_words_def)

lemma stage_words:
  "IDPattern StageCityUp" "IDPattern StageDispatch" "IDPattern StageAwait" "IDPattern StagePublish" "IDPattern StageVerify"
  "IDPattern StageProject" "IDPattern StagePublishProjection"
  by code_simp+

lemma accepted_ids: "DeliveryPlan_Validate i p = None \<Longrightarrow> wp \<in> set (AllPackages p) \<Longrightarrow> IDPattern (wp_id wp)"
  unfolding DeliveryPlan_Validate_iff AllPackages_def by (auto simp: list_all_iff package_wf_def)

lemma package_argv:
  assumes "t \<in> set (package_tasks i h wp)"
  shows "\<exists>stage. t_argv t = hp_driver h # package_args stage i h wp \<and> IDPattern stage"
  using assms stage_words by (auto simp: package_tasks_def Let_def stage_task_def split: if_splits)

lemma compiled_argv:
  assumes "IDPattern (in_projectID i)" "DeliveryPlan_Validate i p = None" "t \<in> set (p_tasks (compiled_work i p h runID))"
  shows "\<exists>args. t_argv t = hp_driver h # args \<and>
    set args \<subseteq> {w. IDPattern w} \<union> flag_words \<union> host_words h (in_projectID i) \<union> {Itoa (await_timeout i)}"
proof -
  consider (pkg) wp where "wp \<in> set (orderPackages p)" "t \<in> set (package_tasks i h wp)"
    | (own) stage where "t_argv t = hp_driver h # stage # project_args i h" "IDPattern stage"
    using assms(3) stage_words by (auto simp: compiled_work_def stage_task_def)
  then show ?thesis
  proof cases
    case pkg
    then have "IDPattern (wp_id wp)" using accepted_ids [OF assms(2)] orderPackages_total(2) [OF assms(2)] by simp
    with package_argv [OF pkg(2)] project_args_words [OF assms(1), of h] show ?thesis
      by (auto simp: package_args_def flag_words_def)
  next
    case own
    with project_args_words [OF assms(1), of h] show ?thesis by auto
  qed
qed

lemma compiled_result_paths: "t \<in> set (p_tasks (compiled_work i p h runID)) \<Longrightarrow> t_resultPath t = driverResultPath (t_id t)"
  by (auto simp: compiled_work_def package_tasks_def Let_def stage_task_def split: if_splits)

lemma compiled_mutates:
  "t \<in> set (p_tasks (compiled_work i p h runID)) \<Longrightarrow> t_mutates t \<Longrightarrow>
     t_id t = StagePublishProjection \<or> (\<exists>wp\<in>set (orderPackages p). \<not> IsVerification wp \<and> t_id t = publish_id (wp_id wp))"
  by (auto simp: compiled_work_def package_tasks_def Let_def stage_task_def split: if_splits)

lemma compiled_publication:
  assumes "wp \<in> set (orderPackages p)" "\<not> IsVerification wp"
  shows "\<exists>a\<in>set (p_tasks (compiled_work i p h runID)). \<exists>b\<in>set (p_tasks (compiled_work i p h runID)).
    t_id a = await_id (wp_id wp) \<and> t_id b = publish_id (wp_id wp) \<and>
    set (t_needs a) = insert StageDispatch (publish_id ` set (wp_dependsOn wp)) \<and>
    set (t_needs b) = insert (t_id a) (publish_id ` set (wp_dependsOn wp))"
proof -
  obtain a b where ab: "package_tasks i h wp = [a, b]"
    using assms(2) by (auto simp: package_tasks_def Let_def)
  with assms(1) have "a \<in> set (p_tasks (compiled_work i p h runID))" "b \<in> set (p_tasks (compiled_work i p h runID))"
    by (auto simp: compiled_work_def intro!: bexI [of _ wp])
  moreover have "t_id a = await_id (wp_id wp)" "t_id b = publish_id (wp_id wp)"
    "set (t_needs a) = insert StageDispatch (publish_id ` set (wp_dependsOn wp))"
    "set (t_needs b) = insert (t_id a) (publish_id ` set (wp_dependsOn wp))"
    using ab assms(2) by (auto simp: package_tasks_def Let_def stage_task_def)
  ultimately show ?thesis by blast
qed

section \<open>Properties\<close>

definition sample_host :: HostProfile where
  "sample_host =
     \<lparr>hp_deliveryRoot = ''/srv/delivery'', hp_driver = ''/opt/driver'', hp_gitHubCommand = [], hp_gasCityCommand = [],
      hp_beadsCommand = [], hp_provider = ''agent'', hp_providerCommand = [], hp_projectToolPath = [''/opt/go/bin''],
      hp_windowsMountPrefix = []\<rparr>"

lemma sample_intent_valid: "Intent_Validate (\<lambda>_. None) sample_intent = None"
  by code_simp

lemma Compile_Inr:
  "Compile url i p h runID = Inr (spec, work) \<longleftrightarrow>
     Intent_Validate url i = None \<and> DeliveryPlan_Validate i p = None \<and> HostProfile_Validate h = [] \<and> \<not> blank runID \<and>
     (\<forall>wp\<in>set (AllPackages p). wp_id wp = ''projection'' \<longrightarrow> IsVerification wp) \<and>
     spec = compiled_spec i h \<and> work = compiled_work i p h runID"
proof (cases "Intent_Validate url i = None \<and> DeliveryPlan_Validate i p = None \<and> HostProfile_Validate h = [] \<and> \<not> blank runID")
  case True
  then have "Spec_Validate (compiled_spec i h) = []"
    by (intro compiled_spec_valid) (simp_all add: Intent_Validate_None)
  with True compiled_work_valid [of i p h runID] show ?thesis by (auto simp: Compile_def Let_def)
qed (auto simp: Compile_def split: option.splits)

text \<open>C20. A delivery compiles into a run exactly when its intent, its plan and the host profile are valid, the run has an
  identifier, and no package that publishes is called \<open>projection\<close>: whatever else they hold, the control layer accepts
  the spec and the plan that are compiled from them. A package of that name is refused although the plan is accepted,
  since its publication and the publication of the projection are tasks of one name.\<close>

theorem compile_exact:
  "Compile url i p h runID = Inr (spec, work) \<longleftrightarrow>
     Intent_Validate url i = None \<and> DeliveryPlan_Validate i p = None \<and> HostProfile_Validate h = [] \<and> \<not> blank runID \<and>
     (\<forall>wp\<in>set (AllPackages p). wp_id wp = ''projection'' \<longrightarrow> IsVerification wp) \<and>
     spec = compiled_spec i h \<and> work = compiled_work i p h runID"
  by (rule Compile_Inr)

definition projection_delivery :: DeliveryPlan where
  "projection_delivery = sample_delivery\<lparr>dp_packages := [sample_package\<lparr>wp_id := ''projection''\<rparr>]\<rparr>"

theorem compile_exact_witness:
  "Compile (\<lambda>_. None) sample_intent sample_delivery sample_host ''run-1'' =
     Inr (compiled_spec sample_intent sample_host, compiled_work sample_intent sample_delivery sample_host ''run-1'') \<and>
   DeliveryPlan_Validate sample_intent projection_delivery = None \<and>
   Compile (\<lambda>_. None) sample_intent projection_delivery sample_host ''run-1'' \<noteq>
     Inr (compiled_spec sample_intent sample_host, compiled_work sample_intent projection_delivery sample_host ''run-1'')"
proof -
  have "\<not> blank ''run-1''" "HostProfile_Validate sample_host = []"
    "DeliveryPlan_Validate sample_intent projection_delivery = None"
    "list_all (\<lambda>wp. wp_id wp \<noteq> ''projection'') (AllPackages sample_delivery)"
    "list_ex (\<lambda>wp. wp_id wp = ''projection'' \<and> \<not> IsVerification wp) (AllPackages projection_delivery)"
    by code_simp+
  then show ?thesis
    unfolding compile_exact list_all_iff list_ex_iff using sample_intent_valid sample_delivery_valid by auto
qed

text \<open>C10. What a delivery compiles into is a run the control layer accepts and that can do nothing but deliver: the spec
  and the plan validate; every task runs the declared driver, with words that are identifiers, the driver's own flags,
  words of the host profile or the deadline; a task comes after everything it needs; every package that merges is awaited
  after the dispatch and after the publication of all it depends on, and published after its own wait; the projection
  waits for the task that finishes each package; only publications change anything; and no two tasks write one result.\<close>

theorem compiled_run_typed:
  assumes "Compile url i p h runID = Inr (spec, work)"
  shows "Spec_Validate spec = [] \<and> Plan_Validate work = [] \<and>
    (\<forall>t\<in>set (p_tasks work). \<exists>args. t_argv t = hp_driver h # args \<and>
       set args \<subseteq> {w. IDPattern w} \<union> flag_words \<union> host_words h (in_projectID i) \<union> {Itoa (await_timeout i)}) \<and>
    (\<forall>pre t post. p_tasks work = pre @ t # post \<longrightarrow> set (t_needs t) \<subseteq> t_id ` set pre) \<and>
    (\<forall>wp\<in>set (AllPackages p). \<not> IsVerification wp \<longrightarrow>
       (\<exists>a\<in>set (p_tasks work). \<exists>b\<in>set (p_tasks work). t_id a = await_id (wp_id wp) \<and> t_id b = publish_id (wp_id wp) \<and>
          set (t_needs a) = insert StageDispatch (publish_id ` set (wp_dependsOn wp)) \<and>
          set (t_needs b) = insert (t_id a) (publish_id ` set (wp_dependsOn wp)))) \<and>
    (\<exists>t\<in>set (p_tasks work). t_id t = StageProject \<and> set (t_needs t) = finishing_id ` set (AllPackages p)) \<and>
    (\<forall>t\<in>set (p_tasks work). t_mutates t \<longrightarrow> t_id t = StagePublishProjection \<or>
       (\<exists>wp\<in>set (AllPackages p). \<not> IsVerification wp \<and> t_id t = publish_id (wp_id wp))) \<and>
    distinct (map t_resultPath (p_tasks work))"
proof -
  have v: "intent_wf i" "DeliveryPlan_Validate i p = None" "HostProfile_Validate h = []"
    and n: "\<forall>wp\<in>set (AllPackages p). wp_id wp = ''projection'' \<longrightarrow> IsVerification wp"
    and s: "spec = compiled_spec i h" and w: "work = compiled_work i p h runID"
    using assms unfolding Compile_Inr Intent_Validate_None by blast+
  have pid: "IDPattern (in_projectID i)" using v(1) by (simp add: intent_wf_def)
  have valid: "Spec_Validate spec = []" "Plan_Validate work = []"
    using compiled_spec_valid [OF v(1,3)] compiled_work_valid [OF v(2)] n s w by auto
  have all: "set (orderPackages p) = set (AllPackages p)" by (rule orderPackages_total(2) [OF v(2)])
  have argv: "\<forall>t\<in>set (p_tasks work). \<exists>args. t_argv t = hp_driver h # args \<and>
      set args \<subseteq> {w. IDPattern w} \<union> flag_words \<union> host_words h (in_projectID i) \<union> {Itoa (await_timeout i)}"
    using compiled_argv [OF pid v(2)] unfolding w by blast
  have needs: "\<forall>pre t post. p_tasks work = pre @ t # post \<longrightarrow> set (t_needs t) \<subseteq> t_id ` set pre"
    using compiled_needs [OF v(2)] unfolding w needs_earlier_iff by simp
  have project: "\<exists>t\<in>set (p_tasks work). t_id t = StageProject \<and> set (t_needs t) = finishing_id ` set (AllPackages p)"
    by (auto simp: w compiled_work_def stage_task_def)
  have results: "distinct (map t_resultPath (p_tasks work))"
  proof -
    have "map t_resultPath (p_tasks work) = map driverResultPath (task_ids (p_tasks work))"
      using compiled_result_paths [of _ i p h runID] by (simp add: w task_ids_def)
    moreover have "distinct (task_ids (p_tasks work))" using n compiled_distinct [OF v(2)] by (simp add: w)
    ultimately show ?thesis by (simp add: distinct_map inj_on_def driverResultPath_def)
  qed
  have merging: "\<forall>wp\<in>set (AllPackages p). \<not> IsVerification wp \<longrightarrow>
      (\<exists>a\<in>set (p_tasks work). \<exists>b\<in>set (p_tasks work). t_id a = await_id (wp_id wp) \<and> t_id b = publish_id (wp_id wp) \<and>
        set (t_needs a) = insert StageDispatch (publish_id ` set (wp_dependsOn wp)) \<and>
        set (t_needs b) = insert (t_id a) (publish_id ` set (wp_dependsOn wp)))"
    using compiled_publication [of _ p i h runID] unfolding all w by blast
  have mutating: "\<forall>t\<in>set (p_tasks work). t_mutates t \<longrightarrow> t_id t = StagePublishProjection \<or>
      (\<exists>wp\<in>set (AllPackages p). \<not> IsVerification wp \<and> t_id t = publish_id (wp_id wp))"
    using compiled_mutates [of _ i p h runID] unfolding all w by blast
  show ?thesis
    by (intro conjI valid) (rule argv needs merging project mutating results)+
qed

theorem compiled_run_typed_witness:
  "\<exists>spec work. Compile (\<lambda>_. None) sample_intent sample_delivery sample_host ''run-1'' = Inr (spec, work) \<and>
     Plan_Validate work = [] \<and> distinct (map t_resultPath (p_tasks work)) \<and>
     (\<exists>t\<in>set (p_tasks work). t_id t = ''project'' \<and> ''publish-wp-a'' \<in> set (t_needs t))"
proof -
  have "\<not> blank ''run-1''" "HostProfile_Validate sample_host = []"
    "list_all (\<lambda>wp. wp_id wp \<noteq> ''projection'') (AllPackages sample_delivery)"
    "''publish-wp-a'' \<in> finishing_id ` set (AllPackages sample_delivery)"
    by code_simp+
  then have "Compile (\<lambda>_. None) sample_intent sample_delivery sample_host ''run-1'' =
      Inr (compiled_spec sample_intent sample_host, compiled_work sample_intent sample_delivery sample_host ''run-1'')"
    unfolding Compile_Inr list_all_iff using sample_intent_valid sample_delivery_valid by auto
  note run = this compiled_run_typed [OF this]
  then obtain t where "t \<in> set (p_tasks (compiled_work sample_intent sample_delivery sample_host ''run-1''))"
    "t_id t = StageProject" "set (t_needs t) = finishing_id ` set (AllPackages sample_delivery)" by (elim conjE bexE)
  with run(1) conjunct1 [OF conjunct2 [OF run(2)]] show ?thesis
    using run(2) \<open>''publish-wp-a'' \<in> finishing_id ` set (AllPackages sample_delivery)\<close> unfolding StageProject_def
    by (intro exI conjI bexI) (assumption | simp)+
qed

end
