(* ===== verification/Handoff_Store.thy ===== *)
theory Handoff_Store
  imports Handoff_State Handoff_Compile "HOL-Library.AList"
begin

text \<open>
  What a delivery keeps on disk (\<^verbatim>\<open>internal/handoff/record.go\<close>, \<^verbatim>\<open>reconcile.go\<close>, \<^verbatim>\<open>plan_supersede.go\<close>, \<^verbatim>\<open>plan_amend.go\<close>): the
  record, the intent, the plan and its archive, and the remediations with the journal of their authorizations.

  The state is the directory of one project, whose entries are files, files that cannot be read, and directories. Every write
  may fail: what happens to it is a parameter of the operation, and a failed write leaves what it had written. The JSON codecs
  and SHA-256 are the fields of \<open>codec\<close>; the theorems name what they need of them. The encodings of the
  closed types at hand do not fail, so the branches for that are left out. The search for a free archive name ends because a
  directory is finite: its fuel is one more than the number of entries (\<open>free_slot_total\<close>).
\<close>

section \<open>The directory of a project\<close>

datatype file_entry = FileData string | Unreadable | Directory

record project_dir =
  pd_listable :: bool
  pd_entries :: "(string \<times> file_entry) list"

datatype read_result = NotExist | ReadFailed | Content string

definition ReadFile :: "project_dir \<Rightarrow> string \<Rightarrow> read_result" where
  "ReadFile d n =
     (case map_of (pd_entries d) n of
        None \<Rightarrow> NotExist
      | Some (FileData s) \<Rightarrow> Content s
      | Some _ \<Rightarrow> ReadFailed)"

definition file_exists :: "project_dir \<Rightarrow> string \<Rightarrow> bool" where
  "file_exists d n = (map_of (pd_entries d) n \<noteq> None)"

definition put_file :: "project_dir \<Rightarrow> string \<Rightarrow> string \<Rightarrow> project_dir" where
  "put_file d n s = d\<lparr>pd_entries := AList.update n (FileData s) (pd_entries d)\<rparr>"

definition rename_file :: "project_dir \<Rightarrow> string \<Rightarrow> string \<Rightarrow> string \<Rightarrow> project_dir" where
  "rename_file d tmp n s = put_file (d\<lparr>pd_entries := AList.delete tmp (pd_entries d)\<rparr>) n s"

text \<open>What happens to the writes of one operation: a write may be refused, or fail and leave a part of the data.\<close>

datatype write_outcome = Written | Torn string | Refused

record store_io =
  sio_mkdir :: bool
  sio_stat :: "string \<Rightarrow> bool"
  sio_write :: "string \<Rightarrow> write_outcome"
  sio_rename :: bool

datatype journal_problem = NeverAuthorized int | AlteredSince int | DocumentGone int

datatype authorize_problem =
    AuthProject string string
  | AuthDeclaresSeq
  | AuthDeclaresTime
  | AuthDeclaresActor
  | AuthNoActor
  | NoStandingFinding string
  | AnotherFinding string int int

datatype store_error =
    MkdirFailed
  | StatFailed string
  | ReadError string
  | WriteFailed string
  | RenameFailed string
  | RecordUnparsed
  | RecordSchema int
  | RecordOfAnother string
  | RecordDigest
  | RecordNoProject
  | PlanExists string
  | PlanUnusable delivery_plan_error
  | RemediationUnparsed string string
  | RemediationMisnamed string int
  | RemediationOfAnother string string
  | RemediationNoProject
  | RemediationExists int
  | JournalConflict "journal_problem list"
  | StatusOfAnother string string
  | RunHolds string
  | PlanExecuted DeliveryState
  | PackagesCompleted nat
  | PackagesMerged nat
  | PackageDropped string
  | MergedPackageChanged string
  | IntentRefused intent_error
  | TermsDiffer string string
  | AuthorizeSchema int
  | AuthorizeInvalid "authorize_problem list"
  | RepairRefused remediation_error

definition write_file :: "store_io \<Rightarrow> string \<Rightarrow> string \<Rightarrow> project_dir \<Rightarrow> store_error option \<times> project_dir" where
  "write_file io n s d =
     (case sio_write io n of
        Written \<Rightarrow> (None, put_file d n s)
      | Torn part \<Rightarrow> (Some (WriteFailed n), put_file d n part)
      | Refused \<Rightarrow> (Some (WriteFailed n), d))"

text \<open>Writing beside a file and renaming over it.\<close>

definition install_file :: "store_io \<Rightarrow> string \<Rightarrow> string \<Rightarrow> project_dir \<Rightarrow> store_error option \<times> project_dir" where
  "install_file io n s d =
     (case write_file io (n @ ''.tmp'') s d of
        (Some e, d1) \<Rightarrow> (Some e, d1)
      | (None, d1) \<Rightarrow>
          if sio_rename io then (None, rename_file d1 (n @ ''.tmp'') n s) else (Some (RenameFailed n), d1))"

definition save_file :: "store_io \<Rightarrow> string \<Rightarrow> string \<Rightarrow> project_dir \<Rightarrow> store_error option \<times> project_dir" where
  "save_file io n s d = (if sio_mkdir io then install_file io n s d else (Some MkdirFailed, d))"

record codec =
  ck_fingerprint :: "Intent \<Rightarrow> string"
  ck_sha256 :: "string \<Rightarrow> string"
  ck_record :: "DeliveryRecord \<Rightarrow> string"
  ck_readRecord :: "string \<Rightarrow> DeliveryRecord option"
  ck_intent :: "Intent \<Rightarrow> string"
  ck_plan :: "DeliveryPlan \<Rightarrow> string"
  ck_readPlan :: "string \<Rightarrow> string + DeliveryPlan"
  ck_package :: "WorkPackage \<Rightarrow> string"
  ck_remediation :: "Remediation \<Rightarrow> string"
  ck_readRemediation :: "string \<Rightarrow> string + Remediation"

section \<open>The record\<close>

definition RecordName :: string where "RecordName = ''delivery.json''"
definition IntentName :: string where "IntentName = ''intent.json''"
definition PlanName :: string where "PlanName = ''plan.json''"

text \<open>What a digest covers: the terms, with the criteria in the order of their names, and not who asked and when.\<close>

definition sortedCriteria :: "Criterion list \<Rightarrow> Criterion list" where
  "sortedCriteria cs = sort_key cn_id cs"

definition intent_terms :: "Intent \<Rightarrow> Intent" where
  "intent_terms i = i\<lparr>in_acceptance := sortedCriteria (in_acceptance i), in_requestedBy := [], in_requestedAt := None\<rparr>"

definition Digest :: "codec \<Rightarrow> Intent \<Rightarrow> string" where
  "Digest k i = ck_fingerprint k (intent_terms i)"

definition short :: "string \<Rightarrow> string" where
  "short digest = (if length digest > 12 then take 12 digest else digest)"

definition LoadRecord :: "codec \<Rightarrow> string \<Rightarrow> project_dir \<Rightarrow> store_error + DeliveryRecord option" where
  "LoadRecord k pid d =
     (case ReadFile d RecordName of
        NotExist \<Rightarrow> Inr None
      | ReadFailed \<Rightarrow> Inl (ReadError RecordName)
      | Content s \<Rightarrow>
          (case ck_readRecord k s of
             None \<Rightarrow> Inl RecordUnparsed
           | Some r \<Rightarrow>
               if dr_schemaVersion r \<noteq> RecordSchemaVersion then Inl (RecordSchema (dr_schemaVersion r))
               else if dr_projectID r \<noteq> pid then Inl (RecordOfAnother (dr_projectID r))
               else if dr_intentDigest r \<noteq> Digest k (dr_intent r) then Inl RecordDigest
               else Inr (Some r)))"

definition SaveRecord :: "store_io \<Rightarrow> codec \<Rightarrow> DeliveryRecord \<Rightarrow> project_dir \<Rightarrow> store_error option \<times> project_dir" where
  "SaveRecord io k r d =
     (if dr_projectID r = [] then (Some RecordNoProject, d)
      else save_file io RecordName (ck_record k r @ newline) d)"

record Admission =
  ad_record :: DeliveryRecord
  ad_created :: bool
  ad_alreadyStarted :: bool

definition started_record :: "codec \<Rightarrow> Intent \<Rightarrow> int \<Rightarrow> DeliveryRecord" where
  "started_record k i now =
     \<lparr>dr_schemaVersion = RecordSchemaVersion, dr_projectID = in_projectID i, dr_intent = i, dr_intentDigest = Digest k i,
      dr_stateDir = [], dr_worktree = [], dr_createdAt = now, dr_updatedAt = now, dr_runs = [], dr_acceptances = [],
      dr_invalidations = [], dr_remediations = []\<rparr>"

definition Admit :: "codec \<Rightarrow> url_parser \<Rightarrow> Intent \<Rightarrow> int \<Rightarrow> project_dir \<Rightarrow> store_error + Admission" where
  "Admit k url i now d =
     (case Intent_Validate url i of
        Some e \<Rightarrow> Inl (IntentRefused e)
      | None \<Rightarrow>
          (case LoadRecord k (in_projectID i) d of
             Inl e \<Rightarrow> Inl e
           | Inr None \<Rightarrow> Inr \<lparr>ad_record = started_record k i now, ad_created = True, ad_alreadyStarted = False\<rparr>
           | Inr (Some r) \<Rightarrow>
               if dr_intentDigest r \<noteq> Digest k i then Inl (TermsDiffer (short (dr_intentDigest r)) (short (Digest k i)))
               else Inr \<lparr>ad_record = r, ad_created = False, ad_alreadyStarted = True\<rparr>))"

definition SaveIntent :: "store_io \<Rightarrow> codec \<Rightarrow> url_parser \<Rightarrow> Intent \<Rightarrow> project_dir \<Rightarrow> store_error option \<times> project_dir" where
  "SaveIntent io k url i d =
     (case Intent_Validate url i of
        Some e \<Rightarrow> (Some (IntentRefused e), d)
      | None \<Rightarrow> save_file io IntentName (ck_intent k i @ newline) d)"

definition SanitizeProjectID :: "string \<Rightarrow> bool" where
  "SanitizeProjectID pid \<longleftrightarrow>
     IDPattern pid \<and> \<not> (slash \<in> set pid \<or> backslash \<in> set pid \<or> pid = ''.'' \<or> pid = ''..'')"

section \<open>Remediations\<close>

definition pad_zero :: "nat \<Rightarrow> string \<Rightarrow> string" where
  "pad_zero w s = replicate (w - length s) (CHR ''0'') @ s"

text \<open>The verb \<^verbatim>\<open>%03d\<close>.\<close>

definition pad3 :: "int \<Rightarrow> string" where
  "pad3 n = (if n < 0 then ''-'' @ pad_zero 2 (nat_dec (nat (- n))) else pad_zero 3 (nat_dec (nat n)))"

definition RemediationName :: "int \<Rightarrow> string" where
  "RemediationName seq = ''remediation-'' @ pad3 seq @ ''.json''"

text \<open>The digits of a name that matches \<^verbatim>\<open>^remediation-(\d{3,})\.json$\<close>.\<close>

definition remediationFilePattern :: "string \<Rightarrow> string option" where
  "remediationFilePattern n =
     (let ds = drop 12 (take (length n - 5) n) in
      if HasPrefix n ''remediation-'' \<and> HasSuffix n ''.json'' \<and> 3 \<le> length ds \<and> list_all is_digit ds
      then Some ds else None)"

definition DecodeRemediation :: "codec \<Rightarrow> string \<Rightarrow> string + Remediation" where
  "DecodeRemediation k s = ck_readRemediation k s"

definition remediationDigest :: "codec \<Rightarrow> string \<Rightarrow> string" where
  "remediationDigest k s = ck_sha256 k s"

text \<open>What one entry of the directory adds: the remediation and the bytes it was read from.\<close>

definition load_entry :: "codec \<Rightarrow> string \<Rightarrow> project_dir \<Rightarrow> string \<Rightarrow> store_error + (Remediation \<times> string) option" where
  "load_entry k pid d n =
     (if map_of (pd_entries d) n = Some Directory then Inr None
      else
        case remediationFilePattern n of
          None \<Rightarrow> Inr None
        | Some ds \<Rightarrow>
            (case ReadFile d n of
               Content s \<Rightarrow>
                 (case DecodeRemediation k s of
                    Inl e \<Rightarrow> Inl (RemediationUnparsed n e)
                  | Inr rm \<Rightarrow>
                      if atoi_digits ds \<noteq> Some (rm_seq rm) then Inl (RemediationMisnamed n (rm_seq rm))
                      else if rm_projectID rm \<noteq> pid then Inl (RemediationOfAnother n (rm_projectID rm))
                      else Inr (Some (rm, s)))
             | _ \<Rightarrow> Inl (ReadError n)))"

fun load_entries :: "codec \<Rightarrow> string \<Rightarrow> project_dir \<Rightarrow> string list \<Rightarrow> store_error + (Remediation \<times> string) list" where
  "load_entries k pid d [] = Inr []"
| "load_entries k pid d (n # ns) =
     (case load_entry k pid d n of
        Inl e \<Rightarrow> Inl e
      | Inr x \<Rightarrow>
          (case load_entries k pid d ns of
             Inl e \<Rightarrow> Inl e
           | Inr docs \<Rightarrow> Inr (case x of None \<Rightarrow> docs | Some doc \<Rightarrow> doc # docs)))"

text \<open>The map of digests holds what the last document of a sequence number gave.\<close>

definition digest_of :: "codec \<Rightarrow> (Remediation \<times> string) list \<Rightarrow> int \<Rightarrow> string" where
  "digest_of k docs seq =
     (case find (\<lambda>(rm, s). rm_seq rm = seq) (rev docs) of None \<Rightarrow> [] | Some (rm, s) \<Rightarrow> remediationDigest k s)"

text \<open>The journal as the map of sequence numbers: the last entry of a number counts, and those met are deleted.\<close>

fun journal_scan :: "RemediationRef list \<Rightarrow> (int \<Rightarrow> string) \<Rightarrow> Remediation list \<Rightarrow> journal_problem list" where
  "journal_scan refs digests [] = map DocumentGone (sort (remdups (map rf_seq refs)))"
| "journal_scan refs digests (rm # rms) =
     (case find (\<lambda>f. rf_seq f = rm_seq rm) (rev refs) of
        None \<Rightarrow> NeverAuthorized (rm_seq rm) # journal_scan refs digests rms
      | Some f \<Rightarrow>
          problem_if (digests (rm_seq rm) \<noteq> rf_digest f) (AlteredSince (rm_seq rm)) @
          journal_scan (filter (\<lambda>g. rf_seq g \<noteq> rm_seq rm) refs) digests rms)"

definition verifyRemediationJournal :: "DeliveryRecord \<Rightarrow> Remediation list \<Rightarrow> (int \<Rightarrow> string) \<Rightarrow> journal_problem list" where
  "verifyRemediationJournal r loaded digests =
     (if dr_remediations r = [] then [] else journal_scan (dr_remediations r) digests loaded)"

definition LoadRemediations :: "codec \<Rightarrow> string \<Rightarrow> project_dir \<Rightarrow> store_error + Remediation list" where
  "LoadRemediations k pid d =
     (if \<not> pd_listable d then Inl (ReadError [])
      else
        case load_entries k pid d (sort (map fst (pd_entries d))) of
          Inl e \<Rightarrow> Inl e
        | Inr docs \<Rightarrow>
            let rms = sort_key rm_seq (map fst docs) in
            (case LoadRecord k pid d of
               Inl e \<Rightarrow> Inl e
             | Inr None \<Rightarrow> Inr rms
             | Inr (Some r) \<Rightarrow>
                 let ps = verifyRemediationJournal r rms (digest_of k docs) in
                 if ps \<noteq> [] then Inl (JournalConflict ps) else Inr rms))"

definition SaveRemediation :: "store_io \<Rightarrow> codec \<Rightarrow> Remediation \<Rightarrow> project_dir \<Rightarrow> store_error option \<times> project_dir" where
  "SaveRemediation io k rm d =
     (let n = RemediationName (rm_seq rm) in
      if rm_projectID rm = [] then (Some RemediationNoProject, d)
      else if \<not> sio_stat io n then (Some (StatFailed n), d)
      else if file_exists d n then (Some (RemediationExists (rm_seq rm)), d)
      else save_file io n (ck_remediation k rm @ newline) d)"

definition authorize_declared :: "DeliveryRecord \<Rightarrow> Remediation \<Rightarrow> string \<Rightarrow> authorize_problem list" where
  "authorize_declared r rm by' =
     problem_if (rm_projectID rm \<noteq> dr_projectID r) (AuthProject (rm_projectID rm) (dr_projectID r)) @
     problem_if (rm_seq rm \<noteq> 0) AuthDeclaresSeq @
     problem_if (rm_authorizedAt rm \<noteq> None) AuthDeclaresTime @
     problem_if (\<not> blank (rm_authorizedBy rm)) AuthDeclaresActor @
     problem_if (blank by') AuthNoActor"

definition authorize_standing :: "DeliveryRecord \<Rightarrow> Evidence \<Rightarrow> Remediation \<Rightarrow> authorize_problem list" where
  "authorize_standing r prior rm =
     concat (map (\<lambda>rep.
       case StandingInvalidations r prior (rep_criterionID rep) of
         None \<Rightarrow> [NoStandingFinding (rep_criterionID rep)]
       | Some fnd \<Rightarrow> problem_if (inv_seq fnd \<noteq> rep_invalidation rep)
           (AnotherFinding (rep_criterionID rep) (rep_invalidation rep) (inv_seq fnd))) (rm_repairs rm))"

definition remediation_ref :: "codec \<Rightarrow> Remediation \<Rightarrow> string \<Rightarrow> RemediationRef" where
  "remediation_ref k rm s =
     \<lparr>rf_seq = rm_seq rm, rf_digest = remediationDigest k s, rf_authorizedBy = rm_authorizedBy rm,
      rf_authorizedAt = rm_authorizedAt rm\<rparr>"

text \<open>The entries of the journal for documents as they are installed.\<close>

fun adopt_refs :: "codec \<Rightarrow> project_dir \<Rightarrow> Remediation list \<Rightarrow> store_error + RemediationRef list" where
  "adopt_refs k d [] = Inr []"
| "adopt_refs k d (rm # rms) =
     (case ReadFile d (RemediationName (rm_seq rm)) of
        Content s \<Rightarrow>
          (case adopt_refs k d rms of Inl e \<Rightarrow> Inl e | Inr refs \<Rightarrow> Inr (remediation_ref k rm s # refs))
      | _ \<Rightarrow> Inl (ReadError (RemediationName (rm_seq rm))))"

definition journal_authorization ::
  "store_io \<Rightarrow> codec \<Rightarrow> DeliveryRecord \<Rightarrow> Remediation list \<Rightarrow> Remediation \<Rightarrow> project_dir \<Rightarrow> store_error option \<times> project_dir" where
  "journal_authorization io k r existing rm d =
     (case adopt_refs k d ((if dr_remediations r = [] then existing else []) @ [rm]) of
        Inl e \<Rightarrow> (Some e, d)
      | Inr refs \<Rightarrow>
          SaveRecord io k (JournalRemediations r refs (case rm_authorizedAt rm of Some t \<Rightarrow> t | None \<Rightarrow> 0)) d)"

text \<open>The two writes have outcomes of their own, \<open>io1\<close> for the document and \<open>io2\<close> for the record.\<close>

definition AuthorizeRemediation ::
  "store_io \<Rightarrow> store_io \<Rightarrow> codec \<Rightarrow> DeliveryRecord \<Rightarrow> DeliveryPlan \<Rightarrow> Evidence \<Rightarrow> Remediation \<Rightarrow> string \<Rightarrow> int \<Rightarrow>
   project_dir \<Rightarrow> (store_error + Remediation) \<times> project_dir" where
  "AuthorizeRemediation io1 io2 k r plan prior rm by' now d =
     (if rm_schemaVersion rm \<noteq> RemediationSchemaVersion then (Inl (AuthorizeSchema (rm_schemaVersion rm)), d)
      else if authorize_declared r rm by' \<noteq> [] then (Inl (AuthorizeInvalid (authorize_declared r rm by')), d)
      else
        case LoadRemediations k (dr_projectID r) d of
          Inl e \<Rightarrow> (Inl e, d)
        | Inr existing \<Rightarrow>
            let rm = rm\<lparr>rm_seq := int (length existing) + 1, rm_authorizedBy := TrimSpace by', rm_authorizedAt := Some now\<rparr> in
            if authorize_standing r prior rm \<noteq> [] then (Inl (AuthorizeInvalid (authorize_standing r prior rm)), d)
            else
              case Remediation_Validate (dr_intent r) rm of
                Some e \<Rightarrow> (Inl (RepairRefused e), d)
              | None \<Rightarrow>
                  (case DeliveryPlan_Validate (dr_intent r) (plan\<lparr>dp_remediations := existing @ [rm]\<rparr>) of
                     Some e \<Rightarrow> (Inl (PlanUnusable e), d)
                   | None \<Rightarrow>
                       (case SaveRemediation io1 k rm d of
                          (Some e, d1) \<Rightarrow> (Inl e, d1)
                        | (None, d1) \<Rightarrow>
                            (case journal_authorization io2 k r existing rm d1 of
                               (Some e, d2) \<Rightarrow> (Inl e, d2)
                             | (None, d2) \<Rightarrow> (Inr rm, d2)))))"

section \<open>The plan and its archive\<close>

definition SavePlan :: "store_io \<Rightarrow> codec \<Rightarrow> DeliveryPlan \<Rightarrow> project_dir \<Rightarrow> store_error option \<times> project_dir" where
  "SavePlan io k p d =
     (case ReadFile d PlanName of
        Content s \<Rightarrow> if s \<noteq> ck_plan k p @ newline then (Some (PlanExists (dp_projectID p)), d) else (None, d)
      | ReadFailed \<Rightarrow> (Some (ReadError PlanName), d)
      | NotExist \<Rightarrow> save_file io PlanName (ck_plan k p @ newline) d)"

definition LoadPlan :: "codec \<Rightarrow> Intent \<Rightarrow> project_dir \<Rightarrow> store_error + DeliveryPlan option" where
  "LoadPlan k i d =
     (case ReadFile d PlanName of
        NotExist \<Rightarrow> Inr None
      | ReadFailed \<Rightarrow> Inl (ReadError PlanName)
      | Content s \<Rightarrow>
          (case LoadRemediations k (in_projectID i) d of
             Inl e \<Rightarrow> Inl e
           | Inr rms \<Rightarrow>
               (case DecodePlanWithRemediations (ck_readPlan k) s i rms of
                  Inl e \<Rightarrow> Inl (PlanUnusable e)
                | Inr p \<Rightarrow> Inr (Some p))))"

definition SupersededPlanName :: "nat \<Rightarrow> string" where
  "SupersededPlanName n = ''plan-superseded-'' @ pad3 (int n) @ ''.json''"

fun free_slot :: "nat \<Rightarrow> store_io \<Rightarrow> project_dir \<Rightarrow> nat \<Rightarrow> (store_error + nat) option" where
  "free_slot 0 io d n = None"
| "free_slot (Suc fuel) io d n =
     (if \<not> sio_stat io (SupersededPlanName n) then Some (Inl (StatFailed (SupersededPlanName n)))
      else if \<not> file_exists d (SupersededPlanName n) then Some (Inr n)
      else free_slot fuel io d (Suc n))"

definition archive_slot :: "store_io \<Rightarrow> project_dir \<Rightarrow> store_error + nat" where
  "archive_slot io d = the (free_slot (Suc (length (pd_entries d))) io d 1)"

text \<open>Archiving the plan that stands and installing another, the tail both replacements share.\<close>

definition replace_plan ::
  "store_io \<Rightarrow> codec \<Rightarrow> string \<Rightarrow> DeliveryPlan \<Rightarrow> project_dir \<Rightarrow> store_error option \<times> project_dir" where
  "replace_plan io k existing p d =
     (case archive_slot io d of
        Inl e \<Rightarrow> (Some e, d)
      | Inr n \<Rightarrow>
          (case write_file io (SupersededPlanName n) existing d of
             (Some e, d1) \<Rightarrow> (Some e, d1)
           | (None, d1) \<Rightarrow> install_file io PlanName (ck_plan k p @ newline) d1))"

definition SupersedeUnexecutedPlan ::
  "store_io \<Rightarrow> codec \<Rightarrow> DeliveryPlan \<Rightarrow> Status \<Rightarrow> project_dir \<Rightarrow> store_error option \<times> project_dir" where
  "SupersedeUnexecutedPlan io k p st d =
     (if st_projectID st \<noteq> dp_projectID p then (Some (StatusOfAnother (st_projectID st) (dp_projectID p)), d)
      else if st_live st then (Some (RunHolds (dp_projectID p)), d)
      else if st_state st \<noteq> StateFailed \<and> st_state st \<noteq> StatePlanning then (Some (PlanExecuted (st_state st)), d)
      else if evd_complete (st_evidence st) \<noteq> [] then
        (Some (PackagesCompleted (length (evd_complete (st_evidence st)))), d)
      else if evd_gateNotMet (st_evidence st) \<noteq> [] then
        (Some (PackagesMerged (length (evd_gateNotMet (st_evidence st)))), d)
      else
        case ReadFile d PlanName of
          NotExist \<Rightarrow> SavePlan io k p d
        | ReadFailed \<Rightarrow> (Some (ReadError PlanName), d)
        | Content s \<Rightarrow> replace_plan io k s p d)"

definition packagesIdentical :: "codec \<Rightarrow> WorkPackage \<Rightarrow> WorkPackage \<Rightarrow> bool" where
  "packagesIdentical k a b = (ck_package k a = ck_package k b)"

definition has_merged :: "Status \<Rightarrow> string \<Rightarrow> bool" where
  "has_merged st i = (i \<in> set (evd_complete (st_evidence st)) \<or> i \<in> set (evd_gateNotMet (st_evidence st)))"

fun amend_problem :: "codec \<Rightarrow> Status \<Rightarrow> WorkPackage list \<Rightarrow> WorkPackage list \<Rightarrow> store_error option" where
  "amend_problem k st next' [] = None"
| "amend_problem k st next' (wp # wps) =
     (case package_named next' (wp_id wp) of
        None \<Rightarrow> Some (PackageDropped (wp_id wp))
      | Some wp' \<Rightarrow>
          if has_merged st (wp_id wp) \<and> \<not> packagesIdentical k wp wp' then Some (MergedPackageChanged (wp_id wp))
          else amend_problem k st next' wps)"

definition AmendUnmergedPackages ::
  "store_io \<Rightarrow> codec \<Rightarrow> DeliveryPlan \<Rightarrow> DeliveryPlan \<Rightarrow> Status \<Rightarrow> project_dir \<Rightarrow> store_error option \<times> project_dir" where
  "AmendUnmergedPackages io k standing p st d =
     (if st_projectID st \<noteq> dp_projectID p then (Some (StatusOfAnother (st_projectID st) (dp_projectID p)), d)
      else if st_live st then (Some (RunHolds (dp_projectID p)), d)
      else
        case amend_problem k st (dp_packages p) (dp_packages standing) of
          Some e \<Rightarrow> (Some e, d)
        | None \<Rightarrow>
            (case ReadFile d PlanName of
               Content s \<Rightarrow> replace_plan io k s p d
             | _ \<Rightarrow> (Some (ReadError PlanName), d)))"

section \<open>Files\<close>

lemma entries_put: "map_of (pd_entries (put_file d n s)) = (map_of (pd_entries d))(n \<mapsto> FileData s)"
  by (simp add: put_file_def update_conv')

lemma entries_rename:
  "map_of (pd_entries (rename_file d tmp n s)) = ((map_of (pd_entries d))(tmp := None))(n \<mapsto> FileData s)"
  by (simp add: rename_file_def entries_put delete_conv')

lemma listable_put [simp]: "pd_listable (put_file d n s) = pd_listable d" "pd_listable (rename_file d tmp n s) = pd_listable d"
  by (simp_all add: put_file_def rename_file_def)

lemma ReadFile_entry: "map_of (pd_entries d') n = map_of (pd_entries d) n \<Longrightarrow> ReadFile d' n = ReadFile d n"
  by (simp add: ReadFile_def)

lemma ReadFile_Content: "ReadFile d n = Content s \<longleftrightarrow> map_of (pd_entries d) n = Some (FileData s)"
  by (auto simp: ReadFile_def split: option.splits file_entry.splits)

lemma ReadFile_NotExist: "ReadFile d n = NotExist \<longleftrightarrow> map_of (pd_entries d) n = None"
  by (auto simp: ReadFile_def split: option.splits file_entry.splits)

text \<open>A write changes its file or the temporary one beside it, and the file only as a whole.\<close>

definition writes_only :: "string \<Rightarrow> string \<Rightarrow> store_error option \<Rightarrow> project_dir \<Rightarrow> project_dir \<Rightarrow> bool" where
  "writes_only n s e d d' \<longleftrightarrow>
     pd_listable d' = pd_listable d \<and>
     (\<forall>m. m \<noteq> n \<and> m \<noteq> n @ ''.tmp'' \<longrightarrow> map_of (pd_entries d') m = map_of (pd_entries d) m) \<and>
     map_of (pd_entries d') n = (if e = None then Some (FileData s) else map_of (pd_entries d) n)"

lemma install_file_writes: "install_file io n s d = (e, d') \<Longrightarrow> writes_only n s e d d'"
  by (auto simp: install_file_def write_file_def writes_only_def entries_put entries_rename
      split: write_outcome.splits if_splits)

lemma save_file_writes: "save_file io n s d = (e, d') \<Longrightarrow> writes_only n s e d d'"
  using install_file_writes by (auto simp: save_file_def writes_only_def split: if_splits)

lemma writes_only_same: "writes_only n s e d d' \<Longrightarrow> m \<noteq> n \<Longrightarrow> m \<noteq> n @ ''.tmp'' \<Longrightarrow> map_of (pd_entries d') m = map_of (pd_entries d) m"
  by (simp add: writes_only_def)

lemma writes_only_kept:
  "writes_only n s e d d' \<Longrightarrow> m \<noteq> n \<Longrightarrow> m \<noteq> n @ ''.tmp'' \<Longrightarrow> ReadFile d' m = ReadFile d m"
  by (intro ReadFile_entry writes_only_same)

lemma writes_only_refl: "writes_only n s (Some e) d d"
  by (simp add: writes_only_def)

section \<open>Names\<close>

lemma last_tmp [simp]: "last (n @ ''.tmp'') = CHR ''p''"
  by simp

lemma dec_val_zeros: "dec_val (replicate m (CHR ''0'') @ s) = dec_val s"
proof -
  have "foldl (\<lambda>a c. 10 * a + (of_char c - 48)) 0 (replicate m (CHR ''0'')) = (0::nat)"
    by (induction m) simp_all
  then show ?thesis by (simp add: dec_val_def)
qed

lemma dec_val_pad3 [simp]: "0 \<le> n \<Longrightarrow> dec_val (pad3 n) = nat n"
  by (simp add: pad3_def pad_zero_def dec_val_zeros)

lemma pad3_digits: "0 \<le> n \<Longrightarrow> list_all is_digit (pad3 n) \<and> 3 \<le> length (pad3 n)"
  using nat_dec_digits [of "nat n"] by (auto simp: pad3_def pad_zero_def list_all_iff) (simp add: is_digit_def)

lemma SupersededPlanName_inject [simp]: "SupersededPlanName m = SupersededPlanName n \<longleftrightarrow> m = n"
proof
  assume "SupersededPlanName m = SupersededPlanName n"
  then have "dec_val (pad3 (int m)) = dec_val (pad3 (int n))" by (simp add: SupersededPlanName_def)
  then show "m = n" by simp
qed simp

lemma names_apart [simp]:
  "SupersededPlanName n \<noteq> PlanName" "SupersededPlanName n \<noteq> RecordName" "SupersededPlanName n \<noteq> IntentName"
  "SupersededPlanName n \<noteq> RemediationName s" "RemediationName s \<noteq> PlanName" "RemediationName s \<noteq> RecordName"
  "RemediationName s \<noteq> IntentName" "PlanName \<noteq> RecordName" "PlanName \<noteq> IntentName" "RecordName \<noteq> IntentName"
  "PlanName \<noteq> RemediationName s" "PlanName \<noteq> SupersededPlanName n" "RecordName \<noteq> PlanName" "RecordName \<noteq> RemediationName s"
  "IntentName \<noteq> RemediationName s" "IntentName \<noteq> PlanName" "IntentName \<noteq> RecordName"
  "RecordName \<noteq> SupersededPlanName n" "IntentName \<noteq> SupersededPlanName n" "RemediationName s \<noteq> SupersededPlanName n"
  by (simp_all add: SupersededPlanName_def PlanName_def RecordName_def IntentName_def RemediationName_def)

lemma not_tmp: "last n \<noteq> CHR ''p'' \<Longrightarrow> n \<noteq> m @ ''.tmp''"
  using last_tmp by metis

lemma name_not_tmp [simp]:
  "PlanName \<noteq> m @ ''.tmp''" "RecordName \<noteq> m @ ''.tmp''" "IntentName \<noteq> m @ ''.tmp''"
  "SupersededPlanName n \<noteq> m @ ''.tmp''" "RemediationName s \<noteq> m @ ''.tmp''"
  by (rule not_tmp, simp add: PlanName_def RecordName_def IntentName_def SupersededPlanName_def RemediationName_def)+

lemma pattern_RemediationName: "0 \<le> s \<Longrightarrow> remediationFilePattern (RemediationName s) = Some (pad3 s)"
  using pad3_digits [of s]
  by (simp add: remediationFilePattern_def RemediationName_def HasPrefix_def HasSuffix_suffix suffix_def Let_def)

lemma pattern_other [simp]:
  "remediationFilePattern PlanName = None" "remediationFilePattern RecordName = None" "remediationFilePattern IntentName = None"
  "remediationFilePattern (SupersededPlanName n) = None" "remediationFilePattern (m @ ''.tmp'') = None"
  by (auto simp: remediationFilePattern_def PlanName_def RecordName_def IntentName_def SupersededPlanName_def HasPrefix_def
      HasSuffix_suffix Let_def suffix_def dest: arg_cong [where f = last])

lemma atoi_pad3: "0 \<le> s \<Longrightarrow> s \<le> max_int \<Longrightarrow> atoi_digits (pad3 s) = Some s"
  using pad3_digits [of s] by (auto simp: atoi_digits_def)

section \<open>The search for a free name\<close>

lemma free_slot_free: "free_slot fuel io d n = Some (Inr m) \<Longrightarrow> \<not> file_exists d (SupersededPlanName m)"
  by (induction fuel arbitrary: n) (auto split: if_splits)

lemma finite_slots: "finite {m. file_exists d (SupersededPlanName m)}"
  and card_slots: "card {m. file_exists d (SupersededPlanName m)} \<le> length (pd_entries d)"
proof -
  let ?S = "{m. file_exists d (SupersededPlanName m)}"
  have sub: "SupersededPlanName ` ?S \<subseteq> fst ` set (pd_entries d)"
    by (auto simp: file_exists_def map_of_eq_None_iff)
  have inj: "inj_on SupersededPlanName ?S" by (simp add: inj_on_def)
  show "finite ?S" using finite_imageD [OF finite_subset [OF sub] inj] by simp
  have "card ?S \<le> card (fst ` set (pd_entries d))" using card_inj_on_le [OF inj sub] by simp
  also have "\<dots> \<le> length (pd_entries d)" by (metis card_length length_map set_map)
  finally show "card ?S \<le> length (pd_entries d)" .
qed

lemma free_slot_Some: "card {m. n \<le> m \<and> file_exists d (SupersededPlanName m)} < fuel \<Longrightarrow> \<exists>r. free_slot fuel io d n = Some r"
proof (induction fuel arbitrary: n)
  case (Suc fuel)
  show ?case
  proof (cases "file_exists d (SupersededPlanName n)")
    case True
    let ?S = "\<lambda>n. {m. n \<le> m \<and> file_exists d (SupersededPlanName m)}"
    have "?S n = insert n (?S (Suc n))" using True by (auto simp: Suc_le_eq le_less)
    moreover have "finite (?S (Suc n))" using finite_slots by (rule rev_finite_subset) auto
    ultimately have "card (?S (Suc n)) < fuel" using Suc.prems by simp
    with Suc.IH show ?thesis by simp
  qed simp
qed simp

lemma free_slot_total: "free_slot (Suc (length (pd_entries d))) io d 1 = Some (archive_slot io d)"
proof -
  have "card {m. 1 \<le> m \<and> file_exists d (SupersededPlanName m)} \<le> card {m. file_exists d (SupersededPlanName m)}"
    by (rule card_mono [OF finite_slots]) auto
  then have "\<exists>r. free_slot (Suc (length (pd_entries d))) io d 1 = Some r"
    using card_slots [of d] by (intro free_slot_Some) simp
  then show ?thesis by (auto simp: archive_slot_def)
qed

lemma archive_slot_free: "archive_slot io d = Inr n \<Longrightarrow> \<not> file_exists d (SupersededPlanName n)"
  using free_slot_total free_slot_free by metis

section \<open>The history of the plan\<close>

text \<open>A replacement installs the new plan, or leaves the old one; the old one is then in the archive, of which nothing
  changes.\<close>

lemma replace_plan_keeps:
  assumes "replace_plan io k s p d = (e, d')" "ReadFile d PlanName = Content s"
  shows "ReadFile d' PlanName = (if e = None then Content (ck_plan k p @ newline) else Content s)"
    "e = None \<Longrightarrow> \<exists>n. ReadFile d' (SupersededPlanName n) = Content s"
    "ReadFile d (SupersededPlanName n) = Content a \<Longrightarrow> ReadFile d' (SupersededPlanName n) = Content a"
proof -
  consider (none) e' where "archive_slot io d = Inl e'"
    | (torn) n' e' d1 where "archive_slot io d = Inr n'" "write_file io (SupersededPlanName n') s d = (Some e', d1)"
    | (kept) n' d1 where "archive_slot io d = Inr n'" "write_file io (SupersededPlanName n') s d = (None, d1)"
    by (metis old.sum.exhaust option.exhaust surj_pair)
  then have "ReadFile d' PlanName = (if e = None then Content (ck_plan k p @ newline) else Content s) \<and>
    (e = None \<longrightarrow> (\<exists>n. ReadFile d' (SupersededPlanName n) = Content s)) \<and>
    (ReadFile d (SupersededPlanName n) = Content a \<longrightarrow> ReadFile d' (SupersededPlanName n) = Content a)"
  proof cases
    case none
    with assms show ?thesis by (auto simp: replace_plan_def)
  next
    case torn
    then have "e \<noteq> None" "d' = d1" using assms(1) by (auto simp: replace_plan_def)
    with torn assms(2) archive_slot_free [OF torn(1)] show ?thesis
      by (auto simp: write_file_def ReadFile_Content entries_put file_exists_def split: write_outcome.splits)
  next
    case kept
    then have "install_file io PlanName (ck_plan k p @ newline) d1 = (e, d')" using assms(1) by (simp add: replace_plan_def)
    from install_file_writes [OF this] have w: "writes_only PlanName (ck_plan k p @ newline) e d1 d'" .
    have d1: "d1 = put_file d (SupersededPlanName n') s" using kept(2) by (auto simp: write_file_def split: write_outcome.splits)
    have "map_of (pd_entries d') (SupersededPlanName m) = map_of (pd_entries d1) (SupersededPlanName m)" for m
      using w by (simp add: writes_only_def)
    moreover have "map_of (pd_entries d') PlanName = (if e = None then Some (FileData (ck_plan k p @ newline)) else Some (FileData s))"
      using w assms(2) by (auto simp: writes_only_def d1 entries_put ReadFile_Content)
    ultimately show ?thesis
      using archive_slot_free [OF kept(1)] by (auto simp: ReadFile_Content d1 entries_put file_exists_def)
  qed
  then show "ReadFile d' PlanName = (if e = None then Content (ck_plan k p @ newline) else Content s)"
    "e = None \<Longrightarrow> \<exists>n. ReadFile d' (SupersededPlanName n) = Content s"
    "ReadFile d (SupersededPlanName n) = Content a \<Longrightarrow> ReadFile d' (SupersededPlanName n) = Content a"
    by blast+
qed

lemma replace_plan_other:
  assumes "replace_plan io k s p d = (e, d')" "m \<noteq> PlanName" "m \<noteq> PlanName @ ''.tmp''" "\<And>n. m \<noteq> SupersededPlanName n"
  shows "ReadFile d' m = ReadFile d m"
proof -
  have "ReadFile d1 m = ReadFile d m" if "write_file io (SupersededPlanName n) s d = (x, d1)" for n x d1
    using that assms(4) by (intro ReadFile_entry) (auto simp: write_file_def entries_put split: write_outcome.splits)
  moreover have "ReadFile d2 m = ReadFile d1 m" if "install_file io PlanName t d1 = (x, d2)" for t x d1 d2
    using writes_only_kept [OF install_file_writes [OF that]] assms(2,3) by simp
  ultimately show ?thesis using assms(1) by (auto simp: replace_plan_def split: sum.splits prod.splits option.splits)
qed

lemma replace_plan_document:
  "replace_plan io k s p d = (e, d') \<Longrightarrow> ReadFile d' (RemediationName q) = ReadFile d (RemediationName q)"
  by (rule replace_plan_other) simp_all

text \<open>Everything that writes into the directory; other programs keep their own files there.\<close>

definition store_name :: "string \<Rightarrow> bool" where
  "store_name n \<longleftrightarrow> n \<in> {RecordName, IntentName, PlanName} \<union> range SupersededPlanName \<union> range RemediationName"

inductive store_step :: "codec \<Rightarrow> url_parser \<Rightarrow> project_dir \<Rightarrow> project_dir \<Rightarrow> bool" for k url where
  save_record: "SaveRecord io k r d = (e, d') \<Longrightarrow> store_step k url d d'"
| save_intent: "SaveIntent io k url i d = (e, d') \<Longrightarrow> store_step k url d d'"
| save_remediation: "SaveRemediation io k rm d = (e, d') \<Longrightarrow> store_step k url d d'"
| save_plan: "SavePlan io k p d = (e, d') \<Longrightarrow> store_step k url d d'"
| supersede: "SupersedeUnexecutedPlan io k p st d = (e, d') \<Longrightarrow> store_step k url d d'"
| amend: "AmendUnmergedPackages io k standing p st d = (e, d') \<Longrightarrow> store_step k url d d'"
| foreign: "\<not> store_name n \<Longrightarrow> store_step k url d (put_file d n s)"

inductive_cases store_stepE: "store_step k url d d'"

text \<open>Files that are written once: what was read under a name is read there ever after.\<close>

locale write_once =
  fixes step :: "'d \<Rightarrow> 'd \<Rightarrow> bool" and reads :: "'d \<Rightarrow> 'n \<Rightarrow> 'c \<Rightarrow> bool"
  assumes keeps: "step d d' \<Longrightarrow> reads d n c \<Longrightarrow> reads d' n c"
begin

lemma steps_keep: "step\<^sup>*\<^sup>* d d' \<Longrightarrow> reads d n c \<Longrightarrow> reads d' n c"
  by (induction rule: rtranclp_induct) (auto intro: keeps)

end

lemma SavePlan_writes:
  assumes "SavePlan io k p d = (e, d')"
  shows "if ReadFile d PlanName = NotExist then writes_only PlanName (ck_plan k p @ newline) e d d' else d' = d"
  using assms save_file_writes by (auto simp: SavePlan_def split: read_result.splits if_splits)

lemma Supersede_cases:
  assumes "SupersedeUnexecutedPlan io k p st d = (e, d')"
  shows "d' = d \<or> SavePlan io k p d = (e, d') \<or> (\<exists>s. ReadFile d PlanName = Content s \<and> replace_plan io k s p d = (e, d'))"
  using assms by (auto simp: SupersedeUnexecutedPlan_def split: if_splits read_result.splits)

lemma Amend_cases:
  assumes "AmendUnmergedPackages io k standing p st d = (e, d')"
  shows "d' = d \<or> (\<exists>s. ReadFile d PlanName = Content s \<and> replace_plan io k s p d = (e, d'))"
  using assms by (auto simp: AmendUnmergedPackages_def split: if_splits option.splits read_result.splits)

text \<open>A step writes one file that is not the plan's or the archive's, or a plan where there was none, or replaces it.\<close>

lemma store_step_cases:
  assumes "store_step k url d d'"
  obtains (same) "d' = d"
    | (other) n s e where "writes_only n s e d d'" "n \<in> {RecordName, IntentName}"
    | (document) seq s e where "writes_only (RemediationName seq) s e d d'" "\<not> file_exists d (RemediationName seq)"
    | (first) s e where "ReadFile d PlanName = NotExist" "writes_only PlanName s e d d'"
    | (replaced) io s p e where "ReadFile d PlanName = Content s" "replace_plan io k s p d = (e, d')"
    | (foreign) n s where "\<not> store_name n" "d' = put_file d n s"
proof -
  have plan: thesis if "SavePlan io k p d = (e, d')" for io p e
    using SavePlan_writes [OF that] same first by (auto split: if_splits)
  show thesis
    using assms
  proof (cases rule: store_step.cases)
    case (save_record io r e)
    then have "d' = d \<or> writes_only RecordName (ck_record k r @ newline) e d d'"
      using save_file_writes by (auto simp: SaveRecord_def split: if_splits)
    then show ?thesis using same other by blast
  next
    case (save_intent io i e)
    then have "d' = d \<or> writes_only IntentName (ck_intent k i @ newline) e d d'"
      using save_file_writes by (auto simp: SaveIntent_def split: option.splits)
    then show ?thesis using same other by blast
  next
    case (save_remediation io rm e)
    then have "d' = d \<or> writes_only (RemediationName (rm_seq rm)) (ck_remediation k rm @ newline) e d d' \<and>
        \<not> file_exists d (RemediationName (rm_seq rm))"
      using save_file_writes by (auto simp: SaveRemediation_def Let_def split: if_splits)
    then show ?thesis using same document by blast
  next
    case (save_plan io p e)
    then show ?thesis by (rule plan)
  next
    case (supersede io p st e)
    from Supersede_cases [OF this] show ?thesis using same plan replaced by blast
  next
    case (amend io standing p st e)
    from Amend_cases [OF this] show ?thesis using same replaced by blast
  next
    case (foreign n s)
    then show ?thesis using \<open>\<And>n s. \<not> store_name n \<Longrightarrow> d' = put_file d n s \<Longrightarrow> thesis\<close> by blast
  qed
qed

lemma foreign_reads: "\<not> store_name n \<Longrightarrow> store_name m \<Longrightarrow> ReadFile (put_file d n s) m = ReadFile d m"
  by (intro ReadFile_entry) (auto simp: entries_put)

lemma store_names [simp]:
  "store_name PlanName" "store_name RecordName" "store_name IntentName" "store_name (SupersededPlanName n)"
  "store_name (RemediationName seq)"
  by (simp_all add: store_name_def)

lemma archive_step:
  assumes "store_step k url d d'" "ReadFile d (SupersededPlanName n) = Content a"
  shows "ReadFile d' (SupersededPlanName n) = Content a"
  using assms(1)
proof (cases rule: store_step_cases)
  case (other m s e)
  with assms(2) show ?thesis by (auto simp: writes_only_kept [OF other(1)])
next
  case (document seq s e)
  with assms(2) show ?thesis by (auto simp: writes_only_kept [OF document(1)])
next
  case (first s e)
  with assms(2) show ?thesis by (auto simp: writes_only_kept [OF first(2)])
next
  case (replaced io s p e)
  then show ?thesis using assms(2) replace_plan_keeps(3) by blast
qed (use assms(2) in \<open>auto simp: foreign_reads\<close>)

lemma document_step:
  assumes "store_step k url d d'" "ReadFile d (RemediationName q) = Content a"
  shows "ReadFile d' (RemediationName q) = Content a"
  using assms(1)
proof (cases rule: store_step_cases)
  case (other m s e)
  with assms(2) show ?thesis by (auto simp: writes_only_kept [OF other(1)])
next
  case (document seq s e)
  then have "RemediationName q \<noteq> RemediationName seq" using assms(2) by (auto simp: file_exists_def ReadFile_Content)
  with assms(2) show ?thesis by (auto simp: writes_only_kept [OF document(1)])
next
  case (first s e)
  with assms(2) show ?thesis by (auto simp: writes_only_kept [OF first(2)])
next
  case (replaced io s p e)
  with assms(2) show ?thesis by (simp add: replace_plan_document [OF replaced(2)])
qed (use assms(2) in \<open>auto simp: foreign_reads\<close>)

lemma plan_step:
  assumes "store_step k url d d'" "ReadFile d PlanName = Content s"
  shows "\<exists>t. ReadFile d' PlanName = Content t \<and> (t = s \<or> (\<exists>n. ReadFile d' (SupersededPlanName n) = Content s))"
  using assms(1)
proof (cases rule: store_step_cases)
  case (other m t e)
  with assms(2) show ?thesis by (auto simp: writes_only_kept [OF other(1)])
next
  case (document seq t e)
  with assms(2) show ?thesis by (auto simp: writes_only_kept [OF document(1)])
next
  case (replaced io t p e)
  then have "t = s" using assms(2) by simp
  with replace_plan_keeps(1,2) [OF replaced(2,1)] show ?thesis by (cases "e = None") auto
qed (use assms(2) in \<open>auto simp: foreign_reads\<close>)

interpretation archive: write_once "store_step k url" "\<lambda>d n a. ReadFile d (SupersededPlanName n) = Content a"
  by unfold_locales (rule archive_step)

interpretation documents: write_once "store_step k url" "\<lambda>d q a. ReadFile d (RemediationName q) = Content a"
  by unfold_locales (rule document_step)

lemma plan_steps:
  assumes "(store_step k url)\<^sup>*\<^sup>* d d'" "ReadFile d PlanName = Content s"
  shows "\<exists>t. ReadFile d' PlanName = Content t \<and> (t = s \<or> (\<exists>n. ReadFile d' (SupersededPlanName n) = Content s))"
  using assms(1)
proof (induction rule: rtranclp_induct)
  case base
  then show ?case using assms(2) by auto
next
  case (step d1 d2)
  then obtain t where t: "ReadFile d1 PlanName = Content t"
    "t = s \<or> (\<exists>n. ReadFile d1 (SupersededPlanName n) = Content s)" by blast
  from plan_step [OF step(2) t(1)] obtain u where u: "ReadFile d2 PlanName = Content u"
    "u = t \<or> (\<exists>n. ReadFile d2 (SupersededPlanName n) = Content t)" by blast
  from t(2) show ?case
  proof
    assume "t = s"
    with u show ?thesis by blast
  next
    assume "\<exists>n. ReadFile d1 (SupersededPlanName n) = Content s"
    then obtain n where "ReadFile d1 (SupersededPlanName n) = Content s" by blast
    with archive_step [OF step(2)] u(1) show ?thesis by blast
  qed
qed

lemma find_member: "find P xs = Some x \<Longrightarrow> x \<in> set xs \<and> P x"
  by (induction xs) (auto split: if_splits)

lemma amend_problem_None:
  assumes "amend_problem k st next' wps = None" "wp \<in> set wps"
  shows "\<exists>wp'\<in>set next'. wp_id wp' = wp_id wp \<and> (has_merged st (wp_id wp) \<longrightarrow> packagesIdentical k wp wp')"
  using assms
proof (induction wps)
  case (Cons u us)
  then obtain u' where u': "package_named next' (wp_id u) = Some u'" "amend_problem k st next' us = None"
    "has_merged st (wp_id u) \<longrightarrow> packagesIdentical k u u'"
    by (auto split: option.splits if_splits)
  then have "u' \<in> set next'" "wp_id u' = wp_id u" by (auto simp: package_named_def dest: find_member)
  with u' Cons show ?case by auto
qed simp

section \<open>The journal of authorizations\<close>

definition entry_doc :: "codec \<Rightarrow> string \<Rightarrow> project_dir \<Rightarrow> string \<Rightarrow> (Remediation \<times> string) option" where
  "entry_doc k pid d n = (case load_entry k pid d n of Inl e \<Rightarrow> None | Inr x \<Rightarrow> x)"

lemma load_entry_same: "map_of (pd_entries d') n = map_of (pd_entries d) n \<Longrightarrow> load_entry k pid d' n = load_entry k pid d n"
  using ReadFile_entry [of d' n d] by (simp add: load_entry_def split: option.split)

lemma load_entry_other: "remediationFilePattern n = None \<Longrightarrow> load_entry k pid d n = Inr None"
  by (simp add: load_entry_def)

lemma load_entry_absent: "map_of (pd_entries d) n = None \<Longrightarrow> entry_doc k pid d n = None"
  by (simp add: entry_doc_def load_entry_def ReadFile_def split: option.splits)

lemma load_entry_Some:
  assumes "load_entry k pid d n = Inr (Some (rm, s))"
  shows "ReadFile d n = Content s" "DecodeRemediation k s = Inr rm" "rm_projectID rm = pid"
    "\<exists>ds. remediationFilePattern n = Some ds \<and> atoi_digits ds = Some (rm_seq rm)"
  using assms by (auto simp: load_entry_def split: if_splits option.splits read_result.splits sum.splits)

lemma load_entries_Inr:
  "load_entries k pid d ns = Inr docs \<longleftrightarrow>
     (\<forall>n\<in>set ns. \<exists>x. load_entry k pid d n = Inr x) \<and> docs = List.map_filter (entry_doc k pid d) ns"
proof (induction ns arbitrary: docs)
  case (Cons n ns)
  show ?case
  proof (cases "load_entry k pid d n")
    case (Inr x)
    then have "entry_doc k pid d n = x" by (simp add: entry_doc_def)
    with Inr Cons.IH show ?thesis
      by (cases "load_entries k pid d ns") (auto simp: List.map_filter_simps split: option.splits)
  qed simp
qed (auto simp: List.map_filter_simps)

lemma mset_map_filter: "mset (List.map_filter f xs) = image_mset (the \<circ> f) (filter_mset (\<lambda>x. f x \<noteq> None) (mset xs))"
  by (induction xs) (auto simp: List.map_filter_simps split: option.splits)

text \<open>The documents of a directory depend on its entries only.\<close>

lemma load_entries_mset:
  assumes "distinct (map fst (pd_entries d))" "load_entries k pid d (sort (map fst (pd_entries d))) = Inr docs"
  shows "mset docs = image_mset (the \<circ> entry_doc k pid d) (mset_set {n. entry_doc k pid d n \<noteq> None})"
proof -
  have "mset (sort (map fst (pd_entries d))) = mset_set (fst ` set (pd_entries d))"
    using assms(1) by (metis mset_set_set mset_sort set_map)
  moreover have "{n \<in> fst ` set (pd_entries d). entry_doc k pid d n \<noteq> None} = {n. entry_doc k pid d n \<noteq> None}"
    using load_entry_absent [of d _ k pid] by (force simp: map_of_eq_None_iff)
  ultimately show ?thesis
    using assms(2) unfolding load_entries_Inr by (auto simp: mset_map_filter simp del: mset_map)
qed

lemma find_filter: "(\<And>x. P x \<Longrightarrow> Q x) \<Longrightarrow> find P (filter Q xs) = find P xs"
  by (induction xs) auto

definition journal_entry :: "RemediationRef list \<Rightarrow> int \<Rightarrow> RemediationRef option" where
  "journal_entry refs q = find (\<lambda>f. rf_seq f = q) (rev refs)"

lemma journal_entry_None: "journal_entry refs q = None \<longleftrightarrow> q \<notin> rf_seq ` set refs"
  by (auto simp: journal_entry_def find_None_iff)

lemma journal_entry_Some: "journal_entry refs q = Some f \<Longrightarrow> f \<in> set refs \<and> rf_seq f = q"
  unfolding journal_entry_def by (auto dest: find_member)

lemma journal_entry_filter: "q \<noteq> q' \<Longrightarrow> journal_entry (filter (\<lambda>g. rf_seq g \<noteq> q') refs) q = journal_entry refs q"
  unfolding journal_entry_def rev_filter by (rule find_filter) auto

lemma journal_scan_Nil:
  "journal_scan refs digests rms = [] \<longleftrightarrow>
     distinct (map rm_seq rms) \<and> rm_seq ` set rms = rf_seq ` set refs \<and>
     (\<forall>rm\<in>set rms. \<exists>f. journal_entry refs (rm_seq rm) = Some f \<and> digests (rm_seq rm) = rf_digest f)"
proof (induction rms arbitrary: refs)
  case (Cons rm rms)
  let ?q = "rm_seq rm" and ?refs = "filter (\<lambda>g. rf_seq g \<noteq> rm_seq rm) refs"
  show ?case
  proof (cases "journal_entry refs ?q")
    case None
    then have "?q \<notin> rf_seq ` set refs" by (simp add: journal_entry_None)
    then show ?thesis using None by (auto simp: journal_entry_def)
  next
    case (Some f)
    then have f: "?q \<in> rf_seq ` set refs" using journal_entry_None [of refs ?q] by simp
    have seqs: "rf_seq ` set ?refs = rf_seq ` set refs - {?q}" by auto
    have "journal_scan refs digests (rm # rms) = [] \<longleftrightarrow> digests ?q = rf_digest f \<and> journal_scan ?refs digests rms = []"
      using Some by (auto simp: journal_entry_def)
    also have "\<dots> \<longleftrightarrow> digests ?q = rf_digest f \<and> distinct (map rm_seq rms) \<and> rm_seq ` set rms = rf_seq ` set refs - {?q} \<and>
        (\<forall>u\<in>set rms. \<exists>f. journal_entry ?refs (rm_seq u) = Some f \<and> digests (rm_seq u) = rf_digest f)"
      unfolding Cons.IH seqs by blast
    also have "\<dots> \<longleftrightarrow> digests ?q = rf_digest f \<and> distinct (map rm_seq rms) \<and> rm_seq ` set rms = rf_seq ` set refs - {?q} \<and>
        (\<forall>u\<in>set rms. \<exists>f. journal_entry refs (rm_seq u) = Some f \<and> digests (rm_seq u) = rf_digest f)"
      using journal_entry_filter [of _ ?q refs] by (metis (no_types, lifting) DiffD2 image_eqI insertI1)
    also have "\<dots> \<longleftrightarrow> distinct (map rm_seq (rm # rms)) \<and> rm_seq ` set (rm # rms) = rf_seq ` set refs \<and>
        (\<forall>u\<in>set (rm # rms). \<exists>f. journal_entry refs (rm_seq u) = Some f \<and> digests (rm_seq u) = rf_digest f)"
      using Some f by (auto simp: image_iff)
    finally show ?thesis .
  qed
qed auto

lemma LoadRemediations_Inr:
  "LoadRemediations k pid d = Inr rms \<longleftrightarrow>
     pd_listable d \<and>
     (\<exists>docs r. load_entries k pid d (sort (map fst (pd_entries d))) = Inr docs \<and> rms = sort_key rm_seq (map fst docs) \<and>
        LoadRecord k pid d = Inr r \<and>
        (case r of None \<Rightarrow> True | Some rc \<Rightarrow> verifyRemediationJournal rc rms (digest_of k docs) = []))"
  by (auto simp: LoadRemediations_def Let_def split: sum.splits option.splits if_splits)

lemma sort_key_distinct: "distinct (map f (sort_key g xs)) \<longleftrightarrow> distinct (map f xs)"
  by (metis mset_eq_imp_distinct_iff mset_map mset_sort)

lemma doc_unique:
  "distinct (map rm_seq (map fst docs)) \<Longrightarrow> x \<in> set docs \<Longrightarrow> y \<in> set docs \<Longrightarrow> rm_seq (fst x) = rm_seq (fst y) \<Longrightarrow> x = y"
  unfolding map_map distinct_map inj_on_def comp_def by blast

lemma digest_of_doc:
  assumes "distinct (map rm_seq (map fst docs))" "(rm, s) \<in> set docs"
  shows "digest_of k docs (rm_seq rm) = remediationDigest k s"
proof -
  obtain x where x: "find (\<lambda>(u, t). rm_seq u = rm_seq rm) (rev docs) = Some x"
    using assms(2) by (cases "find (\<lambda>(u, t). rm_seq u = rm_seq rm) (rev docs)") (auto simp: find_None_iff)
  then have "x \<in> set docs \<and> rm_seq (fst x) = rm_seq rm" by (auto dest!: find_member)
  then have "x = (rm, s)" using doc_unique [OF assms(1) _ assms(2)] by simp
  with x show ?thesis by (simp add: digest_of_def)
qed

lemma verified_journal:
  assumes "verifyRemediationJournal r rms digests = []" "dr_remediations r \<noteq> []"
  shows "distinct (map rm_seq rms)" "rm_seq ` set rms = rf_seq ` set (dr_remediations r)"
    "rm \<in> set rms \<Longrightarrow> \<exists>f. journal_entry (dr_remediations r) (rm_seq rm) = Some f \<and> digests (rm_seq rm) = rf_digest f"
  using assms unfolding verifyRemediationJournal_def by (simp_all add: journal_scan_Nil)

lemma loaded_document:
  assumes "load_entries k pid d ns = Inr docs" "(rm, s) \<in> set docs"
  shows "\<exists>n\<in>set ns. load_entry k pid d n = Inr (Some (rm, s))"
proof -
  from assms obtain n where n: "n \<in> set ns" "entry_doc k pid d n = Some (rm, s)"
    unfolding load_entries_Inr by (auto simp: List.map_filter_def)
  then show ?thesis by (auto simp: entry_doc_def split: sum.splits)
qed

section \<open>Directories\<close>

definition dir_wf :: "project_dir \<Rightarrow> bool" where
  "dir_wf d \<longleftrightarrow> distinct (map fst (pd_entries d))"

lemma put_file_wf: "dir_wf d \<Longrightarrow> dir_wf (put_file d n s)"
  by (simp add: dir_wf_def put_file_def distinct_update)

lemma rename_file_wf: "dir_wf d \<Longrightarrow> dir_wf (rename_file d tmp n s)"
  unfolding rename_file_def by (rule put_file_wf) (simp add: dir_wf_def distinct_delete)

lemma save_file_wf: "dir_wf d \<Longrightarrow> save_file io n s d = (e, d') \<Longrightarrow> dir_wf d'"
  by (auto simp: save_file_def install_file_def write_file_def put_file_wf rename_file_wf split: if_splits write_outcome.splits)

lemma keys_iff: "n \<in> set (sort (map fst (pd_entries d))) \<longleftrightarrow> map_of (pd_entries d) n \<noteq> None"
  by (simp add: map_of_eq_None_iff)

text \<open>After a document and perhaps the record were installed, the directory holds one document more.\<close>

lemma load_after_document:
  assumes wf: "dir_wf d" "dir_wf d'" and ok: "load_entries k pid d (sort (map fst (pd_entries d))) = Inr docs"
    and new: "\<not> file_exists d c" "load_entry k pid d' c = Inr (Some (rm, s))"
    and same: "\<And>n. n \<noteq> c \<Longrightarrow> remediationFilePattern n \<noteq> None \<Longrightarrow> map_of (pd_entries d') n = map_of (pd_entries d) n"
  shows "\<exists>docs'. load_entries k pid d' (sort (map fst (pd_entries d'))) = Inr docs' \<and> mset docs' = add_mset (rm, s) (mset docs)"
proof -
  let ?e = "entry_doc k pid d" and ?e' = "entry_doc k pid d'"
  have load: "load_entry k pid d' n = load_entry k pid d n" if "n \<noteq> c" for n
  proof (cases "remediationFilePattern n")
    case (Some ds)
    with that show ?thesis by (intro load_entry_same same) simp_all
  qed (simp add: load_entry_other)
  then have doc: "?e' n = (if n = c then Some (rm, s) else ?e n)" for n
    using new(2) by (simp add: entry_doc_def)
  have c: "?e c = None" using new(1) by (intro load_entry_absent) (simp add: file_exists_def)
  have fin: "finite {n. ?e n \<noteq> None}"
  proof (rule finite_subset [OF _ finite_dom_map_of [of "pd_entries d"]])
    show "{n. ?e n \<noteq> None} \<subseteq> dom (map_of (pd_entries d))"
      using load_entry_absent [of d _ k pid] by (metis (mono_tags) domIff mem_Collect_eq subsetI)
  qed
  have "\<exists>x. load_entry k pid d' n = Inr x" if "map_of (pd_entries d') n \<noteq> None" for n
  proof (cases "n = c")
    case False
    have "map_of (pd_entries d) n \<noteq> None \<or> remediationFilePattern n = None" using that same [OF False] by metis
    then show ?thesis
    proof
      assume "map_of (pd_entries d) n \<noteq> None"
      then have "n \<in> set (sort (map fst (pd_entries d)))" by (simp only: keys_iff) simp
      with ok show ?thesis unfolding load_entries_Inr load [OF False] by blast
    qed (simp add: load_entry_other)
  qed (simp add: new(2))
  then have "\<exists>docs'. load_entries k pid d' (sort (map fst (pd_entries d'))) = Inr docs'"
    unfolding load_entries_Inr using keys_iff [of _ d'] by blast
  then obtain docs' where docs': "load_entries k pid d' (sort (map fst (pd_entries d'))) = Inr docs'" by blast
  have "{n. ?e' n \<noteq> None} = insert c {n. ?e n \<noteq> None}" by (auto simp: doc)
  then have "mset docs' = add_mset (rm, s) (image_mset (the \<circ> ?e') (mset_set {n. ?e n \<noteq> None}))"
    using load_entries_mset [OF wf(2) [unfolded dir_wf_def] docs'] fin c by (simp add: doc)
  also have "image_mset (the \<circ> ?e') (mset_set {n. ?e n \<noteq> None}) = image_mset (the \<circ> ?e) (mset_set {n. ?e n \<noteq> None})"
    using c fin by (intro image_mset_cong) (auto simp: doc)
  also have "\<dots> = mset docs" using load_entries_mset [OF wf(1) [unfolded dir_wf_def] ok] by simp
  finally show ?thesis using docs' by blast
qed

lemma sort_key_unique:
  assumes "mset xs = mset ys" "distinct (map f ys)" "sorted (map f ys)"
  shows "sort_key f xs = ys"
proof -
  have "map f (sort_key f xs) = sort (map f xs)"
    by (metis mset_map mset_sort properties_for_sort sorted_sort_key)
  also have "\<dots> = map f ys" using assms by (metis mset_map properties_for_sort)
  finally have "map f (sort_key f xs) = map f ys" .
  moreover have "inj_on f (set (sort_key f xs) \<union> set ys)"
    using assms by (metis Un_absorb distinct_map mset_eq_setD set_sort)
  ultimately show ?thesis by (rule map_inj_on)
qed

text \<open>A document installed under the next number is loaded after the others.\<close>

definition numbered :: "Remediation list \<Rightarrow> bool" where
  "numbered rms \<longleftrightarrow> map rm_seq rms = [1..int (length rms)]"

lemma numbered_snoc: "numbered rms \<Longrightarrow> rm_seq rm = int (length rms) + 1 \<Longrightarrow> numbered (rms @ [rm])"
  by (simp add: numbered_def upto_rec2)

lemma numberedD:
  assumes "numbered rms"
  shows "distinct (map rm_seq rms)" "sorted (map rm_seq rms)" "rm \<in> set rms \<Longrightarrow> 1 \<le> rm_seq rm \<and> rm_seq rm \<le> int (length rms)"
proof -
  show "distinct (map rm_seq rms)" "sorted (map rm_seq rms)" using assms by (simp_all add: numbered_def)
  assume "rm \<in> set rms"
  then have "rm_seq rm \<in> set (map rm_seq rms)" by simp
  then show "1 \<le> rm_seq rm \<and> rm_seq rm \<le> int (length rms)" unfolding assms [unfolded numbered_def] by simp
qed

lemma load_RemediationName:
  assumes "0 \<le> rm_seq rm" "rm_seq rm \<le> max_int" "ReadFile d (RemediationName (rm_seq rm)) = Content s"
    "DecodeRemediation k s = Inr rm" "rm_projectID rm = pid"
  shows "load_entry k pid d (RemediationName (rm_seq rm)) = Inr (Some (rm, s))"
proof -
  have "map_of (pd_entries d) (RemediationName (rm_seq rm)) = Some (FileData s)" using assms(3) by (simp add: ReadFile_Content)
  with assms show ?thesis by (simp add: load_entry_def pattern_RemediationName atoi_pad3)
qed

lemma load_saved_document:
  assumes wf: "dir_wf d" "dir_wf d'" and ok: "load_entries k pid d (sort (map fst (pd_entries d))) = Inr docs"
    and num: "numbered (sort_key rm_seq (map fst docs))" "rm_seq rm = int (length docs) + 1" "rm_seq rm \<le> max_int"
    and w: "writes_only (RemediationName (rm_seq rm)) s None d d1" "\<not> file_exists d (RemediationName (rm_seq rm))"
    and rest: "\<And>n. remediationFilePattern n \<noteq> None \<Longrightarrow> map_of (pd_entries d') n = map_of (pd_entries d1) n"
    and doc: "DecodeRemediation k s = Inr rm" "rm_projectID rm = pid"
  shows "\<exists>docs'. load_entries k pid d' (sort (map fst (pd_entries d'))) = Inr docs' \<and> mset docs' = add_mset (rm, s) (mset docs) \<and>
    sort_key rm_seq (map fst docs') = sort_key rm_seq (map fst docs) @ [rm]"
proof -
  let ?c = "RemediationName (rm_seq rm)" and ?rms = "sort_key rm_seq (map fst docs)"
  have q: "0 \<le> rm_seq rm" using num(2) by simp
  have "map_of (pd_entries d1) ?c = Some (FileData s)" using w(1) by (simp add: writes_only_def)
  then have "ReadFile d' ?c = Content s" using rest [of ?c] q by (simp add: ReadFile_Content pattern_RemediationName)
  then have new: "load_entry k pid d' ?c = Inr (Some (rm, s))" using q num(3) doc by (intro load_RemediationName)
  have "map_of (pd_entries d') n = map_of (pd_entries d) n" if "n \<noteq> ?c" "remediationFilePattern n \<noteq> None" for n
    using that rest [of n] writes_only_same [OF w(1), of n] pattern_other(5) by metis
  from load_after_document [OF wf ok w(2) new this] obtain docs' where docs':
    "load_entries k pid d' (sort (map fst (pd_entries d'))) = Inr docs'" "mset docs' = add_mset (rm, s) (mset docs)" by blast
  have "numbered (?rms @ [rm])" using num by (intro numbered_snoc) simp_all
  moreover have "mset (map fst docs') = mset (?rms @ [rm])" using docs'(2) by simp
  ultimately have "sort_key rm_seq (map fst docs') = ?rms @ [rm]" by (intro sort_key_unique numberedD(1,2))
  with docs' show ?thesis by blast
qed

lemma SaveRemediation_None:
  assumes "SaveRemediation io k rm d = (None, d')" "dir_wf d"
  shows "writes_only (RemediationName (rm_seq rm)) (ck_remediation k rm @ newline) None d d'"
    "\<not> file_exists d (RemediationName (rm_seq rm))" "dir_wf d'"
  using assms save_file_writes save_file_wf by (auto simp: SaveRemediation_def Let_def split: if_splits)

lemma SaveRecord_None:
  assumes "SaveRecord io k r d = (None, d')" "dir_wf d"
  shows "writes_only RecordName (ck_record k r @ newline) None d d'" "dir_wf d'"
  using assms save_file_writes save_file_wf by (auto simp: SaveRecord_def split: if_splits)

lemma LoadRecord_same: "map_of (pd_entries d') RecordName = map_of (pd_entries d) RecordName \<Longrightarrow> LoadRecord k pid d' = LoadRecord k pid d"
  using ReadFile_entry [of d' RecordName d] by (simp add: LoadRecord_def)

lemma LoadRecord_saved:
  assumes "map_of (pd_entries d) RecordName = Some (FileData s)" "ck_readRecord k s = Some r" "dr_schemaVersion r = RecordSchemaVersion"
    "dr_projectID r = pid" "dr_intentDigest r = Digest k (dr_intent r)"
  shows "LoadRecord k pid d = Inr (Some r)"
  using assms by (simp add: LoadRecord_def ReadFile_def)

lemma LoadRecord_Some:
  assumes "LoadRecord k pid d = Inr (Some r)"
  shows "dr_schemaVersion r = RecordSchemaVersion" "dr_projectID r = pid" "dr_intentDigest r = Digest k (dr_intent r)"
    "\<exists>s. ReadFile d RecordName = Content s \<and> ck_readRecord k s = Some r"
  using assms by (auto simp: LoadRecord_def split: read_result.splits option.splits if_splits)

definition doc_text :: "project_dir \<Rightarrow> Remediation \<Rightarrow> string" where
  "doc_text d rm = (case ReadFile d (RemediationName (rm_seq rm)) of Content s \<Rightarrow> s | _ \<Rightarrow> [])"

lemma adopt_refs_Inr:
  "adopt_refs k d rms = Inr refs \<longleftrightarrow>
     (\<forall>rm\<in>set rms. ReadFile d (RemediationName (rm_seq rm)) = Content (doc_text d rm)) \<and>
     refs = map (\<lambda>rm. remediation_ref k rm (doc_text d rm)) rms"
proof (induction rms arbitrary: refs)
  case (Cons rm rms)
  show ?case
  proof (cases "ReadFile d (RemediationName (rm_seq rm))")
    case (Content t)
    then have "doc_text d rm = t" by (simp add: doc_text_def)
    with Content Cons.IH show ?thesis by (cases "adopt_refs k d rms") auto
  qed simp_all
qed auto

text \<open>The journal of a delivery after one more authorization.\<close>

definition journal_of :: "codec \<Rightarrow> DeliveryRecord \<Rightarrow> Remediation list \<Rightarrow> Remediation \<Rightarrow> int \<Rightarrow> project_dir \<Rightarrow> DeliveryRecord" where
  "journal_of k r existing rm now d =
     JournalRemediations r
       (map (\<lambda>u. remediation_ref k u (doc_text d u)) ((if dr_remediations r = [] then existing else []) @ [rm])) now"

lemma remediation_ref_simps [simp]: "rf_seq (remediation_ref k rm s) = rm_seq rm" "rf_digest (remediation_ref k rm s) = remediationDigest k s"
  by (simp_all add: remediation_ref_def)

lemma find_append_Some: "find P xs = Some x \<Longrightarrow> find P (xs @ ys) = Some x"
  by (induction xs) (auto split: if_splits)

lemma journal_entry_append: "journal_entry (xs @ ys) q = (case journal_entry ys q of None \<Rightarrow> journal_entry xs q | Some f \<Rightarrow> Some f)"
  by (cases "find (\<lambda>f. rf_seq f = q) (rev ys)") (simp_all add: journal_entry_def find_append_None find_append_Some)

lemma journal_entry_map:
  assumes "distinct (map rm_seq rms)" "rm \<in> set rms"
  shows "journal_entry (map (\<lambda>u. remediation_ref k u (g u)) rms) (rm_seq rm) = Some (remediation_ref k rm (g rm))"
proof -
  let ?refs = "map (\<lambda>u. remediation_ref k u (g u)) rms"
  obtain f where f: "journal_entry ?refs (rm_seq rm) = Some f"
    using assms(2) by (cases "journal_entry ?refs (rm_seq rm)") (auto simp: journal_entry_None image_image)
  from journal_entry_Some [OF f] obtain u where u: "u \<in> set rms" "f = remediation_ref k u (g u)" "rm_seq u = rm_seq rm"
    by auto
  then have "u = rm" using assms by (auto simp: distinct_map inj_on_def)
  with f u show ?thesis by simp
qed

text \<open>When no number occurs twice, a document is what its own name holds.\<close>

lemma canonical_text:
  assumes ok: "load_entries k pid d (sort (map fst (pd_entries d))) = Inr docs" and dist: "distinct (map rm_seq (map fst docs))"
    and u: "(u, s) \<in> set docs" "0 \<le> rm_seq u" "rm_seq u \<le> max_int" and t: "ReadFile d (RemediationName (rm_seq u)) = Content t"
  shows "t = s"
proof -
  let ?c = "RemediationName (rm_seq u)"
  have e: "map_of (pd_entries d) ?c = Some (FileData t)" using t by (simp add: ReadFile_Content)
  then have c: "?c \<in> set (sort (map fst (pd_entries d)))" by (simp only: keys_iff) simp
  then obtain x where x: "load_entry k pid d ?c = Inr x" using ok unfolding load_entries_Inr by blast
  with e u obtain v where v: "x = Some (v, t)" "rm_seq v = rm_seq u"
    using t by (auto simp: load_entry_def pattern_RemediationName atoi_pad3 split: sum.splits if_splits)
  have "entry_doc k pid d ?c = Some (v, t)" using x v by (simp add: entry_doc_def)
  then have "(v, t) \<in> set docs" using ok c unfolding load_entries_Inr by (force simp: List.map_filter_def)
  from doc_unique [OF dist this u(1)] v show ?thesis by simp
qed

lemma journal_verified:
  assumes dist: "distinct (map rm_seq (rms @ [rm]))"
    and old: "verifyRemediationJournal r rms g = []"
    and J: "J = dr_remediations r @ map (\<lambda>u. remediation_ref k u (txt u)) ((if dr_remediations r = [] then rms else []) @ [rm])"
    and new: "\<And>u. u \<in> set ((if dr_remediations r = [] then rms else []) @ [rm]) \<Longrightarrow> g' (rm_seq u) = remediationDigest k (txt u)"
    and same: "\<And>u. u \<in> set rms \<Longrightarrow> g' (rm_seq u) = g (rm_seq u)"
  shows "journal_scan J g' (rms @ [rm]) = []"
proof (cases "dr_remediations r = []")
  case True
  then have "J = map (\<lambda>u. remediation_ref k u (txt u)) (rms @ [rm])" using J by simp
  moreover have "g' (rm_seq u) = remediationDigest k (txt u)" if "u \<in> set (rms @ [rm])" for u using new True that by simp
  ultimately show ?thesis
    unfolding journal_scan_Nil using dist journal_entry_map [OF dist] by (auto simp: image_image)
next
  case False
  then have J: "J = dr_remediations r @ [remediation_ref k rm (txt rm)]" using J by simp
  note old = verified_journal [OF old False]
  have one: "journal_entry [remediation_ref k rm (txt rm)] q = (if q = rm_seq rm then Some (remediation_ref k rm (txt rm)) else None)" for q
    by (simp add: journal_entry_def)
  have "\<exists>f. journal_entry J (rm_seq u) = Some f \<and> g' (rm_seq u) = rf_digest f" if "u \<in> set (rms @ [rm])" for u
  proof (cases "u = rm")
    case True
    then show ?thesis using new [of rm] False by (simp add: J journal_entry_append one)
  next
    case neq: False
    with that dist have "u \<in> set rms" "rm_seq u \<noteq> rm_seq rm" by (auto simp: image_iff)
    with old(3) [of u] same [of u] show ?thesis by (simp add: J journal_entry_append one)
  qed
  moreover have "rm_seq ` set (rms @ [rm]) = rf_seq ` set J" using old(2) by (simp add: J)
  ultimately show ?thesis unfolding journal_scan_Nil using dist by blast
qed

lemma journaled_documents_load:
  assumes old: "LoadRemediations k pid d = Inr existing" "LoadRecord k pid d = Inr (Some r)" "numbered existing" "dir_wf d"
    and save: "SaveRemediation io1 k rm d = (None, d1)" "rm_seq rm = int (length existing) + 1" "rm_seq rm \<le> max_int"
      "rm_projectID rm = pid" "DecodeRemediation k (ck_remediation k rm @ newline) = Inr rm" "rm_authorizedAt rm = Some now"
    and journal: "journal_authorization io2 k r existing rm d1 = (None, d2)"
    and stored: "ck_readRecord k (ck_record k (journal_of k r existing rm now d1) @ newline) = Some (journal_of k r existing rm now d1)"
  shows "LoadRemediations k pid d2 = Inr (existing @ [rm])" "LoadRecord k pid d2 = Inr (Some (journal_of k r existing rm now d1))"
proof -
  let ?J = "journal_of k r existing rm now d1" and ?s = "ck_remediation k rm @ newline"
  obtain docs where docs: "load_entries k pid d (sort (map fst (pd_entries d))) = Inr docs"
    "existing = sort_key rm_seq (map fst docs)" "verifyRemediationJournal r existing (digest_of k docs) = []" "pd_listable d"
    using old(1,2) unfolding LoadRemediations_Inr by auto
  note doc1 = SaveRemediation_None [OF save(1) old(4)]
  have refs: "SaveRecord io2 k ?J d1 = (None, d2)"
    and texts: "\<forall>u\<in>set ((if dr_remediations r = [] then existing else []) @ [rm]).
      ReadFile d1 (RemediationName (rm_seq u)) = Content (doc_text d1 u)"
    using journal save(6) unfolding journal_authorization_def journal_of_def
    by (auto simp: adopt_refs_Inr split: sum.splits)
  note rec2 = SaveRecord_None [OF refs doc1(3)]
  show loaded: "LoadRecord k pid d2 = Inr (Some ?J)"
  proof (rule LoadRecord_saved [OF _ stored])
    show "map_of (pd_entries d2) RecordName = Some (FileData (ck_record k ?J @ newline))" using rec2(1) by (simp add: writes_only_def)
  qed (use LoadRecord_Some [OF old(2)] in \<open>simp_all add: journal_of_def JournalRemediations_def\<close>)
  have rest: "map_of (pd_entries d2) n = map_of (pd_entries d1) n" if "remediationFilePattern n \<noteq> None" for n
    using writes_only_same [OF rec2(1), of n] that pattern_other(2,5) by metis
  have num: "numbered (sort_key rm_seq (map fst docs))" "rm_seq rm = int (length docs) + 1"
    using old(3) save(2) docs(2) by auto
  from load_saved_document [OF old(4) rec2(2) docs(1) num save(3) doc1(1,2) rest save(5,4)] docs(2)
  obtain docs' where docs': "load_entries k pid d2 (sort (map fst (pd_entries d2))) = Inr docs'"
    "mset docs' = add_mset (rm, ?s) (mset docs)" "sort_key rm_seq (map fst docs') = existing @ [rm]" by blast
  have dist: "distinct (map rm_seq (map fst docs'))"
    using numberedD(1) [OF numbered_snoc [OF old(3) save(2)]] sort_key_distinct [of rm_seq rm_seq "map fst docs'"] docs'(3) by simp
  have docs_of: "u \<in> set (existing @ [rm]) \<Longrightarrow> \<exists>t. (u, t) \<in> set docs'" for u
  proof -
    assume "u \<in> set (existing @ [rm])"
    then have "u \<in> set (sort_key rm_seq (map fst docs'))" by (simp only: docs'(3))
    then show ?thesis by auto
  qed
  have range: "0 \<le> rm_seq u \<and> rm_seq u \<le> max_int" if "u \<in> set (existing @ [rm])" for u
    using numberedD(3) [OF numbered_snoc [OF old(3) save(2)] that] save(2,3) by simp
  have fresh: "digest_of k docs' (rm_seq u) = remediationDigest k (doc_text d1 u)"
    if u: "u \<in> set ((if dr_remediations r = [] then existing else []) @ [rm])" for u
  proof -
    have u': "u \<in> set (existing @ [rm])" using u by (auto split: if_splits)
    then obtain t where t: "(u, t) \<in> set docs'" using docs_of by blast
    have "ReadFile d2 (RemediationName (rm_seq u)) = ReadFile d1 (RemediationName (rm_seq u))"
      using range [OF u'] by (intro ReadFile_entry rest) (simp add: pattern_RemediationName)
    with bspec [OF texts u] have "ReadFile d2 (RemediationName (rm_seq u)) = Content (doc_text d1 u)" by simp
    from canonical_text [OF docs'(1) dist t _ _ this] range [OF u'] show ?thesis using digest_of_doc [OF dist t] by simp
  qed
  have before: "digest_of k docs' (rm_seq u) = digest_of k docs (rm_seq u)" if u: "u \<in> set existing" for u
  proof -
    obtain t where t: "(u, t) \<in> set docs'" using docs_of [of u] u by auto
    have "rm_seq u \<noteq> rm_seq rm" using numberedD(3) [OF old(3) u] save(2) by simp
    moreover have "set docs' = insert (rm, ?s) (set docs)" using docs'(2) by (metis set_mset_add_mset_insert set_mset_mset)
    ultimately have "(u, t) \<in> set docs" using t by auto
    moreover have "distinct (map rm_seq (map fst docs))"
      using numberedD(1) [OF old(3)] sort_key_distinct [of rm_seq rm_seq "map fst docs"] docs(2) by simp
    ultimately show ?thesis using digest_of_doc [OF dist t] digest_of_doc by metis
  qed
  have "journal_scan (dr_remediations ?J) (digest_of k docs') (existing @ [rm]) = []"
    by (rule journal_verified [OF numberedD(1) [OF numbered_snoc [OF old(3) save(2)]] docs(3) _ fresh before])
      (simp_all add: journal_of_def JournalRemediations_def)
  then have "verifyRemediationJournal ?J (existing @ [rm]) (digest_of k docs') = []"
    by (simp add: verifyRemediationJournal_def)
  then show "LoadRemediations k pid d2 = Inr (existing @ [rm])"
    using docs' loaded docs(4) doc1(1) rec2(1) unfolding LoadRemediations_Inr writes_only_def by auto
qed

lemma Authorize_Inr:
  assumes "AuthorizeRemediation io1 io2 k r plan prior rm by' now d = (Inr rm', d')"
  obtains existing d1 where "LoadRemediations k (dr_projectID r) d = Inr existing" "\<not> blank by'"
    "rm' = rm\<lparr>rm_seq := int (length existing) + 1, rm_authorizedBy := TrimSpace by', rm_authorizedAt := Some now\<rparr>"
    "rm_projectID rm = dr_projectID r" "authorize_standing r prior rm' = []"
    "DeliveryPlan_Validate (dr_intent r) (plan\<lparr>dp_remediations := existing @ [rm']\<rparr>) = None"
    "SaveRemediation io1 k rm' d = (None, d1)" "journal_authorization io2 k r existing rm' d1 = (None, d')"
proof -
  have declared: "authorize_declared r rm by' = []"
    using assms by (auto simp: AuthorizeRemediation_def split: if_splits)
  then have "\<not> blank by'" "rm_projectID rm = dr_projectID r" by (auto simp: authorize_declared_def)
  with assms that show thesis
    by (auto simp: AuthorizeRemediation_def Let_def split: if_splits sum.splits option.splits prod.splits)
qed

section \<open>Sample directories\<close>

definition sample_io :: store_io where
  "sample_io = \<lparr>sio_mkdir = True, sio_stat = (\<lambda>n. True), sio_write = (\<lambda>n. Written), sio_rename = True\<rparr>"

definition sample_journaled :: DeliveryRecord where
  "sample_journaled = JournalRemediations sample_disproved
     [\<lparr>rf_seq = 1, rf_digest = ''h'', rf_authorizedBy = ''po'', rf_authorizedAt = Some 4\<rparr>] 4"

definition sample_codec :: codec where
  "sample_codec =
     \<lparr>ck_fingerprint = (\<lambda>i. ''d''), ck_sha256 = (\<lambda>s. ''h''),
      ck_record = (\<lambda>r. if dr_remediations r = [] then ''r0'' else ''r1''),
      ck_readRecord = (\<lambda>s. if s = ''r0'' @ newline then Some sample_disproved
                           else if s = ''r1'' @ newline then Some sample_journaled else None),
      ck_intent = (\<lambda>i. ''i''), ck_plan = (\<lambda>p. ''q''), ck_readPlan = (\<lambda>s. Inr sample_delivery), ck_package = wp_id,
      ck_remediation = (\<lambda>rm. if rm_seq rm = 1 then ''m'' else ''n''),
      ck_readRemediation = (\<lambda>s. Inr (if s = ''m'' @ newline then sample_remediation else sample_remediation\<lparr>rm_seq := 2\<rparr>))\<rparr>"

text \<open>A delivery with a finding, and the same after a remediation of it was authorized.\<close>

definition sample_dir :: project_dir where
  "sample_dir = \<lparr>pd_listable = True, pd_entries = [(RecordName, FileData (''r0'' @ newline)), (PlanName, FileData (''p'' @ newline))]\<rparr>"

definition sample_repaired_dir :: project_dir where
  "sample_repaired_dir =
     \<lparr>pd_listable = True,
      pd_entries = [(RecordName, FileData (''r1'' @ newline)), (PlanName, FileData (''p'' @ newline)),
        (RemediationName 1, FileData (''m'' @ newline))]\<rparr>"

definition sample_prior :: Evidence where
  "sample_prior = assess_published sample_delivery sample_intent sample_projection (dr_acceptances sample_disproved)
     (dr_invalidations sample_disproved)"

definition sample_proposal :: Remediation where
  "sample_proposal = sample_remediation\<lparr>rm_seq := 0, rm_authorizedBy := [], rm_authorizedAt := None\<rparr>"

definition sample_failed :: Status where
  "sample_failed = Derive ''demo'' True sample_delivery True (sample_observation\<lparr>ob_outcome := ''failed''\<rparr>) empty_evidence 9"

section \<open>Properties\<close>


definition resubmitted_intent :: Intent where
  "resubmitted_intent = sample_intent\<lparr>in_requestedBy := ''someone'', in_requestedAt := Some 7,
     in_acceptance := rev (in_acceptance sample_intent)\<rparr>"


text \<open>C7. Whatever is saved, superseded, amended, authorized and recorded in a delivery's directory, and whichever of the writes
  fail on the way: once there is a plan there always is one, every plan there was stands or is archived word for word, and
  neither an archived plan nor an authorized remediation ever changes.\<close>

theorem plan_history_kept:
  assumes "(store_step k url)\<^sup>*\<^sup>* d d'"
  shows "(\<forall>s. ReadFile d PlanName = Content s \<longrightarrow>
       (\<exists>t. ReadFile d' PlanName = Content t \<and> (t = s \<or> (\<exists>n. ReadFile d' (SupersededPlanName n) = Content s)))) \<and>
    (\<forall>n s. ReadFile d (SupersededPlanName n) = Content s \<longrightarrow> ReadFile d' (SupersededPlanName n) = Content s) \<and>
    (\<forall>q s. ReadFile d (RemediationName q) = Content s \<longrightarrow> ReadFile d' (RemediationName q) = Content s)"
  using plan_steps [OF assms] archive.steps_keep [OF assms] documents.steps_keep [OF assms] by blast

lemma superseded_sample:
  "SupersedeUnexecutedPlan sample_io sample_codec sample_delivery sample_failed sample_dir =
     (None, \<lparr>pd_listable = True, pd_entries = [(RecordName, FileData (''r0'' @ newline)), (PlanName, FileData (''q'' @ newline)),
        (SupersededPlanName 1, FileData (''p'' @ newline))]\<rparr>)"
  by code_simp

theorem plan_history_kept_witness:
  "\<exists>d' n. (store_step sample_codec (\<lambda>_. None))\<^sup>*\<^sup>* sample_dir d' \<and> ReadFile d' PlanName = Content (''q'' @ newline) \<and>
     ReadFile d' (SupersededPlanName n) = Content (''p'' @ newline)"
proof -
  let ?d = "snd (SupersedeUnexecutedPlan sample_io sample_codec sample_delivery sample_failed sample_dir)"
  have step: "(store_step sample_codec (\<lambda>_. None))\<^sup>*\<^sup>* sample_dir ?d"
    by (rule r_into_rtranclp, rule store_step.supersede) (rule surjective_pairing)
  have p: "ReadFile sample_dir PlanName = Content (''p'' @ newline)" "ReadFile ?d PlanName = Content (''q'' @ newline)"
    unfolding superseded_sample by code_simp+
  from plan_history_kept [OF step] p have "\<exists>n. ReadFile ?d (SupersededPlanName n) = Content (''p'' @ newline)" by auto
  with step p(2) show ?thesis by blast
qed

text \<open>C16. A plan that stands is replaced only with licence: saving never changes it; superseding changes it only when no run is
  live, the delivery failed or is still planning and no package has merged; amending only when no run is live, every
  package is still there, and each that has merged is written as it was.\<close>

theorem plan_replacement_licensed:
  assumes "ReadFile d PlanName = Content s"
  shows "ReadFile (snd (SavePlan io k p d)) PlanName = Content s \<and>
    (ReadFile (snd (SupersedeUnexecutedPlan io k p st d)) PlanName \<noteq> Content s \<longrightarrow>
       st_projectID st = dp_projectID p \<and> \<not> st_live st \<and> st_state st \<in> {StateFailed, StatePlanning} \<and>
       (\<forall>i. \<not> has_merged st i)) \<and>
    (ReadFile (snd (AmendUnmergedPackages io k standing p st d)) PlanName \<noteq> Content s \<longrightarrow>
       st_projectID st = dp_projectID p \<and> \<not> st_live st \<and>
       (\<forall>wp\<in>set (dp_packages standing). \<exists>wp'\<in>set (dp_packages p). wp_id wp' = wp_id wp \<and>
          (has_merged st (wp_id wp) \<longrightarrow> packagesIdentical k wp wp')))"
proof (intro conjI)
  show "ReadFile (snd (SavePlan io k p d)) PlanName = Content s" using assms by (simp add: SavePlan_def)
  show "ReadFile (snd (SupersedeUnexecutedPlan io k p st d)) PlanName \<noteq> Content s \<longrightarrow>
       st_projectID st = dp_projectID p \<and> \<not> st_live st \<and> st_state st \<in> {StateFailed, StatePlanning} \<and>
       (\<forall>i. \<not> has_merged st i)"
    using assms by (auto simp: SupersedeUnexecutedPlan_def has_merged_def)
  show "ReadFile (snd (AmendUnmergedPackages io k standing p st d)) PlanName \<noteq> Content s \<longrightarrow>
       st_projectID st = dp_projectID p \<and> \<not> st_live st \<and>
       (\<forall>wp\<in>set (dp_packages standing). \<exists>wp'\<in>set (dp_packages p). wp_id wp' = wp_id wp \<and>
          (has_merged st (wp_id wp) \<longrightarrow> packagesIdentical k wp wp'))"
    using assms amend_problem_None [of k st "dp_packages p" "dp_packages standing"]
    by (cases "amend_problem k st (dp_packages p) (dp_packages standing)") (simp_all add: AmendUnmergedPackages_def)
qed

theorem plan_replacement_licensed_witness:
  "ReadFile (snd (SupersedeUnexecutedPlan sample_io sample_codec sample_delivery sample_failed sample_dir)) PlanName =
     Content (''q'' @ newline) \<and> \<not> st_live sample_failed \<and> st_state sample_failed \<in> {StateFailed, StatePlanning} \<and>
   \<not> has_merged sample_failed ''wp-a''"
proof -
  have p: "ReadFile sample_dir PlanName = Content (''p'' @ newline)"
    "ReadFile (snd (SupersedeUnexecutedPlan sample_io sample_codec sample_delivery sample_failed sample_dir)) PlanName =
      Content (''q'' @ newline)"
    unfolding superseded_sample by code_simp+
  with plan_replacement_licensed [OF p(1), of sample_io sample_codec sample_delivery sample_failed] show ?thesis by auto
qed

text \<open>C13. Once a delivery's journal has an entry, the remediations that are loaded are exactly the authorized ones: one for
  every number of the journal and none besides, each decoded from a file whose digest is the one journaled.\<close>

theorem remediations_authorized:
  assumes "LoadRemediations k pid d = Inr rms" "LoadRecord k pid d = Inr (Some r)" "dr_remediations r \<noteq> []"
  shows "sorted (map rm_seq rms) \<and> distinct (map rm_seq rms) \<and> rm_seq ` set rms = rf_seq ` set (dr_remediations r) \<and>
    (\<forall>rm\<in>set rms. \<exists>n s f. ReadFile d n = Content s \<and> DecodeRemediation k s = Inr rm \<and> rm_projectID rm = pid \<and>
       f \<in> set (dr_remediations r) \<and> rf_seq f = rm_seq rm \<and> remediationDigest k s = rf_digest f)"
proof -
  obtain docs where docs: "load_entries k pid d (sort (map fst (pd_entries d))) = Inr docs" "rms = sort_key rm_seq (map fst docs)"
    "verifyRemediationJournal r rms (digest_of k docs) = []"
    using assms(1,2) unfolding LoadRemediations_Inr by auto
  note j = verified_journal [OF docs(3) assms(3)]
  have dist: "distinct (map rm_seq (map fst docs))" using j(1) docs(2) sort_key_distinct by blast
  have "\<exists>n s f. ReadFile d n = Content s \<and> DecodeRemediation k s = Inr rm \<and> rm_projectID rm = pid \<and>
       f \<in> set (dr_remediations r) \<and> rf_seq f = rm_seq rm \<and> remediationDigest k s = rf_digest f" if rm: "rm \<in> set rms" for rm
  proof -
    obtain s where s: "(rm, s) \<in> set docs" using rm docs(2) by auto
    obtain n where "load_entry k pid d n = Inr (Some (rm, s))" using loaded_document [OF docs(1) s] by blast
    from load_entry_Some [OF this] have n: "ReadFile d n = Content s" "DecodeRemediation k s = Inr rm" "rm_projectID rm = pid" by auto
    obtain f where "journal_entry (dr_remediations r) (rm_seq rm) = Some f" "digest_of k docs (rm_seq rm) = rf_digest f"
      using j(3) [OF rm] by blast
    with n digest_of_doc [OF dist s] journal_entry_Some show ?thesis by metis
  qed
  with j docs(2) show ?thesis by simp
qed

lemma repaired_sample:
  "LoadRemediations sample_codec ''demo'' sample_repaired_dir = Inr [sample_remediation]"
  "LoadRecord sample_codec ''demo'' sample_repaired_dir = Inr (Some sample_journaled)"
  "dr_remediations sample_journaled \<noteq> []"
  by code_simp+

theorem remediations_authorized_witness:
  "LoadRemediations sample_codec ''demo'' sample_repaired_dir = Inr [sample_remediation] \<and>
   (\<exists>n s f. ReadFile sample_repaired_dir n = Content s \<and> f \<in> set (dr_remediations sample_journaled) \<and>
      rf_seq f = rm_seq sample_remediation \<and> remediationDigest sample_codec s = rf_digest f)"
  using remediations_authorized [OF repaired_sample] repaired_sample(1) by auto

lemma journal_of_record_write:
  assumes "writes_only RecordName s e d d'"
  shows "journal_of k r existing rm now d' = journal_of k r existing rm now d"
  using writes_only_kept [OF assms] by (simp add: journal_of_def doc_text_def)

text \<open>C22. A remediation that is authorized against the record on disk takes effect: it gets the next number, the actor and the
  time of the authorization, every finding it repairs is standing, the plan with it is accepted, and from then on it is loaded
  after those there were, with a journal that grew by the authorizations.\<close>

theorem authorization_takes_effect:
  assumes auth: "AuthorizeRemediation io1 io2 k r plan prior rm by' now d = (Inr rm', d')"
    and here: "LoadRecord k (dr_projectID r) d = Inr (Some r)" "dir_wf d"
    and old: "LoadRemediations k (dr_projectID r) d = Inr existing" "numbered existing" "int (length existing) < max_int"
    and json: "DecodeRemediation k (ck_remediation k rm' @ newline) = Inr rm'"
      "ck_readRecord k (ck_record k (journal_of k r existing rm' now d') @ newline) = Some (journal_of k r existing rm' now d')"
  shows "LoadRemediations k (dr_projectID r) d' = Inr (existing @ [rm']) \<and> numbered (existing @ [rm']) \<and>
    LoadRecord k (dr_projectID r) d' = Inr (Some (journal_of k r existing rm' now d')) \<and>
    record_step r (journal_of k r existing rm' now d') \<and>
    rm_authorizedBy rm' = TrimSpace by' \<and> \<not> blank by' \<and> rm_authorizedAt rm' = Some now \<and>
    (\<forall>rep\<in>set (rm_repairs rm'). \<exists>fnd. StandingInvalidations r prior (rep_criterionID rep) = Some fnd \<and>
       inv_seq fnd = rep_invalidation rep) \<and>
    DeliveryPlan_Validate (dr_intent r) (plan\<lparr>dp_remediations := existing @ [rm']\<rparr>) = None"
proof -
  obtain d1 where by': "\<not> blank by'"
    and rm': "rm' = rm\<lparr>rm_seq := int (length existing) + 1, rm_authorizedBy := TrimSpace by', rm_authorizedAt := Some now\<rparr>"
    and proj: "rm_projectID rm = dr_projectID r" and standing: "authorize_standing r prior rm' = []"
    and valid: "DeliveryPlan_Validate (dr_intent r) (plan\<lparr>dp_remediations := existing @ [rm']\<rparr>) = None"
    and save: "SaveRemediation io1 k rm' d = (None, d1)" and journal: "journal_authorization io2 k r existing rm' d1 = (None, d')"
    using Authorize_Inr [OF auth] old(1) by (metis sum.inject(2))
  have q: "rm_seq rm' = int (length existing) + 1" "rm_seq rm' \<le> max_int" "rm_projectID rm' = dr_projectID r"
    "rm_authorizedAt rm' = Some now" using rm' proj old(3) by simp_all
  obtain x where "SaveRecord io2 k x d1 = (None, d')"
    using journal by (auto simp: journal_authorization_def split: sum.splits)
  then have J: "journal_of k r existing rm' now d' = journal_of k r existing rm' now d1"
    using journal_of_record_write [OF SaveRecord_None(1)] SaveRemediation_None(3) [OF save here(2)] by blast
  note load = journaled_documents_load [OF old(1) here(1) old(2) here(2) save q(1-3) json(1) q(4) journal json(2) [unfolded J]]
  have "record_step r (journal_of k r existing rm' now d')"
    unfolding journal_of_def by (rule record_step.journal)
  moreover have "\<exists>fnd. StandingInvalidations r prior (rep_criterionID rep) = Some fnd \<and> inv_seq fnd = rep_invalidation rep"
    if "rep \<in> set (rm_repairs rm')" for rep
    using standing that by (fastforce simp: authorize_standing_def split: option.splits)
  moreover have "rm_authorizedBy rm' = TrimSpace by'" using rm' by simp
  ultimately show ?thesis
    using load numbered_snoc [OF old(2) q(1)] by' q(4) valid unfolding J by blast
qed

theorem authorization_takes_effect_witness:
  "\<exists>d'. AuthorizeRemediation sample_io sample_io sample_codec sample_disproved sample_delivery sample_prior sample_proposal
       ''po'' 4 sample_dir = (Inr sample_remediation, d') \<and>
     LoadRemediations sample_codec ''demo'' d' = Inr [sample_remediation] \<and> numbered [sample_remediation]"
proof -
  have a: "AuthorizeRemediation sample_io sample_io sample_codec sample_disproved sample_delivery sample_prior sample_proposal
      ''po'' 4 sample_dir = (Inr sample_remediation, sample_repaired_dir)" by code_simp
  have pid: "dr_projectID sample_disproved = ''demo''" by code_simp
  have here: "LoadRecord sample_codec (dr_projectID sample_disproved) sample_dir = Inr (Some sample_disproved)" by code_simp
  have wf: "dir_wf sample_dir" by (simp add: dir_wf_def sample_dir_def)
  have old: "LoadRemediations sample_codec (dr_projectID sample_disproved) sample_dir = Inr []" by code_simp
  have json: "DecodeRemediation sample_codec (ck_remediation sample_codec sample_remediation @ newline) = Inr sample_remediation"
    "ck_readRecord sample_codec (ck_record sample_codec (journal_of sample_codec sample_disproved [] sample_remediation 4
        sample_repaired_dir) @ newline) = Some (journal_of sample_codec sample_disproved [] sample_remediation 4 sample_repaired_dir)"
    by code_simp+
  have "numbered []" "int (length []) < max_int" by (simp_all add: numbered_def max_int_def)
  from authorization_takes_effect [OF a here wf old this json] a pid show ?thesis by auto
qed



end
