(* ===== verification/Handoff_Planner.thy ===== *)
theory Handoff_Planner
  imports Handoff_Store
begin

text \<open>
  Planning (\<^verbatim>\<open>internal/handoff/planner.go\<close>): the JSON object in a model's reply, the agent that is asked for a plan and told
  what was wrong with it, the plan a person wrote, and the plan a delivery keeps.

  What the agent answers to an attempt is a parameter, and so are the wording of the prompt (\<^verbatim>\<open>PlanPrompt\<close>) and of an error.
\<close>

section \<open>The object in a reply\<close>

datatype planner_error =
    PlannerSilent
  | NoObject
  | UnbalancedObject
  | NoAgentConfigured
  | AgentExit int string
  | AgentUnrunnable string
  | PlanRejected delivery_plan_error
  | PlannerExhausted int planner_error
  | PlannerGaveNothing

definition fence :: string where
  "fence = [CHR 0x60, CHR 0x60, CHR 0x60]"

text \<open>The contents of the first fenced block, when there is one that ends.\<close>

definition strip_fence :: "string \<Rightarrow> string" where
  "strip_fence s =
     (case strings_Index s fence of
        None \<Rightarrow> s
      | Some i \<Rightarrow>
          let rest = drop (i + 3) s;
              rest = (case after_first (CHR 0x0A) rest of None \<Rightarrow> rest | Some r \<Rightarrow> r)
          in case strings_Index rest fence of None \<Rightarrow> s | Some e \<Rightarrow> TrimSpace (take e rest))"

text \<open>How many bytes an object takes: the scan counts braces outside of strings, and an escape only counts inside of one.\<close>

fun object_end :: "int \<Rightarrow> bool \<Rightarrow> bool \<Rightarrow> string \<Rightarrow> nat option" where
  "object_end depth inString escaped [] = None"
| "object_end depth inString escaped (c # cs) =
     (if escaped then map_option Suc (object_end depth inString False cs)
      else if c = backslash \<and> inString then map_option Suc (object_end depth inString True cs)
      else if c = CHR 0x22 then map_option Suc (object_end depth (\<not> inString) False cs)
      else if inString then map_option Suc (object_end depth inString False cs)
      else if c = CHR ''{'' then map_option Suc (object_end (depth + 1) inString False cs)
      else if c = CHR ''}'' then
        if depth - 1 = 0 then Some 1 else map_option Suc (object_end (depth - 1) inString False cs)
      else map_option Suc (object_end depth inString False cs))"

definition ExtractPlanJSON :: "string \<Rightarrow> planner_error + string" where
  "ExtractPlanJSON reply =
     (let s = TrimSpace reply in
      if s = [] then Inl PlannerSilent
      else
        let s = dropWhile (\<lambda>c. c \<noteq> CHR ''{'') (strip_fence s) in
        if s = [] then Inl NoObject
        else case object_end 0 False False s of None \<Rightarrow> Inl UnbalancedObject | Some n \<Rightarrow> Inr (take n s))"

section \<open>Asking an agent\<close>

record AgentPlanner =
  ap_command :: string
  ap_args :: "string list"
  ap_attempts :: int

datatype agent_outcome = AgentReply string | AgentFailed int string string | AgentNotRun string

text \<open>What the agent does with its argument vector, for every attempt.\<close>

type_synonym agent = "nat \<Rightarrow> string list \<Rightarrow> agent_outcome"

definition firstMeaningfulLine :: "string \<Rightarrow> string \<Rightarrow> string" where
  "firstMeaningfulLine stdout stderr =
     (case filter (\<lambda>l. l \<noteq> []) (map TrimSpace (Split (CHR 0x0A) stderr @ Split (CHR 0x0A) stdout)) of
        [] \<Rightarrow> ''it produced no output at all''
      | l # _ \<Rightarrow> l)"

definition ask :: "AgentPlanner \<Rightarrow> agent \<Rightarrow> nat \<Rightarrow> string \<Rightarrow> planner_error + string" where
  "ask p ag n prompt =
     (case ag n (ap_command p # ap_args p @ [prompt]) of
        AgentReply out \<Rightarrow> Inr out
      | AgentFailed code out err \<Rightarrow> Inl (AgentExit code (firstMeaningfulLine out err))
      | AgentNotRun e \<Rightarrow> Inl (AgentUnrunnable e))"

definition extraction_feedback :: "(planner_error \<Rightarrow> string) \<Rightarrow> planner_error \<Rightarrow> string" where
  "extraction_feedback render e =
     newline @ ''Your previous reply was rejected: '' @ render e @ newline @
     ''Return ONE JSON object and nothing else.'' @ newline"

definition validation_feedback :: "(planner_error \<Rightarrow> string) \<Rightarrow> planner_error \<Rightarrow> string" where
  "validation_feedback render e =
     newline @ ''Your previous plan was rejected by the validator:'' @ newline @ ''  '' @ render e @ newline @
     ''Correct exactly that and return the whole JSON object again.'' @ newline"

text \<open>The provenance a plan that lacks it is given.\<close>

definition stamp_plan :: "AgentPlanner \<Rightarrow> int \<Rightarrow> DeliveryPlan \<Rightarrow> DeliveryPlan" where
  "stamp_plan p now plan =
     plan\<lparr>dp_plannedBy := (if blank (dp_plannedBy plan) then ''agent:'' @ ap_command p else dp_plannedBy plan),
         dp_plannedAt := (if dp_plannedAt plan = None then Some now else dp_plannedAt plan)\<rparr>"

text \<open>The loop over the attempts, with the number of the attempt, those that are left, the prompt and the last error. It also
  returns the prompts that were put.\<close>

fun plan_attempts ::
  "(string \<Rightarrow> string + DeliveryPlan) \<Rightarrow> (planner_error \<Rightarrow> string) \<Rightarrow> AgentPlanner \<Rightarrow> agent \<Rightarrow> string \<Rightarrow> Intent \<Rightarrow> int \<Rightarrow>
   nat \<Rightarrow> nat \<Rightarrow> string \<Rightarrow> planner_error \<Rightarrow> (planner_error + DeliveryPlan) \<times> string list" where
  "plan_attempts decode render p ag base i now n 0 prompt e = (Inl e, [])"
| "plan_attempts decode render p ag base i now n (Suc left) prompt e =
     (case
        (case ask p ag n prompt of
           Inl e \<Rightarrow> Inl (e, prompt)
         | Inr reply \<Rightarrow>
             (case ExtractPlanJSON reply of
                Inl e \<Rightarrow> Inl (e, base @ extraction_feedback render e)
              | Inr raw \<Rightarrow>
                  (case DecodePlan decode raw i of
                     Inl e \<Rightarrow> Inl (PlanRejected e, base @ validation_feedback render (PlanRejected e))
                   | Inr plan \<Rightarrow> Inr plan)))
      of
        Inr plan \<Rightarrow> (Inr (stamp_plan p now plan), [prompt])
      | Inl (e', prompt') \<Rightarrow>
          (case plan_attempts decode render p ag base i now (Suc n) left prompt' e' of (res, asked) \<Rightarrow> (res, prompt # asked)))"

definition attempts_allowed :: "AgentPlanner \<Rightarrow> nat" where
  "attempts_allowed p = (if ap_attempts p \<le> 0 then 2 else nat (ap_attempts p))"

definition AgentPlanner_Plan ::
  "(string \<Rightarrow> string + DeliveryPlan) \<Rightarrow> (planner_error \<Rightarrow> string) \<Rightarrow> AgentPlanner \<Rightarrow> agent \<Rightarrow> string \<Rightarrow> Intent \<Rightarrow> int \<Rightarrow>
   (planner_error + DeliveryPlan) \<times> string list" where
  "AgentPlanner_Plan decode render p ag base i now =
     (if blank (ap_command p) then (Inl NoAgentConfigured, [])
      else
        case plan_attempts decode render p ag base i now 1 (attempts_allowed p) base PlannerGaveNothing of
          (Inr plan, asked) \<Rightarrow> (Inr plan, asked)
        | (Inl e, asked) \<Rightarrow> (Inl (PlannerExhausted (int (attempts_allowed p)) e), asked))"

definition StaticPlanner_Plan :: "(string \<Rightarrow> string + DeliveryPlan) \<Rightarrow> string \<Rightarrow> Intent \<Rightarrow> planner_error + DeliveryPlan" where
  "StaticPlanner_Plan decode raw i =
     (case DecodePlan decode raw i of Inl e \<Rightarrow> Inl (PlanRejected e) | Inr plan \<Rightarrow> Inr plan)"

section \<open>The plan a delivery keeps\<close>

datatype ensure_error = EnsureStore store_error | EnsurePlanner planner_error

text \<open>The planner is what it would answer; the result says whether a plan was made.\<close>

definition EnsurePlan ::
  "store_io \<Rightarrow> codec \<Rightarrow> Intent \<Rightarrow> planner_error + DeliveryPlan \<Rightarrow> project_dir \<Rightarrow>
   (ensure_error + DeliveryPlan \<times> bool) \<times> project_dir" where
  "EnsurePlan io k i planner d =
     (case LoadPlan k i d of
        Inl e \<Rightarrow> (Inl (EnsureStore e), d)
      | Inr (Some plan) \<Rightarrow> (Inr (plan, False), d)
      | Inr None \<Rightarrow>
          (case planner of
             Inl e \<Rightarrow> (Inl (EnsurePlanner e), d)
           | Inr plan \<Rightarrow>
               (case SavePlan io k plan d of
                  (Some e, d') \<Rightarrow> (Inl (EnsureStore e), d')
                | (None, d') \<Rightarrow> (Inr (plan, True), d'))))"

section \<open>Lemmas: the scan\<close>

lemma object_end_bounds: "object_end depth inS esc s = Some n \<Longrightarrow> 0 < n \<and> n \<le> length s"
  by (induction depth inS esc s arbitrary: n rule: object_end.induct) (auto split: if_splits)

lemma object_end_last: "object_end depth inS esc s = Some n \<Longrightarrow> last (take n s) = CHR ''}''"
proof (induction depth inS esc s arbitrary: n rule: object_end.induct)
  case (2 depth inS esc c cs)
  then show ?case
    using object_end_bounds by (fastforce split: if_splits)
qed simp

text \<open>What follows an object does not change where it ends, and an object ends where it ends.\<close>

lemma object_end_append: "object_end depth inS esc s = Some n \<Longrightarrow> object_end depth inS esc (s @ t) = Some n"
  by (induction depth inS esc s arbitrary: n rule: object_end.induct) (auto split: if_splits)

lemma object_end_take: "object_end depth inS esc s = Some n \<Longrightarrow> object_end depth inS esc (take n s) = Some n"
  by (induction depth inS esc s arbitrary: n rule: object_end.induct) (auto split: if_splits)

definition json_object :: "string \<Rightarrow> bool" where
  "json_object s \<longleftrightarrow> s \<noteq> [] \<and> hd s = CHR ''{'' \<and> object_end 0 False False s = Some (length s)"

lemma json_object_take:
  "object_end 0 False False t = Some n \<Longrightarrow> t \<noteq> [] \<Longrightarrow> hd t = CHR ''{'' \<Longrightarrow> json_object (take n t)"
  using object_end_take [of 0 False False t n] object_end_bounds [of 0 False False t n] by (auto simp: json_object_def hd_take)

section \<open>Lemmas: white space and fences\<close>

lemma trim_lead_until:
  assumes "\<forall>w\<in>set ws. \<forall>b\<in>set w. \<not> graphic b" "graphic c"
  shows "\<exists>pre'. suffix pre' pre \<and> trim_lead ws (pre @ c # t) = pre' @ c # t"
  using assms(1)
proof (induction ws "pre @ c # t" arbitrary: pre rule: trim_lead.induct)
  case (1 ws)
  show ?case
  proof (cases "lead_len ws (pre @ c # t) = 0")
    case True
    then show ?thesis by (subst trim_lead.simps) auto
  next
    case False
    then have "\<exists>w\<in>set ws. w \<noteq> [] \<and> prefix w (pre @ c # t) \<and> lead_len ws (pre @ c # t) = length w"
      by (induction ws) (auto split: if_splits)
    then obtain w where w: "w \<in> set ws" "prefix w (pre @ c # t)" "lead_len ws (pre @ c # t) = length w" by blast
    have "prefix w pre"
    proof (rule ccontr)
      assume "\<not> prefix w pre"
      with w(2) have "c \<in> set w" by (auto simp: prefix_append prefix_Cons)
      with w(1) 1(2) assms(2) show False by blast
    qed
    then have d: "drop (lead_len ws (pre @ c # t)) (pre @ c # t) = drop (length w) pre @ c # t"
      using w(3) prefix_length_le by fastforce
    from 1(1) [OF False d 1(2)] obtain pre' where "suffix pre' (drop (length w) pre)"
      "trim_lead ws (drop (length w) pre @ c # t) = pre' @ c # t" by blast
    then show ?thesis using False d by (subst trim_lead.simps) (metis suffix_drop suffix_order.order_trans)
  qed
qed

lemma TrimSpace_around:
  assumes "graphic a" "graphic z" "hd s = a" "last s = z" "s \<noteq> []"
  shows "\<exists>pre' post'. suffix pre' pre \<and> prefix post' post \<and> TrimSpace (pre @ s @ post) = pre' @ s @ post'"
proof -
  have ws: "\<forall>w\<in>set space_runes. \<forall>b\<in>set w. \<not> graphic b" "\<forall>w\<in>set (map rev space_runes). \<forall>b\<in>set w. \<not> graphic b"
    using space_runes_plain by (auto simp: list_all_iff)
  have s: "s = a # tl s" "s = butlast s @ [z]" using assms by (auto simp: append_butlast_last_id)
  obtain pre' where pre': "suffix pre' pre" "trim_lead space_runes (pre @ s @ post) = pre' @ s @ post"
    using trim_lead_until [OF ws(1) assms(1), of pre "tl s @ post"] s(1) by (metis append_Cons)
  have r: "rev (pre' @ s @ post) = rev post @ z # rev (butlast s) @ rev pre'" by (subst s(2)) simp
  obtain q where q: "suffix q (rev post)" "trim_lead (map rev space_runes) (rev (pre' @ s @ post)) = q @ z # rev (butlast s) @ rev pre'"
    using trim_lead_until [OF ws(2) assms(2), of "rev post" "rev (butlast s) @ rev pre'"] unfolding r by blast
  then have "TrimSpace (pre @ s @ post) = pre' @ s @ rev q"
    using pre'(2) s(2) by (simp add: TrimSpace_def)
  moreover have "prefix (rev q) post" using q(1) by (simp add: suffix_to_prefix)
  ultimately show ?thesis using pre'(1) by blast
qed

lemma json_object_ends: "json_object s \<Longrightarrow> hd s = CHR ''{'' \<and> last s = CHR ''}'' \<and> s \<noteq> []"
  using object_end_last [of 0 False False s "length s"] by (auto simp: json_object_def)

lemma TrimSpace_object:
  assumes "json_object s"
  shows "\<exists>pre' post'. suffix pre' pre \<and> prefix post' post \<and> TrimSpace (pre @ s @ post) = pre' @ s @ post'"
proof (rule TrimSpace_around)
  show "graphic (CHR ''{'')" "graphic (CHR ''}'')" by (simp_all add: graphic_def)
qed (use json_object_ends [OF assms] in auto)

lemma strings_Index_None: "strings_Index s p = None \<longleftrightarrow> \<not> sublist p s"
proof (induction s)
  case (Cons c s)
  then show ?case by (auto simp: sublist_Cons_right)
qed auto

lemma strings_Index_first:
  assumes "hd p \<notin> set pre" "p \<noteq> []"
  shows "strings_Index (pre @ p @ s) p = Some (length pre)"
  using assms
proof (induction pre)
  case Nil
  then show ?case by (cases p) auto
next
  case (Cons c pre)
  have "\<not> prefix p (c # pre @ p @ s)" using Cons.prems by (cases p) auto
  with Cons show ?case by simp
qed

lemma scan_found:
  assumes "json_object s" "CHR ''{'' \<notin> set pre"
  shows "dropWhile (\<lambda>c. c \<noteq> CHR ''{'') (pre @ s @ post) = s @ post" "object_end 0 False False (s @ post) = Some (length s)"
  using assms json_object_ends [OF assms(1)]
  by (auto simp: dropWhile_append3 json_object_def intro: object_end_append) (cases s; auto simp: dropWhile_append)

lemma take_sublist: "sublist (take n s) s"
  by (metis append_take_drop_id sublist_append_rightI)

lemma trim_sublist: "sublist (TrimSpace s) s"
proof -
  have "suffix (trim_lead space_runes s) s" by (rule trim_lead_suffix)
  moreover have "prefix (TrimSpace s) (trim_lead space_runes s)"
    using trim_lead_suffix [of "map rev space_runes" "rev (trim_lead space_runes s)"] by (simp add: TrimSpace_def suffix_to_prefix)
  ultimately show ?thesis by (metis prefix_imp_sublist sublist_order.order_trans suffix_imp_sublist)
qed

lemma after_first_suffix: "after_first c s = Some r \<Longrightarrow> suffix r s"
  by (induction s) (auto split: if_splits intro: suffix_ConsI)

lemma strip_fence_sublist: "sublist (strip_fence s) s"
proof -
  have "sublist (TrimSpace (take e (case after_first (CHR 0x0A) (drop m s) of None \<Rightarrow> drop m s | Some r \<Rightarrow> r))) s" for e m
  proof -
    let ?r = "case after_first (CHR 0x0A) (drop m s) of None \<Rightarrow> drop m s | Some r \<Rightarrow> r"
    have "suffix ?r (drop m s)" by (auto split: option.splits dest: after_first_suffix)
    then have "sublist ?r s" by (metis suffix_drop suffix_imp_sublist suffix_order.order_trans)
    moreover have "sublist (take e ?r) ?r" by (rule take_sublist)
    ultimately show ?thesis using trim_sublist sublist_order.order_trans by metis
  qed
  then show ?thesis by (simp add: strip_fence_def Let_def split: option.splits)
qed

lemma after_first_plain: "c \<notin> set pre \<Longrightarrow> after_first c (pre @ c # s) = Some s"
  by (induction pre) auto

lemma strip_fence_plain: "\<not> sublist fence s \<Longrightarrow> strip_fence s = s"
  using strings_Index_None [of s fence] by (simp add: strip_fence_def)

lemma strip_fence_block:
  assumes "CHR 0x60 \<notin> set pre" "CHR 0x0A \<notin> set lang" "CHR 0x60 \<notin> set body"
  shows "strip_fence (pre @ fence @ lang @ newline @ body @ fence @ post) = TrimSpace body"
proof -
  have f: "hd fence = CHR 0x60" "fence \<noteq> []" "length fence = 3" by (simp_all add: fence_def)
  have "strings_Index (pre @ fence @ lang @ newline @ body @ fence @ post) fence = Some (length pre)"
    using assms(1) f by (intro strings_Index_first) simp_all
  moreover have "drop (length pre + 3) (pre @ fence @ lang @ newline @ body @ fence @ post) = lang @ CHR 0x0A # body @ fence @ post"
    using f(3) by (simp add: newline_def)
  moreover have "strings_Index (body @ fence @ post) fence = Some (length body)"
    using assms(3) f by (intro strings_Index_first) simp_all
  ultimately show ?thesis using after_first_plain [OF assms(2)] by (simp add: strip_fence_def Let_def)
qed

lemma Extract_found:
  assumes "json_object s" "CHR ''{'' \<notin> set pre" "TrimSpace reply \<noteq> []" "strip_fence (TrimSpace reply) = pre @ s @ post"
  shows "ExtractPlanJSON reply = Inr s"
  using assms scan_found [OF assms(1,2), of post] json_object_ends [OF assms(1)] by (simp add: ExtractPlanJSON_def)

section \<open>Lemmas: plans\<close>

lemma validate_stamp: "DeliveryPlan_Validate i (stamp_plan p now plan) = DeliveryPlan_Validate i plan"
proof -
  have "AllPackages (stamp_plan p now plan) = AllPackages plan" "generations (stamp_plan p now plan) = generations plan"
    by (simp_all add: stamp_plan_def AllPackages_def generations_def Superseded_def)
  moreover have "fidelity_problems (stamp_plan p now plan) = fidelity_problems plan"
    by (rule ext) (simp add: fidelity_problems_def AllPackages_def Superseded_def stamp_plan_def)
  ultimately show ?thesis by (simp add: DeliveryPlan_Validate_def plan_problems_def stamp_plan_def)
qed

lemma DecodePlan_Inr:
  assumes "DecodePlan decode raw i = Inr plan"
  shows "DeliveryPlan_Validate i plan = None" "dp_remediations plan = []" "\<not> dp_provisional plan"
  using assms by (auto simp: DecodePlan_def DecodePlanWithRemediations_def Let_def split: sum.splits option.splits)

lemma plan_attempts_sound:
  "plan_attempts decode render p ag base i now n left prompt e = (res, asked) \<Longrightarrow> prefix base prompt \<Longrightarrow>
     length asked \<le> left \<and> (\<forall>q\<in>set asked. prefix base q) \<and> (0 < left \<longrightarrow> asked \<noteq> [] \<and> hd asked = prompt) \<and>
     (\<forall>plan. res = Inr plan \<longrightarrow> (\<exists>reply raw made. ExtractPlanJSON reply = Inr raw \<and> DecodePlan decode raw i = Inr made \<and>
        plan = stamp_plan p now made))"
proof (induction left arbitrary: n prompt e res asked)
  case (Suc left)
  let ?attempt = "case ask p ag n prompt of
      Inl e \<Rightarrow> Inl (e, prompt)
    | Inr reply \<Rightarrow>
        (case ExtractPlanJSON reply of
           Inl e \<Rightarrow> Inl (e, base @ extraction_feedback render e)
         | Inr raw \<Rightarrow>
             (case DecodePlan decode raw i of
                Inl e \<Rightarrow> Inl (PlanRejected e, base @ validation_feedback render (PlanRejected e))
              | Inr plan \<Rightarrow> Inr plan))"
  show ?case
  proof (cases ?attempt)
    case (Inl ep)
    obtain e' prompt' where ep: "ep = (e', prompt')" by (cases ep)
    have "prefix base prompt'" using Inl ep Suc.prems(2) by (auto split: sum.splits)
    moreover obtain asked' where rec: "plan_attempts decode render p ag base i now (Suc n) left prompt' e' = (res, asked')"
      "asked = prompt # asked'" using Suc.prems(1) Inl ep by (auto split: prod.splits)
    ultimately show ?thesis using Suc.IH [OF rec(1)] Suc.prems(2) by auto
  next
    case (Inr plan)
    then have "\<exists>reply raw. ExtractPlanJSON reply = Inr raw \<and> DecodePlan decode raw i = Inr plan" by (auto split: sum.splits)
    then show ?thesis using Suc.prems Inr by auto
  qed
qed simp

lemma plan_attempts_failed:
  "plan_attempts decode render p ag base i now n left prompt e = (Inl e', asked) \<Longrightarrow> length asked = left"
  by (induction left arbitrary: n prompt e asked) (auto split: sum.splits prod.splits)

lemma agent_not_blank [simplified]: "\<not> blank (''agent:'' @ s)"
  using TrimSpace_around [of "CHR ''a''" "CHR '':''" "''agent:''" "[]" s] by (auto simp: blank_def graphic_def)

section \<open>Lemmas: the plan a delivery keeps\<close>

text \<open>Writing the plan changes no remediation.\<close>

lemma Nil_sort_key: "[] = sort_key f xs \<longleftrightarrow> xs = []"
  by (metis length_0_conv length_sort)

lemma no_documents_after_plan:
  assumes "LoadRemediations k pid d = Inr []" "writes_only PlanName s e d d'"
  shows "LoadRemediations k pid d' = Inr []"
proof -
  obtain r where r: "load_entries k pid d (sort (map fst (pd_entries d))) = Inr []" "LoadRecord k pid d = Inr r" "pd_listable d"
    "case r of None \<Rightarrow> True | Some rc \<Rightarrow> verifyRemediationJournal rc [] (digest_of k []) = []"
    using assms(1) unfolding LoadRemediations_Inr by (auto simp: Nil_sort_key)
  have "load_entry k pid d' n = Inr None" if n: "map_of (pd_entries d') n \<noteq> None" for n
  proof (cases "n = PlanName \<or> n = PlanName @ ''.tmp''")
    case True
    then show ?thesis by (auto intro: load_entry_other)
  next
    case False
    then have same: "map_of (pd_entries d') n = map_of (pd_entries d) n" using writes_only_same [OF assms(2)] by blast
    then have "n \<in> set (sort (map fst (pd_entries d)))" using n by (simp only: keys_iff) simp
    moreover have "List.map_filter (entry_doc k pid d) (sort (map fst (pd_entries d))) = []"
      "\<forall>n\<in>set (sort (map fst (pd_entries d))). \<exists>x. load_entry k pid d n = Inr x"
      using r(1) unfolding load_entries_Inr by simp_all
    ultimately have "\<exists>x. load_entry k pid d n = Inr x" "entry_doc k pid d n = None" unfolding map_filter_Nil by blast+
    then show ?thesis using load_entry_same [OF same] by (auto simp: entry_doc_def)
  qed
  then have "load_entry k pid d' n = Inr None" if "n \<in> set (sort (map fst (pd_entries d')))" for n
    using that unfolding keys_iff by blast
  then have "List.map_filter (entry_doc k pid d') (sort (map fst (pd_entries d'))) = []"
    "\<forall>n\<in>set (sort (map fst (pd_entries d'))). \<exists>x. load_entry k pid d' n = Inr x"
    unfolding map_filter_Nil entry_doc_def by simp_all
  then have "load_entries k pid d' (sort (map fst (pd_entries d'))) = Inr []" unfolding load_entries_Inr by (metis (no_types))
  moreover have "LoadRecord k pid d' = LoadRecord k pid d"
    by (rule LoadRecord_same, rule writes_only_same [OF assms(2)]) simp_all
  ultimately show ?thesis using r assms(2) unfolding LoadRemediations_Inr by (auto simp: writes_only_def)
qed

lemma Ensure_made:
  assumes "EnsurePlan io k i planner d = (Inr (plan, True), d1)"
  shows "planner = Inr plan" "ReadFile d PlanName = NotExist" "writes_only PlanName (ck_plan k plan @ newline) None d d1"
proof -
  have "ReadFile d PlanName = NotExist"
    using assms by (auto simp: EnsurePlan_def LoadPlan_def split: read_result.splits sum.splits option.splits)
  with assms show "planner = Inr plan" "ReadFile d PlanName = NotExist" "writes_only PlanName (ck_plan k plan @ newline) None d d1"
    by (auto simp: EnsurePlan_def LoadPlan_def SavePlan_def dest: save_file_writes split: sum.splits option.splits prod.splits)
qed

section \<open>Properties\<close>


definition sample_object :: string where
  "sample_object = [CHR ''{'', CHR 0x22, CHR ''}'', CHR 0x5C, CHR 0x22, CHR 0x22, CHR '':'', CHR ''{'', CHR ''}'', CHR ''}'']"


text \<open>C26. What the planning agent is asked and what is taken of it: a plan it gives validates, carries no remediation, is not
  provisional and says who planned it and when; it is asked first with the prompt of the intent and again only with that
  prompt extended, no more often than allowed, and it is given up on only when every attempt was used.\<close>

theorem agent_plan_sound:
  assumes "AgentPlanner_Plan decode render p ag base i now = (res, asked)" "\<not> blank (ap_command p)"
  shows "(\<forall>plan. res = Inr plan \<longrightarrow> DeliveryPlan_Validate i plan = None \<and> dp_remediations plan = [] \<and> \<not> dp_provisional plan \<and>
       \<not> blank (dp_plannedBy plan) \<and> dp_plannedAt plan \<noteq> None) \<and>
    asked \<noteq> [] \<and> hd asked = base \<and> (\<forall>q\<in>set asked. prefix base q) \<and> length asked \<le> attempts_allowed p \<and>
    ((\<forall>plan. res \<noteq> Inr plan) \<longrightarrow> length asked = attempts_allowed p)"
proof -
  obtain r where r: "plan_attempts decode render p ag base i now 1 (attempts_allowed p) base PlannerGaveNothing = (r, asked)"
    "\<And>plan. res = Inr plan \<longleftrightarrow> r = Inr plan"
    using assms by (auto simp: AgentPlanner_Plan_def split: prod.splits sum.splits)
  have pos: "0 < attempts_allowed p" by (simp add: attempts_allowed_def)
  have sound: "length asked \<le> attempts_allowed p" "\<forall>q\<in>set asked. prefix base q" "asked \<noteq> [] \<and> hd asked = base"
    "\<And>plan. r = Inr plan \<Longrightarrow> \<exists>raw made. DecodePlan decode raw i = Inr made \<and> plan = stamp_plan p now made"
    using plan_attempts_sound [OF r(1)] pos by auto
  have "DeliveryPlan_Validate i plan = None \<and> dp_remediations plan = [] \<and> \<not> dp_provisional plan \<and>
      \<not> blank (dp_plannedBy plan) \<and> dp_plannedAt plan \<noteq> None" if "r = Inr plan" for plan
  proof -
    from sound(4) [OF that] obtain raw made where m: "DecodePlan decode raw i = Inr made" "plan = stamp_plan p now made" by blast
    from m(2) DecodePlan_Inr [OF m(1)] validate_stamp [of i p now made] show ?thesis
      by (simp add: stamp_plan_def agent_not_blank)
  qed
  moreover have "length asked = attempts_allowed p" if "\<forall>plan. r \<noteq> Inr plan"
    using that r(1) plan_attempts_failed by (cases r) auto
  ultimately show ?thesis using sound(1-3) r(2) by auto
qed

theorem agent_plan_sound_witness:
  "\<exists>plan asked. AgentPlanner_Plan (\<lambda>_. Inr (sample_delivery\<lparr>dp_plannedBy := []\<rparr>)) (\<lambda>_. ''e'')
       \<lparr>ap_command = ''model'', ap_args = [''-p''], ap_attempts = 0\<rparr>
       (\<lambda>n argv. if n = 1 then AgentReply ''no'' else AgentReply ''{}'') ''base'' sample_intent 5 = (Inr plan, asked) \<and>
     dp_plannedBy plan = ''agent:model'' \<and> length asked = 2 \<and> DeliveryPlan_Validate sample_intent plan = None \<and>
     prefix ''base'' (asked ! 1)"
proof -
  let ?p = "\<lparr>ap_command = ''model'', ap_args = [''-p''], ap_attempts = 0\<rparr>"
  let ?run = "AgentPlanner_Plan (\<lambda>_. Inr (sample_delivery\<lparr>dp_plannedBy := []\<rparr>)) (\<lambda>_. ''e'') ?p
    (\<lambda>n argv. if n = 1 then AgentReply ''no'' else AgentReply ''{}'') ''base'' sample_intent 5"
  have c: "\<not> blank (ap_command ?p)" by code_simp
  have run: "?run = (Inr (sample_delivery\<lparr>dp_plannedBy := ''agent:model''\<rparr>),
      [''base'', ''base'' @ extraction_feedback (\<lambda>_. ''e'') NoObject])" by code_simp
  from agent_plan_sound [OF run c] run show ?thesis by auto
qed

text \<open>Planning is done once and kept: when a planner's plan that validates has been installed for a delivery without
  remediations, every later call returns that plan and says it was not made now, whatever its planner would answer, and
  changes nothing. When a call fails or finds a plan, the plan file is as it was.\<close>

theorem planning_happens_once:
  assumes "EnsurePlan io k i planner d = (r, d1)"
  shows "(\<forall>plan. r = Inr (plan, True) \<and> DeliveryPlan_Validate i plan = None \<and> dp_remediations plan = [] \<and> \<not> dp_provisional plan \<and>
       LoadRemediations k (in_projectID i) d = Inr [] \<and> ck_readPlan k (ck_plan k plan @ newline) = Inr plan \<longrightarrow>
         planner = Inr plan \<and> EnsurePlan io' k i planner' d1 = (Inr (plan, False), d1)) \<and>
    ((\<forall>plan. r \<noteq> Inr (plan, True)) \<longrightarrow> ReadFile d1 PlanName = ReadFile d PlanName)"
proof (intro conjI allI impI)
  fix plan
  assume a: "r = Inr (plan, True) \<and> DeliveryPlan_Validate i plan = None \<and> dp_remediations plan = [] \<and> \<not> dp_provisional plan \<and>
       LoadRemediations k (in_projectID i) d = Inr [] \<and> ck_readPlan k (ck_plan k plan @ newline) = Inr plan"
  then have made: "EnsurePlan io k i planner d = (Inr (plan, True), d1)" using assms by simp
  note w = Ensure_made [OF made]
  then show "planner = Inr plan" by simp
  have read: "ReadFile d1 PlanName = Content (ck_plan k plan @ newline)" using w(3) by (simp add: ReadFile_Content writes_only_def)
  have rms: "LoadRemediations k (in_projectID i) d1 = Inr []" using a no_documents_after_plan [OF _ w(3)] by blast
  have "plan\<lparr>dp_remediations := [], dp_provisional := False\<rparr> = plan" using a by simp
  then have "DecodePlanWithRemediations (ck_readPlan k) (ck_plan k plan @ newline) i [] = Inr plan"
    using a by (simp only: DecodePlanWithRemediations_def Let_def sum.case option.case)
  with read rms have "LoadPlan k i d1 = Inr (Some plan)" by (simp add: LoadPlan_def)
  then show "EnsurePlan io' k i planner' d1 = (Inr (plan, False), d1)" by (simp add: EnsurePlan_def)
next
  assume other: "\<forall>plan. r \<noteq> Inr (plan, True)"
  show "ReadFile d1 PlanName = ReadFile d PlanName"
  proof (cases "\<exists>plan e. planner = Inr plan \<and> LoadPlan k i d = Inr None \<and> SavePlan io k plan d = (Some e, d1)")
    case True
    then obtain plan e where e: "SavePlan io k plan d = (Some e, d1)" by blast
    show ?thesis
    proof (cases "d1 = d")
      case False
      with e have "save_file io PlanName (ck_plan k plan @ newline) d = (Some e, d1)"
        by (auto simp: SavePlan_def split: read_result.splits if_splits)
      from save_file_writes [OF this] show ?thesis by (intro ReadFile_entry) (simp add: writes_only_def)
    qed simp
  next
    case False
    with assms other have "d1 = d" by (auto simp: EnsurePlan_def split: sum.splits option.splits prod.splits)
    then show ?thesis by simp
  qed
qed

theorem planning_happens_once_witness:
  "\<exists>d1. EnsurePlan sample_io sample_codec sample_intent (Inr sample_delivery) \<lparr>pd_listable = True, pd_entries = []\<rparr> =
       (Inr (sample_delivery, True), d1) \<and>
     EnsurePlan sample_io sample_codec sample_intent (Inl PlannerSilent) d1 = (Inr (sample_delivery, False), d1)"
proof -
  let ?d = "\<lparr>pd_listable = True, pd_entries = []\<rparr>"
  let ?run = "EnsurePlan sample_io sample_codec sample_intent (Inr sample_delivery) ?d"
  have m: "fst ?run = Inr (sample_delivery, True)"
    by (simp add: EnsurePlan_def LoadPlan_def SavePlan_def save_file_def install_file_def write_file_def ReadFile_def sample_io_def)
  then have run: "?run = (Inr (sample_delivery, True), snd ?run)" by (metis prod.collapse)
  have l: "LoadRemediations sample_codec (in_projectID sample_intent) ?d = Inr []"
    by (simp add: LoadRemediations_def LoadRecord_def ReadFile_def)
  have c: "ck_readPlan sample_codec (ck_plan sample_codec sample_delivery @ newline) = Inr sample_delivery"
    "dp_remediations sample_delivery = []" "\<not> dp_provisional sample_delivery"
    by (simp_all add: sample_codec_def sample_delivery_def)
  have "EnsurePlan sample_io sample_codec sample_intent (Inl PlannerSilent) (snd ?run) = (Inr (sample_delivery, False), snd ?run)"
    using planning_happens_once [OF run, of sample_io "Inl PlannerSilent"] sample_delivery_valid l c by blast
  with run show ?thesis by blast
qed

end
