(* ===== verification/Delivery_Command.thy ===== *)
theory Delivery_Command
  imports Handoff_Planner Session
begin

text \<open>
  The command a portal starts and observes deliveries with (\<^verbatim>\<open>corsolv/delivery/main.go\<close>, \<^verbatim>\<open>reconcile.go\<close> and
  \<^verbatim>\<open>hostprofile.go\<close>): preflight, start, run, plan, accept, invalidate, remediate and status, over the files of a delivery, the
  compilation, and the sessions of the control layer.

  A \<open>site\<close> is what there is of one project: its directory, the delivery projection, and the heartbeat and the completion its
  runs published, with their times. A \<open>command_env\<close> is what the machine answers to one command: the host profile as read, the
  outcomes of the command's writes in their order, the process table, the driver's stages, the agent that plans. What a run
  that began leaves in its own state directory and in the projection is an argument (\<open>run_layer\<close>); it does not touch
  the files of the store. A command has one time and the files to itself, but for \<open>prepareRun\<close>, which takes the record it was
  given and the site apart. A command gives its outcome, whose exit code the portal reads, and the site after it; what it prints is
  not modelled. A run may in principle not end, so the commands that execute one give an option.
\<close>

section \<open>The host profile\<close>

record hostFile =
  hf_deliveryRoot :: string
  hf_driver :: string
  hf_gitHubCommand :: string
  hf_gasCityCommand :: string
  hf_beadsCommand :: string
  hf_providerCommand :: string
  hf_provider :: string
  hf_windowsMountPrefix :: string
  hf_projectToolPath :: "string list"
  hf_plannerCommand :: string
  hf_plannerArgs :: "string list"

datatype command_error =
    HostUnusable string
  | HostInvalid "string list"
  | IntentUnread string
  | IntentInvalid intent_error
  | ProjectIDInvalid string
  | DeliveryNotStarted string
  | GroundNotReady string
  | PlanStands string nat
  | NoPlanToRepair string
  | DocumentUnread string
  | RemediationUnusable string
  | NoStage string
  | StageFailed string string
  | DetachFailed string
  | CommandStore store_error
  | CommandRecord record_conflict
  | CommandAssess assess_error
  | CommandRunFiles string
  | CommandCompile compile_error
  | CommandPlanner planner_error
  | CommandEnsure ensure_error
  | CommandSession session_error

definition loadHost :: "string + hostFile \<Rightarrow> command_error + HostProfile \<times> AgentPlanner" where
  "loadHost file =
     (case file of
        Inl e \<Rightarrow> Inl (HostUnusable e)
      | Inr f \<Rightarrow>
          let h = \<lparr>hp_deliveryRoot = hf_deliveryRoot f, hp_driver = hf_driver f, hp_gitHubCommand = hf_gitHubCommand f,
                   hp_gasCityCommand = hf_gasCityCommand f, hp_beadsCommand = hf_beadsCommand f, hp_provider = hf_provider f,
                   hp_providerCommand = hf_providerCommand f, hp_projectToolPath = hf_projectToolPath f,
                   hp_windowsMountPrefix = hf_windowsMountPrefix f\<rparr>
          in if HostProfile_Validate h \<noteq> [] then Inl (HostInvalid (HostProfile_Validate h))
             else Inr (h, \<lparr>ap_command = hf_plannerCommand f, ap_args = hf_plannerArgs f, ap_attempts = 0\<rparr>))"

section \<open>Sites and environments\<close>

record site =
  sd_dir :: project_dir
  sd_projection :: projection_file
  sd_progress :: "string + (Progress \<times> int) option"
  sd_completion :: "string + (CompletionEvent \<times> int) option"

record command_env =
  cx_codec :: codec
  cx_url :: url_parser
  cx_yaml :: yaml_parser
  cx_readIntent :: "string \<Rightarrow> string + Intent"
  cx_host :: "string + hostFile"
  cx_io :: "nat \<Rightarrow> store_io"
  cx_now :: int
  cx_stamp :: "int \<Rightarrow> string"
  cx_alive :: "int \<Rightarrow> bool"
  cx_world :: world
  cx_driver :: "string list \<Rightarrow> projection_file \<Rightarrow> string option \<times> projection_file"
  cx_agent :: agent
  cx_prompt :: "Intent \<Rightarrow> string"
  cx_render :: "planner_error \<Rightarrow> string"
  cx_explain :: "ensure_error \<Rightarrow> string"
  cx_specTOML :: "Spec \<Rightarrow> string + string"
  cx_planTOML :: "Plan \<Rightarrow> string + string"
  cx_boundaryErr :: "(string + (CompletionEvent \<times> int) option) option"
  cx_selfErr :: "string option"
  cx_spawnErr :: "string option"

record run_layer =
  rl_begin :: begin_env
  rl_lock :: LockDir
  rl_env :: run_env
  rl_left :: "runner \<Rightarrow> site \<Rightarrow> projection_file \<times> (string + (Progress \<times> int) option) \<times> (string + (CompletionEvent \<times> int) option)"

definition exitOK :: int where "exitOK = 0"
definition exitHumanBoundary :: int where "exitHumanBoundary = 3"
definition exitRefused :: int where "exitRefused = 4"
definition exitUsage :: int where "exitUsage = 5"

datatype command_outcome = Usage string | RefusedWith command_error | Reported Status int | Exited int

fun exit_code :: "command_outcome \<Rightarrow> int" where
  "exit_code (Usage s) = exitUsage"
| "exit_code (RefusedWith e) = exitRefused"
| "exit_code (Reported st n) = n"
| "exit_code (Exited n) = n"

section \<open>Observation\<close>

definition StageFinished :: string where "StageFinished = ''finished''"

definition no_observation :: RunObservation where
  "no_observation = \<lparr>ob_live = False, ob_runID = [], ob_stage = [], ob_boundaries = [], ob_finished = False, ob_outcome = []\<rparr>"

definition no_plan :: DeliveryPlan where
  "no_plan = \<lparr>dp_schemaVersion = 0, dp_projectID = [], dp_plannedBy = [], dp_plannedAt = None, dp_packages = [],
     dp_remediations = [], dp_provisional = False\<rparr>"

text \<open>Whether a heartbeat is of another run than the completion, or of the same run carrying on after it.\<close>

definition superseded_by :: "(Progress \<times> int) option \<Rightarrow> CompletionEvent \<times> int \<Rightarrow> bool" where
  "superseded_by progress event =
     (case progress of
        None \<Rightarrow> False
      | Some (p, updatedAt) \<Rightarrow>
          pg_runID p \<noteq> ce_runID (fst event) \<or> (pg_stage p \<noteq> StageFinished \<and> snd event < updatedAt))"

definition observeRun :: "(int \<Rightarrow> bool) \<Rightarrow> site \<Rightarrow> string + RunObservation" where
  "observeRun alive s =
     (case sd_progress s of
        Inl e \<Rightarrow> Inl e
      | Inr progress \<Rightarrow>
          (case sd_completion s of
             Inl e \<Rightarrow> Inl e
           | Inr event \<Rightarrow>
               let obs = (case progress of
                            None \<Rightarrow> no_observation
                          | Some (p, _) \<Rightarrow> no_observation\<lparr>ob_runID := pg_runID p, ob_stage := pg_stage p, ob_boundaries := pg_boundaries p\<rparr>);
                   unfinished = (case progress of
                                   Some (p, _) \<Rightarrow> if pg_writerPID p > 0 then obs\<lparr>ob_live := alive (pg_writerPID p)\<rparr> else obs
                                 | None \<Rightarrow> obs)
               in Inr (case event of
                         None \<Rightarrow> unfinished
                       | Some ev \<Rightarrow>
                           if superseded_by progress ev then unfinished
                           else obs\<lparr>ob_finished := True, ob_outcome := RunOutcome_text (ce_outcome (fst ev)), ob_runID := ce_runID (fst ev),
                                    ob_boundaries := (if ce_humanActions (fst ev) \<noteq> [] then ce_humanActions (fst ev) else ob_boundaries obs)\<rparr>)))"

definition observe_delivery :: "command_env \<Rightarrow> string \<Rightarrow> site \<Rightarrow> command_error + Status" where
  "observe_delivery cx pid s =
     (case LoadRecord (cx_codec cx) pid (sd_dir s) of
        Inl e \<Rightarrow> Inl (CommandStore e)
      | Inr None \<Rightarrow> Inr (Derive pid False no_plan False no_observation empty_evidence (cx_now cx))
      | Inr (Some r) \<Rightarrow>
          (case LoadPlan (cx_codec cx) (dr_intent r) (sd_dir s) of
             Inl e \<Rightarrow> Inl (CommandStore e)
           | Inr plan \<Rightarrow>
               (case (case plan of
                        None \<Rightarrow> Inr empty_evidence
                      | Some p \<Rightarrow> Assess (cx_yaml cx) p (dr_intent r) (sd_projection s) (dr_acceptances r) (dr_invalidations r)) of
                  Inl e \<Rightarrow> Inl (CommandAssess e)
                | Inr ev \<Rightarrow>
                    (case observeRun (cx_alive cx) s of
                       Inl e \<Rightarrow> Inl (CommandRunFiles e)
                     | Inr obs \<Rightarrow>
                         Inr (Derive pid True (case plan of None \<Rightarrow> no_plan | Some p \<Rightarrow> p) (plan \<noteq> None) obs ev (cx_now cx))))))"

definition report :: "command_env \<Rightarrow> string \<Rightarrow> (Status \<Rightarrow> int) \<Rightarrow> site \<Rightarrow> command_outcome" where
  "report cx pid code s = (case observe_delivery cx pid s of Inl e \<Rightarrow> RefusedWith e | Inr st \<Rightarrow> Reported st (code st))"

section \<open>Refreshing the projection\<close>

definition projectionStages :: "string list" where
  "projectionStages = [StageProject, StagePublishProjection]"

definition taskByID :: "Plan \<Rightarrow> string \<Rightarrow> Task option" where
  "taskByID work i = find (\<lambda>t. t_id t = i) (p_tasks work)"

fun run_stages :: "command_env \<Rightarrow> Plan \<Rightarrow> string list \<Rightarrow> site \<Rightarrow> command_error option \<times> site" where
  "run_stages cx work [] s = (None, s)"
| "run_stages cx work (stage # rest) s =
     (case taskByID work stage of
        None \<Rightarrow> (Some (NoStage stage), s)
      | Some t \<Rightarrow>
          (case cx_driver cx (t_argv t) (sd_projection s) of
             (Some e, f) \<Rightarrow> (Some (StageFailed stage e), s\<lparr>sd_projection := f\<rparr>)
           | (None, f) \<Rightarrow> run_stages cx work rest (s\<lparr>sd_projection := f\<rparr>)))"

definition refreshProjection :: "command_env \<Rightarrow> HostProfile \<Rightarrow> DeliveryRecord \<Rightarrow> site \<Rightarrow> command_error option \<times> site" where
  "refreshProjection cx h r s =
     (case LoadPlan (cx_codec cx) (dr_intent r) (sd_dir s) of
        Inl e \<Rightarrow> (Some (CommandStore e), s)
      | Inr plan \<Rightarrow>
          (case (plan, LatestRun r) of
             (Some p, Some run) \<Rightarrow>
               (case Compile (cx_url cx) (dr_intent r) p h (rr_runID run) of
                  Inl e \<Rightarrow> (Some (CommandCompile e), s)
                | Inr (spec, work) \<Rightarrow> run_stages cx work projectionStages s)
           | _ \<Rightarrow> (None, s)))"

text \<open>The end of the commands that change the record: the document is refreshed before the state is derived.\<close>

definition refresh_and_report ::
  "command_env \<Rightarrow> HostProfile \<Rightarrow> DeliveryRecord \<Rightarrow> string \<Rightarrow> (Status \<Rightarrow> int) \<Rightarrow> site \<Rightarrow> command_outcome \<times> site" where
  "refresh_and_report cx h r pid code s =
     (case refreshProjection cx h r s of
        (Some e, s') \<Rightarrow> (RefusedWith e, s')
      | (None, s') \<Rightarrow> (report cx pid code s', s'))"

definition accepted_code :: "Status \<Rightarrow> int" where
  "accepted_code st = (if st_state st = StateCompleted then exitOK else exitHumanBoundary)"

section \<open>The commands on a record\<close>

text \<open>The opening the commands on a started delivery share.\<close>

definition open_delivery ::
  "command_env \<Rightarrow> string \<Rightarrow> site \<Rightarrow> command_error + HostProfile \<times> AgentPlanner \<times> DeliveryRecord" where
  "open_delivery cx pid s =
     (if \<not> SanitizeProjectID pid then Inl (ProjectIDInvalid pid)
      else
        case loadHost (cx_host cx) of
          Inl e \<Rightarrow> Inl e
        | Inr (h, p) \<Rightarrow>
            (case LoadRecord (cx_codec cx) pid (sd_dir s) of
               Inl e \<Rightarrow> Inl (CommandStore e)
             | Inr None \<Rightarrow> Inl (DeliveryNotStarted pid)
             | Inr (Some r) \<Rightarrow> Inr (h, p, r)))"

definition cmdAccept :: "command_env \<Rightarrow> string \<Rightarrow> string \<Rightarrow> string \<Rightarrow> string \<Rightarrow> site \<Rightarrow> command_outcome \<times> site" where
  "cmdAccept cx pid c by' note' s =
     (if pid = [] then (Usage ''accept needs -project'', s)
      else if c = [] then (Usage ''accept needs -criterion'', s)
      else if by' = [] then (Usage ''accept needs -by'', s)
      else
        case open_delivery cx pid s of
          Inl e \<Rightarrow> (RefusedWith e, s)
        | Inr (h, _, r) \<Rightarrow>
            (case Accept r c by' note' (cx_now cx) of
               Inl e \<Rightarrow> (RefusedWith (CommandRecord e), s)
             | Inr r' \<Rightarrow>
                 (case SaveRecord (cx_io cx 0) (cx_codec cx) r' (sd_dir s) of
                    (Some e, d) \<Rightarrow> (RefusedWith (CommandStore e), s\<lparr>sd_dir := d\<rparr>)
                  | (None, d) \<Rightarrow> refresh_and_report cx h r' pid accepted_code (s\<lparr>sd_dir := d\<rparr>))))"

definition cmdInvalidate ::
  "command_env \<Rightarrow> string \<Rightarrow> string \<Rightarrow> string \<Rightarrow> string \<Rightarrow> string \<Rightarrow> site \<Rightarrow> command_outcome \<times> site" where
  "cmdInvalidate cx pid c by' reason evidence s =
     (if pid = [] then (Usage ''invalidate needs -project'', s)
      else if c = [] then (Usage ''invalidate needs -criterion'', s)
      else if by' = [] then (Usage ''invalidate needs -by'', s)
      else if reason = [] then (Usage ''invalidate needs -reason'', s)
      else if evidence = [] then (Usage ''invalidate needs -evidence'', s)
      else
        case open_delivery cx pid s of
          Inl e \<Rightarrow> (RefusedWith e, s)
        | Inr (h, _, r) \<Rightarrow>
            (case observe_delivery cx pid s of
               Inl e \<Rightarrow> (RefusedWith e, s)
             | Inr prior \<Rightarrow>
                 (case Invalidate r c (st_evidence prior) by' reason evidence (cx_now cx) of
                    Inl e \<Rightarrow> (RefusedWith (CommandRecord e), s)
                  | Inr r' \<Rightarrow>
                      (case SaveRecord (cx_io cx 0) (cx_codec cx) r' (sd_dir s) of
                         (Some e, d) \<Rightarrow> (RefusedWith (CommandStore e), s\<lparr>sd_dir := d\<rparr>)
                       | (None, d) \<Rightarrow> refresh_and_report cx h r' pid (\<lambda>_. exitHumanBoundary) (s\<lparr>sd_dir := d\<rparr>)))))"

definition showRemediations :: "command_env \<Rightarrow> string \<Rightarrow> site \<Rightarrow> command_outcome" where
  "showRemediations cx pid s =
     (case LoadRemediations (cx_codec cx) pid (sd_dir s) of
        Inl e \<Rightarrow> RefusedWith (CommandStore e)
      | Inr _ \<Rightarrow> Exited exitOK)"

text \<open>The document to authorize is what reading the file named with \<^verbatim>\<open>-from\<close> gives, none when the flag is not there.\<close>

definition cmdRemediate ::
  "command_env \<Rightarrow> string \<Rightarrow> (string + string) option \<Rightarrow> string \<Rightarrow> site \<Rightarrow> command_outcome \<times> site" where
  "cmdRemediate cx pid from' by' s =
     (if pid = [] then (Usage ''remediate needs -project'', s)
      else
        case open_delivery cx pid s of
          Inl e \<Rightarrow> (RefusedWith e, s)
        | Inr (h, _, r) \<Rightarrow>
            (case from' of
               None \<Rightarrow> (showRemediations cx pid s, s)
             | Some file \<Rightarrow>
                 if by' = [] then (Usage ''remediate needs -by'', s)
                 else
                   case LoadPlan (cx_codec cx) (dr_intent r) (sd_dir s) of
                     Inl e \<Rightarrow> (RefusedWith (CommandStore e), s)
                   | Inr None \<Rightarrow> (RefusedWith (NoPlanToRepair pid), s)
                   | Inr (Some plan) \<Rightarrow>
                       (case observe_delivery cx pid s of
                          Inl e \<Rightarrow> (RefusedWith e, s)
                        | Inr prior \<Rightarrow>
                            (case file of
                               Inl e \<Rightarrow> (RefusedWith (DocumentUnread e), s)
                             | Inr raw \<Rightarrow>
                                 (case DecodeRemediation (cx_codec cx) raw of
                                    Inl e \<Rightarrow> (RefusedWith (RemediationUnusable e), s)
                                  | Inr proposed \<Rightarrow>
                                      (case AuthorizeRemediation (cx_io cx 0) (cx_io cx 1) (cx_codec cx) r plan (st_evidence prior)
                                              proposed by' (cx_now cx) (sd_dir s) of
                                         (Inl e, d) \<Rightarrow> (RefusedWith (CommandStore e), s\<lparr>sd_dir := d\<rparr>)
                                       | (Inr _, d) \<Rightarrow> refresh_and_report cx h r pid accepted_code (s\<lparr>sd_dir := d\<rparr>)))))))"

section \<open>The plan\<close>

definition cmdPlan ::
  "command_env \<Rightarrow> string \<Rightarrow> (string + string) option \<Rightarrow> bool \<Rightarrow> bool \<Rightarrow> site \<Rightarrow> command_outcome \<times> site" where
  "cmdPlan cx pid from' supersede amend s =
     (if pid = [] then (Usage ''plan needs -project'', s)
      else
        case open_delivery cx pid s of
          Inl e \<Rightarrow> (RefusedWith e, s)
        | Inr (_, _, r) \<Rightarrow>
            (case LoadPlan (cx_codec cx) (dr_intent r) (sd_dir s) of
               Inl e \<Rightarrow> (RefusedWith (CommandStore e), s)
             | Inr existing \<Rightarrow>
                 (case from' of
                    None \<Rightarrow> (Exited (if existing = None then exitHumanBoundary else exitOK), s)
                  | Some file \<Rightarrow>
                      (case existing of
                         Some p \<Rightarrow>
                           if \<not> supersede \<and> \<not> amend then (RefusedWith (PlanStands pid (length (dp_packages p))), s)
                           else
                             (case file of
                                Inl e \<Rightarrow> (RefusedWith (DocumentUnread e), s)
                              | Inr raw \<Rightarrow>
                                  (case StaticPlanner_Plan (ck_readPlan (cx_codec cx)) raw (dr_intent r) of
                                     Inl e \<Rightarrow> (RefusedWith (CommandPlanner e), s)
                                   | Inr plan \<Rightarrow>
                                       (case observe_delivery cx pid s of
                                          Inl e \<Rightarrow> (RefusedWith e, s)
                                        | Inr st \<Rightarrow>
                                            (case (if amend then AmendUnmergedPackages (cx_io cx 0) (cx_codec cx) p plan st (sd_dir s)
                                                   else SupersedeUnexecutedPlan (cx_io cx 0) (cx_codec cx) plan st (sd_dir s)) of
                                               (Some e, d) \<Rightarrow> (RefusedWith (CommandStore e), s\<lparr>sd_dir := d\<rparr>)
                                             | (None, d) \<Rightarrow> (Exited exitOK, s\<lparr>sd_dir := d\<rparr>)))))
                       | None \<Rightarrow>
                           (case file of
                              Inl e \<Rightarrow> (RefusedWith (DocumentUnread e), s)
                            | Inr raw \<Rightarrow>
                                (case StaticPlanner_Plan (ck_readPlan (cx_codec cx)) raw (dr_intent r) of
                                   Inl e \<Rightarrow> (RefusedWith (CommandPlanner e), s)
                                 | Inr plan \<Rightarrow>
                                     (case SavePlan (cx_io cx 0) (cx_codec cx) plan (sd_dir s) of
                                        (Some e, d) \<Rightarrow> (RefusedWith (CommandStore e), s\<lparr>sd_dir := d\<rparr>)
                                      | (None, d) \<Rightarrow> (Exited exitOK, s\<lparr>sd_dir := d\<rparr>))))))))"

definition cmdStatus :: "command_env \<Rightarrow> string \<Rightarrow> site \<Rightarrow> command_outcome" where
  "cmdStatus cx pid s =
     (if pid = [] then Usage ''status needs -project''
      else if \<not> SanitizeProjectID pid then RefusedWith (ProjectIDInvalid pid)
      else
        case loadHost (cx_host cx) of
          Inl e \<Rightarrow> RefusedWith e
        | Inr _ \<Rightarrow>
            report cx pid (\<lambda>st.
              case st_state st of
                StateCompleted \<Rightarrow> exitOK
              | StateBlocked \<Rightarrow> exitHumanBoundary
              | DeliveryState.StateFailed \<Rightarrow> exitRefused
              | _ \<Rightarrow> exitOK) s)"

section \<open>Running a delivery\<close>

definition WriteRunFiles :: "store_io \<Rightarrow> command_env \<Rightarrow> Spec \<Rightarrow> Plan \<Rightarrow> project_dir \<Rightarrow> command_error option \<times> project_dir" where
  "WriteRunFiles io cx spec work d =
     (if \<not> sio_mkdir io then (Some (CommandStore MkdirFailed), d)
      else
        case cx_specTOML cx spec of
          Inl e \<Rightarrow> (Some (CommandRunFiles e), d)
        | Inr text' \<Rightarrow>
            (case write_file io ''run-spec.toml'' text' d of
               (Some e, d1) \<Rightarrow> (Some (CommandStore e), d1)
             | (None, d1) \<Rightarrow>
                 (case cx_planTOML cx work of
                    Inl e \<Rightarrow> (Some (CommandRunFiles e), d1)
                  | Inr encoded \<Rightarrow>
                      (case write_file io ''run-plan.toml'' encoded d1 of
                         (Some e, d2) \<Rightarrow> (Some (CommandStore e), d2)
                       | (None, d2) \<Rightarrow> (None, d2)))))"

text \<open>When the completion cannot be written, what is then read in its place is the environment's: the replacement removes the
  file before it renames another over it.\<close>

definition recordPreRunBoundary :: "command_env \<Rightarrow> string \<Rightarrow> string \<Rightarrow> ensure_error \<Rightarrow> site \<Rightarrow> site" where
  "recordPreRunBoundary cx pid runID cause s =
     (case cx_boundaryErr cx of
        Some left \<Rightarrow> s\<lparr>sd_completion := left\<rparr>
      | None \<Rightarrow>
          s\<lparr>sd_completion := Inr (Some (
            \<lparr>ce_runID = runID, ce_projectID = pid, ce_session = ''managed-delivery-'' @ pid,
             ce_sessionLabel = ''managed delivery '' @ [CHR 0xE2, CHR 0x80, CHR 0x94] @ '' '' @ pid,
             ce_outcome = RunBlockedHuman, ce_reason = ''delivery could not plan the work'',
             ce_worktree = [], ce_branch = [], ce_head = [], ce_tasks = (\<lambda>_. 0), ce_attempts = 0, ce_resumes = 0,
             ce_humanActions = [cx_explain cx cause], ce_failures = [],
             ce_qa = \<lparr>pd_allowed = False, pd_risk = RiskOther [], pd_targetSHA = [], pd_required = [], pd_satisfied = [],
                      pd_blocking = []\<rparr>\<rparr>, cx_now cx))\<rparr>)"

definition run_id :: "command_env \<Rightarrow> string \<Rightarrow> string" where
  "run_id cx pid = pid @ ''-'' @ cx_stamp cx (cx_now cx)"

text \<open>The record a run saves: the one it loaded, with the run appended and placed.\<close>

definition run_record :: "command_env \<Rightarrow> HostProfile \<Rightarrow> string \<Rightarrow> DeliveryRecord \<Rightarrow> Spec \<Rightarrow> DeliveryRecord" where
  "run_record cx h pid r spec =
     (AppendRun r (run_id cx pid) (if dr_runs r \<noteq> [] then ReasonResumed else ReasonInitial) (cx_now cx))
       \<lparr>dr_stateDir := StateDir h pid, dr_worktree := ow_worktree (sp_ownership spec)\<rparr>"

text \<open>The part of \<^verbatim>\<open>executeRun\<close> up to the session, with the record that was loaded at its beginning.\<close>

definition prepareRun ::
  "command_env \<Rightarrow> HostProfile \<Rightarrow> AgentPlanner \<Rightarrow> string \<Rightarrow> DeliveryRecord \<Rightarrow> site \<Rightarrow> (command_error + Spec \<times> Plan) \<times> site" where
  "prepareRun cx h p pid r s =
     (let k = cx_codec cx; i = dr_intent r;
          runID = run_id cx pid;
          planner = fst (AgentPlanner_Plan (ck_readPlan k) (cx_render cx) p (cx_agent cx) (cx_prompt cx i) i (cx_now cx))
      in case EnsurePlan (cx_io cx 0) k i planner (sd_dir s) of
           (Inl e, d) \<Rightarrow> (Inl (CommandEnsure e), recordPreRunBoundary cx pid runID e (s\<lparr>sd_dir := d\<rparr>))
         | (Inr (plan, _), d) \<Rightarrow>
             (case Compile (cx_url cx) i plan h runID of
                Inl e \<Rightarrow> (Inl (CommandCompile e), s\<lparr>sd_dir := d\<rparr>)
              | Inr (spec, work) \<Rightarrow>
                  (case WriteRunFiles (cx_io cx 1) cx spec work d of
                     (Some e, d1) \<Rightarrow> (Inl e, s\<lparr>sd_dir := d1\<rparr>)
                   | (None, d1) \<Rightarrow>
                       (case SaveIntent (cx_io cx 2) k (cx_url cx) i d1 of
                          (Some e, d2) \<Rightarrow> (Inl (CommandStore e), s\<lparr>sd_dir := d2\<rparr>)
                        | (None, d2) \<Rightarrow>
                            (case SaveRecord (cx_io cx 3) k (run_record cx h pid r spec) d2 of
                               (Some e, d3) \<Rightarrow> (Inl (CommandStore e), s\<lparr>sd_dir := d3\<rparr>)
                             | (None, d3) \<Rightarrow> (Inr (spec, work), s\<lparr>sd_dir := d3\<rparr>))))))"

definition begin_outcome :: "session_error \<Rightarrow> command_outcome" where
  "begin_outcome e =
     (case e of
        LockRefused (ErrWriterHeld _) \<Rightarrow> Exited exitOK
      | LockRefused (ErrForeignWriter _ _) \<Rightarrow> Exited exitOK
      | _ \<Rightarrow> RefusedWith (CommandSession e))"

definition run_exit :: "RunOutcome \<Rightarrow> int" where
  "run_exit o' =
     (case o' of
        RunCompleted \<Rightarrow> exitOK
      | RunBlockedHuman \<Rightarrow> exitHumanBoundary
      | RunAwaitingAuth \<Rightarrow> exitHumanBoundary
      | _ \<Rightarrow> exitRefused)"

definition run_session :: "run_layer \<Rightarrow> Spec \<Rightarrow> Plan \<Rightarrow> site \<Rightarrow> (command_outcome \<times> site) option" where
  "run_session rl spec work s =
     (case Begin (rl_begin rl) spec work (rl_lock rl) of
        (Inl e, _) \<Rightarrow> Some (begin_outcome e, s)
      | (Inr session, _) \<Rightarrow>
          (case Run (ss_config session) (rl_env rl) (ss_runner session) of
             None \<Rightarrow> None
           | Some (event, _, r) \<Rightarrow>
               (case rl_left rl r s of
                  (projection, progress, completion) \<Rightarrow>
                    Some (Exited (case event of None \<Rightarrow> exitRefused | Some ev \<Rightarrow> run_exit (ce_outcome ev)),
                      s\<lparr>sd_projection := projection, sd_progress := progress, sd_completion := completion\<rparr>))))"

definition executeRun ::
  "command_env \<Rightarrow> run_layer \<Rightarrow> HostProfile \<Rightarrow> AgentPlanner \<Rightarrow> string \<Rightarrow> site \<Rightarrow> (command_outcome \<times> site) option" where
  "executeRun cx rl h p pid s =
     (case LoadRecord (cx_codec cx) pid (sd_dir s) of
        Inl e \<Rightarrow> Some (RefusedWith (CommandStore e), s)
      | Inr None \<Rightarrow> Some (RefusedWith (DeliveryNotStarted pid), s)
      | Inr (Some r) \<Rightarrow>
          (case prepareRun cx h p pid r s of
             (Inl e, s') \<Rightarrow> Some (RefusedWith e, s')
           | (Inr (spec, work), s') \<Rightarrow> run_session rl spec work s'))"

definition cmdRun :: "command_env \<Rightarrow> run_layer \<Rightarrow> string \<Rightarrow> site \<Rightarrow> (command_outcome \<times> site) option" where
  "cmdRun cx rl pid s =
     (if pid = [] then Some (Usage ''run needs -project'', s)
      else if \<not> SanitizeProjectID pid then Some (RefusedWith (ProjectIDInvalid pid), s)
      else
        case loadHost (cx_host cx) of
          Inl e \<Rightarrow> Some (RefusedWith e, s)
        | Inr (h, p) \<Rightarrow> executeRun cx rl h p pid s)"

section \<open>Preflight and start\<close>

definition preflight_package :: "string \<Rightarrow> Criterion \<Rightarrow> WorkPackage" where
  "preflight_package phase c =
     \<lparr>wp_id = ''wp-'' @ cn_id c, wp_title = ''placeholder for '' @ cn_id c, wp_phase = phase,
      wp_objective = ''Placeholder used only to preflight the ground; never executed.'',
      wp_artifact = ''preflight/'' @ cn_id c @ ''.placeholder'',
      wp_authorizedPaths = [''preflight/'' @ cn_id c @ ''.placeholder''], wp_gates = [], wp_dependsOn = [],
      wp_satisfies = [cn_id c], wp_verifies = None\<rparr>"

definition preflightPackages :: "Intent \<Rightarrow> WorkPackage list" where
  "preflightPackages i =
     (let phase = (case in_lifecycle i of [] \<Rightarrow> ''preflight'' | ph # _ \<Rightarrow> ph) in
      map (preflight_package phase) (filter (\<lambda>c. \<not> IsHuman c) (in_acceptance i)))"

definition preflightPlan :: "Intent \<Rightarrow> DeliveryPlan" where
  "preflightPlan i =
     \<lparr>dp_schemaVersion = PlanSchemaVersion, dp_projectID = in_projectID i, dp_plannedBy = ''preflight'', dp_plannedAt = None,
      dp_packages = preflightPackages i, dp_remediations = [], dp_provisional = True\<rparr>"

definition preflightDelivery :: "command_env \<Rightarrow> Intent \<Rightarrow> HostProfile \<Rightarrow> command_error + Report" where
  "preflightDelivery cx i h =
     (case Compile (cx_url cx) i (preflightPlan i) h ''preflight'' of
        Inl e \<Rightarrow> Inl (CommandCompile e)
      | Inr (spec, _) \<Rightarrow> Inr (Preflight (cx_world cx) spec None))"

definition planCheckPrefix :: string where "planCheckPrefix = ''plan.''"

definition deliveryReadiness :: "Report \<Rightarrow> Readiness" where
  "deliveryReadiness rep = Checks_Readiness (filter (\<lambda>c. \<not> HasPrefix (c_id c) planCheckPrefix) (rep_checks rep))"

text \<open>The intent is what reading the file named with \<^verbatim>\<open>-intent\<close> gives, none when the flag is not there.\<close>

definition readIntent :: "command_env \<Rightarrow> string + string \<Rightarrow> command_error + Intent" where
  "readIntent cx file =
     (case file of
        Inl e \<Rightarrow> Inl (IntentUnread e)
      | Inr data \<Rightarrow>
          (case DecodeIntent (cx_url cx) (cx_readIntent cx) data of Inl e \<Rightarrow> Inl (IntentInvalid e) | Inr i \<Rightarrow> Inr i))"

definition cmdPreflight :: "command_env \<Rightarrow> (string + string) option \<Rightarrow> command_outcome" where
  "cmdPreflight cx file =
     (case file of
        None \<Rightarrow> Usage ''preflight needs -intent''
      | Some f \<Rightarrow>
          (case readIntent cx f of
             Inl e \<Rightarrow> RefusedWith e
           | Inr i \<Rightarrow>
               (case loadHost (cx_host cx) of
                  Inl e \<Rightarrow> RefusedWith e
                | Inr (h, _) \<Rightarrow>
                    (case preflightDelivery cx i h of
                       Inl e \<Rightarrow> RefusedWith e
                     | Inr rep \<Rightarrow>
                         Exited (case deliveryReadiness rep of
                                   Ready \<Rightarrow> exitOK
                                 | ReadyWithKnownHumanBoundary \<Rightarrow> exitHumanBoundary
                                 | NotReady \<Rightarrow> exitRefused)))))"

definition detachRun :: "command_env \<Rightarrow> store_io \<Rightarrow> project_dir \<Rightarrow> command_error option \<times> project_dir" where
  "detachRun cx io d =
     (if cx_selfErr cx \<noteq> None then (map_option DetachFailed (cx_selfErr cx), d)
      else if \<not> sio_mkdir io then (Some (CommandStore MkdirFailed), d)
      else
        case sio_write io ''run.log'' of
          Written \<Rightarrow>
            (map_option DetachFailed (cx_spawnErr cx), if file_exists d ''run.log'' then d else put_file d ''run.log'' [])
        | _ \<Rightarrow> (Some (CommandStore (WriteFailed ''run.log'')), d))"

definition cmdStart ::
  "command_env \<Rightarrow> run_layer \<Rightarrow> (string + string) option \<Rightarrow> bool \<Rightarrow> site \<Rightarrow> (command_outcome \<times> site) option" where
  "cmdStart cx rl file foreground s =
     (case file of
        None \<Rightarrow> Some (Usage ''start needs -intent'', s)
      | Some f \<Rightarrow>
          (case readIntent cx f of
             Inl e \<Rightarrow> Some (RefusedWith e, s)
           | Inr i \<Rightarrow>
               (case loadHost (cx_host cx) of
                  Inl e \<Rightarrow> Some (RefusedWith e, s)
                | Inr (h, p) \<Rightarrow>
                    (case Admit (cx_codec cx) (cx_url cx) i (cx_now cx) (sd_dir s) of
                       Inl e \<Rightarrow> Some (RefusedWith (CommandStore e), s)
                     | Inr adm \<Rightarrow>
                         if ad_alreadyStarted adm then Some (report cx (in_projectID i) (\<lambda>_. exitOK) s, s)
                         else
                           case preflightDelivery cx i h of
                             Inl e \<Rightarrow> Some (RefusedWith e, s)
                           | Inr rep \<Rightarrow>
                               if deliveryReadiness rep = NotReady then Some (RefusedWith (GroundNotReady (in_projectID i)), s)
                               else
                                 case SaveRecord (cx_io cx 4) (cx_codec cx) (ad_record adm) (sd_dir s) of
                                   (Some e, d) \<Rightarrow> Some (RefusedWith (CommandStore e), s\<lparr>sd_dir := d\<rparr>)
                                 | (None, d) \<Rightarrow>
                                     if foreground then executeRun cx rl h p (in_projectID i) (s\<lparr>sd_dir := d\<rparr>)
                                     else
                                       case detachRun cx (cx_io cx 5) d of
                                         (Some e, d1) \<Rightarrow> Some (RefusedWith e, s\<lparr>sd_dir := d1\<rparr>)
                                       | (None, d1) \<Rightarrow>
                                           Some (report cx (in_projectID i) (\<lambda>_. exitOK) (s\<lparr>sd_dir := d1\<rparr>), s\<lparr>sd_dir := d1\<rparr>)))))"

section \<open>The command line\<close>

datatype command =
    CmdPreflight "(string + string) option"
  | CmdStart "(string + string) option" bool
  | CmdRun string
  | CmdPlan string "(string + string) option" bool bool
  | CmdAccept string string string string
  | CmdInvalidate string string string string string
  | CmdRemediate string "(string + string) option" string
  | CmdStatus string
  | CmdHelp
  | CmdUnknown string

fun delivery :: "command_env \<Rightarrow> run_layer \<Rightarrow> command \<Rightarrow> site \<Rightarrow> (command_outcome \<times> site) option" where
  "delivery cx rl (CmdPreflight f) s = Some (cmdPreflight cx f, s)"
| "delivery cx rl (CmdStart f fg) s = cmdStart cx rl f fg s"
| "delivery cx rl (CmdRun pid) s = cmdRun cx rl pid s"
| "delivery cx rl (CmdPlan pid f supersede amend) s = Some (cmdPlan cx pid f supersede amend s)"
| "delivery cx rl (CmdAccept pid c by' note') s = Some (cmdAccept cx pid c by' note' s)"
| "delivery cx rl (CmdInvalidate pid c by' reason evidence) s = Some (cmdInvalidate cx pid c by' reason evidence s)"
| "delivery cx rl (CmdRemediate pid f by') s = Some (cmdRemediate cx pid f by' s)"
| "delivery cx rl (CmdStatus pid) s = Some (cmdStatus cx pid s, s)"
| "delivery cx rl CmdHelp s = Some (Exited exitOK, s)"
| "delivery cx rl (CmdUnknown c) s = Some (Usage c, s)"

section \<open>Lemmas: what commands write\<close>

lemma run_stages_dir: "run_stages cx work stages s = (e, s') \<Longrightarrow> sd_dir s' = sd_dir s"
  by (induction stages arbitrary: s) (auto split: option.splits prod.splits)

lemma refreshProjection_dir: "refreshProjection cx h r s = (e, s') \<Longrightarrow> sd_dir s' = sd_dir s"
  by (auto simp: refreshProjection_def dest: run_stages_dir split: sum.splits option.splits prod.splits)

lemma refresh_and_report_dir: "refresh_and_report cx h r pid code s = (out, s') \<Longrightarrow> sd_dir s' = sd_dir s"
  by (auto simp: refresh_and_report_def dest: refreshProjection_dir split: option.splits prod.splits)

lemma LoadRecord_unique:
  assumes "LoadRecord k p d = Inr (Some r)"
  shows "LoadRecord k q d = Inr r' \<Longrightarrow> r' = Some r"
  using assms by (auto simp: LoadRecord_def split: read_result.splits option.splits if_splits)

lemma open_delivery_Inr: "open_delivery cx pid s = Inr (h, p, r) \<Longrightarrow> LoadRecord (cx_codec cx) pid (sd_dir s) = Inr (Some r)"
  by (auto simp: open_delivery_def split: if_splits sum.splits option.splits)

text \<open>A directory moves by operations of the store, and its record is as it was or one that grew out of \<open>r\<close>.\<close>

definition grows :: "codec \<Rightarrow> url_parser \<Rightarrow> DeliveryRecord \<Rightarrow> project_dir \<Rightarrow> project_dir \<Rightarrow> bool" where
  "grows k url r d d' \<longleftrightarrow>
     (store_step k url)\<^sup>*\<^sup>* d d' \<and>
     (ReadFile d' RecordName = ReadFile d RecordName \<or>
      (\<exists>r'. record_step\<^sup>*\<^sup>* r r' \<and> ReadFile d' RecordName = Content (ck_record k r' @ newline)))"

lemma grows_id [simp, intro]: "grows k url r d d"
  by (simp add: grows_def)

lemma grows_step:
  "grows k url r d d1 \<Longrightarrow> (store_step k url)\<^sup>*\<^sup>* d1 d2 \<Longrightarrow> ReadFile d2 RecordName = ReadFile d1 RecordName \<Longrightarrow> grows k url r d d2"
  by (auto simp: grows_def)

lemma SaveRecord_writes: "SaveRecord io k r d = (e, d') \<Longrightarrow> writes_only RecordName (ck_record k r @ newline) e d d'"
  using save_file_writes writes_only_refl by (auto simp: SaveRecord_def split: if_splits)

lemma grows_SaveRecord:
  assumes "grows k url r d d1" "record_step\<^sup>*\<^sup>* r r'" "SaveRecord io k r' d1 = (e, d2)"
  shows "grows k url r d d2"
proof -
  have steps: "(store_step k url)\<^sup>*\<^sup>* d d2"
    using assms(1,3) store_step.save_record [of io k r' d1 e d2 url] by (auto simp: grows_def intro: rtranclp.rtrancl_into_rtrancl)
  note w = SaveRecord_writes [OF assms(3)]
  show ?thesis
  proof (cases e)
    case None
    with w have "ReadFile d2 RecordName = Content (ck_record k r' @ newline)" by (simp add: writes_only_def ReadFile_Content)
    with steps assms(2) show ?thesis by (auto simp: grows_def)
  next
    case (Some x)
    with w have "ReadFile d2 RecordName = ReadFile d1 RecordName" by (intro ReadFile_entry) (simp add: writes_only_def)
    with steps assms(1) show ?thesis by (auto simp: grows_def)
  qed
qed

lemma SavePlan_record: "SavePlan io k p d = (e, d') \<Longrightarrow> ReadFile d' RecordName = ReadFile d RecordName"
  using SavePlan_writes [of io k p d e d'] writes_only_kept [of PlanName _ e d d' RecordName] by (auto split: if_splits)

lemma replaced_record: "replace_plan io k s p d = (e, d') \<Longrightarrow> ReadFile d' RecordName = ReadFile d RecordName"
  by (rule replace_plan_other) simp_all

lemma Supersede_record: "SupersedeUnexecutedPlan io k p st d = (e, d') \<Longrightarrow> ReadFile d' RecordName = ReadFile d RecordName"
  using Supersede_cases [of io k p st d e d'] SavePlan_record replaced_record by blast

lemma Amend_record: "AmendUnmergedPackages io k standing p st d = (e, d') \<Longrightarrow> ReadFile d' RecordName = ReadFile d RecordName"
  using Amend_cases [of io k standing p st d e d'] replaced_record by blast

lemma grows_SavePlan: "grows k url r d d1 \<Longrightarrow> SavePlan io k p d1 = (e, d2) \<Longrightarrow> grows k url r d d2"
  by (rule grows_step [OF _ r_into_rtranclp [of "store_step k url", OF store_step.save_plan] SavePlan_record])

lemma grows_SaveIntent:
  assumes "grows k url r d d1" "SaveIntent io k url i d1 = (e, d2)"
  shows "grows k url r d d2"
proof (rule grows_step [OF assms(1) r_into_rtranclp [of "store_step k url", OF store_step.save_intent [OF assms(2)]]])
  show "ReadFile d2 RecordName = ReadFile d1 RecordName"
    using assms(2) writes_only_kept [OF save_file_writes, of io IntentName "ck_intent k i @ newline" d1 e d2 RecordName]
    by (auto simp: SaveIntent_def split: option.splits)
qed

lemma grows_foreign: "grows k url r d d1 \<Longrightarrow> \<not> store_name n \<Longrightarrow> grows k url r d (put_file d1 n s)"
  by (rule grows_step [OF _ r_into_rtranclp [of "store_step k url", OF store_step.foreign]]) (simp_all add: foreign_reads)

lemma command_files [simp]: "\<not> store_name ''run-spec.toml''" "\<not> store_name ''run-plan.toml''" "\<not> store_name ''run.log''"
  by (auto simp: store_name_def RecordName_def IntentName_def PlanName_def SupersededPlanName_def RemediationName_def)

lemma grows_write_file: "grows k url r d d1 \<Longrightarrow> \<not> store_name n \<Longrightarrow> write_file io n s d1 = (e, d2) \<Longrightarrow> grows k url r d d2"
  by (auto simp: write_file_def intro: grows_foreign split: write_outcome.splits)

lemma grows_WriteRunFiles: "grows k url r d d1 \<Longrightarrow> WriteRunFiles io cx spec work d1 = (e, d2) \<Longrightarrow> grows k url r d d2"
  by (auto simp: WriteRunFiles_def dest: grows_write_file [OF _ command_files(1)] grows_write_file [OF _ command_files(2)]
      split: if_splits sum.splits prod.splits option.splits)

lemma EnsurePlan_cases: "EnsurePlan io k i planner d = (res, d') \<Longrightarrow> d' = d \<or> (\<exists>p e. SavePlan io k p d = (e, d'))"
  by (auto simp: EnsurePlan_def split: sum.splits option.splits prod.splits)

lemma grows_EnsurePlan: "EnsurePlan io k i planner d = (res, d') \<Longrightarrow> grows k url r d d'"
  using EnsurePlan_cases [of io k i planner d res d'] grows_SavePlan [OF grows_id] by blast

lemma Authorize_cases:
  assumes "AuthorizeRemediation io1 io2 k r plan prior rm by' now d = (res, d')"
  shows "d' = d \<or> (\<exists>rm' e d1. SaveRemediation io1 k rm' d = (e, d1) \<and>
    (d' = d1 \<or> (\<exists>refs at e'. SaveRecord io2 k (JournalRemediations r refs at) d1 = (e', d'))))"
proof -
  have j: "x = d1 \<or> (\<exists>refs at e'. SaveRecord io2 k (JournalRemediations r refs at) d1 = (e', x))"
    if "journal_authorization io2 k r existing rm' d1 = (y, x)" for existing rm' d1 x y
    using that by (auto simp: journal_authorization_def split: sum.splits)
  consider "d' = d" | rm' e where "SaveRemediation io1 k rm' d = (Some e, d')"
    | rm' d1 existing y where "SaveRemediation io1 k rm' d = (None, d1)" "journal_authorization io2 k r existing rm' d1 = (y, d')"
    using assms unfolding AuthorizeRemediation_def Let_def
    by (auto split: if_splits sum.splits option.splits prod.splits)
  then show ?thesis using j by cases blast+
qed

lemma grows_Authorize:
  assumes "AuthorizeRemediation io1 io2 k r plan prior rm by' now d = (res, d')"
  shows "grows k url r d d'"
proof -
  have doc: "grows k url r d d1" if s: "SaveRemediation io1 k rm' d = (e, d1)" for rm' e d1
  proof (rule grows_step [OF grows_id r_into_rtranclp [of "store_step k url", OF store_step.save_remediation [OF s]]])
    show "ReadFile d1 RecordName = ReadFile d RecordName"
      using s writes_only_kept [OF save_file_writes, of io1 "RemediationName (rm_seq rm')" _ d e d1 RecordName]
      by (auto simp: SaveRemediation_def Let_def split: if_splits)
  qed
  have journal: "record_step\<^sup>*\<^sup>* r (JournalRemediations r refs at)" for refs at
    by (rule r_into_rtranclp [of record_step, OF record_step.journal])
  from Authorize_cases [OF assms] show ?thesis
    using doc grows_SaveRecord [OF doc journal] by blast
qed

lemma recordPreRunBoundary_dir [simp]: "sd_dir (recordPreRunBoundary cx pid runID e s) = sd_dir s"
  by (simp add: recordPreRunBoundary_def split: option.split)

lemma run_record_step: "record_step\<^sup>*\<^sup>* r (run_record cx h pid r spec)"
  unfolding run_record_def
  by (rule rtranclp_trans [OF r_into_rtranclp [of record_step, OF record_step.append_run]
        r_into_rtranclp [of record_step, OF record_step.locate]])

lemma prepareRun_cases:
  assumes "prepareRun cx h p pid r s = (res, s')"
  obtains (planning) planner e where "EnsurePlan (cx_io cx 0) (cx_codec cx) (dr_intent r) planner (sd_dir s) = (Inl e, sd_dir s')"
      "\<exists>x. res = Inl x"
    | (compile) planner made where "EnsurePlan (cx_io cx 0) (cx_codec cx) (dr_intent r) planner (sd_dir s) = (Inr made, sd_dir s')"
      "\<exists>x. res = Inl x"
    | (files) planner made d spec work e where
      "EnsurePlan (cx_io cx 0) (cx_codec cx) (dr_intent r) planner (sd_dir s) = (Inr made, d)"
      "WriteRunFiles (cx_io cx 1) cx spec work d = (Some e, sd_dir s')" "\<exists>x. res = Inl x"
    | (intent) planner made d spec work d1 e where
      "EnsurePlan (cx_io cx 0) (cx_codec cx) (dr_intent r) planner (sd_dir s) = (Inr made, d)"
      "WriteRunFiles (cx_io cx 1) cx spec work d = (None, d1)"
      "SaveIntent (cx_io cx 2) (cx_codec cx) (cx_url cx) (dr_intent r) d1 = (Some e, sd_dir s')" "\<exists>x. res = Inl x"
    | (rec) planner made d spec work d1 d2 e where
      "EnsurePlan (cx_io cx 0) (cx_codec cx) (dr_intent r) planner (sd_dir s) = (Inr made, d)"
      "WriteRunFiles (cx_io cx 1) cx spec work d = (None, d1)"
      "SaveIntent (cx_io cx 2) (cx_codec cx) (cx_url cx) (dr_intent r) d1 = (None, d2)"
      "SaveRecord (cx_io cx 3) (cx_codec cx) (run_record cx h pid r spec) d2 = (e, sd_dir s')"
      "if e = None then res = Inr (spec, work) else \<exists>x. res = Inl x"
  using assms unfolding prepareRun_def Let_def
  by (auto split: sum.splits prod.splits option.splits)

lemma grows_prepareRun:
  assumes "prepareRun cx h p pid r s = (res, s')"
  shows "grows (cx_codec cx) (cx_url cx) r (sd_dir s) (sd_dir s')"
  using assms
proof (cases rule: prepareRun_cases)
  case planning
  then show ?thesis by (auto intro: grows_EnsurePlan)
next
  case compile
  then show ?thesis by (auto intro: grows_EnsurePlan)
next
  case files
  then show ?thesis by (auto intro: grows_WriteRunFiles [OF grows_EnsurePlan])
next
  case intent
  then show ?thesis by (auto intro: grows_SaveIntent [OF grows_WriteRunFiles [OF grows_EnsurePlan]])
next
  case rec
  from grows_SaveRecord [OF grows_SaveIntent [OF grows_WriteRunFiles [OF grows_EnsurePlan [OF rec(1)] rec(2)] rec(3)] run_record_step rec(4)]
  show ?thesis .
qed

lemma run_session_dir: "run_session rl spec work s = Some (out, s') \<Longrightarrow> sd_dir s' = sd_dir s"
  by (auto simp: run_session_def split: sum.splits prod.splits option.splits)

lemma grows_executeRun:
  assumes "executeRun cx rl h p pid s = Some (out, s')" "LoadRecord (cx_codec cx) pid' (sd_dir s) = Inr (Some r)"
  shows "grows (cx_codec cx) (cx_url cx) r (sd_dir s) (sd_dir s')"
proof (cases "LoadRecord (cx_codec cx) pid (sd_dir s)")
  case (Inr x)
  then have "x = Some r" by (rule LoadRecord_unique [OF assms(2)])
  with Inr assms(1) show ?thesis
    using grows_prepareRun [of cx h p pid r s] by (auto simp: executeRun_def dest: run_session_dir split: sum.splits prod.splits)
qed (use assms(1) in \<open>auto simp: executeRun_def\<close>)

lemma cmdStart_started:
  assumes "cmdStart cx rl f fg s = Some (out, s')" "LoadRecord (cx_codec cx) pid (sd_dir s) = Inr (Some r)"
  shows "s' = s"
proof -
  have "ad_alreadyStarted adm" if "Admit (cx_codec cx) (cx_url cx) i now (sd_dir s) = Inr adm" for i now adm
    using that LoadRecord_unique [OF assms(2)] by (auto simp: Admit_def split: option.splits sum.splits if_splits)
  then show ?thesis
    using assms(1) unfolding cmdStart_def by (auto split: option.splits sum.splits prod.splits)
qed

lemma grows_cmdPlan:
  assumes "cmdPlan cx pid f supersede amend s = (out, s')"
  shows "grows (cx_codec cx) (cx_url cx) r (sd_dir s) (sd_dir s')"
proof -
  let ?k = "cx_codec cx" and ?url = "cx_url cx" and ?d = "sd_dir s"
  have sup: "grows ?k ?url r ?d d'" if "SupersedeUnexecutedPlan io ?k p st ?d = (e, d')" for io p st e d'
    by (rule grows_step [OF grows_id r_into_rtranclp [of "store_step ?k ?url", OF store_step.supersede [OF that]] Supersede_record [OF that]])
  have am: "grows ?k ?url r ?d d'" if "AmendUnmergedPackages io ?k standing p st ?d = (e, d')" for io standing p st e d'
    by (rule grows_step [OF grows_id r_into_rtranclp [of "store_step ?k ?url", OF store_step.amend [OF that]] Amend_record [OF that]])
  show ?thesis
    using assms unfolding cmdPlan_def
    by (auto dest: sup am grows_SavePlan [OF grows_id] split: if_splits option.splits sum.splits prod.splits)
qed

lemma grows_cmdAccept:
  assumes "cmdAccept cx pid c by' note' s = (out, s')" "LoadRecord (cx_codec cx) pid' (sd_dir s) = Inr (Some r)"
  shows "grows (cx_codec cx) (cx_url cx) r (sd_dir s) (sd_dir s')"
proof -
  have r: "r0 = r" if "open_delivery cx pid s = Inr (h, p, r0)" for h p r0
    using LoadRecord_unique [OF assms(2) open_delivery_Inr [OF that]] by simp
  have "grows (cx_codec cx) (cx_url cx) r (sd_dir s) d"
    if "Accept r c by' note' now = Inr r'" "SaveRecord io (cx_codec cx) r' (sd_dir s) = (e, d)" for now r' io e d
    by (rule grows_SaveRecord [OF grows_id r_into_rtranclp [of record_step, OF record_step.accept [OF that(1)]] that(2)])
  then show ?thesis
    using assms(1) unfolding cmdAccept_def
    by (auto dest: r dest!: refresh_and_report_dir split: if_splits sum.splits prod.splits option.splits)
qed

lemma grows_cmdInvalidate:
  assumes "cmdInvalidate cx pid c by' reason evidence s = (out, s')" "LoadRecord (cx_codec cx) pid' (sd_dir s) = Inr (Some r)"
  shows "grows (cx_codec cx) (cx_url cx) r (sd_dir s) (sd_dir s')"
proof -
  have r: "r0 = r" if "open_delivery cx pid s = Inr (h, p, r0)" for h p r0
    using LoadRecord_unique [OF assms(2) open_delivery_Inr [OF that]] by simp
  have "grows (cx_codec cx) (cx_url cx) r (sd_dir s) d"
    if "Invalidate r c prior by' reason evidence now = Inr r'" "SaveRecord io (cx_codec cx) r' (sd_dir s) = (e, d)"
    for prior now r' io e d
    by (rule grows_SaveRecord [OF grows_id r_into_rtranclp [of record_step, OF record_step.invalidate [OF that(1)]] that(2)])
  then show ?thesis
    using assms(1) unfolding cmdInvalidate_def
    by (auto dest: r dest!: refresh_and_report_dir split: if_splits sum.splits prod.splits option.splits)
qed

lemma grows_cmdRemediate:
  assumes "cmdRemediate cx pid f by' s = (out, s')" "LoadRecord (cx_codec cx) pid' (sd_dir s) = Inr (Some r)"
  shows "grows (cx_codec cx) (cx_url cx) r (sd_dir s) (sd_dir s')"
proof -
  have r: "r0 = r" if "open_delivery cx pid s = Inr (h, p, r0)" for h p r0
    using LoadRecord_unique [OF assms(2) open_delivery_Inr [OF that]] by simp
  have "grows (cx_codec cx) (cx_url cx) r (sd_dir s) d"
    if "AuthorizeRemediation io1 io2 (cx_codec cx) r plan prior rm by' now (sd_dir s) = (res, d)"
    for io1 io2 plan prior rm now res d
    by (rule grows_Authorize [OF that])
  then show ?thesis
    using assms(1) unfolding cmdRemediate_def
    by (auto dest: r dest!: refresh_and_report_dir split: if_splits sum.splits prod.splits option.splits)
qed

lemma grows_delivery:
  assumes "delivery cx rl cmd s = Some (out, s')" "LoadRecord (cx_codec cx) pid (sd_dir s) = Inr (Some r)"
  shows "grows (cx_codec cx) (cx_url cx) r (sd_dir s) (sd_dir s')"
proof (cases cmd)
  case (CmdStart f fg)
  then have "s' = s" using assms(1) by (auto intro: cmdStart_started [OF _ assms(2)])
  then show ?thesis by simp
next
  case (CmdRun p)
  then show ?thesis
    using assms(1) grows_executeRun [OF _ assms(2)] by (auto simp: cmdRun_def split: if_splits sum.splits prod.splits)
next
  case (CmdPlan p f su am)
  then show ?thesis using assms(1) by (auto intro: grows_cmdPlan)
next
  case (CmdAccept p c by' note')
  then show ?thesis using assms by (auto intro: grows_cmdAccept)
next
  case (CmdInvalidate p c by' re ev)
  then show ?thesis using assms by (auto intro: grows_cmdInvalidate)
next
  case (CmdRemediate p f by')
  then show ?thesis using assms by (auto intro: grows_cmdRemediate)
qed (use assms(1) in auto)

section \<open>Lemmas: the placeholder plan\<close>

lemma not_blank_graphic: "s \<noteq> [] \<Longrightarrow> graphic (hd s) \<Longrightarrow> \<not> blank (s @ t)"
  using TrimSpace_around [of "hd s" "hd s" "[hd s]" "[]" "tl s @ t"] by (cases s) (auto simp: blank_def)

lemma IDPattern_wp: "IDPattern c \<Longrightarrow> IDPattern (''wp-'' @ c) \<longleftrightarrow> length c \<le> 61"
  by (cases c) (auto simp: IDPattern_def lower_alnum_def)

lemma ReplaceByte_absent: "a \<notin> set s \<Longrightarrow> ReplaceByte a b s = s"
  unfolding ReplaceByte_def by (induction s) auto

text \<open>The path of a placeholder stands for itself and is not protected.\<close>

lemma placeholder_path:
  assumes "IDPattern c"
  shows "repoRelative (''preflight/'' @ c @ ''.placeholder'') = Inr (''preflight/'' @ c @ ''.placeholder'')"
    "isProtected (''preflight/'' @ c @ ''.placeholder'') = None"
proof -
  let ?s = "''preflight/'' @ c @ ''.placeholder''" and ?b = "c @ ''.placeholder''"
  have chars: "x \<noteq> CHR 0x00" "x \<noteq> backslash" "x \<noteq> slash" if "x \<in> set ?b" for x
    using that IDPattern_chars [OF assms, of x] by (auto simp: lower_alnum_def backslash_def slash_def)
  have trim: "TrimSpace ?s = ?s" by (rule TrimSpace_graphic) (simp_all add: graphic_def)
  have "backslash \<notin> set ''preflight/''" by code_simp
  then have "backslash \<notin> set ?s" using chars(2) by (metis Un_iff set_append)
  then have same: "ReplaceByte backslash slash ?s = ?s" by (rule ReplaceByte_absent)
  have parts: "slash \<notin> set ''preflight''" "slash \<notin> set ?b" by (code_simp, use chars(3) in blast)
  have "?s = ''preflight'' @ slash # ?b" by (simp add: slash_def)
  then have "Split slash ?s = [''preflight'', ?b]"
    using Split_sep [of slash "''preflight''" ?b] Split_no_sep [OF parts(1)] Split_no_sep [OF parts(2)] by (simp only: append_Cons append_Nil)
  moreover have "list_all proper_seg [''preflight'', ?b]"
    using parts assms by (auto simp: proper_seg_def IDPattern_def)
  ultimately have "path_segs ?s = [''preflight'', ?b]"
    using clean_segs_proper [of "[''preflight'', ?b]" "IsAbs ?s" "[]"] by (simp add: path_segs_def)
  then have "filepath_Clean ?s = ?s" by (simp add: filepath_Clean_def path_of_def IsAbs_def HasPrefix_def)
  moreover have "CHR 0x00 \<notin> set ?s" using chars(1) by auto
  ultimately show "repoRelative ?s = Inr ?s"
    unfolding repoRelative_def Let_def trim same by (simp add: HasPrefix_def)
  show "isProtected ?s = None" by (simp add: isProtected_def protectedPrefixes_def HasPrefix_def)
qed

lemma preflight_package_wf:
  assumes "Intent_Validate url i = None" "c \<in> set (in_acceptance i)" "\<not> IsHuman c" "ph \<in> set (in_lifecycle i)"
  shows "package_wf i True (preflight_package ph c) \<longleftrightarrow> length (cn_id c) \<le> 61"
proof -
  have wf: "intent_wf i" using assms(1) by (simp add: Intent_Validate_None)
  then have c: "IDPattern (cn_id c)" using assms(2) by (auto simp: intent_wf_def list_all_iff)
  have "cn_id c \<notin> human_ids i"
  proof
    assume "cn_id c \<in> human_ids i"
    then obtain c' where "c' \<in> set (in_acceptance i)" "IsHuman c'" "cn_id c' = cn_id c" by (auto simp: human_ids_def)
    moreover have "inj_on cn_id (set (in_acceptance i))" using wf by (simp add: intent_wf_def distinct_map)
    ultimately show False using assms(2,3) by (auto dest: inj_onD)
  qed
  moreover have "cn_id c \<in> criteria_ids i" using assms(2) by (simp add: criteria_ids_def)
  moreover have "\<not> blank (''placeholder for '' @ cn_id c)" by (rule not_blank_graphic) (simp_all add: graphic_def)
  moreover have "\<not> blank ''Placeholder used only to preflight the ground; never executed.''"
    by (rule not_blank_graphic [of "''P''", simplified append_Cons append_Nil]) (simp_all add: graphic_def)
  moreover have "usable_path (''preflight/'' @ cn_id c @ ''.placeholder'')" "clean_path (''preflight/'' @ cn_id c @ ''.placeholder'') = ''preflight/'' @ cn_id c @ ''.placeholder''"
    by (simp_all only: usable_path_def clean_path_def placeholder_path [OF c] sum.case)
  ultimately show ?thesis
    using assms(4) IDPattern_wp [OF c] placeholder_path(1) [OF c]
    by (simp add: package_wf_def preflight_package_def clean_paths_def del: append.simps)
qed

lemma preflightPackages_eq:
  assumes "Intent_Validate url i = None"
  obtains ph where "ph \<in> set (in_lifecycle i)"
    "preflightPackages i = map (preflight_package ph) (filter (\<lambda>c. \<not> IsHuman c) (in_acceptance i))"
proof -
  have "in_lifecycle i \<noteq> []" using assms by (simp add: Intent_Validate_None intent_wf_def)
  then show ?thesis using that by (cases "in_lifecycle i") (auto simp: preflightPackages_def)
qed

text \<open>Placeholders of different criteria have different names and paths.\<close>

lemma isolated_disjoint:
  assumes "\<And>a b. a \<in> S \<Longrightarrow> b \<in> S \<Longrightarrow> set (clean_paths a) \<inter> set (clean_paths b) \<noteq> {} \<Longrightarrow> wp_id a = wp_id b"
  shows "set pre \<subseteq> S \<Longrightarrow> set wps \<subseteq> S \<Longrightarrow> isolated_from pkgs pre wps"
proof (induction wps arbitrary: pre)
  case (Cons wp wps)
  have "ordered_after pkgs pre wp"
    unfolding ordered_after_def list_all_iff
  proof
    fix c assume c: "c \<in> set (clean_paths wp)"
    show "case last_claimant pre c of None \<Rightarrow> True | Some w \<Rightarrow> dependencyOrdered pkgs (wp_id w) (wp_id wp)"
    proof (cases "last_claimant pre c")
      case (Some w)
      then have w: "w \<in> set pre" "c \<in> set (clean_paths w)" using find_member [of _ "rev pre" w] by (auto simp: last_claimant_def)
      have "wp_id w = wp_id wp" by (rule assms) (use w c Cons.prems in auto)
      with Some show ?thesis by simp
    qed simp
  qed
  moreover have "isolated_from pkgs (pre @ [wp]) wps" using Cons.prems by (intro Cons.IH) simp_all
  ultimately show ?case by simp
qed simp

lemma preflightPlan_valid:
  assumes "Intent_Validate url i = None"
  shows "DeliveryPlan_Validate i (preflightPlan i) = None \<longleftrightarrow> (\<forall>c\<in>set (in_acceptance i). IsHuman c \<or> length (cn_id c) \<le> 61)"
proof -
  obtain ph where ph: "ph \<in> set (in_lifecycle i)"
    "preflightPackages i = map (preflight_package ph) (filter (\<lambda>c. \<not> IsHuman c) (in_acceptance i))"
    by (rule preflightPackages_eq [OF assms])
  let ?cs = "filter (\<lambda>c. \<not> IsHuman c) (in_acceptance i)"
  have wf: "intent_wf i" using assms by (simp add: Intent_Validate_None)
  have all: "AllPackages (preflightPlan i) = preflightPackages i" "generations (preflightPlan i) = [preflightPackages i]"
    "dp_packages (preflightPlan i) = preflightPackages i" "dp_remediations (preflightPlan i) = []"
    by (simp_all add: preflightPlan_def AllPackages_def generations_def)
  have head: "dp_schemaVersion (preflightPlan i) = PlanSchemaVersion" "dp_projectID (preflightPlan i) = in_projectID i"
    "fidelity_problems (preflightPlan i) c = []" for c
    by (simp_all add: preflightPlan_def fidelity_problems_def)
  have ne: "preflightPackages i \<noteq> []" using wf ph(2) by (auto simp: intent_wf_def list_ex_iff filter_empty_conv)
  have ids: "map wp_id (preflightPackages i) = map (\<lambda>c. ''wp-'' @ cn_id c) ?cs"
    by (simp add: ph(2) preflight_package_def)
  have "distinct (map cn_id ?cs)" using wf by (simp add: intent_wf_def distinct_map_filter)
  then have dist: "distinct (map wp_id (preflightPackages i))" unfolding ids by (simp add: distinct_map inj_on_def)
  have iso: "isolated (preflightPackages i)"
    unfolding isolated_def
  proof (rule isolated_disjoint [of "set (preflightPackages i)"])
    fix a b
    assume a: "a \<in> set (preflightPackages i)" "b \<in> set (preflightPackages i)"
      and meet: "set (clean_paths a) \<inter> set (clean_paths b) \<noteq> {}"
    from a ph(2) obtain x y where xy: "x \<in> set ?cs" "a = preflight_package ph x" "y \<in> set ?cs" "b = preflight_package ph y" by auto
    then have "IDPattern (cn_id x)" "IDPattern (cn_id y)" using wf by (auto simp: intent_wf_def list_all_iff)
    with meet show "wp_id a = wp_id b"
      unfolding xy clean_paths_def preflight_package_def clean_path_def by (simp add: placeholder_path(1) del: append.simps)
  qed simp_all
  have deps: "wp_dependsOn wp = []" if "wp \<in> set (preflightPackages i)" for wp
    using that by (auto simp: ph(2) preflight_package_def)
  have rel: "package_rel (preflightPackages i) = {}" by (auto simp: package_rel_def deps)
  have cover: "IsHuman c \<or> (\<exists>wp\<in>set (preflightPackages i). cn_id c \<in> set (wp_satisfies wp))" if "c \<in> set (in_acceptance i)" for c
    using that by (auto simp: ph(2) preflight_package_def)
  have "list_all (package_wf i True) (preflightPackages i) \<longleftrightarrow> (\<forall>c\<in>set (in_acceptance i). IsHuman c \<or> length (cn_id c) \<le> 61)"
    using preflight_package_wf [OF assms _ _ ph(1)] by (auto simp: ph(2) list_all_iff)
  then show ?thesis
    unfolding DeliveryPlan_Validate_iff all head using ne dist iso cover by (auto simp: rel deps supersedes_wf_def acyclic_def)
qed

lemma preflight_text: "\<not> blank ''preflight''"
  by code_simp

lemma preflightDelivery_Inr:
  assumes "Intent_Validate (cx_url cx) i = None"
  shows "preflightDelivery cx i h = Inr rep \<longleftrightarrow>
    HostProfile_Validate h = [] \<and> (\<forall>c\<in>set (in_acceptance i). IsHuman c \<or> length (cn_id c) \<le> 61) \<and>
    rep = Preflight (cx_world cx) (compiled_spec i h) None"
proof -
  have names: "wp_id wp \<noteq> ''projection''" if "wp \<in> set (AllPackages (preflightPlan i))" for wp
    using that by (auto simp: AllPackages_def preflightPlan_def preflightPackages_def preflight_package_def)
  have "preflightDelivery cx i h = Inr rep \<longleftrightarrow>
      (\<exists>spec work. Compile (cx_url cx) i (preflightPlan i) h ''preflight'' = Inr (spec, work) \<and> rep = Preflight (cx_world cx) spec None)"
    by (auto simp: preflightDelivery_def split: sum.splits)
  then show ?thesis unfolding Compile_Inr using assms names preflightPlan_valid [OF assms] preflight_text by auto
qed

section \<open>Samples\<close>

definition sample_hostFile :: hostFile where
  "sample_hostFile =
     \<lparr>hf_deliveryRoot = ''/srv/delivery'', hf_driver = ''/opt/driver'', hf_gitHubCommand = [], hf_gasCityCommand = [],
      hf_beadsCommand = [], hf_providerCommand = [], hf_provider = ''agent'', hf_windowsMountPrefix = [],
      hf_projectToolPath = [''/opt/go/bin''], hf_plannerCommand = ''model'', hf_plannerArgs = []\<rparr>"

definition unanswered_record :: DeliveryRecord where
  "unanswered_record = sample_record\<lparr>dr_acceptances := []\<rparr>"

text \<open>An environment in which everything works, over a codec.\<close>

definition working_env :: "codec \<Rightarrow> command_env" where
  "working_env k =
     \<lparr>cx_codec = k, cx_url = (\<lambda>_. None), cx_yaml = sample_yaml, cx_readIntent = (\<lambda>_. Inr sample_intent),
      cx_host = Inr sample_hostFile, cx_io = (\<lambda>_. sample_io), cx_now = 5, cx_stamp = (\<lambda>_. ''t''), cx_alive = (\<lambda>_. False),
      cx_world = sample_world, cx_driver = (\<lambda>argv f. (None, f)), cx_agent = (\<lambda>n argv. AgentNotRun ''absent''),
      cx_prompt = (\<lambda>_. ''plan''), cx_render = (\<lambda>_. ''error''), cx_explain = (\<lambda>_. ''error''), cx_specTOML = (\<lambda>_. Inr ''spec''),
      cx_planTOML = (\<lambda>_. Inr ''work''), cx_boundaryErr = None, cx_selfErr = None, cx_spawnErr = None\<rparr>"

definition sample_site :: site where
  "sample_site =
     \<lparr>sd_dir = \<lparr>pd_listable = True, pd_entries = [(RecordName, FileData ''now''), (PlanName, FileData ''p'')]\<rparr>,
      sd_projection = NoProjectionFile, sd_progress = Inr None, sd_completion = Inr None\<rparr>"

section \<open>Properties\<close>

text \<open>C8. No command rewrites history. Whatever command has the files of a started delivery to itself, however its writes and its
  run go:
  the record on disk is as it was or one with the same terms in which the runs, acceptances, findings and authorizations
  there were come first; a plan there was stands or is archived word for word; archived plans and remediations are as
  they were; and starting it once more changes nothing at all.\<close>

theorem commands_keep_history:
  assumes "delivery cx rl cmd s = Some (out, s')" "LoadRecord (cx_codec cx) pid (sd_dir s) = Inr (Some r)"
  shows "(ReadFile (sd_dir s') RecordName = ReadFile (sd_dir s) RecordName \<or>
      (\<exists>r'. ReadFile (sd_dir s') RecordName = Content (ck_record (cx_codec cx) r' @ newline) \<and>
        dr_intent r' = dr_intent r \<and> dr_intentDigest r' = dr_intentDigest r \<and> prefix (dr_runs r) (dr_runs r') \<and>
        prefix (dr_acceptances r) (dr_acceptances r') \<and> prefix (dr_invalidations r) (dr_invalidations r') \<and>
        prefix (dr_remediations r) (dr_remediations r'))) \<and>
    (\<forall>t. ReadFile (sd_dir s) PlanName = Content t \<longrightarrow>
      (\<exists>u. ReadFile (sd_dir s') PlanName = Content u \<and> (u = t \<or> (\<exists>n. ReadFile (sd_dir s') (SupersededPlanName n) = Content t)))) \<and>
    (\<forall>n t. ReadFile (sd_dir s) (SupersededPlanName n) = Content t \<longrightarrow> ReadFile (sd_dir s') (SupersededPlanName n) = Content t) \<and>
    (\<forall>q t. ReadFile (sd_dir s) (RemediationName q) = Content t \<longrightarrow> ReadFile (sd_dir s') (RemediationName q) = Content t) \<and>
    (\<forall>f foreground. cmd = CmdStart f foreground \<longrightarrow> s' = s)"
proof -
  have g: "(store_step (cx_codec cx) (cx_url cx))\<^sup>*\<^sup>* (sd_dir s) (sd_dir s')"
    "ReadFile (sd_dir s') RecordName = ReadFile (sd_dir s) RecordName \<or>
     (\<exists>r'. record_step\<^sup>*\<^sup>* r r' \<and> ReadFile (sd_dir s') RecordName = Content (ck_record (cx_codec cx) r' @ newline))"
    using grows_delivery [OF assms] by (simp_all add: grows_def)
  have "ReadFile (sd_dir s') RecordName = ReadFile (sd_dir s) RecordName \<or>
      (\<exists>r'. ReadFile (sd_dir s') RecordName = Content (ck_record (cx_codec cx) r' @ newline) \<and>
        dr_intent r' = dr_intent r \<and> dr_intentDigest r' = dr_intentDigest r \<and> prefix (dr_runs r) (dr_runs r') \<and>
        prefix (dr_acceptances r) (dr_acceptances r') \<and> prefix (dr_invalidations r) (dr_invalidations r') \<and>
        prefix (dr_remediations r) (dr_remediations r'))"
    using g(2) record_steps_keep runs.extends acceptances.extends invalidations.extends remediations.extends by metis
  moreover have "s' = s" if "cmd = CmdStart f foreground" for f foreground
    using assms(1) that by (auto intro: cmdStart_started [OF _ assms(2)])
  ultimately show ?thesis
    using plan_steps [OF g(1)] archive.steps_keep [OF g(1)] documents.steps_keep [OF g(1)] by blast
qed

theorem commands_keep_history_witness:
  "\<exists>k rl out s' r'. delivery (working_env k) rl (CmdAccept ''demo'' ''ac-2'' ''po'' []) sample_site = Some (out, s') \<and>
     LoadRecord k ''demo'' (sd_dir sample_site) = Inr (Some unanswered_record) \<and>
     ReadFile (sd_dir s') RecordName = Content (ck_record k r' @ newline) \<and>
     prefix (dr_acceptances unanswered_record) (dr_acceptances r') \<and> ReadFile (sd_dir s') PlanName = Content ''p''"
proof -
  define k where "k = sample_codec\<lparr>ck_readRecord := (\<lambda>s. Some unanswered_record), ck_record := (\<lambda>r. ''saved'')\<rparr>"
  let ?cx = "working_env k" and ?s = sample_site
  obtain rl :: run_layer where True by simp
  have r: "LoadRecord k ''demo'' (sd_dir ?s) = Inr (Some unanswered_record)"
    by (simp add: LoadRecord_def ReadFile_def k_def sample_site_def unanswered_record_def sample_record_def RecordSchemaVersion_def
        Digest_def sample_codec_def)
  have host: "loadHost (Inr sample_hostFile) = Inr (sample_host, \<lparr>ap_command = ''model'', ap_args = [], ap_attempts = 0\<rparr>)" by code_simp
  have pid: "SanitizeProjectID ''demo''" by code_simp
  have acc: "Accept unanswered_record ''ac-2'' ''po'' [] 5 = Inr (unanswered_record\<lparr>dr_acceptances :=
      [\<lparr>acc_criterionID = ''ac-2'', acc_by = ''po'', acc_note = [], acc_at = 5\<rparr>], dr_updatedAt := 5\<rparr>)" by code_simp
  let ?r = "unanswered_record\<lparr>dr_acceptances := [\<lparr>acc_criterionID = ''ac-2'', acc_by = ''po'', acc_note = [], acc_at = 5\<rparr>], dr_updatedAt := 5\<rparr>"
  obtain d where d: "SaveRecord sample_io k ?r (sd_dir ?s) = (None, d)"
    by (simp add: SaveRecord_def save_file_def install_file_def write_file_def sample_io_def unanswered_record_def sample_record_def)
  obtain out s' where run: "delivery ?cx rl (CmdAccept ''demo'' ''ac-2'' ''po'' []) ?s = Some (out, s')"
    by (metis delivery.simps(5) surj_pair)
  have "\<exists>e x. refreshProjection ?cx sample_host ?r (?s\<lparr>sd_dir := d\<rparr>) = (e, ?s\<lparr>sd_dir := d\<rparr>)"
    by (auto simp: refreshProjection_def LatestRun_def unanswered_record_def sample_record_def split: sum.split option.split)
  then have s': "sd_dir s' = d"
    using run r d by (auto simp: cmdAccept_def open_delivery_def working_env_def host pid acc dest: refresh_and_report_dir)
  have saved: "ReadFile d RecordName = Content (ck_record k ?r @ newline)"
    using SaveRecord_writes [OF d] by (simp add: writes_only_def ReadFile_Content)
  have now: "ReadFile (sd_dir ?s) RecordName = Content ''now''" "ReadFile (sd_dir ?s) PlanName = Content ''p''"
    by (simp_all add: ReadFile_def sample_site_def)
  have kept: "ReadFile d PlanName = Content ''p''"
    using writes_only_kept [OF SaveRecord_writes [OF d], of PlanName] now(2) by simp
  have "ck_record k x @ newline \<noteq> ''now''" for x by (simp add: k_def newline_def)
  with saved now s' have changed: "ReadFile (sd_dir s') RecordName \<noteq> ReadFile (sd_dir ?s) RecordName" by simp
  have load: "LoadRecord (cx_codec ?cx) ''demo'' (sd_dir ?s) = Inr (Some unanswered_record)" using r by (simp add: working_env_def)
  from commands_keep_history [OF run load] changed obtain r' where
    "ReadFile (sd_dir s') RecordName = Content (ck_record (cx_codec ?cx) r' @ newline)"
    "prefix (dr_acceptances unanswered_record) (dr_acceptances r')" by blast
  then show ?thesis using run r kept s' by (auto simp: working_env_def)
qed

text \<open>C23. The ground of a delivery is preflighted with one placeholder package for each criterion of delivery's, named after it.
  For a valid intent and a complete host profile this compiles exactly when none of these criteria has a name of more than
  61 characters, and the questions are then those of the spec the real run will have. Intents may use names of up to 64
  characters: with a longer one than 61, an intent that is otherwise in order is refused by every start, and nothing is
  recorded.\<close>

theorem preflight_exact:
  assumes "Intent_Validate (cx_url cx) i = None"
  shows "(preflightDelivery cx i h = Inr rep \<longleftrightarrow>
      HostProfile_Validate h = [] \<and> (\<forall>c\<in>set (in_acceptance i). IsHuman c \<or> length (cn_id c) \<le> 61) \<and>
      rep = Preflight (cx_world cx) (compiled_spec i h) None) \<and>
    (readIntent cx f = Inr i \<and> loadHost (cx_host cx) = Inr (h, p) \<and> LoadRecord (cx_codec cx) (in_projectID i) (sd_dir s) = Inr None \<and>
     c \<in> set (in_acceptance i) \<and> \<not> IsHuman c \<and> 61 < length (cn_id c) \<longrightarrow>
       (\<exists>e. cmdStart cx rl (Some f) foreground s = Some (RefusedWith e, s)))"
proof (intro conjI impI)
  show "preflightDelivery cx i h = Inr rep \<longleftrightarrow>
      HostProfile_Validate h = [] \<and> (\<forall>c\<in>set (in_acceptance i). IsHuman c \<or> length (cn_id c) \<le> 61) \<and>
      rep = Preflight (cx_world cx) (compiled_spec i h) None"
    by (rule preflightDelivery_Inr [OF assms])
  assume a: "readIntent cx f = Inr i \<and> loadHost (cx_host cx) = Inr (h, p) \<and>
      LoadRecord (cx_codec cx) (in_projectID i) (sd_dir s) = Inr None \<and> c \<in> set (in_acceptance i) \<and> \<not> IsHuman c \<and> 61 < length (cn_id c)"
  then have "preflightDelivery cx i h \<noteq> Inr x" for x using preflightDelivery_Inr [OF assms, of h x] by fastforce
  then obtain e where "preflightDelivery cx i h = Inl e" by (cases "preflightDelivery cx i h") auto
  with a assms show "\<exists>e. cmdStart cx rl (Some f) foreground s = Some (RefusedWith e, s)"
    by (simp add: cmdStart_def Admit_def)
qed

definition long_named_intent :: Intent where
  "long_named_intent = sample_intent\<lparr>in_acceptance := [sample_criterion\<lparr>cn_id := replicate 62 (CHR ''a'')\<rparr>]\<rparr>"

theorem preflight_exact_witness:
  "Intent_Validate (\<lambda>_. None) long_named_intent = None \<and>
   preflightDelivery (working_env sample_codec) sample_intent sample_host =
     Inr (Preflight sample_world (compiled_spec sample_intent sample_host) None) \<and>
   preflightDelivery (working_env sample_codec) long_named_intent sample_host \<noteq>
     Inr (Preflight sample_world (compiled_spec long_named_intent sample_host) None)"
proof (intro conjI)
  let ?cx = "working_env sample_codec"
  have host: "HostProfile_Validate sample_host = []" by code_simp
  show v: "Intent_Validate (\<lambda>_. None) long_named_intent = None" by code_simp
  have cx: "cx_url ?cx = (\<lambda>_. None)" "cx_world ?cx = sample_world" by (simp_all add: working_env_def)
  have names: "\<forall>c\<in>set (in_acceptance sample_intent). IsHuman c \<or> length (cn_id c) \<le> 61"
    by (simp add: sample_intent_def sample_criterion_def IsHuman_def)
  show "preflightDelivery ?cx sample_intent sample_host = Inr (Preflight sample_world (compiled_spec sample_intent sample_host) None)"
    using preflight_exact [of ?cx sample_intent sample_host "Preflight sample_world (compiled_spec sample_intent sample_host) None"]
      host names sample_intent_valid unfolding cx by blast
  have "\<not> IsHuman (sample_criterion\<lparr>cn_id := replicate 62 (CHR ''a'')\<rparr>)" by code_simp
  then have "\<not> (\<forall>c\<in>set (in_acceptance long_named_intent). IsHuman c \<or> length (cn_id c) \<le> 61)"
    by (simp add: long_named_intent_def)
  then show "preflightDelivery ?cx long_named_intent sample_host \<noteq> Inr (Preflight sample_world (compiled_spec long_named_intent sample_host) None)"
    using preflight_exact [of ?cx long_named_intent sample_host "Preflight sample_world (compiled_spec long_named_intent sample_host) None"]
      v unfolding cx by blast
qed

text \<open>C40. A run saves the record it loaded before it planned. Whatever the directory holds when the planning is over: after the
  run has been prepared, the record on disk is the one that was loaded, with the run added. An acceptance, a finding or an
  authorization recorded in between, for which planning leaves minutes, is gone from it.\<close>

theorem run_forgets_concurrent_answers:
  assumes "LoadRecord (cx_codec cx) pid d0 = Inr (Some r)"
    and "prepareRun cx h p pid r s = (Inr (spec, work), s')"
    and "ck_readRecord (cx_codec cx) (ck_record (cx_codec cx) (run_record cx h pid r spec) @ newline) = Some (run_record cx h pid r spec)"
  shows "LoadRecord (cx_codec cx) pid (sd_dir s') = Inr (Some (run_record cx h pid r spec)) \<and>
    dr_acceptances (run_record cx h pid r spec) = dr_acceptances r \<and>
    dr_invalidations (run_record cx h pid r spec) = dr_invalidations r \<and>
    dr_remediations (run_record cx h pid r spec) = dr_remediations r"
  using assms(2)
proof (cases rule: prepareRun_cases)
  case (rec planner made d spec' work' d1 d2 e)
  then have "e = None" "spec' = spec" by (auto split: if_splits)
  with SaveRecord_writes [OF rec(4)] have
    "map_of (pd_entries (sd_dir s')) RecordName = Some (FileData (ck_record (cx_codec cx) (run_record cx h pid r spec) @ newline))"
    by (simp add: writes_only_def)
  from LoadRecord_saved [OF this assms(3)] LoadRecord_Some [OF assms(1)] show ?thesis
    by (simp add: run_record_def AppendRun_def)
qed auto

theorem run_forgets_concurrent_answers_witness:
  "\<exists>cx p s s' spec work r. LoadRecord (cx_codec cx) ''demo'' (sd_dir s) = Inr (Some sample_record) \<and> dr_acceptances sample_record \<noteq> [] \<and>
     prepareRun cx sample_host p ''demo'' unanswered_record s = (Inr (spec, work), s') \<and>
     LoadRecord (cx_codec cx) ''demo'' (sd_dir s') = Inr (Some r) \<and> dr_acceptances r = []"
proof -
  let ?spec = "compiled_spec sample_intent sample_host" and ?work = "compiled_work sample_intent sample_delivery sample_host ''demo-t''"
  define R where "R = run_record (working_env sample_codec) sample_host ''demo'' unanswered_record ?spec"
  define k where "k = sample_codec\<lparr>ck_record := (\<lambda>r. ''saved''),
    ck_readRecord := (\<lambda>s. if s = ''now'' then Some sample_record else if s = ''then'' then Some unanswered_record else Some R)\<rparr>"
  let ?cx = "working_env k" and ?s = sample_site and ?p = "\<lparr>ap_command = ''model'', ap_args = [], ap_attempts = 0\<rparr>"
  let ?d0 = "\<lparr>pd_listable = True, pd_entries = [(RecordName, FileData ''then'')]\<rparr>"
  have cx: "cx_codec ?cx = k" "cx_url ?cx = (\<lambda>_. None)" "cx_io ?cx n = sample_io" "run_id ?cx ''demo'' = ''demo-t''"
    "cx_specTOML ?cx x = Inr ''spec''" "cx_planTOML ?cx y = Inr ''work''" for n x y
    by (simp_all add: working_env_def run_id_def)
  have R: "run_record ?cx sample_host ''demo'' unanswered_record ?spec = R"
    by (simp add: R_def run_record_def run_id_def working_env_def)
  have r: "LoadRecord k ''demo'' (sd_dir ?s) = Inr (Some sample_record)" "LoadRecord k ''demo'' ?d0 = Inr (Some unanswered_record)"
    by (simp_all add: LoadRecord_def ReadFile_def k_def sample_site_def unanswered_record_def sample_record_def RecordSchemaVersion_def
        Digest_def sample_codec_def)
  have i: "dr_intent unanswered_record = sample_intent" "in_projectID sample_intent = ''demo''" "dr_projectID unanswered_record = ''demo''"
    by (simp_all add: unanswered_record_def sample_record_def sample_intent_def)
  have none: "remediationFilePattern RecordName = None" "remediationFilePattern PlanName = None" by simp_all
  have "load_entries k ''demo'' (sd_dir ?s) (sort (map fst (pd_entries (sd_dir ?s)))) = Inr []"
    unfolding load_entries_Inr by (auto simp: sample_site_def map_filter_Nil load_entry_other entry_doc_def)
  then have "LoadRemediations k ''demo'' (sd_dir ?s) = Inr []"
    unfolding LoadRemediations_Inr using r(1) by (auto simp: sample_site_def verifyRemediationJournal_def sample_record_def)
  moreover have "ReadFile (sd_dir ?s) PlanName = Content ''p''" by (simp add: ReadFile_def sample_site_def)
  moreover have "DecodePlanWithRemediations (ck_readPlan k) ''p'' sample_intent [] = Inr sample_delivery"
    using sample_delivery_valid by (simp add: DecodePlanWithRemediations_def k_def sample_codec_def sample_delivery_def)
  ultimately have plan: "EnsurePlan sample_io k sample_intent planner (sd_dir ?s) = (Inr (sample_delivery, False), sd_dir ?s)" for planner
    by (simp add: EnsurePlan_def LoadPlan_def i)
  have comp: "Compile (\<lambda>_. None) sample_intent sample_delivery sample_host ''demo-t'' = Inr (?spec, ?work)"
  proof -
    have "\<not> blank ''demo-t''" "HostProfile_Validate sample_host = []" "\<forall>wp\<in>set (AllPackages sample_delivery). wp_id wp = ''projection'' \<longrightarrow> IsVerification wp"
      by (code_simp, code_simp, simp add: AllPackages_def sample_delivery_def sample_package_def)
    then show ?thesis unfolding Compile_Inr using sample_intent_valid sample_delivery_valid by blast
  qed
  have ok: "write_file sample_io n t d = (None, put_file d n t)" "\<exists>d'. save_file sample_io n t d = (None, d')" for n t d
    by (simp_all add: write_file_def save_file_def install_file_def sample_io_def)
  obtain d1 where files: "WriteRunFiles sample_io ?cx ?spec ?work (sd_dir ?s) = (None, d1)"
  proof
    have "sio_mkdir sample_io" by (simp add: sample_io_def)
    then show "WriteRunFiles sample_io ?cx ?spec ?work (sd_dir ?s) =
        (None, put_file (put_file (sd_dir ?s) ''run-spec.toml'' ''spec'') ''run-plan.toml'' ''work'')"
      by (simp add: WriteRunFiles_def ok(1) cx)
  qed
  obtain d2 where intent: "SaveIntent sample_io k (\<lambda>_. None) sample_intent d1 = (None, d2)"
    using ok(2) [of IntentName _ d1] sample_intent_valid by (auto simp: SaveIntent_def)
  have "dr_projectID R = ''demo''" by (simp add: R_def run_record_def AppendRun_def i)
  then obtain d3 where rec: "SaveRecord sample_io k R d2 = (None, d3)"
    using ok(2) [of RecordName _ d2] by (auto simp: SaveRecord_def)
  have prep: "prepareRun ?cx sample_host ?p ''demo'' unanswered_record ?s = (Inr (?spec, ?work), ?s\<lparr>sd_dir := d3\<rparr>)"
    by (simp add: prepareRun_def Let_def i cx plan comp files intent R rec)
  have json: "ck_readRecord (cx_codec ?cx) (ck_record (cx_codec ?cx) (run_record ?cx sample_host ''demo'' unanswered_record ?spec) @ newline) =
      Some (run_record ?cx sample_host ''demo'' unanswered_record ?spec)"
    unfolding R cx by (simp add: k_def newline_def)
  have then': "LoadRecord (cx_codec ?cx) ''demo'' ?d0 = Inr (Some unanswered_record)" using r(2) by (simp add: cx)
  note lost = run_forgets_concurrent_answers [OF then' prep json]
  have "dr_acceptances unanswered_record = []" "dr_acceptances sample_record \<noteq> []"
    by (simp_all add: unanswered_record_def sample_record_def)
  with lost prep r(1) show ?thesis by (metis cx(1))
qed

end
